(* ===== verification/Prelude.thy ===== *)
theory Prelude
  imports Complex_Main "HOL-Library.Word" "HOL-Library.Multiset"
begin

text \<open>
  Generic material the component theories share: computations that thread a
  world and may fail (\<open>Result\<close> with the \<open>?\<close> operator of the source), loops over lists in
  that style, list tables with the two \<open>INSERT ... ON CONFLICT\<close> forms the SQL of the
  repository uses, and the generic lemmas about them.
\<close>

named_theorems io_simps \<open>unfolding rules for the world-passing computations\<close>
named_theorems tbl_simps \<open>rewrite rules for keyed list tables\<close>

section \<open>Fallible computations over a world\<close>

text \<open>
  A Rust function that touches the database or the network and returns
  \<open>Result<T>\<close> is a function from the world to a result and the world after it; \<open>Inl\<close> is
  \<open>Err\<close>, \<open>Inr\<close> is \<open>Ok\<close>.
\<close>

type_synonym ('s, 'e, 'a) io = "'s \<Rightarrow> ('e + 'a) \<times> 's"

definition ret :: "'a \<Rightarrow> ('s, 'e, 'a) io" where
  "ret x s = (Inr x, s)"

definition throw :: "'e \<Rightarrow> ('s, 'e, 'a) io" where
  "throw e s = (Inl e, s)"

text \<open>\<open>andthen m f\<close> is \<open>let x = m?; f(x)\<close>.\<close>

definition andthen :: "('s, 'e, 'a) io \<Rightarrow> ('a \<Rightarrow> ('s, 'e, 'b) io) \<Rightarrow> ('s, 'e, 'b) io" where
  "andthen m f s = (case m s of (Inl e, s') \<Rightarrow> (Inl e, s') | (Inr x, s') \<Rightarrow> f x s')"

text \<open>\<open>attempt m\<close> keeps the \<open>Result\<close> as a value, for a \<open>match m.await { Ok .. Err .. }\<close>.\<close>

definition attempt :: "('s, 'e, 'a) io \<Rightarrow> ('s, 'f, 'e + 'a) io" where
  "attempt m s = (case m s of (r, s') \<Rightarrow> (Inr r, s'))"

definition reading :: "('s \<Rightarrow> 'a) \<Rightarrow> ('s, 'e, 'a) io" where
  "reading g s = (Inr (g s), s)"

definition modifying :: "('s \<Rightarrow> 's) \<Rightarrow> ('s, 'e, unit) io" where
  "modifying g s = (Inr (), g s)"

text \<open>Turn an error of one type into another, as \<open>?\<close> does through \<open>From\<close>.\<close>

definition map_err :: "('e \<Rightarrow> 'f) \<Rightarrow> ('s, 'e, 'a) io \<Rightarrow> ('s, 'f, 'a) io" where
  "map_err g m s = (case m s of (Inl e, s') \<Rightarrow> (Inl (g e), s') | (Inr x, s') \<Rightarrow> (Inr x, s'))"

text \<open>\<open>of_result r\<close> is \<open>r?\<close> for a pure \<open>Result\<close>.\<close>

definition of_result :: "'e + 'a \<Rightarrow> ('s, 'e, 'a) io" where
  "of_result r s = (r, s)"

text \<open>A loop over a list with an accumulator; the first error leaves the loop.\<close>

fun fold_io :: "('x \<Rightarrow> 'b \<Rightarrow> ('s, 'e, 'b) io) \<Rightarrow> 'x list \<Rightarrow> 'b \<Rightarrow> ('s, 'e, 'b) io" where
  "fold_io f [] b s = (Inr b, s)"
| "fold_io f (x # xs) b s =
     (case f x b s of
        (Inl e, s') \<Rightarrow> (Inl e, s')
      | (Inr b', s') \<Rightarrow> fold_io f xs b' s')"

text \<open>A loop that collects one result per element.\<close>

fun map_io :: "('x \<Rightarrow> ('s, 'e, 'a) io) \<Rightarrow> 'x list \<Rightarrow> ('s, 'e, 'a list) io" where
  "map_io f [] s = (Inr [], s)"
| "map_io f (x # xs) s =
     (case f x s of
        (Inl e, s') \<Rightarrow> (Inl e, s')
      | (Inr y, s') \<Rightarrow>
          (case map_io f xs s' of
             (Inl e, s'') \<Rightarrow> (Inl e, s'')
           | (Inr ys, s'') \<Rightarrow> (Inr (y # ys), s'')))"

declare ret_def [io_simps] throw_def [io_simps] andthen_def [io_simps] attempt_def [io_simps]
  reading_def [io_simps] modifying_def [io_simps] map_err_def [io_simps] of_result_def [io_simps]

text \<open>\<open>keeps P m\<close>: the computation preserves the world predicate, whether or not it fails.\<close>

definition keeps :: "('s \<Rightarrow> bool) \<Rightarrow> ('s, 'e, 'a) io \<Rightarrow> bool" where
  "keeps P m \<longleftrightarrow> (\<forall>s. P s \<longrightarrow> P (snd (m s)))"

lemma keepsI: "(\<And>s. P s \<Longrightarrow> P (snd (m s))) \<Longrightarrow> keeps P m"
  by (simp add: keeps_def)

lemma keepsD: "keeps P m \<Longrightarrow> P s \<Longrightarrow> P (snd (m s))"
  by (simp add: keeps_def)

lemma keeps_ret [intro, simp]: "keeps P (ret x)"
  by (simp add: keeps_def ret_def)

lemma keeps_throw [intro, simp]: "keeps P (throw e)"
  by (simp add: keeps_def throw_def)

lemma keeps_reading [intro, simp]: "keeps P (reading g)"
  by (simp add: keeps_def reading_def)

lemma keeps_of_result [intro, simp]: "keeps P (of_result r)"
  by (simp add: keeps_def of_result_def)

lemma keeps_modifying: "(\<And>s. P s \<Longrightarrow> P (g s)) \<Longrightarrow> keeps P (modifying g)"
  by (simp add: keeps_def modifying_def)

lemma keeps_andthen [intro]:
  assumes "keeps P m" and "\<And>x. keeps P (f x)"
  shows "keeps P (andthen m f)"
proof (rule keepsI)
  fix s assume "P s"
  with assms(1) have "P (snd (m s))" by (rule keepsD)
  then show "P (snd (andthen m f s))"
    using assms(2) by (auto simp: andthen_def keeps_def split: prod.splits sum.splits)
qed

lemma keeps_attempt [intro]: "keeps P m \<Longrightarrow> keeps P (attempt m)"
  by (auto simp: keeps_def attempt_def split: prod.splits)

lemma keeps_map_err [intro]: "keeps P m \<Longrightarrow> keeps P (map_err g m)"
  by (auto simp: keeps_def map_err_def split: prod.splits sum.splits)

lemma keeps_fold_io [intro]:
  assumes "\<And>x b. x \<in> set xs \<Longrightarrow> keeps P (f x b)"
  shows "keeps P (fold_io f xs b)"
  using assms
proof (induction xs arbitrary: b)
  case Nil
  then show ?case by (simp add: keeps_def)
next
  case (Cons x xs)
  have hd: "keeps P (f x b)" for b using Cons.prems by simp
  have tl: "keeps P (fold_io f xs b)" for b using Cons by simp
  show ?case
  proof (rule keepsI)
    fix s assume "P s"
    with hd have "P (snd (f x b s))" by (rule keepsD)
    then show "P (snd (fold_io f (x # xs) b s))"
      using tl by (auto simp: keeps_def split: prod.splits sum.splits)
  qed
qed

lemma andthen_Inr_iff:
  "andthen m f s = (Inr y, s'') \<longleftrightarrow> (\<exists>x s'. m s = (Inr x, s') \<and> f x s' = (Inr y, s''))"
  by (auto simp: andthen_def split: prod.splits sum.splits)

lemma fold_io_append:
  "fold_io f (xs @ ys) b s =
     (case fold_io f xs b s of
        (Inl e, s') \<Rightarrow> (Inl e, s')
      | (Inr b', s') \<Rightarrow> fold_io f ys b' s')"
  by (induction xs arbitrary: b s) (auto split: prod.splits sum.splits)

section \<open>Keyed list tables\<close>

text \<open>
  A table is the list of its rows in insertion order. \<open>ins_nothing\<close> is
  \<open>INSERT ... ON CONFLICT (key) DO NOTHING\<close>, \<open>upsert\<close> is
  \<open>INSERT ... ON CONFLICT (key) DO UPDATE SET\<close> with the merge of the old row and the
  excluded one.
\<close>

definition find_row :: "('r \<Rightarrow> 'k) \<Rightarrow> 'r list \<Rightarrow> 'k \<Rightarrow> 'r option" where
  "find_row key t k = List.find (\<lambda>r. key r = k) t"

definition ins_nothing :: "('r \<Rightarrow> 'k) \<Rightarrow> 'r \<Rightarrow> 'r list \<Rightarrow> 'r list" where
  "ins_nothing key r t = (if find_row key t (key r) = None then t @ [r] else t)"

definition upsert :: "('r \<Rightarrow> 'k) \<Rightarrow> ('r \<Rightarrow> 'r \<Rightarrow> 'r) \<Rightarrow> 'r \<Rightarrow> 'r list \<Rightarrow> 'r list" where
  "upsert key merge r t =
     (if find_row key t (key r) = None then t @ [r]
      else map (\<lambda>old. if key old = key r then merge old r else old) t)"

definition keys_distinct :: "('r \<Rightarrow> 'k) \<Rightarrow> 'r list \<Rightarrow> bool" where
  "keys_distinct key t \<longleftrightarrow> distinct (map key t)"

lemma find_row_None_iff: "find_row key t k = None \<longleftrightarrow> k \<notin> key ` set t"
  by (auto simp: find_row_def find_None_iff)

lemma find_row_SomeD: "find_row key t k = Some r \<Longrightarrow> r \<in> set t \<and> key r = k"
  by (auto simp: find_row_def find_Some_iff)

lemma find_row_Nil [simp, tbl_simps]: "find_row key [] k = None"
  by (simp add: find_row_def)

lemma find_row_Cons [tbl_simps]:
  "find_row key (r # t) k = (if key r = k then Some r else find_row key t k)"
  by (simp add: find_row_def)

lemma find_row_append [tbl_simps]:
  "find_row key (t @ u) k =
     (case find_row key t k of None \<Rightarrow> find_row key u k | Some r \<Rightarrow> Some r)"
  by (induction t) (auto simp: tbl_simps)

lemma find_row_ins_nothing [tbl_simps]:
  "find_row key (ins_nothing key r t) k =
     (if k = key r \<and> find_row key t k = None then Some r else find_row key t k)"
  by (auto simp: ins_nothing_def find_row_append find_row_Cons split: option.splits)

lemma find_row_map_same:
  assumes "\<And>x. key (g x) = key x"
  shows "find_row key (map g t) k = map_option g (find_row key t k)"
  by (induction t) (auto simp: find_row_Cons assms)

lemma find_row_upsert [tbl_simps]:
  assumes "\<And>old. key old = key r \<Longrightarrow> key (merge old r) = key r"
  shows "find_row key (upsert key merge r t) k =
    (if k = key r
     then Some (case find_row key t k of None \<Rightarrow> r | Some old \<Rightarrow> merge old r)
     else find_row key t k)"
proof -
  let ?g = "\<lambda>old. if key old = key r then merge old r else old"
  have g: "key (?g x) = key x" for x using assms by simp
  show ?thesis
    using find_row_map_same [of key ?g t k, OF g]
    by (auto simp: upsert_def find_row_append find_row_Cons split: option.splits
        dest: find_row_SomeD)
qed

lemma keys_distinct_Nil [simp]: "keys_distinct key []"
  by (simp add: keys_distinct_def)

lemma keys_distinct_ins_nothing [simp]:
  "keys_distinct key t \<Longrightarrow> keys_distinct key (ins_nothing key r t)"
  by (auto simp: keys_distinct_def ins_nothing_def find_row_None_iff)

lemma keys_distinct_map: "(\<And>x. key (g x) = key x) \<Longrightarrow> keys_distinct key t \<Longrightarrow> keys_distinct key (map g t)"
  by (simp add: keys_distinct_def comp_def cong: map_cong)

lemma keys_distinct_upsert:
  assumes "\<And>old. key old = key r \<Longrightarrow> key (merge old r) = key r" and "keys_distinct key t"
  shows "keys_distinct key (upsert key merge r t)"
proof -
  let ?g = "\<lambda>old. if key old = key r then merge old r else old"
  have g: "key (?g x) = key x" for x using assms(1) by simp
  have "keys_distinct key (map ?g t)"
    using keys_distinct_map [of key ?g t] g assms(2) by blast
  then show ?thesis
    using assms(2) by (auto simp: upsert_def keys_distinct_def find_row_None_iff)
qed

lemma keys_distinct_find:
  "keys_distinct key t \<Longrightarrow> r \<in> set t \<Longrightarrow> find_row key t (key r) = Some r"
  by (induction t) (auto simp: keys_distinct_def find_row_Cons)

lemma set_ins_nothing: "set (ins_nothing key r t) \<subseteq> insert r (set t)"
  by (auto simp: ins_nothing_def)

lemma ins_nothing_subset: "set t \<subseteq> set (ins_nothing key r t)"
  by (auto simp: ins_nothing_def)

section \<open>The contract of a write-once table\<close>

text \<open>
  What the components rely on when they write with \<open>ON CONFLICT DO NOTHING\<close>: a row, once
  stored, is never replaced, and the first write of a key wins.
\<close>

locale write_once =
  fixes key :: "'r \<Rightarrow> 'k"
    and get :: "'t \<Rightarrow> 'k \<Rightarrow> 'r option"
    and put :: "'r \<Rightarrow> 't \<Rightarrow> 't"
  assumes get_put: "get (put r t) k = (if k = key r \<and> get t k = None then Some r else get t k)"
begin

lemma get_put_same: "get (put r t) (key r) = Some (case get t (key r) of None \<Rightarrow> r | Some v \<Rightarrow> v)"
  by (simp add: get_put split: option.splits)

lemma stored_stays: "get t k = Some v \<Longrightarrow> get (put r t) k = Some v"
  by (simp add: get_put)

lemma stored_stays_fold: "get t k = Some v \<Longrightarrow> get (fold put rs t) k = Some v"
  by (induction rs arbitrary: t) (auto simp: stored_stays)

lemma put_present: "get t (key r) \<noteq> None \<Longrightarrow> get (put r t) = get t"
  by (rule ext) (metis get_put)

lemma put_idem: "get (put r (put r t)) = get (put r t)"
  by (rule put_present) (simp add: get_put_same)

lemma stored_after_fold: "r \<in> set rs \<Longrightarrow> get (fold put rs t) (key r) \<noteq> None"
proof (induction rs arbitrary: t)
  case Nil
  then show ?case by simp
next
  case (Cons x xs)
  show ?case
  proof (cases "r = x")
    case True
    obtain v where "get (put x t) (key x) = Some v"
      by (cases "get t (key x)") (auto simp: get_put)
    then have "get (fold put xs (put x t)) (key x) = Some v"
      by (rule stored_stays_fold)
    with True show ?thesis by simp
  next
    case False
    with Cons show ?thesis by simp
  qed
qed

lemma get_fold_origin:
  "get (fold put rs t) k = Some v \<Longrightarrow> get t k = Some v \<or> (v \<in> set rs \<and> key v = k)"
proof (induction rs arbitrary: t)
  case Nil
  then show ?case by simp
next
  case (Cons x xs)
  from Cons.prems have "get (fold put xs (put x t)) k = Some v" by simp
  then consider "get (put x t) k = Some v" | "v \<in> set xs \<and> key v = k"
    using Cons.IH by blast
  then show ?case
    by cases (auto simp: get_put split: if_splits)
qed

text \<open>A second run over the same rows changes nothing a reader can see.\<close>

lemma fold_put_again: "get (fold put rs (fold put rs t)) = get (fold put rs t)"
proof -
  have "get (fold put ss u) = get u" if "\<forall>r\<in>set ss. get u (key r) \<noteq> None" for ss u
    using that
  proof (induction ss arbitrary: u)
    case Nil
    then show ?case by simp
  next
    case (Cons x xs)
    from Cons.prems have e: "get (put x u) = get u" by (simp add: put_present)
    with Cons show ?case by simp
  qed
  then show ?thesis using stored_after_fold by blast
qed

end

section \<open>The contract of an overwriting store\<close>

text \<open>
  What \<open>INSERT ... ON CONFLICT (key) DO UPDATE\<close> with the same column list in both halves
  promises: the last write to a key decides the columns written, whatever the earlier ones
  were. Writes to different keys then commute, and repeating a batch of writes changes nothing.
\<close>

locale overwriting =
  fixes get :: "'t \<Rightarrow> 'k \<Rightarrow> 'r option"
    and put :: "'w \<Rightarrow> 't \<Rightarrow> 't"
    and key :: "'w \<Rightarrow> 'k"
    and merge :: "'r option \<Rightarrow> 'w \<Rightarrow> 'r"
  assumes get_put: "get (put w t) k = (if k = key w then Some (merge (get t k) w) else get t k)"
    and merge_again: "key w' = key w \<Longrightarrow> merge (Some (merge old w')) w = merge old w"
begin

lemma get_fold_other: "k \<notin> key ` set ws \<Longrightarrow> get (fold put ws t) k = get t k"
  by (induction ws arbitrary: t) (simp_all add: get_put)

lemma get_fold_hit:
  assumes "distinct (map key ws)" and "w \<in> set ws"
  shows "get (fold put ws t) (key w) = Some (merge (get t (key w)) w)"
  using assms
proof (induction ws arbitrary: t)
  case (Cons v ws)
  show ?case
  proof (cases "w = v")
    case True
    with Cons.prems(1) show ?thesis by (simp add: get_fold_other get_put)
  next
    case False
    with Cons.prems have w: "w \<in> set ws" by simp
    then have "key w \<in> key ` set ws" by (rule imageI)
    with Cons.prems(1) have "key w \<noteq> key v" by auto
    with Cons.IH [OF _ w] Cons.prems(1) show ?thesis by (simp add: get_put)
  qed
qed simp

lemma order_irrelevant:
  assumes d: "distinct (map key ws)" and p: "mset ws = mset vs"
  shows "get (fold put ws t) = get (fold put vs t)"
proof
  fix k
  have s: "set ws = set vs" using p by (rule mset_eq_setD)
  have "mset (map key ws) = mset (map key vs)" using p by simp
  then have d': "distinct (map key vs)" using d by (rule mset_eq_imp_distinct_iff [THEN iffD1])
  show "get (fold put ws t) k = get (fold put vs t) k"
  proof (cases "k \<in> key ` set ws")
    case True
    then obtain w where "w \<in> set ws" "k = key w" by blast
    with get_fold_hit [OF d, of w] get_fold_hit [OF d', of w] s show ?thesis by simp
  next
    case False
    with s show ?thesis by (simp add: get_fold_other)
  qed
qed

lemma repeat_changes_nothing:
  assumes d: "distinct (map key ws)"
  shows "get (fold put ws (fold put ws t)) = get (fold put ws t)"
proof
  fix k
  show "get (fold put ws (fold put ws t)) k = get (fold put ws t) k"
  proof (cases "k \<in> key ` set ws")
    case True
    then obtain w where "w \<in> set ws" "k = key w" by blast
    with d show ?thesis by (simp add: get_fold_hit merge_again)
  qed (simp add: get_fold_other)
qed

end

section \<open>The contract of a monotone mark\<close>

text \<open>
  What the checkpoints written with \<open>GREATEST\<close> promise: the stored value only grows, and
  writing one name leaves the others alone.
\<close>

locale monotone_mark =
  fixes mark :: "'t \<Rightarrow> 'k \<Rightarrow> int option"
    and advance :: "'k \<Rightarrow> int \<Rightarrow> 't \<Rightarrow> 't"
  assumes mark_advance: "mark (advance k v t) k' =
    (if k' = k then Some (case mark t k of None \<Rightarrow> v | Some w \<Rightarrow> max w v) else mark t k')"
begin

lemma advance_reaches: "\<exists>w. mark (advance k v t) k = Some w \<and> v \<le> w"
  by (auto simp: mark_advance split: option.splits)

lemma advance_mono: "mark t k' = Some w \<Longrightarrow> \<exists>w'. mark (advance k v t) k' = Some w' \<and> w \<le> w'"
  by (auto simp: mark_advance split: option.splits)

lemma advance_below: "mark t k = Some w \<Longrightarrow> v \<le> w \<Longrightarrow> mark (advance k v t) = mark t"
  by (rule ext) (simp add: mark_advance)

lemma advance_other: "k' \<noteq> k \<Longrightarrow> mark (advance k v t) k' = mark t k'"
  by (simp add: mark_advance)

end

section \<open>The contract of a read-through cache\<close>

text \<open>
  What every reader of the RPC cache relies on: a stored answer is served without touching
  the world, a successful fetch stores its answer, and no fetch disturbs a stored one. From
  it follows what the repository calls replay: a second run reads the same answers.
\<close>

locale read_through =
  fixes look :: "'w \<Rightarrow> 'k \<Rightarrow> 'v option"
    and fetch :: "'k \<Rightarrow> 'w \<Rightarrow> ('e + 'v) \<times> 'w"
  assumes warm: "look w k = Some v \<Longrightarrow> fetch k w = (Inr v, w)"
    and fills: "fetch k w = (Inr v, w') \<Longrightarrow> look w' k = Some v"
    and undisturbed: "look w k = Some v \<Longrightarrow> look (snd (fetch k' w)) k = Some v"
begin

lemma refetch: "fetch k w = (Inr v, w') \<Longrightarrow> fetch k w' = (Inr v, w')"
  by (blast intro: warm fills)

lemma undisturbed_all: "look w k = Some v \<Longrightarrow> look (snd (map_io fetch ks w)) k = Some v"
proof (induction ks arbitrary: w)
  case Nil
  then show ?case by simp
next
  case (Cons k' ks)
  have "look (snd (fetch k' w)) k = Some v" using Cons.prems by (rule undisturbed)
  with Cons.IH [of "snd (fetch k' w)"] show ?case
    by (auto split: prod.splits sum.splits)
qed

lemma warm_all: "list_all2 (\<lambda>k v. look w k = Some v) ks vs \<Longrightarrow> map_io fetch ks w = (Inr vs, w)"
  by (induction ks vs rule: list_all2_induct) (auto simp: warm)

lemma fills_all:
  "map_io fetch ks w = (Inr vs, w') \<Longrightarrow> list_all2 (\<lambda>k v. look w' k = Some v) ks vs"
proof (induction ks arbitrary: w vs)
  case Nil
  then show ?case by simp
next
  case (Cons k ks)
  from Cons.prems obtain v u vs' where
      1: "fetch k w = (Inr v, u)" and 2: "map_io fetch ks u = (Inr vs', w')" and 3: "vs = v # vs'"
    by (auto split: prod.splits sum.splits)
  have "look u k = Some v" using 1 by (rule fills)
  then have "look w' k = Some v" using undisturbed_all [of u k v ks] 2 by simp
  with Cons.IH [OF 2] 3 show ?case by simp
qed

theorem replay:
  assumes "map_io fetch ks w = (Inr vs, w')"
  shows "map_io fetch ks w' = (Inr vs, w')"
  by (rule warm_all) (rule fills_all [OF assms])

end

section \<open>Small arithmetic and list helpers\<close>

text \<open>\<open>Option::map_or(x, |m| m.min(x))\<close>, the running minimum the valuator passes keep.\<close>

definition min_opt :: "int option \<Rightarrow> int \<Rightarrow> int option" where
  "min_opt acc x = Some (case acc of None \<Rightarrow> x | Some m \<Rightarrow> min m x)"

lemma min_opt_le: "min_opt acc x = Some m \<Longrightarrow> m \<le> x \<and> (\<forall>a. acc = Some a \<longrightarrow> m \<le> a)"
  by (auto simp: min_opt_def split: option.splits)

text \<open>\<open>slice.chunks(n)\<close>: consecutive pieces of at most \<open>n\<close> elements (\<open>n > 0\<close>).\<close>

function chunks :: "nat \<Rightarrow> 'a list \<Rightarrow> 'a list list" where
  "chunks n xs = (if xs = [] \<or> n = 0 then [] else take n xs # chunks n (drop n xs))"
  by pat_completeness auto
termination
  by (relation "measure (\<lambda>(n, xs). length xs)") auto

declare chunks.simps [simp del]

lemma concat_chunks [simp]: "0 < n \<Longrightarrow> concat (chunks n xs) = xs"
proof (induction n xs rule: chunks.induct)
  case (1 n xs)
  show ?case
  proof (cases "xs = []")
    case True
    then show ?thesis by (simp add: chunks.simps)
  next
    case False
    with 1 show ?thesis by (simp add: chunks.simps [of n xs])
  qed
qed

lemma chunks_length: "c \<in> set (chunks n xs) \<Longrightarrow> length c \<le> n"
proof (induction n xs rule: chunks.induct)
  case (1 n xs)
  then show ?case by (cases "xs = [] \<or> n = 0") (auto simp: chunks.simps [of n xs])
qed

lemma fold_chunks: "0 < n \<Longrightarrow> fold (\<lambda>c. fold f c) (chunks n xs) t = fold f xs t"
proof (induction n xs arbitrary: t rule: chunks.induct)
  case (1 n xs)
  show ?case
  proof (cases "xs = []")
    case True
    then show ?thesis by (simp add: chunks.simps)
  next
    case False
    have "fold f (drop n xs) (fold f (take n xs) t) = fold f (take n xs @ drop n xs) t"
      by (simp only: fold_append comp_def)
    with 1 False show ?thesis by (simp add: chunks.simps [of n xs])
  qed
qed

text \<open>Writing results into their positions: \<open>outs[i] = g(i, r)\<close> along two lists.\<close>

definition put_at :: "(nat \<Rightarrow> 'r \<Rightarrow> 'b) \<Rightarrow> nat \<times> 'r \<Rightarrow> 'b list \<Rightarrow> 'b list" where
  "put_at g ir outs = outs[fst ir := g (fst ir) (snd ir)]"

lemma put_at_pair: "put_at g (i, r) outs = outs[i := g i r]"
  by (simp add: put_at_def)

lemma length_fold_put_at [simp]: "length (fold (put_at g) irs outs) = length outs"
  by (induction irs arbitrary: outs) (auto simp: put_at_def)

lemma fold_put_at_other:
  "j \<notin> fst ` set irs \<Longrightarrow> fold (put_at g) irs outs ! j = outs ! j"
  by (induction irs arbitrary: outs) (auto simp: put_at_def)

lemma fold_put_at_hit:
  assumes "distinct (map fst irs)" "(i, r) \<in> set irs" "i < length outs"
  shows "fold (put_at g) irs outs ! i = g i r"
  using assms
proof (induction irs arbitrary: outs)
  case Nil
  then show ?case by simp
next
  case (Cons ir irs)
  show ?case
  proof (cases "ir = (i, r)")
    case True
    with Cons.prems show ?thesis by (simp add: fold_put_at_other put_at_pair)
  next
    case False
    then have m: "(i, r) \<in> set irs" using Cons.prems(2) by auto
    then show ?thesis
      using Cons.IH [of "put_at g ir outs"] Cons.prems by (simp add: put_at_def)
  qed
qed

lemma in_set_zip_nth: "i < length xs \<Longrightarrow> i < length ys \<Longrightarrow> (xs ! i, ys ! i) \<in> set (zip xs ys)"
  by (force simp: in_set_zip)

end
