(* ===== verification/Rust_Base.thy ===== *)
theory Rust_Base
  imports Prelude
begin

text \<open>
  What the components use of Rust's standard library (strings, number rendering and
  parsing, UTF-8 validation), the JSON values they build, the error type of
  \<open>crates/core/src/error.rs\<close> with its messages, and the record \<open>ext\<close> of the third-party
  functions (hashing, serialisation, decimal division, ABI coding) that the definitions
  take as an argument.

  Strings are the byte strings of HOL (\<open>char list\<close>). A \<open>BigDecimal\<close> is a \<open>rat\<close>: its
  addition, subtraction, multiplication and comparison are exact; its division rounds to
  a precision, so division is the parameter \<open>bd_div\<close>. An \<open>anyhow::Error\<close> is the text its
  \<open>Display\<close> prints, which is all the code inspects.
\<close>

section \<open>Strings\<close>

definition starts_with :: "string \<Rightarrow> string \<Rightarrow> bool" where
  "starts_with p s \<longleftrightarrow> take (length p) s = p"

fun str_contains :: "string \<Rightarrow> string \<Rightarrow> bool" where
  "str_contains p [] = (p = [])"
| "str_contains p (c # s) = (starts_with p (c # s) \<or> str_contains p s)"

text \<open>\<open>s.trim_start_matches("0x")\<close> strips the prefix as often as it occurs.\<close>

fun trim_0x :: "string \<Rightarrow> string" where
  "trim_0x (a # b # s) = (if a = CHR ''0'' \<and> b = CHR ''x'' then trim_0x s else a # b # s)"
| "trim_0x s = s"

text \<open>\<open>s.trim_matches(c)\<close>: leading and trailing occurrences of one character.\<close>

definition trim_char :: "char \<Rightarrow> string \<Rightarrow> string" where
  "trim_char c s = rev (dropWhile (\<lambda>d. d = c) (rev (dropWhile (\<lambda>d. d = c) s)))"

definition lower_char :: "char \<Rightarrow> char" where
  "lower_char c = (let n = of_char c :: nat in if 65 \<le> n \<and> n \<le> 90 then char_of (n + 32) else c)"

text \<open>\<open>to_ascii_lowercase\<close>; also \<open>to_lowercase\<close> on the hexadecimal strings it is used for.\<close>

definition lower :: "string \<Rightarrow> string" where
  "lower = map lower_char"

lemma lower_char_idem [simp]: "lower_char (lower_char c) = lower_char c"
proof -
  have "of_char (char_of (of_char c + 32 :: nat) :: char) = (of_char c + 32 :: nat)"
    if "(of_char c :: nat) \<le> 90"
    using that by simp
  then show ?thesis by (simp add: lower_char_def Let_def)
qed

lemma lower_idem [simp]: "lower (lower s) = lower s"
  by (simp add: lower_def comp_def)

fun join :: "string \<Rightarrow> string list \<Rightarrow> string" where
  "join sep [] = []"
| "join sep [x] = x"
| "join sep (x # y # zs) = x @ sep @ join sep (y # zs)"

text \<open>
  \<open>std::str::from_utf8(bytes).unwrap_or_default()\<close>: the text itself when the bytes are
  well-formed UTF-8 (the byte ranges of the Unicode standard, table 3-7), else empty.
\<close>

definition in_rng :: "nat \<Rightarrow> nat \<Rightarrow> char \<Rightarrow> bool" where
  "in_rng lo hi c \<longleftrightarrow> lo \<le> of_char c \<and> of_char c \<le> hi"

fun utf8_ok :: "string \<Rightarrow> bool" where
  "utf8_ok [] = True"
| "utf8_ok (a # s) =
     (if in_rng 0 127 a then utf8_ok s
      else case s of
        [] \<Rightarrow> False
      | b # s2 \<Rightarrow>
          if in_rng 194 223 a then in_rng 128 191 b \<and> utf8_ok s2
          else case s2 of
            [] \<Rightarrow> False
          | c # s3 \<Rightarrow>
              if in_rng 224 239 a then
                in_rng (if of_char a = (224::nat) then 160 else 128)
                       (if of_char a = (237::nat) then 159 else 191) b
                \<and> in_rng 128 191 c \<and> utf8_ok s3
              else case s3 of
                [] \<Rightarrow> False
              | d # s4 \<Rightarrow>
                  in_rng 240 244 a
                  \<and> in_rng (if of_char a = (240::nat) then 144 else 128)
                           (if of_char a = (244::nat) then 143 else 191) b
                  \<and> in_rng 128 191 c \<and> in_rng 128 191 d \<and> utf8_ok s4)"

definition from_utf8_or_empty :: "string \<Rightarrow> string" where
  "from_utf8_or_empty bs = (if utf8_ok bs then bs else [])"

text \<open>The UTF-8 bytes of two characters outside ASCII that messages of the source contain.\<close>

definition EM_DASH :: string where "EM_DASH = [CHR 0xE2, CHR 0x80, CHR 0x94]"
definition SECTION_SIGN :: string where "SECTION_SIGN = [CHR 0xC2, CHR 0xA7]"

section \<open>Numbers as text\<close>

definition digit_char :: "nat \<Rightarrow> char" where
  "digit_char d = char_of (if d < 10 then 48 + d else 87 + d)"

fun show_base :: "nat \<Rightarrow> nat \<Rightarrow> string" where
  "show_base b n =
     (if b < 2 \<or> n < b then [digit_char n] else show_base b (n div b) @ [digit_char (n mod b)])"

declare show_base.simps [simp del]

text \<open>\<open>n.to_string()\<close> for an unsigned and a signed integer, and \<open>format!("0x{:x}", n)\<close>.\<close>

definition show_nat :: "nat \<Rightarrow> string" where
  "show_nat n = show_base 10 n"

definition show_int :: "int \<Rightarrow> string" where
  "show_int i = (if i < 0 then CHR ''-'' # show_nat (nat (- i)) else show_nat (nat i))"

definition hex_0x :: "nat \<Rightarrow> string" where
  "hex_0x n = ''0x'' @ show_base 16 n"

definition digit_val :: "nat \<Rightarrow> char \<Rightarrow> nat option" where
  "digit_val b c =
     (let n = of_char c :: nat;
          d = (if 48 \<le> n \<and> n \<le> 57 then Some (n - 48)
               else if 97 \<le> n \<and> n \<le> 122 then Some (n - 87)
               else if 65 \<le> n \<and> n \<le> 90 then Some (n - 55) else None)
      in case d of None \<Rightarrow> None | Some v \<Rightarrow> if v < b then Some v else None)"

fun digits_acc :: "nat \<Rightarrow> nat \<Rightarrow> string \<Rightarrow> nat option" where
  "digits_acc b acc [] = Some acc"
| "digits_acc b acc (c # s) =
     (case digit_val b c of None \<Rightarrow> None | Some d \<Rightarrow> digits_acc b (acc * b + d) s)"

definition parse_digits :: "nat \<Rightarrow> string \<Rightarrow> nat option" where
  "parse_digits b s = (if s = [] then None else digits_acc b 0 s)"

text \<open>
  \<open>uN::from_str_radix\<close> and \<open>iN::from_str_radix\<close> (\<open>str::parse\<close> is radix 10): an optional
  sign (\<open>-\<close> only for signed types), at least one digit, the value in range.
\<close>

definition parse_unsigned :: "nat \<Rightarrow> nat \<Rightarrow> string \<Rightarrow> nat option" where
  "parse_unsigned b w s =
     (let body = (case s of c # s' \<Rightarrow> if c = CHR ''+'' then s' else s | [] \<Rightarrow> [])
      in case parse_digits b body of None \<Rightarrow> None | Some n \<Rightarrow> if n < 2 ^ w then Some n else None)"

definition parse_signed :: "nat \<Rightarrow> nat \<Rightarrow> string \<Rightarrow> int option" where
  "parse_signed b w s =
     (case s of
        [] \<Rightarrow> None
      | c # s' \<Rightarrow>
          if c = CHR ''-'' then
            (case parse_digits b s' of None \<Rightarrow> None
             | Some n \<Rightarrow> if n \<le> 2 ^ (w - 1) then Some (- int n) else None)
          else
            (case parse_digits b (if c = CHR ''+'' then s' else s) of None \<Rightarrow> None
             | Some n \<Rightarrow> if n < 2 ^ (w - 1) then Some (int n) else None))"

lemma digit_val_digit_char: "d < b \<Longrightarrow> b \<le> 36 \<Longrightarrow> digit_val b (digit_char d) = Some d"
  by (auto simp: digit_val_def digit_char_def Let_def)

lemma digits_acc_append:
  "digits_acc b acc (s @ t) =
     (case digits_acc b acc s of None \<Rightarrow> None | Some a \<Rightarrow> digits_acc b a t)"
  by (induction s arbitrary: acc) (auto split: option.splits)

lemma digits_acc_show_base:
  assumes "2 \<le> b" "b \<le> 36"
  shows "digits_acc b 0 (show_base b n) = Some n"
  using assms
proof (induction b n rule: show_base.induct)
  case (1 b n)
  show ?case
  proof (cases "n < b")
    case True
    with 1 show ?thesis by (simp add: show_base.simps [of b n] digit_val_digit_char)
  next
    case False
    with 1 have "digits_acc b 0 (show_base b (n div b)) = Some (n div b)" by simp
    with 1 False show ?thesis
      by (simp add: show_base.simps [of b n] digits_acc_append digit_val_digit_char
          mult.commute)
  qed
qed

lemma show_base_not_Nil [simp]: "show_base b n \<noteq> []"
  by (simp add: show_base.simps [of b n])

lemma parse_digits_show_base:
  "2 \<le> b \<Longrightarrow> b \<le> 36 \<Longrightarrow> parse_digits b (show_base b n) = Some n"
  by (simp add: parse_digits_def digits_acc_show_base)

lemma of_char_digit_char: "d < 36 \<Longrightarrow> of_char (digit_char d) = (if d < 10 then 48 + d else 87 + d :: nat)"
  by (simp add: digit_char_def)

lemma show_base_chars:
  "2 \<le> b \<Longrightarrow> b \<le> 36 \<Longrightarrow> c \<in> set (show_base b n) \<Longrightarrow>
     (48 \<le> (of_char c :: nat) \<and> (of_char c :: nat) \<le> 57) \<or> (97 \<le> (of_char c :: nat) \<and> (of_char c :: nat) < 87 + b)"
proof (induction b n rule: show_base.induct)
  case (1 b n)
  have d: "48 \<le> (of_char (digit_char d) :: nat) \<and> (of_char (digit_char d) :: nat) \<le> 57
      \<or> 97 \<le> (of_char (digit_char d) :: nat) \<and> (of_char (digit_char d) :: nat) < 87 + b" if "d < b" for d
    using that 1(3) by (simp add: of_char_digit_char)
  show ?case
  proof (cases "n < b")
    case True
    then show ?thesis using 1(4) d [of n] by (simp add: show_base.simps [of b n])
  next
    case False
    then have "c \<in> set (show_base b (n div b)) \<or> c = digit_char (n mod b)"
      using 1(2,4) by (auto simp: show_base.simps [of b n])
    then show ?thesis
      using 1(1) [of] 1(2,3) False d [of "n mod b"] by auto
  qed
qed

lemma show_nat_no_char:
  assumes "of_char c < (48::nat) \<or> 57 < (of_char c :: nat)"
  shows "c \<notin> set (show_nat n)"
  using show_base_chars [of 10 c n] assms by (auto simp: show_nat_def)

lemma parse_signed_show_int:
  assumes "- (2 ^ (w - 1)) \<le> i" "i < 2 ^ (w - 1)"
  shows "parse_signed 10 w (show_int i) = Some i"
proof (cases "i < 0")
  case True
  have "nat (- i) \<le> 2 ^ (w - 1)" using assms True by (simp add: nat_le_iff)
  with True show ?thesis
    by (simp add: parse_signed_def show_int_def show_nat_def parse_digits_show_base)
next
  case False
  obtain c s where cs: "show_nat (nat i) = c # s"
    by (metis list.exhaust show_base_not_Nil show_nat_def)
  have m: "CHR ''-'' \<notin> set (show_nat (nat i))" "CHR ''+'' \<notin> set (show_nat (nat i))"
    by (rule show_nat_no_char, simp)+
  have "nat i < 2 ^ (w - 1)" using assms False by (simp add: nat_less_iff)
  moreover have "parse_digits 10 (c # s) = Some (nat i)"
    by (simp add: cs [symmetric] show_nat_def parse_digits_show_base)
  ultimately show ?thesis
    using False m cs by (auto simp: parse_signed_def show_int_def)
qed

text \<open>
  The text of \<open>ParseIntError\<close>: the first character that is no digit or that takes the value
  over the limit decides.
\<close>

fun first_int_error :: "string \<Rightarrow> nat \<Rightarrow> nat \<Rightarrow> nat \<Rightarrow> string \<Rightarrow> string" where
  "first_int_error over b mx acc [] = over"
| "first_int_error over b mx acc (c # s) =
     (case digit_val b c of
        None \<Rightarrow> ''invalid digit found in string''
      | Some d \<Rightarrow> if mx < acc * b + d then over else first_int_error over b mx (acc * b + d) s)"

definition TOO_LARGE :: string where "TOO_LARGE = ''number too large to fit in target type''"
definition TOO_SMALL :: string where "TOO_SMALL = ''number too small to fit in target type''"

definition unsigned_error :: "nat \<Rightarrow> nat \<Rightarrow> string \<Rightarrow> string" where
  "unsigned_error b w s =
     (case s of
        [] \<Rightarrow> ''cannot parse integer from empty string''
      | [c] \<Rightarrow> ''invalid digit found in string''
      | c # s' \<Rightarrow> first_int_error TOO_LARGE b (2 ^ w - 1) 0 (if c = CHR ''+'' then s' else s))"

definition signed_error :: "nat \<Rightarrow> nat \<Rightarrow> string \<Rightarrow> string" where
  "signed_error b w s =
     (case s of
        [] \<Rightarrow> ''cannot parse integer from empty string''
      | [c] \<Rightarrow> ''invalid digit found in string''
      | c # s' \<Rightarrow>
          if c = CHR ''-'' then first_int_error TOO_SMALL b (2 ^ (w - 1)) 0 s'
          else first_int_error TOO_LARGE b (2 ^ (w - 1) - 1) 0 (if c = CHR ''+'' then s' else s))"

section \<open>Casts\<close>

text \<open>\<open>as i64\<close>, \<open>as i32\<close> and \<open>as u64\<close> keep the low bits.\<close>

definition as_i64 :: "int \<Rightarrow> int" where
  "as_i64 n = (n + 2 ^ 63) mod 2 ^ 64 - 2 ^ 63"

definition as_i32 :: "int \<Rightarrow> int" where
  "as_i32 n = (n + 2 ^ 31) mod 2 ^ 32 - 2 ^ 31"

definition as_u64 :: "int \<Rightarrow> nat" where
  "as_u64 n = nat (n mod 2 ^ 64)"

lemma as_i64_id [simp]: "- (2 ^ 63) \<le> n \<Longrightarrow> n < 2 ^ 63 \<Longrightarrow> as_i64 n = n"
  by (simp add: as_i64_def)

lemma as_i32_id [simp]: "- (2 ^ 31) \<le> n \<Longrightarrow> n < 2 ^ 31 \<Longrightarrow> as_i32 n = n"
  by (simp add: as_i32_def)

lemma as_u64_id [simp]: "0 \<le> n \<Longrightarrow> n < 2 ^ 64 \<Longrightarrow> as_u64 n = nat n"
  by (simp add: as_u64_def)

lemma as_u64_as_i64 [simp]: "as_u64 (as_i64 (int n)) = n mod 2 ^ 64"
proof -
  have "((int n + 2 ^ 63) mod 2 ^ 64 - 2 ^ 63) mod 2 ^ 64 = int n mod 2 ^ 64"
    by (simp add: mod_diff_left_eq)
  then show ?thesis by (simp add: as_u64_def as_i64_def nat_mod_as_int del: mod_diff_left_eq)
qed

end
