(* ===== verification/World.thy ===== *)
theory World
  imports Rust_Base
begin

text \<open>
  The data every component shares: JSON values (\<open>serde_json::Value\<close>), the error type of
  \<open>crates/core/src/error.rs\<close>, the third-party functions the code calls (record \<open>ext\<close>), the
  rows of the Postgres tables the modelled statements touch (\<open>migrations/\<close>), and the
  world: the tables, the clock that \<open>now()\<close> reads and the state of the network.
\<close>

section \<open>JSON values\<close>

datatype json =
    JNull
  | JBool bool
  | JNum int
  | JStr string
  | JArr "json list"
  | JObj "(string \<times> json) list"

text \<open>\<open>v.get(key)\<close>, \<open>v.as_str()\<close> and \<open>map.insert(key, value)\<close>.\<close>

fun jget :: "string \<Rightarrow> json \<Rightarrow> json option" where
  "jget k (JObj kvs) = map_of kvs k"
| "jget k _ = None"

fun jstr :: "json \<Rightarrow> string option" where
  "jstr (JStr s) = Some s"
| "jstr _ = None"

fun jput :: "string \<Rightarrow> json \<Rightarrow> json \<Rightarrow> json" where
  "jput k v (JObj kvs) = JObj (filter (\<lambda>kv. fst kv \<noteq> k) kvs @ [(k, v)])"
| "jput k v j = j"

definition jstr_opt :: "string option \<Rightarrow> json" where
  "jstr_opt x = (case x of None \<Rightarrow> JNull | Some s \<Rightarrow> JStr s)"

lemma jget_jput_same: "jget k (jput k v (JObj kvs)) = Some v"
  by (induction kvs) auto

section \<open>Errors of the core crate\<close>

record divergence_info =
  dv_method :: string
  dv_block :: "int option"
  dv_provider_a :: string
  dv_hash_a :: string
  dv_provider_b :: string
  dv_hash_b :: string

datatype core_error =
    Io string string
  | Yaml string string
  | MissingEnv string
  | Db string
  | AbiHashMismatch string string string
  | Http string string
  | JsonRpc string string int string
  | RpcDivergence divergence_info
  | Panic string  \<comment> \<open>no variant of the source: a panic of the Rust code\<close>

definition show_opt_int :: "int option \<Rightarrow> string" where
  "show_opt_int x = (case x of None \<Rightarrow> ''None'' | Some n \<Rightarrow> ''Some('' @ show_int n @ '')'')"

definition divergence_msg :: "divergence_info \<Rightarrow> string" where
  "divergence_msg d = dv_method d @ '' block='' @ show_opt_int (dv_block d) @ '': provider ''
     @ dv_provider_a d @ '' hash='' @ dv_hash_a d @ '' vs provider '' @ dv_provider_b d
     @ '' hash='' @ dv_hash_b d"

fun core_msg :: "core_error \<Rightarrow> string" where
  "core_msg (Io p e) = ''io error reading '' @ p @ '': '' @ e"
| "core_msg (Yaml p e) = ''yaml parse error in '' @ p @ '': '' @ e"
| "core_msg (MissingEnv k) = ''required env var '' @ k @ '' is not set''"
| "core_msg (Db e) = ''database error: '' @ e"
| "core_msg (AbiHashMismatch p x a) =
     ''ABI hash mismatch for '' @ p @ '': expected '' @ x @ '', got '' @ a"
| "core_msg (Http p e) = ''HTTP error talking to '' @ p @ '': '' @ e"
| "core_msg (JsonRpc p m c t) =
     ''JSON-RPC error from '' @ p @ '' on '' @ m @ '': code='' @ show_int c @ '' message='' @ t"
| "core_msg (RpcDivergence d) = ''RPC divergence on '' @ divergence_msg d"
| "core_msg (Panic t) = ''panic: '' @ t"

section \<open>Third-party functions\<close>

text \<open>
  The decoded \<open>latestRoundData\<close> tuple with its fields already rendered in decimal, as
  \<open>DecodedRound\<close> keeps them; the pool's \<open>slot0\<close>; one parsed JSON-RPC response.
\<close>

record decoded_round =
  rd_round_id :: string
  rd_answer :: string
  rd_started_at :: string
  rd_updated_at :: string
  rd_answered_in :: string

record pool_slot0 =
  sl_sqrt :: nat
  sl_tick :: int
  sl_cardinality :: nat

record rpc_response =
  rs_id :: "nat option"
  rs_result :: "json option"
  rs_error :: "(int \<times> string) option"

text \<open>
  \<open>sha256_hex\<close> is the hexadecimal SHA-256 digest; \<open>json_text\<close> is \<open>serde_json\<close>
  serialisation, \<open>json_parse\<close> its parser, \<open>parse_response\<close> and \<open>parse_responses\<close> the
  deserialisation of a JSON-RPC body; \<open>hex_decode\<close> is \<open>hex::decode\<close>; \<open>bd_div\<close>,
  \<open>bd_parse\<close> and \<open>bd_show\<close> are \<open>BigDecimal\<close> division, parsing and printing; \<open>numeric18\<close>
  is the value a \<open>NUMERIC(38,18)\<close> column keeps of a decimal, \<open>collate\<close> the position of a text in
  the order of the database's collation, \<open>jsonb_text\<close> the cast \<open>jsonb::text\<close>, \<open>numeric_text\<close>
  the cast to text of a \<open>NUMERIC\<close> with a given number of decimals; \<open>address_of\<close> and \<open>u256_of\<close> are
  \<open>Address::from_str\<close> and \<open>U256::from_str\<close>; the others are the \<open>sol!\<close>
  generated coders, the encoders already in hexadecimal.
\<close>

record ext =
  sha256_hex :: "string \<Rightarrow> string"
  json_text :: "json \<Rightarrow> string"
  json_parse :: "string \<Rightarrow> json option"
  parse_response :: "string \<Rightarrow> rpc_response option"
  parse_responses :: "string \<Rightarrow> rpc_response list option"
  hex_decode :: "string \<Rightarrow> string option"
  bd_div :: "rat \<Rightarrow> rat \<Rightarrow> rat"
  bd_parse :: "string \<Rightarrow> rat option"
  bd_show :: "rat \<Rightarrow> string"
  numeric18 :: "rat \<Rightarrow> rat"
  collate :: "string \<Rightarrow> rat"
  jsonb_text :: "json \<Rightarrow> string"
  numeric_text :: "nat \<Rightarrow> rat \<Rightarrow> string"
  address_of :: "string \<Rightarrow> nat option"
  u256_of :: "string \<Rightarrow> nat option"
  round_call_hex :: string
  slot0_call_hex :: string
  observe_call_hex :: "nat list \<Rightarrow> string"
  abi_round :: "string \<Rightarrow> decoded_round option"
  abi_slot0 :: "string \<Rightarrow> pool_slot0 option"
  abi_observe :: "string \<Rightarrow> int list option"

text \<open>
  Documented behaviour some properties name: dividing an integer by a power of ten is exact
  (the quotient is a terminating decimal), and a decimal integer literal parses to itself.
\<close>

definition bd_exact :: "ext \<Rightarrow> bool" where
  "bd_exact x \<longleftrightarrow> (\<forall>n k. bd_div x (of_int n) (10 ^ k) = of_int n / 10 ^ k)"

definition bd_reads_nat :: "ext \<Rightarrow> bool" where
  "bd_reads_nat x \<longleftrightarrow> (\<forall>n. bd_parse x (show_nat n) = Some (of_nat n))"

section \<open>Rows\<close>

datatype finality = Tentative | L1Posted | Finalized

text \<open>The order in which a row moves through the three states.\<close>

fun finality_rank :: "finality \<Rightarrow> nat" where
  "finality_rank Tentative = 0"
| "finality_rank L1Posted = 1"
| "finality_rank Finalized = 2"

instantiation finality :: linorder
begin

definition less_eq_finality :: "finality \<Rightarrow> finality \<Rightarrow> bool" where
  "less_eq_finality a b \<longleftrightarrow> finality_rank a \<le> finality_rank b"

definition less_finality :: "finality \<Rightarrow> finality \<Rightarrow> bool" where
  "less_finality a b \<longleftrightarrow> finality_rank a < finality_rank b"

instance
proof
  fix a b :: finality
  show "a \<le> b \<Longrightarrow> b \<le> a \<Longrightarrow> a = b"
    by (cases a; cases b) (simp_all add: less_eq_finality_def)
qed (auto simp: less_eq_finality_def less_finality_def)

end

lemma finality_top [simp]: "(f :: finality) \<le> Finalized" "Tentative \<le> f"
  by (cases f; simp add: less_eq_finality_def)+

record event_row =
  e_id :: int
  e_chain :: int
  e_tx :: string
  e_log :: int
  e_block :: int
  e_hash :: string
  e_ts :: int
  e_address :: string
  e_contract :: string
  e_name :: string
  e_signature :: string
  e_asset :: "string option"
  e_amount_raw :: "rat option"
  e_amount :: "rat option"
  e_valuable :: bool
  e_from :: "string option"
  e_to :: "string option"
  e_finality :: finality
  e_canonical :: bool
  e_finalized_at :: "int option"
  e_raw :: json
  e_abi :: string

text \<open>
  \<open>j ->> field\<close> of Postgres: the text of a JSON value, null for none; and
  \<open>raw_event -> 'decoded' ->> field\<close> of an event.
\<close>

fun json_arrow_text :: "ext \<Rightarrow> json \<Rightarrow> string option" where
  "json_arrow_text x JNull = None"
| "json_arrow_text x (JStr t) = Some t"
| "json_arrow_text x j = Some (jsonb_text x j)"

definition decoded_field :: "ext \<Rightarrow> string \<Rightarrow> event_row \<Rightarrow> string option" where
  "decoded_field x field r =
     Option.bind (Option.bind (jget ''decoded'' (e_raw r)) (jget field)) (json_arrow_text x)"

record dead_row =
  d_chain :: int
  d_block :: int
  d_hash :: string
  d_tx :: string
  d_log :: int
  d_address :: string
  d_topics :: "string list"
  d_data :: string
  d_abi :: string
  d_error :: string

record valuation_row =
  v_event :: int
  v_version :: string
  v_asset :: string
  v_method :: string
  v_source :: string
  v_status :: string
  v_chain :: int
  v_block :: int
  v_amount :: rat
  v_price :: "rat option"
  v_usd :: "rat option"
  v_detail :: json

record attempt_row =
  a_event :: int
  a_version :: string
  a_asset :: string
  a_number :: int
  a_status :: string
  a_detail :: "json option"

record price_row =
  p_chain :: int
  p_asset :: string
  p_quote :: string
  p_block :: int
  p_hash :: string
  p_ts :: int
  p_price :: rat
  p_source :: string
  p_pool :: "string option"
  p_oracle :: "string option"
  p_raw :: "json option"

record cache_row =
  c_hash :: string
  c_method :: string
  c_params :: json
  c_block :: "int option"
  c_bytes :: string
  c_resp_hash :: string
  c_provider :: string
  c_check_provider :: "string option"
  c_check_hash :: "string option"

record divergence_row =
  g_method :: string
  g_params :: json
  g_block :: "int option"
  g_provider_a :: string
  g_bytes_a :: string
  g_hash_a :: string
  g_provider_b :: string
  g_bytes_b :: string
  g_hash_b :: string

record reorg_row =
  o_chain :: int
  o_block :: int
  o_depth :: int
  o_old :: "string list"
  o_new :: "string list"
  o_affected :: int
  o_notes :: string

record checkpoint_row =
  k_name :: string
  k_block :: int

record cursor_row =
  u_key :: string
  u_watermark :: int
  u_seed :: "int option"

record seed_row =
  s_chain :: int
  s_tx :: string
  s_asset :: string
  s_price :: rat
  s_usd :: rat
  s_raw :: json

record stake_row =
  t_chain :: int
  t_delegator :: string
  t_delegate :: string
  t_block :: int
  t_ts :: int
  t_hash :: string
  t_principal :: rat
  t_pending_stake :: "rat option"
  t_pending_fees :: "rat option"
  t_pending_round :: "int option"
  t_source :: string
  t_raw :: "json option"
  t_trigger :: int

record registry_row =
  q_chain :: int
  q_delegator :: string
  q_first_block :: int
  q_first_event :: int
  q_last_block :: int
  q_last_event :: int
  q_active :: bool

section \<open>The world\<close>

record 'n world =
  w_events :: "event_row list"
  w_dead :: "dead_row list"
  w_valuations :: "valuation_row list"
  w_attempts :: "attempt_row list"
  w_prices :: "price_row list"
  w_cache :: "cache_row list"
  w_divergences :: "divergence_row list"
  w_reorgs :: "reorg_row list"
  w_checkpoints :: "checkpoint_row list"
  w_cursors :: "cursor_row list"
  w_seeds :: "seed_row list"
  w_stakes :: "stake_row list"
  w_registry :: "registry_row list"
  w_now :: int
  w_net :: 'n

type_synonym ('n, 'a) db = "('n world, string, 'a) io"
type_synonym ('n, 'a) rpc = "('n world, core_error, 'a) io"

definition ARBITRUM_CHAIN_ID :: int where
  "ARBITRUM_CHAIN_ID = 42161"

section \<open>Keys of the tables and the write-once contracts\<close>

definition event_key :: "event_row \<Rightarrow> int \<times> string \<times> int" where
  "event_key r = (e_chain r, e_tx r, e_log r)"

definition dead_key :: "dead_row \<Rightarrow> int \<times> string \<times> int" where
  "dead_key r = (d_chain r, d_tx r, d_log r)"

definition valuation_key :: "valuation_row \<Rightarrow> int \<times> string \<times> string" where
  "valuation_key r = (v_event r, v_version r, v_asset r)"

definition attempt_key :: "attempt_row \<Rightarrow> int \<times> string \<times> string \<times> int" where
  "attempt_key r = (a_event r, a_version r, a_asset r, a_number r)"

definition price_key :: "price_row \<Rightarrow> int \<times> string \<times> string \<times> int \<times> string" where
  "price_key r = (p_chain r, p_asset r, p_quote r, p_block r, p_source r)"

interpretation wo_events: write_once event_key "find_row event_key" "ins_nothing event_key"
  by unfold_locales (rule find_row_ins_nothing)

interpretation wo_dead: write_once dead_key "find_row dead_key" "ins_nothing dead_key"
  by unfold_locales (rule find_row_ins_nothing)

interpretation wo_valuations:
  write_once valuation_key "find_row valuation_key" "ins_nothing valuation_key"
  by unfold_locales (rule find_row_ins_nothing)

interpretation wo_prices: write_once price_key "find_row price_key" "ins_nothing price_key"
  by unfold_locales (rule find_row_ins_nothing)

section \<open>Checkpoints\<close>

text \<open>
  \<open>INSERT INTO indexer_checkpoints ... ON CONFLICT (name) DO UPDATE SET
  last_processed_block = GREATEST(...)\<close>, the statement the indexer, the finality watcher
  and the staker share, and the plain lookup by name.
\<close>

definition checkpoint :: "checkpoint_row list \<Rightarrow> string \<Rightarrow> int option" where
  "checkpoint t n = map_option k_block (find_row k_name t n)"

definition advance_greatest :: "string \<Rightarrow> int \<Rightarrow> checkpoint_row list \<Rightarrow> checkpoint_row list" where
  "advance_greatest n v t =
     upsert k_name (\<lambda>old new. old\<lparr>k_block := max (k_block old) (k_block new)\<rparr>)
       \<lparr>k_name = n, k_block = v\<rparr> t"

definition set_checkpoint :: "string \<Rightarrow> int \<Rightarrow> checkpoint_row list \<Rightarrow> checkpoint_row list" where
  "set_checkpoint n v t =
     upsert k_name (\<lambda>old new. old\<lparr>k_block := k_block new\<rparr>) \<lparr>k_name = n, k_block = v\<rparr> t"

lemma checkpoint_set [simp]:
  "checkpoint (set_checkpoint n v t) m = (if m = n then Some v else checkpoint t m)"
  by (simp add: checkpoint_def set_checkpoint_def find_row_upsert split: option.splits)

interpretation marks: monotone_mark checkpoint advance_greatest
  by unfold_locales
    (simp add: checkpoint_def advance_greatest_def find_row_upsert split: option.splits)

section \<open>A concrete instance\<close>

text \<open>
  Concrete third-party functions and an empty database, on which the properties with
  hypotheses are exercised: the digest is the identity, JSON prints its shape, division is
  exact division, the decoders accept one fixed answer each.
\<close>

fun sample_text :: "json \<Rightarrow> string" where
  "sample_text JNull = ''n''"
| "sample_text (JBool b) = (if b then ''t'' else ''f'')"
| "sample_text (JNum i) = show_int i"
| "sample_text (JStr s) = CHR 0x22 # s @ [CHR 0x22]"
| "sample_text (JArr js) = ''['' @ concat (map sample_text js) @ '']''"
| "sample_text (JObj kvs) = ''{'' @ concat (map (\<lambda>kv. fst kv @ '':'' @ sample_text (snd kv)) kvs) @ ''}''"

definition sample_round :: decoded_round where
  "sample_round = \<lparr>rd_round_id = ''7'', rd_answer = ''0'', rd_started_at = ''1'',
     rd_updated_at = ''1'', rd_answered_in = ''7''\<rparr>"

definition sample_ext :: ext where
  "sample_ext =
     \<lparr>sha256_hex = (\<lambda>s. s), json_text = sample_text, json_parse = (\<lambda>s. Some (JStr s)),
      parse_response = (\<lambda>t. Some \<lparr>rs_id = Some 1, rs_result = Some (JStr t), rs_error = None\<rparr>),
      parse_responses = (\<lambda>t. None), hex_decode = Some, bd_div = (/),
      bd_parse = (\<lambda>s. map_option of_nat (parse_digits 10 s)), bd_show = (\<lambda>q. ''q''),
      numeric18 = (\<lambda>q. q), collate = (\<lambda>s. of_nat (length s)), jsonb_text = sample_text,
      numeric_text = (\<lambda>_ _. ''q''), address_of = parse_digits 16, u256_of = parse_digits 10, round_call_hex = ''feaf968c'', slot0_call_hex = ''3850c7bd'',
      observe_call_hex = (\<lambda>_. ''883bdbfd''), abi_round = (\<lambda>_. Some sample_round),
      abi_slot0 = (\<lambda>_. Some \<lparr>sl_sqrt = 2 ^ 96, sl_tick = 0, sl_cardinality = 144\<rparr>),
      abi_observe = (\<lambda>_. Some [0, 1800])\<rparr>"

definition empty_world :: "'n \<Rightarrow> 'n world" where
  "empty_world n =
     \<lparr>w_events = [], w_dead = [], w_valuations = [], w_attempts = [], w_prices = [], w_cache = [],
      w_divergences = [], w_reorgs = [], w_checkpoints = [], w_cursors = [], w_seeds = [],
      w_stakes = [], w_registry = [], w_now = 0, w_net = n\<rparr>"

lemma sample_bd_exact: "bd_exact sample_ext"
  by (simp add: bd_exact_def sample_ext_def)

lemma sample_reads_nat: "bd_reads_nat sample_ext"
  by (simp add: bd_reads_nat_def sample_ext_def show_nat_def parse_digits_show_base)

end
