(* ===== verification/Rpc_Cache.thy ===== *)
theory Rpc_Cache
  imports World
begin

text \<open>
  The JSON-RPC layer of \<open>crates/core/src/rpc\<close>: the response cache (\<open>cache.rs\<close>), the
  provider's single and batched calls (\<open>provider.rs\<close>), the cached and cross-checked calls
  (\<open>cross_check.rs\<close>) and the second batched reader (\<open>multicall.rs\<close>). The HTTP exchange
  itself is the field \<open>pr_post\<close> of a provider: it answers a request body from the state of
  the network, which it may change. Permits, metrics and the pool refresh are not modelled;
  they do not enter any result.
\<close>

section \<open>cache.rs\<close>

text \<open>\<open>n.to_be_bytes()\<close> of an \<open>i64\<close>: eight bytes of the two's complement, high byte first.\<close>

definition byte_at :: "nat \<Rightarrow> nat \<Rightarrow> char" where
  "byte_at m j = char_of (m div 256 ^ j)"

definition be_bytes64 :: "int \<Rightarrow> string" where
  "be_bytes64 n = map (\<lambda>i. byte_at (nat (n mod 2 ^ 64)) (8 - Suc i)) [0..<8]"

definition NUL :: char where
  "NUL = CHR 0x00"

definition call_preimage :: "ext \<Rightarrow> string \<Rightarrow> json \<Rightarrow> int option \<Rightarrow> string" where
  "call_preimage x method params block =
     method @ [NUL] @ json_text x params @ [NUL] @
     (case block of None \<Rightarrow> [] | Some n \<Rightarrow> be_bytes64 n)"

definition compute_call_hash :: "ext \<Rightarrow> string \<Rightarrow> json \<Rightarrow> int option \<Rightarrow> string" where
  "compute_call_hash x method params block = sha256_hex x (call_preimage x method params block)"

definition hash_response_bytes :: "ext \<Rightarrow> string \<Rightarrow> string" where
  "hash_response_bytes x bytes = sha256_hex x bytes"

definition cache_put :: "cache_row \<Rightarrow> 'n world \<Rightarrow> 'n world" where
  "cache_put r s = s\<lparr>w_cache := ins_nothing c_hash r (w_cache s)\<rparr>"

definition cache_row_at :: "'n world \<Rightarrow> string \<Rightarrow> cache_row option" where
  "cache_row_at s h = find_row c_hash (w_cache s) h"

definition cache_get :: "'n world \<Rightarrow> string \<Rightarrow> (string \<times> string \<times> string) option" where
  "cache_get s h = map_option (\<lambda>r. (c_bytes r, c_resp_hash r, c_provider r)) (cache_row_at s h)"

interpretation wo_cache: write_once c_hash cache_row_at cache_put
  by unfold_locales (auto simp: cache_row_at_def cache_put_def find_row_ins_nothing)

section \<open>provider.rs\<close>

datatype http_result = HttpError string | HardTimeout | Body string

record 'n provider =
  pr_name :: string
  pr_post :: "json \<Rightarrow> 'n \<Rightarrow> http_result \<times> 'n"

datatype block_tag = Latest | Number nat

fun to_param :: "block_tag \<Rightarrow> string" where
  "to_param Latest = ''latest''"
| "to_param (Number n) = hex_0x n"

fun cache_key :: "block_tag \<Rightarrow> int option" where
  "cache_key Latest = None"
| "cache_key (Number n) = Some (int n)"

definition rpc_request :: "string \<Rightarrow> json \<Rightarrow> nat \<Rightarrow> json" where
  "rpc_request method params i =
     JObj [(''jsonrpc'', JStr ''2.0''), (''method'', JStr method), (''params'', params),
           (''id'', JNum (int i))]"

definition post :: "'n provider \<Rightarrow> json \<Rightarrow> 'n world \<Rightarrow> http_result \<times> 'n world" where
  "post p req s = (case pr_post p req (w_net s) of (r, net) \<Rightarrow> (r, s\<lparr>w_net := net\<rparr>))"

definition response_value :: "string \<Rightarrow> string \<Rightarrow> rpc_response \<Rightarrow> core_error + json" where
  "response_value name method resp =
     (case rs_error resp of
        Some (code, msg) \<Rightarrow> Inl (JsonRpc name method code msg)
      | None \<Rightarrow> Inr (case rs_result resp of None \<Rightarrow> JNull | Some v \<Rightarrow> v))"

definition call_once :: "ext \<Rightarrow> 'n provider \<Rightarrow> string \<Rightarrow> json \<Rightarrow> ('n, json) rpc" where
  "call_once x p method params s =
     (case post p (rpc_request method params 1) s of
        (HttpError e, s') \<Rightarrow> (Inl (Http (pr_name p) e), s')
      | (HardTimeout, s') \<Rightarrow>
          (Inl (JsonRpc (pr_name p) method (- 32001) ''hard timeout 90s exceeded''), s')
      | (Body t, s') \<Rightarrow>
          (case parse_response x t of
             None \<Rightarrow>
               (Inl (JsonRpc (pr_name p) method (- 32700) (''malformed response: '' @ t)), s')
           | Some resp \<Rightarrow> (response_value (pr_name p) method resp, s')))"

text \<open>\<open>s.chars().take(n)\<close> on UTF-8 bytes: continuation bytes stay with their character.\<close>

fun take_chars :: "nat \<Rightarrow> string \<Rightarrow> string" where
  "take_chars n [] = []"
| "take_chars n (c # s) =
     (if in_rng 128 191 c then c # take_chars n s
      else case n of 0 \<Rightarrow> [] | Suc m \<Rightarrow> c # take_chars m s)"

text \<open>
  Responses are put back by their id, the 1-based position of the request; a response
  without an id, with id 0 or with an id past the batch is ignored.
\<close>

fun place_responses ::
  "string \<Rightarrow> (string \<times> json) list \<Rightarrow> rpc_response list \<Rightarrow> (core_error + json) list
     \<Rightarrow> (core_error + json) list" where
  "place_responses name batch [] results = results"
| "place_responses name batch (resp # rest) results =
     (case rs_id resp of
        None \<Rightarrow> place_responses name batch rest results
      | Some i \<Rightarrow>
          if i = 0 \<or> \<not> i - 1 < length batch then place_responses name batch rest results
          else place_responses name batch rest
                 (results[i - 1 := response_value name (fst (batch ! (i - 1))) resp]))"

definition missing_entry :: "string \<Rightarrow> string \<times> json \<Rightarrow> core_error + json" where
  "missing_entry name req =
     Inl (JsonRpc name (fst req) (- 32603) ''no response for batch entry'')"

definition batch_requests :: "(string \<times> json) list \<Rightarrow> json" where
  "batch_requests batch =
     JArr (map (\<lambda>(i, method, params). rpc_request method params (i + 1)) (enumerate 0 batch))"

definition call_batch ::
  "ext \<Rightarrow> 'n provider \<Rightarrow> (string \<times> json) list \<Rightarrow> ('n, (core_error + json) list) rpc" where
  "call_batch x p batch s =
     (if batch = [] then (Inr [], s)
      else case post p (batch_requests batch) s of
        (HttpError e, s') \<Rightarrow> (Inl (Http (pr_name p) e), s')
      | (HardTimeout, s') \<Rightarrow>
          (Inl (JsonRpc (pr_name p) ''call_batch'' (- 32001)
                 (''hard timeout 90s exceeded for batch of '' @ show_nat (length batch))), s')
      | (Body t, s') \<Rightarrow>
          (case (case parse_responses x t of
                   Some v \<Rightarrow> Some v
                 | None \<Rightarrow> map_option (\<lambda>r. [r]) (parse_response x t)) of
             None \<Rightarrow>
               (Inl (JsonRpc (pr_name p) ''call_batch'' (- 32700)
                      (''malformed batch response: '' @ take_chars 500 t)), s')
           | Some parsed \<Rightarrow>
               (Inr (place_responses (pr_name p) batch parsed
                       (map (missing_entry (pr_name p)) batch)), s')))"

lemma length_place_responses [simp]:
  "length (place_responses name batch rs results) = length results"
  by (induction name batch rs results rule: place_responses.induct) (auto split: option.splits)

lemma call_batch_length:
  "call_batch x p batch s = (Inr results, s') \<Longrightarrow> length results = length batch"
  by (auto simp: call_batch_def split: if_splits prod.splits http_result.splits option.splits)

lemma post_frame: "post p req s = (r, s') \<Longrightarrow> s' = s\<lparr>w_net := w_net s'\<rparr>"
  by (auto simp: post_def split: prod.splits)

lemma call_batch_frame: "call_batch x p batch s = (r, s') \<Longrightarrow> s' = s\<lparr>w_net := w_net s'\<rparr>"
  by (auto simp: call_batch_def dest: post_frame
      split: if_splits prod.splits http_result.splits option.splits)

lemma call_once_frame: "call_once x p method params s = (r, s') \<Longrightarrow> s' = s\<lparr>w_net := w_net s'\<rparr>"
  by (auto simp: call_once_def dest: post_frame
      split: prod.splits http_result.splits option.splits)

lemma place_responses_untouched:
  "i < length results \<Longrightarrow> \<forall>r\<in>set rs. rs_id r \<noteq> Some (Suc i) \<Longrightarrow>
     place_responses name batch rs results ! i = results ! i"
proof (induction name batch rs results rule: place_responses.induct)
  case (1 name batch results)
  then show ?case by simp
next
  case (2 name batch resp rest results)
  show ?case
  proof (cases "rs_id resp")
    case None
    with 2 show ?thesis by simp
  next
    case (Some j)
    have ne: "j \<noteq> Suc i" using 2 Some by simp
    show ?thesis
    proof (cases "j = 0 \<or> \<not> j - 1 < length batch")
      case True
      with 2 Some show ?thesis by simp
    next
      case False
      then have "j - 1 \<noteq> i" using ne by arith
      with 2 Some False show ?thesis by simp
    qed
  qed
qed

lemma place_responses_hit:
  assumes "i < length batch" "length results = length batch"
    and "rs = us @ resp # vs" "rs_id resp = Some (Suc i)" "\<forall>r\<in>set vs. rs_id r \<noteq> Some (Suc i)"
  shows "place_responses name batch rs results ! i = response_value name (fst (batch ! i)) resp"
  using assms(3,2)
proof (induction us arbitrary: rs results)
  case Nil
  then show ?case
    using assms by (simp add: place_responses_untouched)
next
  case (Cons u us)
  then show ?case using assms by (simp split: option.splits)
qed

section \<open>cross_check.rs\<close>

record outcome =
  oc_hash :: string
  oc_bytes :: string
  oc_resp_hash :: string

text \<open>The outcome a cache row stands for.\<close>

definition cached_outcome :: "'n world \<Rightarrow> string \<Rightarrow> outcome option" where
  "cached_outcome s h =
     (case cache_get s h of
        None \<Rightarrow> None
      | Some (bytes, hash, _) \<Rightarrow> Some \<lparr>oc_hash = h, oc_bytes = bytes, oc_resp_hash = hash\<rparr>)"

definition cache_only_error :: "string \<Rightarrow> string \<Rightarrow> core_error" where
  "cache_only_error name method =
     JsonRpc name method (- 32002) (''cache-only replay: missing rpc_call_cache row for '' @ method)"

definition make_cache_row ::
  "ext \<Rightarrow> string \<Rightarrow> string \<Rightarrow> json \<Rightarrow> int option \<Rightarrow> string \<Rightarrow> string \<Rightarrow> (string \<times> string) option \<Rightarrow> cache_row" where
  "make_cache_row x h method params block bytes name check =
     \<lparr>c_hash = h, c_method = method, c_params = params, c_block = block, c_bytes = bytes,
      c_resp_hash = hash_response_bytes x bytes, c_provider = name,
      c_check_provider = map_option fst check, c_check_hash = map_option snd check\<rparr>"

definition make_divergence ::
  "string \<Rightarrow> json \<Rightarrow> int option \<Rightarrow> string \<Rightarrow> string \<Rightarrow> string \<Rightarrow> string \<Rightarrow> string \<Rightarrow> string \<Rightarrow> divergence_row" where
  "make_divergence method params block na ba ha nb bb hb =
     \<lparr>g_method = method, g_params = params, g_block = block, g_provider_a = na, g_bytes_a = ba,
      g_hash_a = ha, g_provider_b = nb, g_bytes_b = bb, g_hash_b = hb\<rparr>"

definition divergence_of :: "divergence_row \<Rightarrow> core_error" where
  "divergence_of g = RpcDivergence
     \<lparr>dv_method = g_method g, dv_block = g_block g, dv_provider_a = g_provider_a g,
      dv_hash_a = g_hash_a g, dv_provider_b = g_provider_b g, dv_hash_b = g_hash_b g\<rparr>"

definition record_divergence :: "divergence_row \<Rightarrow> ('n, 'a) rpc" where
  "record_divergence g s =
     (Inl (divergence_of g), s\<lparr>w_divergences := w_divergences s @ [g]\<rparr>)"

definition cross_check_call ::
  "ext \<Rightarrow> bool \<Rightarrow> 'n provider \<Rightarrow> 'n provider \<Rightarrow> string \<Rightarrow> json \<Rightarrow> int option \<Rightarrow> ('n, outcome) rpc" where
  "cross_check_call x cache_only a b method params block s =
     (let call_hash = compute_call_hash x method params block in
      case cached_outcome s call_hash of
        Some oc \<Rightarrow> (Inr oc, s)
      | None \<Rightarrow>
          if cache_only then (Inl (cache_only_error (pr_name a) method), s)
          else andthen (call_once x a method params) (\<lambda>result_a.
               andthen (call_once x b method params) (\<lambda>result_b.
                 let bytes_a = json_text x result_a;
                     bytes_b = json_text x result_b;
                     hash_a = hash_response_bytes x bytes_a;
                     hash_b = hash_response_bytes x bytes_b
                 in if hash_a \<noteq> hash_b then
                      record_divergence (make_divergence method params block (pr_name a) bytes_a
                        hash_a (pr_name b) bytes_b hash_b)
                    else
                      andthen (modifying (cache_put (make_cache_row x call_hash method params block
                                 bytes_a (pr_name a) (Some (pr_name b, hash_b)))))
                        (\<lambda>_. ret \<lparr>oc_hash = call_hash, oc_bytes = bytes_a, oc_resp_hash = hash_a\<rparr>)))
               s)"

definition hash_field :: "json \<Rightarrow> string" where
  "hash_field v = (case Option.bind (jget ''hash'' v) jstr of None \<Rightarrow> [] | Some h \<Rightarrow> h)"

definition quoted :: "string \<Rightarrow> string" where
  "quoted t = CHR 0x27 # t @ [CHR 0x27]"

definition cross_check_block_hash ::
  "ext \<Rightarrow> 'n provider \<Rightarrow> 'n provider \<Rightarrow> nat \<Rightarrow> ('n, string) rpc" where
  "cross_check_block_hash x a b block =
     (let params = JArr [JStr (hex_0x block), JBool False] in
      andthen (call_once x a ''eth_getBlockByNumber'' params) (\<lambda>result_a.
      andthen (call_once x b ''eth_getBlockByNumber'' params) (\<lambda>result_b.
        let hash_a = hash_field result_a;
            hash_b = hash_field result_b
        in if hash_a = [] \<or> hash_b = [] then
             throw (JsonRpc (pr_name a @ '' or '' @ pr_name b) ''eth_getBlockByNumber'' (- 32000)
               (''missing .hash on block '' @ show_nat block @ '': a='' @ quoted hash_a @ '' b='' @ quoted hash_b))
           else if hash_a \<noteq> hash_b then
             record_divergence (make_divergence ''eth_getBlockByNumber.hash'' params
               (Some (int block)) (pr_name a) (json_text x result_a) hash_a
               (pr_name b) (json_text x result_b) hash_b)
           else ret hash_a)))"

definition single_call_cached ::
  "ext \<Rightarrow> bool \<Rightarrow> 'n provider \<Rightarrow> string \<Rightarrow> json \<Rightarrow> int option \<Rightarrow> ('n, outcome) rpc" where
  "single_call_cached x cache_only p method params block s =
     (let call_hash = compute_call_hash x method params block in
      case cached_outcome s call_hash of
        Some oc \<Rightarrow> (Inr oc, s)
      | None \<Rightarrow>
          if cache_only then (Inl (cache_only_error (pr_name p) method), s)
          else andthen (call_once x p method params) (\<lambda>result.
                 let bytes = json_text x result in
                 andthen (modifying (cache_put (make_cache_row x call_hash method params block
                            bytes (pr_name p) None)))
                   (\<lambda>_. ret \<lparr>oc_hash = call_hash, oc_bytes = bytes,
                              oc_resp_hash = hash_response_bytes x bytes\<rparr>)) s)"

type_synonym request = "string \<times> json \<times> int option"

definition request_hash :: "ext \<Rightarrow> request \<Rightarrow> string" where
  "request_hash x r = (case r of (method, params, block) \<Rightarrow> compute_call_hash x method params block)"

text \<open>
  One result of the batch: a success is stored under the original key and put into its
  position, an error only fills its position.
\<close>

definition settle_entry ::
  "ext \<Rightarrow> 'n provider \<Rightarrow> request list \<Rightarrow> nat list \<Rightarrow> nat \<times> (core_error + json)
     \<Rightarrow> (core_error + outcome) option list \<Rightarrow> ('n, (core_error + outcome) option list) rpc" where
  "settle_entry x p requests misses kr outs =
     (case kr of (k, result) \<Rightarrow>
        if \<not> k < length misses then throw (Panic ''index out of bounds'')
        else (let i = misses ! k; req = requests ! i; h = request_hash x req in
          case result of
            Inr value \<Rightarrow>
              let bytes = json_text x value in
              andthen (modifying (cache_put (make_cache_row x h (fst req) (fst (snd req))
                         (snd (snd req)) bytes (pr_name p) None)))
                (\<lambda>_. ret (outs[i := Some (Inr \<lparr>oc_hash = h, oc_bytes = bytes,
                                 oc_resp_hash = hash_response_bytes x bytes\<rparr>)]))
          | Inl e \<Rightarrow> ret (outs[i := Some (Inl e)])))"

definition unwrap_all :: "'b option list \<Rightarrow> ('s, core_error, 'b list) io" where
  "unwrap_all outs =
     (if list_all (\<lambda>b. b \<noteq> None) outs then ret (map the outs)
      else throw (Panic ''all positions filled''))"

definition batch_call_cached ::
  "ext \<Rightarrow> bool \<Rightarrow> 'n provider \<Rightarrow> request list \<Rightarrow> ('n, (core_error + outcome) list) rpc" where
  "batch_call_cached x cache_only p requests s =
     (if requests = [] then (Inr [], s)
      else let
        outs = map (\<lambda>r. map_option Inr (cached_outcome s (request_hash x r))) requests;
        misses = filter (\<lambda>i. outs ! i = None) [0..<length requests]
      in if misses = [] then unwrap_all outs s
         else if cache_only then
           (Inl (cache_only_error (pr_name p) (fst (requests ! hd misses))), s)
         else
           andthen (call_batch x p
                      (map (\<lambda>i. (fst (requests ! i), fst (snd (requests ! i)))) misses)) (\<lambda>results.
           andthen (fold_io (settle_entry x p requests misses) (enumerate 0 results) outs)
             unwrap_all) s)"

section \<open>multicall.rs\<close>

text \<open>
  \<open>PendingCall\<close> carries the same three fields as a request; the helper returns the bytes only
  and fails as a whole on the first failed constituent (after storing the ones before it).
\<close>

definition settle_pending ::
  "ext \<Rightarrow> 'n provider \<Rightarrow> request list \<Rightarrow> (core_error + json) \<times> nat
     \<Rightarrow> string option list \<Rightarrow> ('n, string option list) rpc" where
  "settle_pending x p calls rm results =
     (case rm of (response, i) \<Rightarrow>
        andthen (of_result response) (\<lambda>value.
          let bytes = json_text x value; c = calls ! i; h = request_hash x c in
          andthen (modifying (cache_put (make_cache_row x h (fst c) (fst (snd c)) (snd (snd c))
                     bytes (pr_name p) None)))
            (\<lambda>_. ret (results[i := Some bytes]))))"

definition multicall_batch ::
  "ext \<Rightarrow> bool \<Rightarrow> 'n provider \<Rightarrow> request list \<Rightarrow> ('n, string list) rpc" where
  "multicall_batch x cache_only archive calls s =
     (let n = length calls;
          results = map (\<lambda>c. map_option fst (cache_get s (request_hash x c))) calls;
          misses = filter (\<lambda>i. results ! i = None) [0..<n]
      in if misses = [] then unwrap_all results s
         else if cache_only then
           (Inl (JsonRpc (pr_name archive) ''batch'' (- 32002)
             (''cache-only replay: '' @ show_nat (n - length misses) @ '' of '' @ show_nat n
              @ '' cached, '' @ show_nat (length misses) @ '' missing in batch'')), s)
         else
           andthen (call_batch x archive
                      (map (\<lambda>i. (fst (calls ! i), fst (snd (calls ! i)))) misses)) (\<lambda>responses.
             if length responses \<noteq> length misses then
               throw (JsonRpc (pr_name archive) ''batch'' (- 32603)
                 (''batch returned '' @ show_nat (length responses) @ '' responses, expected ''
                  @ show_nat (length misses)))
             else
               andthen (fold_io (settle_pending x archive calls) (zip responses misses) results)
                 unwrap_all) s)"

section \<open>Behaviour of the cached reads\<close>

lemma cache_row_at_put:
  "cache_row_at (cache_put r s) h =
     (if h = c_hash r \<and> cache_row_at s h = None then Some r else cache_row_at s h)"
  by (rule wo_cache.get_put)

lemma cached_outcome_put:
  "cached_outcome (cache_put r s) h =
     (if h = c_hash r \<and> cached_outcome s h = None
      then Some \<lparr>oc_hash = h, oc_bytes = c_bytes r, oc_resp_hash = c_resp_hash r\<rparr>
      else cached_outcome s h)"
  by (auto simp: cached_outcome_def cache_get_def cache_row_at_put split: option.splits)

lemma cached_outcome_net [simp]: "cached_outcome (s\<lparr>w_net := n\<rparr>) h = cached_outcome s h"
  by (simp add: cached_outcome_def cache_get_def cache_row_at_def)

lemma cached_outcome_hash: "cached_outcome s h = Some oc \<Longrightarrow> oc_hash oc = h"
  by (auto simp: cached_outcome_def split: option.splits)

lemma cached_outcome_call_once:
  "call_once x p method params s = (r, s') \<Longrightarrow> cached_outcome s' h = cached_outcome s h"
  by (drule call_once_frame) (metis cached_outcome_net)

lemma cached_outcome_call_batch:
  "call_batch x p batch s = (r, s') \<Longrightarrow> cached_outcome s' h = cached_outcome s h"
  by (drule call_batch_frame) (metis cached_outcome_net)

lemma single_call_cached_cases:
  obtains (hit) oc where "cached_outcome s (compute_call_hash x m ps b) = Some oc"
      "single_call_cached x co p m ps b s = (Inr oc, s)"
  | (refused) e where "cached_outcome s (compute_call_hash x m ps b) = None" "co"
      "single_call_cached x co p m ps b s = (Inl e, s)"
  | (failed) e s1 where "cached_outcome s (compute_call_hash x m ps b) = None" "\<not> co"
      "call_once x p m ps s = (Inl e, s1)" "single_call_cached x co p m ps b s = (Inl e, s1)"
  | (fetched) v s1 oc r where "cached_outcome s (compute_call_hash x m ps b) = None" "\<not> co"
      "call_once x p m ps s = (Inr v, s1)"
      "r = make_cache_row x (compute_call_hash x m ps b) m ps b (json_text x v) (pr_name p) None"
      "oc = \<lparr>oc_hash = compute_call_hash x m ps b, oc_bytes = json_text x v,
             oc_resp_hash = hash_response_bytes x (json_text x v)\<rparr>"
      "single_call_cached x co p m ps b s = (Inr oc, cache_put r s1)"
proof (cases "cached_outcome s (compute_call_hash x m ps b)")
  case (Some oc)
  then show ?thesis by (rule hit) (simp add: single_call_cached_def Some)
next
  case None
  show ?thesis
  proof (cases co)
    case True
    with None show ?thesis by (intro refused) (simp_all add: single_call_cached_def)
  next
    case False
    obtain r s1 where c: "call_once x p m ps s = (r, s1)" by fastforce
    show ?thesis
    proof (cases r)
      case (Inl e)
      with None False c show ?thesis
        by (intro failed) (simp_all add: single_call_cached_def andthen_def)
    next
      case (Inr v)
      with None False c show ?thesis
        by (intro fetched) (simp_all add: single_call_cached_def io_simps Let_def)
    qed
  qed
qed

text \<open>
  The cached single call is a read-through cache on the triple (method, parameters, block):
  whatever a replay reads is what the first run read.
\<close>

definition look_request :: "ext \<Rightarrow> 'n world \<Rightarrow> request \<Rightarrow> outcome option" where
  "look_request x s r = cached_outcome s (request_hash x r)"

definition fetch_request :: "ext \<Rightarrow> bool \<Rightarrow> 'n provider \<Rightarrow> request \<Rightarrow> ('n, outcome) rpc" where
  "fetch_request x co p r = (case r of (m, ps, b) \<Rightarrow> single_call_cached x co p m ps b)"

lemma single_call_stores:
  "single_call_cached x co p m ps b s = (Inr oc, s') \<Longrightarrow>
     cached_outcome s' (compute_call_hash x m ps b) = Some oc"
  by (cases rule: single_call_cached_cases [of s x m ps b co p])
    (auto simp: cached_outcome_put cached_outcome_call_once make_cache_row_def)

lemma single_call_undisturbed:
  assumes "cached_outcome s h = Some oc"
  shows "cached_outcome (snd (single_call_cached x co p m ps b s)) h = Some oc"
  using assms
  by (cases rule: single_call_cached_cases [of s x m ps b co p])
    (auto simp: cached_outcome_put cached_outcome_call_once)

interpretation rpc_reads: read_through "look_request x" "fetch_request x co p" for x co p
proof unfold_locales
  fix w :: "'a world" and k v assume "look_request x w k = Some v"
  then show "fetch_request x co p k w = (Inr v, w)"
    by (auto simp: look_request_def fetch_request_def request_hash_def single_call_cached_def
        split: prod.splits)
next
  fix w w' :: "'a world" and k v assume "fetch_request x co p k w = (Inr v, w')"
  then show "look_request x w' k = Some v"
    by (auto simp: look_request_def fetch_request_def request_hash_def single_call_stores
        split: prod.splits)
next
  fix w :: "'a world" and k v k' assume "look_request x w k = Some v"
  then show "look_request x (snd (fetch_request x co p k' w)) k = Some v"
    by (auto simp: look_request_def fetch_request_def single_call_undisturbed split: prod.splits)
qed

end
