(* ===== verification/Rpc_Replay.thy ===== *)
theory Rpc_Replay
  imports Rpc_Cache
begin

text \<open>
  What the RPC layer guarantees: replay from the cache, agreement of the batched readers
  with the single one, integrity of the cache rows, and routing of batch responses.
\<close>

section \<open>The pre-image of a cache key\<close>

lemma length_be_bytes64 [simp]: "length (be_bytes64 n) = 8"
  by (simp add: be_bytes64_def)

fun be_value :: "string \<Rightarrow> nat" where
  "be_value [] = 0"
| "be_value (c # s) = of_char c * 256 ^ length s + be_value s"

lemma nat_byte_split: "(m::nat) mod 256 ^ Suc k = (m div 256 ^ k mod 256) * 256 ^ k + m mod 256 ^ k"
  by (metis add.commute mod_mult2_eq mult.commute power_Suc2)

lemma of_char_byte_at: "of_char (byte_at m j) = (m div 256 ^ j) mod (256::nat)"
  by (simp add: byte_at_def)

lemma be_value_bytes:
  "be_value (map (\<lambda>i. byte_at m (n - Suc i)) [n - d..<n]) = m mod 256 ^ d" if "d \<le> n" for d
  using that
proof (induction d)
  case 0
  then show ?case by simp
next
  case (Suc d)
  have s: "[n - Suc d..<n] = (n - Suc d) # [n - d..<n]"
    using Suc.prems by (subst upt_conv_Cons) (auto simp: Suc_diff_Suc)
  have i: "n - Suc (n - Suc d) = d" using Suc.prems by simp
  have l: "length (map (\<lambda>i. byte_at m (n - Suc i)) [n - d..<n]) = d" using Suc.prems by simp
  show ?case
    unfolding s list.map be_value.simps i l of_char_byte_at nat_byte_split
    using Suc by simp
qed

lemma be_bytes64_value: "be_value (be_bytes64 n) = nat (n mod 2 ^ 64)"
proof -
  have "nat (n mod 2 ^ 64) < 256 ^ 8" by (simp add: nat_less_iff)
  then show ?thesis
    using be_value_bytes [of 8 8 "nat (n mod 2 ^ 64)"] unfolding be_bytes64_def diff_self_eq_0
    by (simp only: le_refl mod_less)
qed

lemma be_bytes64_inj:
  assumes "be_bytes64 a = be_bytes64 b" "- (2 ^ 63) \<le> a" "a < 2 ^ 63" "- (2 ^ 63) \<le> b" "b < 2 ^ 63"
  shows "a = b"
proof -
  have "nat (a mod 2 ^ 64) = nat (b mod 2 ^ 64)" using assms(1) by (metis be_bytes64_value)
  then have "a mod 2 ^ 64 = b mod 2 ^ 64" by (simp add: eq_nat_nat_iff)
  then have "(2 ^ 64) dvd (a - b)" by (simp add: mod_eq_dvd_iff)
  then obtain k where "a - b = 2 ^ 64 * k" by (rule dvdE)
  moreover have "\<bar>a - b\<bar> < 2 ^ 64" using assms by simp
  ultimately show ?thesis by (cases "k = 0") auto
qed

lemma split_at_first:
  assumes "u @ [z] @ v = u' @ [z] @ v'" "z \<notin> set u" "z \<notin> set u'"
  shows "u = u' \<and> v = v'"
proof -
  have first: "takeWhile (\<lambda>c. c \<noteq> z) (a @ [z] @ b) = a" if "z \<notin> set a" for a b
    using that by (induction a) auto
  from first [OF assms(2)] first [OF assms(3)] assms(1) have "u = u'" by metis
  with assms(1) show ?thesis by simp
qed

definition i64_opt :: "int option \<Rightarrow> bool" where
  "i64_opt b = (case b of None \<Rightarrow> True | Some n \<Rightarrow> - (2 ^ 63) \<le> n \<and> n < 2 ^ 63)"

lemma call_preimage_inj:
  assumes "json_text x ps = json_text x ps' \<longrightarrow> ps = ps'"
    and "NUL \<notin> set (json_text x ps)" "NUL \<notin> set (json_text x ps')"
    and "NUL \<notin> set m" "NUL \<notin> set m'" "i64_opt b" "i64_opt b'"
    and "call_preimage x m ps b = call_preimage x m' ps' b'"
  shows "m = m' \<and> ps = ps' \<and> b = b'"
proof -
  let ?t = "\<lambda>b. case b of None \<Rightarrow> [] | Some n \<Rightarrow> be_bytes64 n"
  from assms(8) have e: "m @ [NUL] @ (json_text x ps @ [NUL] @ ?t b)
      = m' @ [NUL] @ (json_text x ps' @ [NUL] @ ?t b')"
    by (simp add: call_preimage_def)
  from split_at_first [OF e assms(4,5)] have m: "m = m'"
    and r: "json_text x ps @ [NUL] @ ?t b = json_text x ps' @ [NUL] @ ?t b'" by auto
  from split_at_first [OF r assms(2,3)] assms(1) have ps: "ps = ps'" and t: "?t b = ?t b'"
    by auto
  have "b = b'"
  proof (cases b; cases b')
    fix n n' assume "b = Some n" "b' = Some n'"
    with t assms(6,7) show ?thesis by (auto simp: i64_opt_def intro: be_bytes64_inj)
  next
    fix n assume "b = None" "b' = Some n"
    then show ?thesis using t length_be_bytes64 [of n] by fastforce
  next
    fix n assume "b = Some n" "b' = None"
    then show ?thesis using t length_be_bytes64 [of n] by fastforce
  next
    assume "b = None" "b' = None"
    then show ?thesis by simp
  qed
  with m ps show ?thesis by simp
qed

section \<open>The batched reader\<close>

definition settled :: "ext \<Rightarrow> request list \<Rightarrow> nat \<Rightarrow> core_error + json \<Rightarrow> (core_error + outcome) option" where
  "settled x reqs i r = Some (case r of
       Inl e \<Rightarrow> Inl e
     | Inr v \<Rightarrow> Inr \<lparr>oc_hash = request_hash x (reqs ! i), oc_bytes = json_text x v,
                    oc_resp_hash = hash_response_bytes x (json_text x v)\<rparr>)"

definition request_row :: "ext \<Rightarrow> 'n provider \<Rightarrow> request \<Rightarrow> json \<Rightarrow> cache_row" where
  "request_row x p r v = make_cache_row x (request_hash x r) (fst r) (fst (snd r)) (snd (snd r))
     (json_text x v) (pr_name p) None"

definition settle_store ::
  "ext \<Rightarrow> 'n provider \<Rightarrow> request list \<Rightarrow> nat \<times> (core_error + json) \<Rightarrow> 'n world \<Rightarrow> 'n world" where
  "settle_store x p reqs ir s = (case snd ir of Inl e \<Rightarrow> s
     | Inr v \<Rightarrow> cache_put (request_row x p (reqs ! fst ir) v) s)"

lemma settle_entry_pair:
  "k < length misses \<Longrightarrow> settle_entry x p reqs misses (k, r) outs s =
     (Inr (put_at (settled x reqs) (misses ! k, r) outs),
      settle_store x p reqs (misses ! k, r) s)"
  by (cases r)
    (simp_all add: settle_entry_def io_simps Let_def put_at_def settled_def settle_store_def
      request_row_def)

lemma settle_fold:
  "k + length rs \<le> length misses \<Longrightarrow>
   fold_io (settle_entry x p reqs misses) (enumerate k rs) outs s =
     (Inr (fold (put_at (settled x reqs)) (zip (drop k misses) rs) outs),
      fold (settle_store x p reqs) (zip (drop k misses) rs) s)"
proof (induction rs arbitrary: k outs s)
  case Nil
  then show ?case by simp
next
  case (Cons r rs)
  then have k: "k < length misses" by simp
  have d: "drop k misses = misses ! k # drop (Suc k) misses"
    using k by (simp add: Cons_nth_drop_Suc)
  have "Suc k + length rs \<le> length misses" using Cons.prems by simp
  note IH = Cons.IH [OF this]
  show ?case
    using k IH by (simp add: d settle_entry_pair)
qed

lemma cached_outcome_settle_store:
  "cached_outcome s h = Some oc \<Longrightarrow> cached_outcome (fold (settle_store x p reqs) irs s) h = Some oc"
  by (induction irs arbitrary: s)
    (auto simp: settle_store_def cached_outcome_put split: sum.splits)

lemma settle_store_hit:
  assumes "distinct (map (\<lambda>ir. request_hash x (reqs ! fst ir)) irs)"
    and "(i, Inr v) \<in> set irs" "cached_outcome s (request_hash x (reqs ! i)) = None"
  shows "cached_outcome (fold (settle_store x p reqs) irs s) (request_hash x (reqs ! i))
     = Some \<lparr>oc_hash = request_hash x (reqs ! i), oc_bytes = json_text x v,
              oc_resp_hash = hash_response_bytes x (json_text x v)\<rparr>"
  using assms
proof (induction irs arbitrary: s)
  case Nil
  then show ?case by simp
next
  case (Cons ir irs)
  show ?case
  proof (cases "ir = (i, Inr v)")
    case True
    with Cons.prems show ?thesis
      by (simp, intro cached_outcome_settle_store)
        (simp add: settle_store_def cached_outcome_put request_row_def make_cache_row_def)
  next
    case False
    then have m: "(i, Inr v) \<in> set irs" using Cons.prems by auto
    have "request_hash x (reqs ! fst ir) \<noteq> request_hash x (reqs ! i)"
      using Cons.prems(1) m by force
    then have "cached_outcome (settle_store x p reqs ir s) (request_hash x (reqs ! i)) = None"
      using Cons.prems(3)
      by (auto simp: settle_store_def cached_outcome_put request_row_def make_cache_row_def
          split: sum.splits)
    with Cons m show ?thesis by simp
  qed
qed

text \<open>The shape of a batched read: what it returns and which world it leaves.\<close>

definition batch_outs :: "ext \<Rightarrow> 'n world \<Rightarrow> request list \<Rightarrow> (core_error + outcome) option list" where
  "batch_outs x s reqs = map (\<lambda>r. map_option Inr (cached_outcome s (request_hash x r))) reqs"

definition batch_misses :: "ext \<Rightarrow> 'n world \<Rightarrow> request list \<Rightarrow> nat list" where
  "batch_misses x s reqs = filter (\<lambda>i. batch_outs x s reqs ! i = None) [0..<length reqs]"

definition miss_batch :: "ext \<Rightarrow> 'n world \<Rightarrow> request list \<Rightarrow> (string \<times> json) list" where
  "miss_batch x s reqs = map (\<lambda>i. (fst (reqs ! i), fst (snd (reqs ! i)))) (batch_misses x s reqs)"

lemma distinct_batch_misses [simp]: "distinct (batch_misses x s reqs)"
  by (simp add: batch_misses_def)

lemma batch_misses_iff:
  "i \<in> set (batch_misses x s reqs) \<longleftrightarrow>
     i < length reqs \<and> cached_outcome s (request_hash x (reqs ! i)) = None"
  by (auto simp: batch_misses_def batch_outs_def)

lemma length_miss_batch [simp]: "length (miss_batch x s reqs) = length (batch_misses x s reqs)"
  by (simp add: miss_batch_def)

lemma batch_call_cached_unfold:
  "batch_call_cached x co p reqs s =
     (if batch_misses x s reqs = [] then unwrap_all (batch_outs x s reqs) s
      else if co then
        (Inl (cache_only_error (pr_name p) (fst (reqs ! hd (batch_misses x s reqs)))), s)
      else (case call_batch x p (miss_batch x s reqs) s of
          (Inl e, s1) \<Rightarrow> (Inl e, s1)
        | (Inr rs, s1) \<Rightarrow>
            (case fold_io (settle_entry x p reqs (batch_misses x s reqs)) (enumerate 0 rs)
                    (batch_outs x s reqs) s1 of
               (Inl e, s2) \<Rightarrow> (Inl e, s2)
             | (Inr outs, s2) \<Rightarrow> unwrap_all outs s2)))"
  by (cases "reqs = []")
    (simp_all add: batch_call_cached_def batch_misses_def batch_outs_def miss_batch_def Let_def
      andthen_def unwrap_all_def ret_def split: prod.splits sum.splits)

lemma unwrap_filled: "\<forall>i<length outs. outs ! i \<noteq> None \<Longrightarrow> unwrap_all outs s = (Inr (map the outs), s)"
  by (simp add: unwrap_all_def ret_def list_all_length)

lemma batch_filled:
  assumes "length rs = length (batch_misses x s reqs)" and i: "i < length reqs"
  shows "fold (put_at (settled x reqs)) (zip (batch_misses x s reqs) rs) (batch_outs x s reqs) ! i
    = (if i \<in> set (batch_misses x s reqs)
       then settled x reqs i (the (map_of (zip (batch_misses x s reqs) rs) i))
       else Some (Inr (the (cached_outcome s (request_hash x (reqs ! i))))))"
proof (cases "i \<in> set (batch_misses x s reqs)")
  case True
  have "i \<in> fst ` set (zip (batch_misses x s reqs) rs)"
    using True assms(1) by (metis list.set_map map_fst_zip)
  then obtain r where r: "(i, r) \<in> set (zip (batch_misses x s reqs) rs)" by force
  then have "map_of (zip (batch_misses x s reqs) rs) i = Some r"
    using assms(1) by simp
  moreover have "fold (put_at (settled x reqs)) (zip (batch_misses x s reqs) rs) (batch_outs x s reqs) ! i
      = settled x reqs i r"
    using assms r by (intro fold_put_at_hit) (simp_all add: batch_outs_def)
  ultimately show ?thesis using True by simp
next
  case False
  then have "i \<notin> fst ` set (zip (batch_misses x s reqs) rs)" by (auto dest: set_zip_leftD)
  then have "fold (put_at (settled x reqs)) (zip (batch_misses x s reqs) rs) (batch_outs x s reqs) ! i
      = batch_outs x s reqs ! i" by (rule fold_put_at_other)
  with False i show ?thesis by (auto simp: batch_outs_def batch_misses_iff)
qed

text \<open>The three ways a batched read can end.\<close>

lemma batch_call_cached_cases:
  obtains (warm) "batch_misses x s reqs = []"
      "batch_call_cached x co p reqs s =
         (Inr (map (\<lambda>r. Inr (the (cached_outcome s (request_hash x r)))) reqs), s)"
  | (refused) "batch_misses x s reqs \<noteq> []" co
      "batch_call_cached x co p reqs s =
         (Inl (cache_only_error (pr_name p) (fst (reqs ! hd (batch_misses x s reqs)))), s)"
  | (failed) e s1 where "batch_misses x s reqs \<noteq> []" "\<not> co" "call_batch x p (miss_batch x s reqs) s = (Inl e, s1)"
      "batch_call_cached x co p reqs s = (Inl e, s1)"
  | (fetched) rs s1 outs where "batch_misses x s reqs \<noteq> []" "\<not> co" "call_batch x p (miss_batch x s reqs) s = (Inr rs, s1)"
      "length rs = length (batch_misses x s reqs)"
      "outs = fold (put_at (settled x reqs)) (zip (batch_misses x s reqs) rs) (batch_outs x s reqs)"
      "length outs = length reqs"
      "batch_call_cached x co p reqs s =
         (Inr (map the outs), fold (settle_store x p reqs) (zip (batch_misses x s reqs) rs) s1)"
proof (cases "batch_misses x s reqs = []")
  case True
  have "\<forall>i<length reqs. batch_outs x s reqs ! i \<noteq> None"
    using True by (auto simp: batch_misses_def filter_empty_conv)
  then have "unwrap_all (batch_outs x s reqs) s = (Inr (map the (batch_outs x s reqs)), s)"
    by (intro unwrap_filled) (simp add: batch_outs_def)
  moreover have "map the (batch_outs x s reqs)
      = map (\<lambda>r. Inr (the (cached_outcome s (request_hash x r)))) reqs"
    using \<open>\<forall>i<length reqs. _\<close> by (intro nth_equalityI) (auto simp: batch_outs_def)
  ultimately show ?thesis using True by (intro warm) (simp_all add: batch_call_cached_unfold)
next
  case ms: False
  show ?thesis
  proof (cases co)
    case True
    with ms show ?thesis by (intro refused) (simp_all add: batch_call_cached_unfold)
  next
    case co: False
    obtain r s1 where c: "call_batch x p (miss_batch x s reqs) s = (r, s1)" by fastforce
    show ?thesis
    proof (cases r)
      case (Inl e)
      with co ms c show ?thesis by (intro failed) (simp_all add: batch_call_cached_unfold)
    next
      case (Inr rs)
      have len: "length rs = length (batch_misses x s reqs)"
        using call_batch_length [of x p "miss_batch x s reqs" s rs s1] c Inr by simp
      define outs where "outs = fold (put_at (settled x reqs))
        (zip (batch_misses x s reqs) rs) (batch_outs x s reqs)"
      have lo: "length outs = length reqs" by (simp add: outs_def batch_outs_def)
      have "\<forall>i<length outs. outs ! i \<noteq> None"
        using batch_filled [OF len] lo by (simp add: outs_def settled_def)
      then have "unwrap_all outs u = (Inr (map the outs), u)" for u :: "'a world"
        by (rule unwrap_filled)
      then show ?thesis using co ms c Inr len lo
        by (intro fetched [of rs s1 outs])
          (simp_all add: batch_call_cached_unfold settle_fold outs_def)
    qed
  qed
qed

section \<open>Integrity of the cache table\<close>

definition cache_row_ok :: "ext \<Rightarrow> cache_row \<Rightarrow> bool" where
  "cache_row_ok x r \<longleftrightarrow>
     c_hash r = compute_call_hash x (c_method r) (c_params r) (c_block r)
     \<and> c_resp_hash r = hash_response_bytes x (c_bytes r)
     \<and> (c_check_hash r = None \<or> c_check_hash r = Some (c_resp_hash r))"

definition cache_ok :: "ext \<Rightarrow> 'n world \<Rightarrow> bool" where
  "cache_ok x s \<longleftrightarrow> keys_distinct c_hash (w_cache s) \<and> (\<forall>r\<in>set (w_cache s). cache_row_ok x r)"

lemma cache_ok_put: "cache_row_ok x r \<Longrightarrow> cache_ok x s \<Longrightarrow> cache_ok x (cache_put r s)"
  using set_ins_nothing [of c_hash r "w_cache s"] by (auto simp: cache_ok_def cache_put_def)

lemma cache_ok_net [simp]: "cache_ok x (s\<lparr>w_net := n\<rparr>) = cache_ok x s"
  by (simp add: cache_ok_def)

lemma keeps_cache_call_once: "keeps (cache_ok x) (call_once x p m ps)"
  by (rule keepsI) (metis cache_ok_net call_once_frame prod.collapse)

lemma keeps_cache_call_batch: "keeps (cache_ok x) (call_batch x p batch)"
  by (rule keepsI) (metis cache_ok_net call_batch_frame prod.collapse)

lemma make_cache_row_ok:
  "(\<forall>c. check = Some c \<longrightarrow> snd c = hash_response_bytes x bytes) \<Longrightarrow>
     cache_row_ok x (make_cache_row x (compute_call_hash x m ps b) m ps b bytes name check)"
  by (cases check) (auto simp: cache_row_ok_def make_cache_row_def)

lemma keeps_cache_settle: "keeps (cache_ok x) (settle_entry x p reqs misses kr outs)"
  by (auto simp: settle_entry_def Let_def request_hash_def split: prod.splits sum.splits
      intro!: keeps_andthen keeps_modifying cache_ok_put make_cache_row_ok)

lemma keeps_cache_batch: "keeps (cache_ok x) (batch_call_cached x co p reqs)"
proof (rule keepsI)
  fix s :: "'a world" assume ok: "cache_ok x s"
  have st: "cache_ok x u \<Longrightarrow> cache_ok x (fold (settle_store x p reqs) irs u)" for u irs
  proof (induction irs arbitrary: u)
    case Nil
    then show ?case by simp
  next
    case (Cons ir irs)
    have "cache_ok x (settle_store x p reqs ir u)"
      using Cons.prems by (auto simp: settle_store_def request_row_def request_hash_def
          split: sum.splits prod.splits intro!: cache_ok_put make_cache_row_ok)
    with Cons.IH show ?case by simp
  qed
  show "cache_ok x (snd (batch_call_cached x co p reqs s))"
    by (cases rule: batch_call_cached_cases [of x s reqs co p])
      (use ok st keepsD [OF keeps_cache_call_batch ok, of p "miss_batch x s reqs"] in auto)
qed

lemma keeps_cache_cross: "keeps (cache_ok x) (cross_check_call x co a b m ps blk)"
proof -
  have "keeps (cache_ok x) (andthen (call_once x a m ps) (\<lambda>va. andthen (call_once x b m ps) (\<lambda>vb.
      let ba = json_text x va; bb = json_text x vb; ha = hash_response_bytes x ba;
          hb = hash_response_bytes x bb
      in if ha \<noteq> hb then record_divergence (make_divergence m ps blk (pr_name a) ba ha (pr_name b) bb hb)
         else andthen (modifying (cache_put (make_cache_row x (compute_call_hash x m ps blk) m ps blk
                ba (pr_name a) (Some (pr_name b, hb))))) (\<lambda>_. ret
                \<lparr>oc_hash = compute_call_hash x m ps blk, oc_bytes = ba, oc_resp_hash = ha\<rparr>))))"
    by (auto simp: Let_def intro!: keeps_andthen keeps_cache_call_once keeps_modifying cache_ok_put
        make_cache_row_ok)
      (simp add: keeps_def record_divergence_def cache_ok_def)
  then show ?thesis
    by (auto simp: keeps_def cross_check_call_def Let_def split: option.splits)
qed

section \<open>The second batched reader\<close>

definition pended :: "ext \<Rightarrow> nat \<Rightarrow> core_error + json \<Rightarrow> string option" where
  "pended x i r = (case r of Inl e \<Rightarrow> None | Inr v \<Rightarrow> Some (json_text x v))"

lemma pending_fold:
  assumes "fold_io (settle_pending x p reqs) (zip rs ms) outs s = (Inr outs', s')"
    and "length rs = length ms"
  shows "(\<forall>r\<in>set rs. \<exists>v. r = Inr v) \<and> outs' = fold (put_at (pended x)) (zip ms rs) outs
    \<and> s' = fold (settle_store x p reqs) (zip ms rs) s"
  using assms(2,1)
proof (induction rs ms arbitrary: outs s rule: list_induct2)
  case Nil
  then show ?case by simp
next
  case (Cons r rs i ms)
  from Cons.prems obtain v where v: "r = Inr v"
    by (cases r) (auto simp: settle_pending_def io_simps)
  let ?s = "settle_store x p reqs (i, r) s" and ?o = "put_at (pended x) (i, r) outs"
  have "settle_pending x p reqs (r, i) outs s = (Inr ?o, ?s)"
    by (simp add: v settle_pending_def io_simps Let_def settle_store_def request_row_def put_at_def
        pended_def)
  then have "fold_io (settle_pending x p reqs) (zip rs ms) ?o ?s = (Inr outs', s')"
    using Cons.prems by simp
  from Cons.IH [OF this] v show ?case by simp
qed

lemma multicall_unfold:
  "multicall_batch x co p reqs s =
     (let results = map (\<lambda>r. map_option oc_bytes (cached_outcome s (request_hash x r))) reqs;
          misses = batch_misses x s reqs
      in if misses = [] then unwrap_all results s
         else if co then (Inl (JsonRpc (pr_name p) ''batch'' (- 32002)
             (''cache-only replay: '' @ show_nat (length reqs - length misses) @ '' of ''
              @ show_nat (length reqs) @ '' cached, '' @ show_nat (length misses)
              @ '' missing in batch'')), s)
         else (case call_batch x p (miss_batch x s reqs) s of
             (Inl e, s1) \<Rightarrow> (Inl e, s1)
           | (Inr rs, s1) \<Rightarrow>
               (case fold_io (settle_pending x p reqs) (zip rs misses) results s1 of
                  (Inl e, s2) \<Rightarrow> (Inl e, s2)
                | (Inr out, s2) \<Rightarrow> unwrap_all out s2)))"
proof -
  have r: "map_option fst (cache_get s h) = map_option oc_bytes (cached_outcome s h)" for h
    by (auto simp: cached_outcome_def split: option.splits)
  have m: "filter (\<lambda>i. map (\<lambda>r. map_option oc_bytes (cached_outcome s (request_hash x r))) reqs ! i = None)
      [0..<length reqs] = batch_misses x s reqs"
    by (auto simp: batch_misses_def batch_outs_def intro!: filter_cong)
  have c: "call_batch x p (miss_batch x s reqs) s = (Inr rs, s1) \<Longrightarrow>
      length rs = length (batch_misses x s reqs)" for rs s1
    using call_batch_length by fastforce
  show ?thesis
    unfolding multicall_batch_def Let_def r m miss_batch_def [symmetric]
    by (auto simp: andthen_def throw_def dest: c split: prod.splits sum.splits)
qed

text \<open>What the caller of the first reader sees when it keeps the bytes only.\<close>

definition outcome_bytes :: "core_error + outcome \<Rightarrow> core_error + string" where
  "outcome_bytes r = (case r of Inl e \<Rightarrow> Inl e | Inr oc \<Rightarrow> Inr (oc_bytes oc))"

lemma outcome_bytes_simps [simp]:
  "outcome_bytes (Inl e) = Inl e" "outcome_bytes (Inr oc) = Inr (oc_bytes oc)"
  by (simp_all add: outcome_bytes_def)

lemma outcome_bytes_Inr: "outcome_bytes r = Inr b \<longleftrightarrow> (\<exists>oc. r = Inr oc \<and> oc_bytes oc = b)"
  by (cases r) auto

lemma settled_pended:
  "\<forall>ir\<in>set irs. \<exists>v. snd ir = Inr v \<Longrightarrow>
   map (map_option outcome_bytes) outs = map (map_option Inr) outs' \<Longrightarrow>
   map (map_option outcome_bytes) (fold (put_at (settled x reqs)) irs outs)
     = map (map_option Inr) (fold (put_at (pended x)) irs outs')"
proof (induction irs arbitrary: outs outs')
  case Nil
  then show ?case by simp
next
  case (Cons ir irs)
  obtain v where "snd ir = Inr v" using Cons.prems by auto
  then have "map (map_option outcome_bytes) (put_at (settled x reqs) ir outs)
      = map (map_option Inr) (put_at (pended x) ir outs')"
    using Cons.prems(2) by (simp add: put_at_def settled_def pended_def map_update)
  then show ?case using Cons.IH Cons.prems(1) by simp
qed

lemma unwrapped_agree:
  assumes "map (map_option outcome_bytes) outs = map (map_option Inr) out"
    and "\<forall>b\<in>set out. b \<noteq> None" "bs = map the out"
  shows "map outcome_bytes (map the outs) = map Inr bs"
proof (rule nth_equalityI)
  have l: "length outs = length out" using assms(1) map_eq_imp_length_eq by blast
  then show "length (map outcome_bytes (map the outs)) = length (map Inr bs)"
    using assms(3) by simp
  fix i assume "i < length (map outcome_bytes (map the outs))"
  then have i: "i < length outs" "i < length out" using l by simp_all
  from arg_cong [OF assms(1), of "\<lambda>xs. xs ! i"] i
  have "map_option outcome_bytes (outs ! i) = map_option Inr (out ! i)" by simp
  moreover have "out ! i \<noteq> None" using assms(2) i by simp
  ultimately show "map outcome_bytes (map the outs) ! i = map Inr bs ! i"
    using i assms(3) by (cases "outs ! i"; cases "out ! i") simp_all
qed

lemma unwrap_all_world: "unwrap_all outs s = (r, s') \<Longrightarrow> s' = s"
  by (auto simp: unwrap_all_def ret_def throw_def split: if_splits)

lemma keeps_unwrap_all: "keeps P (unwrap_all outs)"
  by (simp add: unwrap_all_def)

lemma keeps_cache_multicall: "keeps (cache_ok x) (multicall_batch x co p reqs)"
proof -
  have sp: "keeps (cache_ok x) (settle_pending x p reqs rm outs)" for rm outs
    by (auto simp: settle_pending_def Let_def request_hash_def split: prod.splits
        intro!: keeps_andthen keeps_modifying cache_ok_put make_cache_row_ok)
  have f: "keeps (cache_ok x) (fold_io (settle_pending x p reqs) ys outs)" for ys outs
    by (intro keeps_fold_io sp)
  have "keeps (cache_ok x) (andthen (call_batch x p batch) (\<lambda>rs. if length rs \<noteq> length ms
     then throw (e rs) else andthen (fold_io (settle_pending x p reqs) (zip rs ms) outs) unwrap_all))"
    for batch ms outs e
    by (intro keeps_andthen keeps_cache_call_batch) (auto intro!: keeps_andthen f keeps_unwrap_all)
  then show ?thesis
    using keepsD [OF keeps_unwrap_all, of "cache_ok x"]
    by (auto simp: keeps_def multicall_batch_def Let_def)
qed

lemma keeps_cache_single: "keeps (cache_ok x) (single_call_cached x co p m ps b)"
proof -
  have "keeps (cache_ok x) (andthen (call_once x p m ps) (\<lambda>v.
      andthen (modifying (cache_put (make_cache_row x (compute_call_hash x m ps b) m ps b
         (json_text x v) (pr_name p) None)))
       (\<lambda>_. ret \<lparr>oc_hash = compute_call_hash x m ps b, oc_bytes = json_text x v,
                 oc_resp_hash = hash_response_bytes x (json_text x v)\<rparr>)))"
    by (auto intro!: keeps_andthen keeps_cache_call_once keeps_modifying cache_ok_put
        make_cache_row_ok)
  then show ?thesis
    by (auto simp: keeps_def single_call_cached_def Let_def split: option.splits)
qed

lemma call_batch_no_panic: "call_batch x p batch s \<noteq> (Inl (Panic t), s')"
  by (auto simp: call_batch_def split: prod.splits http_result.splits option.splits)

section \<open>Response routing\<close>

lemma place_responses_at:
  assumes "i < length batch" "length results = length batch" "distinct (map rs_id (filter (\<lambda>r. rs_id r \<noteq> None) rs))"
  shows "place_responses name batch rs results ! i =
    (case List.find (\<lambda>r. rs_id r = Some (Suc i)) rs of
       None \<Rightarrow> results ! i | Some r \<Rightarrow> response_value name (fst (batch ! i)) r)"
proof (cases "List.find (\<lambda>r. rs_id r = Some (Suc i)) rs")
  case None
  have "place_responses name batch rs results ! i = results ! i"
    by (rule place_responses_untouched) (use None assms in \<open>auto simp: find_None_iff\<close>)
  with None show ?thesis by simp
next
  case (Some r)
  then obtain us vs where rs: "rs = us @ r # vs" and id: "rs_id r = Some (Suc i)"
    by (auto simp: find_Some_iff dest: id_take_nth_drop)
  have "\<forall>q\<in>set vs. rs_id q \<noteq> Some (Suc i)"
    using assms(3) id by (auto simp: rs image_iff)
  then show ?thesis using Some assms(1,2) id rs place_responses_hit by simp
qed

lemma find_id_perm:
  assumes "distinct (map rs_id (filter (\<lambda>r. rs_id r \<noteq> None) rs))" "mset rs = mset rs'"
  shows "List.find (\<lambda>r. rs_id r = Some k) rs = List.find (\<lambda>r. rs_id r = Some k) rs'"
proof -
  have uniq: "q = r" if "q \<in> set rs" "r \<in> set rs" "rs_id q = Some k" "rs_id r = Some k" for q r
    using assms(1) that by (auto simp: distinct_map inj_on_def)
  have st: "set rs = set rs'" using assms(2) by (rule mset_eq_setD)
  show ?thesis
  proof (cases "\<exists>r\<in>set rs. rs_id r = Some k")
    case True
    then obtain r where r: "r \<in> set rs" "rs_id r = Some k" by blast
    have f: "List.find (\<lambda>r. rs_id r = Some k) qs = Some r" if "set qs = set rs" for qs
    proof (cases "List.find (\<lambda>r. rs_id r = Some k) qs")
      case None
      with r that show ?thesis by (auto simp: find_None_iff)
    next
      case (Some q)
      then have "q \<in> set qs" "rs_id q = Some k" by (auto simp: find_Some_iff)
      with uniq r that Some show ?thesis by auto
    qed
    show ?thesis using f [of rs] f [of rs'] st by simp
  next
    case False
    then show ?thesis using st by (simp add: find_None_iff [THEN iffD2])
  qed
qed

section \<open>A concrete run\<close>

text \<open>A provider that answers every post, counting them in the network state.\<close>

definition sample_provider :: "nat provider" where
  "sample_provider = \<lparr>pr_name = ''chainstack'', pr_post = (\<lambda>req n. (Body ''ok'', Suc n))\<rparr>"

definition sample_request :: request where
  "sample_request = (''eth_chainId'', JArr [], Some 5)"

lemmas sample_defs = sample_provider_def sample_request_def sample_ext_def empty_world_def

lemma sample_batch_run:
  "batch_call_cached sample_ext False sample_provider [sample_request] (empty_world 0) =
     (Inr [Inr \<lparr>oc_hash = request_hash sample_ext sample_request, oc_bytes = [CHR 0x22] @ ''ok'' @ [CHR 0x22],
                oc_resp_hash = [CHR 0x22] @ ''ok'' @ [CHR 0x22]\<rparr>],
      cache_put (request_row sample_ext sample_provider sample_request (JStr ''ok''))
        ((empty_world 0)\<lparr>w_net := 1\<rparr>))"
  by (simp add: sample_defs batch_call_cached_def cached_outcome_def cache_get_def cache_row_at_def
      request_hash_def call_batch_def post_def response_value_def settle_entry_def io_simps Let_def
      unwrap_all_def request_row_def hash_response_bytes_def)

lemma call_once_no_divergence: "call_once x p m ps s \<noteq> (Inl (RpcDivergence d), s')"
  by (auto simp: call_once_def response_value_def
      split: prod.splits http_result.splits option.splits)

section \<open>Properties\<close>

text \<open>
  C1. Replay: whatever a sequence of cached calls read, the same sequence run again on the
  database it left reads the same outcomes in cache-only mode, with any provider and any
  state of the network, and changes nothing.
\<close>

theorem replay_reads_the_same:
  assumes "map_io (fetch_request x co p) reqs s = (Inr ocs, s')"
  shows "map_io (fetch_request x True q) reqs (s'\<lparr>w_net := n\<rparr>) = (Inr ocs, s'\<lparr>w_net := n\<rparr>)"
proof -
  have "list_all2 (\<lambda>r oc. look_request x s' r = Some oc) reqs ocs"
    using assms by (rule rpc_reads.fills_all)
  then have "list_all2 (\<lambda>r oc. look_request x (s'\<lparr>w_net := n\<rparr>) r = Some oc) reqs ocs"
    by (simp add: look_request_def)
  then show ?thesis by (rule rpc_reads.warm_all)
qed

theorem replay_reads_the_same_witness:
  "\<exists>ocs s'. map_io (fetch_request sample_ext False sample_provider) [sample_request] (empty_world 0)
       = (Inr ocs, s')
     \<and> map_io (fetch_request sample_ext True sample_provider) [sample_request] (s'\<lparr>w_net := 9\<rparr>)
       = (Inr ocs, s'\<lparr>w_net := 9\<rparr>)"
proof -
  obtain ocs s' where run: "map_io (fetch_request sample_ext False sample_provider) [sample_request]
      (empty_world 0) = (Inr ocs, s')"
    by (simp add: sample_defs fetch_request_def single_call_cached_def cached_outcome_def
        cache_get_def cache_row_at_def call_once_def post_def response_value_def io_simps Let_def)
  show ?thesis using run replay_reads_the_same [OF run] by blast
qed

text \<open>Every success of a batched read is in the cache afterwards, under its request's key.\<close>

lemma batch_success_cached:
  assumes "distinct (map (request_hash x) reqs)"
    and run: "batch_call_cached x co p reqs s = (Inr outs, s')"
    and i: "i < length reqs" and oc: "outs ! i = Inr oc"
  shows "length outs = length reqs \<and> cached_outcome s' (request_hash x (reqs ! i)) = Some oc"
proof (cases rule: batch_call_cached_cases [of x s reqs co p])
  case warm
  with run i oc show ?thesis
    using batch_misses_iff [of i x s reqs] by auto
next
  case (fetched rs s1 outs0)
  let ?ms = "batch_misses x s reqs"
  have same: "cached_outcome s1 h = cached_outcome s h" for h
    using fetched(3) by (rule cached_outcome_call_batch)
  have outs: "outs = map the outs0" and s': "s' = fold (settle_store x p reqs) (zip ?ms rs) s1"
    using run fetched(7) by auto
  have at_i: "outs0 ! i = (if i \<in> set ?ms then settled x reqs i (the (map_of (zip ?ms rs) i))
      else Some (Inr (the (cached_outcome s (request_hash x (reqs ! i))))))"
    unfolding fetched(5) using fetched(4) i by (rule batch_filled)
  have ln: "length outs = length reqs" using outs fetched(6) by simp
  show ?thesis
  proof (cases "i \<in> set ?ms")
    case False
    then obtain oc' where "cached_outcome s (request_hash x (reqs ! i)) = Some oc'"
      using i by (auto simp: batch_misses_iff)
    with False at_i outs oc i fetched(6) same ln show ?thesis
      by (simp add: s' cached_outcome_settle_store)
  next
    case True
    then obtain k where k: "k < length ?ms" "?ms ! k = i" by (auto simp: in_set_conv_nth)
    have m: "(i, rs ! k) \<in> set (zip ?ms rs)"
      using k fetched(4) in_set_zip_nth [of k ?ms rs] by simp
    then have mo: "map_of (zip ?ms rs) i = Some (rs ! k)" using fetched(4) by simp
    from at_i True mo oc outs i fetched(6) obtain v where v: "rs ! k = Inr v"
      and ocv: "oc = \<lparr>oc_hash = request_hash x (reqs ! i), oc_bytes = json_text x v,
           oc_resp_hash = hash_response_bytes x (json_text x v)\<rparr>"
      by (auto simp: settled_def split: sum.splits)
    have "map (\<lambda>ir. request_hash x (reqs ! fst ir)) (zip ?ms rs)
        = map (\<lambda>j. request_hash x (reqs ! j)) ?ms"
      using fetched(4) by (intro nth_equalityI) simp_all
    moreover have inj: "inj_on (\<lambda>j. request_hash x (reqs ! j)) (set ?ms)"
    proof (rule inj_onI)
      fix j l assume "j \<in> set ?ms" "l \<in> set ?ms"
        and e: "request_hash x (reqs ! j) = request_hash x (reqs ! l)"
      then have "j < length reqs" "l < length reqs" by (simp_all add: batch_misses_iff)
      with e assms(1) nth_eq_iff_index_eq [of "map (request_hash x) reqs" j l] show "j = l"
        by simp
    qed
    moreover have "distinct (map (\<lambda>j. request_hash x (reqs ! j)) ?ms)"
      using inj by (simp add: distinct_map)
    ultimately have d: "distinct (map (\<lambda>ir. request_hash x (reqs ! fst ir)) (zip ?ms rs))" by simp
    have "cached_outcome s1 (request_hash x (reqs ! i)) = None"
      using True by (simp add: same batch_misses_iff)
    with settle_store_hit [OF d] m v have
      "cached_outcome s' (request_hash x (reqs ! i)) = Some oc" by (simp add: s' ocv)
    with ln show ?thesis by simp
  qed
qed (use run in auto)

text \<open>
  C2. A batched read agrees with single reads: every success at position \<open>i\<close> is what a
  later cache-only \<open>single_call_cached\<close> of request \<open>i\<close> returns, under the key of request \<open>i\<close>.
\<close>

theorem batch_agrees_with_single:
  assumes "distinct (map (request_hash x) reqs)"
    and run: "batch_call_cached x co p reqs s = (Inr outs, s')"
    and i: "i < length reqs" and oc: "outs ! i = Inr oc"
  shows "length outs = length reqs \<and> oc_hash oc = request_hash x (reqs ! i)
    \<and> fetch_request x True q (reqs ! i) s' = (Inr oc, s')"
proof -
  from batch_success_cached [OF assms]
  have "length outs = length reqs" and c: "look_request x s' (reqs ! i) = Some oc"
    by (simp_all add: look_request_def)
  moreover have "oc_hash oc = request_hash x (reqs ! i)"
    using c by (auto simp: look_request_def dest: cached_outcome_hash)
  ultimately show ?thesis using rpc_reads.warm [OF c] by blast
qed

theorem batch_agrees_with_single_witness:
  "\<exists>outs s' oc. batch_call_cached sample_ext False sample_provider [sample_request] (empty_world 0)
       = (Inr outs, s')
     \<and> outs ! 0 = Inr oc \<and> fetch_request sample_ext True sample_provider sample_request s' = (Inr oc, s')"
proof -
  have d: "distinct (map (request_hash sample_ext) [sample_request])" by simp
  have i: "0 < length [sample_request]" by simp
  show ?thesis
    using batch_agrees_with_single [OF d sample_batch_run i, where q = sample_provider]
      sample_batch_run by fastforce
qed

text \<open>
  The batched reader never panics: neither its index into the miss list nor the final
  \<open>expect("all positions filled")\<close> can fail, whatever the server answers.
\<close>

theorem batch_never_panics: "fst (batch_call_cached x co p reqs s) \<noteq> Inl (Panic t)"
proof (cases rule: batch_call_cached_cases [of x s reqs co p])
  case (failed e s1)
  then show ?thesis using call_batch_no_panic by fastforce
qed (auto simp: cache_only_error_def)

text \<open>
  C4. Integrity of \<open>rpc_call_cache\<close>: every key is the hash of its row's call, every response
  hash is the hash of the stored bytes, a cross-check hash equals it, keys are unique; the
  four readers keep this whether they succeed or fail.
\<close>

theorem cache_integrity:
  assumes "cache_ok x s"
  shows "cache_ok x (snd (single_call_cached x co p m ps blk s))
    \<and> cache_ok x (snd (cross_check_call x co p q m ps blk s))
    \<and> cache_ok x (snd (batch_call_cached x co p reqs s))
    \<and> cache_ok x (snd (multicall_batch x co p reqs s))"
  by (intro conjI keepsD [OF keeps_cache_single assms] keepsD [OF keeps_cache_cross assms]
      keepsD [OF keeps_cache_batch assms] keepsD [OF keeps_cache_multicall assms])

theorem cache_integrity_witness:
  "cache_ok sample_ext (empty_world 0)
   \<and> cache_ok sample_ext (snd (batch_call_cached sample_ext False sample_provider [sample_request]
        (empty_world 0)))"
proof -
  have ok: "cache_ok sample_ext (empty_world 0)" by (simp add: cache_ok_def empty_world_def)
  show ?thesis using ok cache_integrity [OF ok] by blast
qed

text \<open>
  The two batched readers agree: where the all-or-nothing one returns bytes, the other
  returns exactly those bytes in the same positions and leaves the same world.
\<close>

theorem multicall_matches_batch:
  assumes "multicall_batch x co p reqs s = (Inr bs, s')"
  shows "\<exists>outs. batch_call_cached x co p reqs s = (Inr outs, s')
    \<and> map outcome_bytes outs = map Inr bs"
proof (cases rule: batch_call_cached_cases [of x s reqs co p])
  case warm
  have "\<forall>r\<in>set reqs. cached_outcome s (request_hash x r) \<noteq> None"
    using warm(1) batch_misses_iff [of _ x s reqs] by (metis in_set_conv_nth list.set(1) empty_iff)
  then have b: "unwrap_all (map (\<lambda>r. map_option oc_bytes (cached_outcome s (request_hash x r))) reqs) s
      = (Inr (map (\<lambda>r. oc_bytes (the (cached_outcome s (request_hash x r)))) reqs), s)"
    by (auto simp: unwrap_all_def ret_def list_all_iff)
  show ?thesis
    using assms warm b by (simp add: multicall_unfold Let_def)
      (auto simp: comp_def)
next
  case refused
  then show ?thesis using assms by (simp add: multicall_unfold Let_def)
next
  case (failed e s1)
  then show ?thesis using assms by (simp add: multicall_unfold Let_def)
next
  case (fetched rs s1 outs0)
  let ?ms = "batch_misses x s reqs"
  let ?res = "map (\<lambda>r. map_option oc_bytes (cached_outcome s (request_hash x r))) reqs"
  from assms fetched(1-3) obtain out where
    f: "fold_io (settle_pending x p reqs) (zip rs ?ms) ?res s1 = (Inr out, s')"
    and u: "unwrap_all out s' = (Inr bs, s')"
    by (simp add: multicall_unfold Let_def split: prod.splits sum.splits)
      (blast dest: unwrap_all_world)
  from pending_fold [OF f fetched(4)] have all: "\<forall>r\<in>set rs. \<exists>v. r = Inr v"
    and out: "out = fold (put_at (pended x)) (zip ?ms rs) ?res"
    and s': "s' = fold (settle_store x p reqs) (zip ?ms rs) s1" by blast+
  have "map (map_option outcome_bytes) outs0 = map (map_option Inr) out"
    unfolding fetched(5) out
    by (rule settled_pended) (use all in \<open>auto simp: batch_outs_def option.map_comp comp_def
      dest: set_zip_rightD\<close>)
  moreover have "\<forall>b\<in>set out. b \<noteq> None" and "bs = map the out"
    using u by (auto simp: unwrap_all_def ret_def throw_def list_all_iff split: if_splits)
  ultimately have "map outcome_bytes (map the outs0) = map Inr bs"
    by (rule unwrapped_agree)
  then show ?thesis using fetched(7) s' by blast
qed

theorem multicall_matches_batch_witness:
  "\<exists>bs s' outs. multicall_batch sample_ext False sample_provider [sample_request] (empty_world 0)
       = (Inr bs, s')
     \<and> batch_call_cached sample_ext False sample_provider [sample_request] (empty_world 0)
       = (Inr outs, s') \<and> map outcome_bytes outs = map Inr bs"
proof -
  obtain bs s' where run: "multicall_batch sample_ext False sample_provider [sample_request]
      (empty_world 0) = (Inr bs, s')"
    by (simp add: sample_defs multicall_batch_def cache_get_def cache_row_at_def request_hash_def
        call_batch_def post_def response_value_def settle_pending_def io_simps Let_def unwrap_all_def)
  show ?thesis using run multicall_matches_batch [OF run] by blast
qed

text \<open>
  Batch responses are routed by id, not by order: if the ids a server sends are distinct,
  any reordering of its answer gives the same result list.
\<close>

theorem responses_in_any_order:
  assumes "distinct (map rs_id (filter (\<lambda>r. rs_id r \<noteq> None) rs))" "mset rs = mset rs'"
    and len: "length results = length batch"
  shows "place_responses name batch rs results = place_responses name batch rs' results"
proof (rule nth_equalityI)
  show "length (place_responses name batch rs results) = length (place_responses name batch rs' results)"
    by simp
next
  fix i assume "i < length (place_responses name batch rs results)"
  then have i: "i < length batch" using len by simp
  have "distinct (map rs_id (filter (\<lambda>r. rs_id r \<noteq> None) rs'))"
    using assms(1) by (rule mset_eq_imp_distinct_iff [THEN iffD1, rotated]) (simp add: assms(2))
  then show "place_responses name batch rs results ! i = place_responses name batch rs' results ! i"
    using place_responses_at [OF i len] find_id_perm [OF assms(1,2)] assms(1) by simp
qed

theorem responses_in_any_order_witness:
  "place_responses ''p'' [(''a'', JNull), (''b'', JNull)]
      [\<lparr>rs_id = Some 1, rs_result = Some (JNum 1), rs_error = None\<rparr>,
       \<lparr>rs_id = Some 2, rs_result = Some (JNum 2), rs_error = None\<rparr>] [Inr JNull, Inr JNull]
   = place_responses ''p'' [(''a'', JNull), (''b'', JNull)]
      [\<lparr>rs_id = Some 2, rs_result = Some (JNum 2), rs_error = None\<rparr>,
       \<lparr>rs_id = Some 1, rs_result = Some (JNum 1), rs_error = None\<rparr>] [Inr JNull, Inr JNull]"
  by (rule responses_in_any_order) simp_all

text \<open>
  Keys separate calls: the text that is hashed determines the method, the parameters and
  the block. The hypotheses on the serialiser are what it documents: different values print
  differently, and control characters are escaped, so no NUL is printed.
\<close>

theorem cache_key_separates_calls:
  assumes "json_text x ps = json_text x ps' \<longrightarrow> ps = ps'"
    and "NUL \<notin> set (json_text x ps)" "NUL \<notin> set (json_text x ps')"
    and "NUL \<notin> set m" "NUL \<notin> set m'" "i64_opt b" "i64_opt b'"
  shows "call_preimage x m ps b = call_preimage x m' ps' b' \<longleftrightarrow> m = m' \<and> ps = ps' \<and> b = b'"
  using call_preimage_inj [OF assms] by blast

theorem cache_key_separates_calls_witness:
  "call_preimage sample_ext ''eth_call'' (JArr [JStr ''0x5'']) (Some 5)
     \<noteq> call_preimage sample_ext ''eth_call'' (JArr [JStr ''0x5'']) None"
proof -
  have n: "NUL \<notin> set (json_text sample_ext (JArr [JStr ''0x5'']))" "NUL \<notin> set ''eth_call''"
    by (simp_all add: sample_ext_def NUL_def)
  have b: "i64_opt (Some 5)" "i64_opt None" by (simp_all add: i64_opt_def)
  show ?thesis
    using cache_key_separates_calls [of sample_ext "JArr [JStr ''0x5'']" "JArr [JStr ''0x5'']",
        OF _ n(1) n(1) n(2) n(2) b] by simp
qed

text \<open>
  The verdict of a cross-check: on success either the answer was cached or both providers
  were asked, agree on the hash and the answer of the first is stored with both hashes; on a
  divergence nothing is cached and exactly one divergence row with two different hashes is
  added; on any other error neither table changes.
\<close>

theorem cross_check_verdict:
  "case cross_check_call x co a b m ps blk s of
     (Inr oc, s') \<Rightarrow>
       (s' = s \<and> cached_outcome s (compute_call_hash x m ps blk) = Some oc)
       \<or> (\<exists>va s1 vb s2. call_once x a m ps s = (Inr va, s1) \<and> call_once x b m ps s1 = (Inr vb, s2)
            \<and> hash_response_bytes x (json_text x va) = hash_response_bytes x (json_text x vb)
            \<and> oc_bytes oc = json_text x va
            \<and> cached_outcome s' (compute_call_hash x m ps blk) = Some oc
            \<and> w_divergences s' = w_divergences s)
   | (Inl (RpcDivergence d), s') \<Rightarrow>
       w_cache s' = w_cache s
       \<and> (\<exists>g. w_divergences s' = w_divergences s @ [g] \<and> g_hash_a g \<noteq> g_hash_b g
             \<and> divergence_of g = RpcDivergence d)
   | (Inl e, s') \<Rightarrow> w_cache s' = w_cache s \<and> w_divergences s' = w_divergences s"
proof -
  let ?h = "compute_call_hash x m ps blk"
  have fr: "w_cache u' = w_cache u \<and> w_divergences u' = w_divergences u"
    if "call_once x p m ps u = (r, u')" for p r u u'
    using arg_cong [where f = w_cache, OF call_once_frame [OF that]]
      arg_cong [where f = w_divergences, OF call_once_frame [OF that]] by simp
  show ?thesis
  proof (cases "co \<or> cached_outcome s ?h \<noteq> None")
    case True
    then show ?thesis
      by (cases "cached_outcome s ?h") (auto simp: cross_check_call_def Let_def cache_only_error_def)
  next
    case False
    obtain ra s1 where a: "call_once x a m ps s = (ra, s1)" by fastforce
    show ?thesis
    proof (cases ra)
      case (Inl e)
      then have "cross_check_call x co a b m ps blk s = (Inl e, s1)"
        using False a by (auto simp: cross_check_call_def andthen_def)
      then show ?thesis using fr [OF a] a Inl by (cases e) (auto simp: call_once_no_divergence)
    next
      case va: (Inr va)
      obtain rb s2 where b: "call_once x b m ps s1 = (rb, s2)" by fastforce
      show ?thesis
      proof (cases rb)
        case (Inl e)
        then have "cross_check_call x co a b m ps blk s = (Inl e, s2)"
          using False a va b by (auto simp: cross_check_call_def andthen_def)
        then show ?thesis using fr [OF a] fr [OF b] b Inl by (cases e) (auto simp: call_once_no_divergence)
      next
        case vb: (Inr vb)
        have "cached_outcome s2 ?h = None"
          using False cached_outcome_call_once [OF a] cached_outcome_call_once [OF b] by simp
        moreover have "w_divergences (cache_put r u) = w_divergences u" for r and u :: "'a world"
          by (simp add: cache_put_def)
        ultimately show ?thesis using False a va b vb fr [OF a] fr [OF b]
          by (auto simp: cross_check_call_def io_simps Let_def record_divergence_def
              make_divergence_def cached_outcome_put make_cache_row_def divergence_of_def)
      qed
    qed
  qed
qed

end
