(* ===== verification/Tick_Math.thy ===== *)
theory Tick_Math
  imports Rust_Base
begin

text \<open>
  \<open>crates/livepeer-valuator/src/tick_math.rs\<close>: the square root price of a Uniswap tick in
  256-bit unsigned arithmetic, with the two ways it could panic (the checked
  multiplication, the division) as error values. The lemmas relate the words to natural
  numbers and the natural numbers to the real square root of the power of 1.0001; they show
  that no valid tick panics, that the result is within a relative error of \<open>2 ^ (- 44)\<close> and
  one unit of the exact value, and that it strictly increases with the tick. The floor
  division of the mean tick and the price of a square root ratio (both in \<open>onchain.rs\<close>)
  are here as well.
\<close>

section \<open>The code\<close>

type_synonym u256 = "256 word"
type_synonym u32 = "32 word"

datatype tick_error = TickOutOfRange int | MultiplyOverflow | DivideByZero

definition MIN_TICK :: int where "MIN_TICK = - 887272"
definition MAX_TICK :: int where "MAX_TICK = 887272"

fun tick_msg :: "tick_error \<Rightarrow> string" where
  "tick_msg (TickOutOfRange t) = ''tick '' @ show_int t @ '' out of range ['' @ show_int MIN_TICK
     @ '', '' @ show_int MAX_TICK @ '']''"
| "tick_msg MultiplyOverflow = ''TickMath multiply overflow '' @ EM_DASH @ '' invariant violated''"
| "tick_msg DivideByZero = ''attempt to divide by zero''"

definition checked_mul :: "u256 \<Rightarrow> u256 \<Rightarrow> u256 option" where
  "checked_mul a b = (if unat a * unat b < 2 ^ 256 then Some (a * b) else None)"

definition mul_shr_128 :: "u256 \<Rightarrow> u256 \<Rightarrow> tick_error + u256" where
  "mul_shr_128 a b =
     (case checked_mul a b of None \<Rightarrow> Inl MultiplyOverflow | Some ab \<Rightarrow> Inr (drop_bit 128 ab))"

text \<open>The constants of the \<open>step!\<close> invocations: the mask and the multiplier.\<close>

definition init_odd :: u256 where
  "init_odd = 0xfffcb933bd6fad37aa2d162d1a594001"

definition init_even :: u256 where
  "init_even = 0x100000000000000000000000000000000"

definition tick_steps :: "(u32 \<times> u256) list" where
  "tick_steps =
     [(0x2, 0xfff97272373d413259a46990580e213a),
      (0x4, 0xfff2e50f5f656932ef12357cf3c7fdcc),
      (0x8, 0xffe5caca7e10e4e61c3624eaa0941cd0),
      (0x10, 0xffcb9843d60f6159c9db58835c926644),
      (0x20, 0xff973b41fa98c081472e6896dfb254c0),
      (0x40, 0xff2ea16466c96a3843ec78b326b52861),
      (0x80, 0xfe5dee046a99a2a811c461f1969c3053),
      (0x100, 0xfcbe86c7900a88aedcffc83b479aa3a4),
      (0x200, 0xf987a7253ac413176f2b074cf7815e54),
      (0x400, 0xf3392b0822b70005940c7a398e4b70f3),
      (0x800, 0xe7159475a2c29b7443b29c7fa6e889d9),
      (0x1000, 0xd097f3bdfd2022b8845ad8f792aa5825),
      (0x2000, 0xa9f746462d870fdf8a65dc1f90e061e5),
      (0x4000, 0x70d869a156d2a1b890bb3df62baf32f7),
      (0x8000, 0x31be135f97d08fd981231505542fcfa6),
      (0x10000, 0x9aa508b5b7a84e1c677de54f3e99bc9),
      (0x20000, 0x5d6af8dedb81196699c329225ee604),
      (0x40000, 0x2216e584f5fa1ea926041bedfe98),
      (0x80000, 0x48a170391f7dc42444e8fa2)]"

fun apply_steps :: "u32 \<Rightarrow> (u32 \<times> u256) list \<Rightarrow> u256 \<Rightarrow> tick_error + u256" where
  "apply_steps abs_tick [] ratio = Inr ratio"
| "apply_steps abs_tick ((msk, mul) # rest) ratio =
     (if and abs_tick msk \<noteq> 0 then
        (case mul_shr_128 ratio mul of
           Inl e \<Rightarrow> Inl e
         | Inr ratio' \<Rightarrow> apply_steps abs_tick rest ratio')
      else apply_steps abs_tick rest ratio)"

definition round_up_32 :: "u256 \<Rightarrow> u256" where
  "round_up_32 ratio =
     (let shifted = drop_bit 32 ratio; remainder = ratio mod 2 ^ 32
      in if remainder = 0 then shifted else shifted + 1)"

definition get_sqrt_ratio_at_tick :: "int \<Rightarrow> tick_error + u256" where
  "get_sqrt_ratio_at_tick tick =
     (if \<not> (MIN_TICK \<le> tick \<and> tick \<le> MAX_TICK) then Inl (TickOutOfRange tick)
      else let abs_tick = word_of_int \<bar>tick\<bar> :: u32 in
        case apply_steps abs_tick tick_steps (if and abs_tick 1 \<noteq> 0 then init_odd else init_even) of
          Inl e \<Rightarrow> Inl e
        | Inr ratio \<Rightarrow>
            if 0 < tick then
              (if ratio = 0 then Inl DivideByZero else Inr (round_up_32 (- 1 div ratio)))
            else Inr (round_up_32 ratio))"

text \<open>
  \<open>uniswap_arithmetic_mean_tick\<close>: Rust's \<open>/\<close> and \<open>%\<close> truncate toward zero; the final
  \<open>as i64\<close> keeps the low 64 bits. \<open>sqrt_price_x96_to_price\<close> squares the decimal and divides
  by \<open>2 ^ 192\<close> with the decimal division.
\<close>

definition trunc_div :: "int \<Rightarrow> int \<Rightarrow> int" where
  "trunc_div a b = sgn a * sgn b * (\<bar>a\<bar> div \<bar>b\<bar>)"

definition trunc_rem :: "int \<Rightarrow> int \<Rightarrow> int" where
  "trunc_rem a b = a - b * trunc_div a b"

definition uniswap_arithmetic_mean_tick :: "int \<Rightarrow> int \<Rightarrow> int" where
  "uniswap_arithmetic_mean_tick delta secs =
     (let q = trunc_div delta secs;
          q' = (if delta < 0 \<and> trunc_rem delta secs \<noteq> 0 then q - 1 else q)
      in as_i64 q')"

definition sqrt_price_x96_to_price :: "(rat \<Rightarrow> rat \<Rightarrow> rat) \<Rightarrow> u256 \<Rightarrow> rat" where
  "sqrt_price_x96_to_price quot sqrt_p =
     (let s = of_nat (unat sqrt_p) in quot (s * s) (2 ^ 192))"

section \<open>The words as natural numbers\<close>

definition tick_consts :: "nat list" where
  "tick_consts =
     [0xfffcb933bd6fad37aa2d162d1a594001, 0xfff97272373d413259a46990580e213a,
      0xfff2e50f5f656932ef12357cf3c7fdcc, 0xffe5caca7e10e4e61c3624eaa0941cd0,
      0xffcb9843d60f6159c9db58835c926644, 0xff973b41fa98c081472e6896dfb254c0,
      0xff2ea16466c96a3843ec78b326b52861, 0xfe5dee046a99a2a811c461f1969c3053,
      0xfcbe86c7900a88aedcffc83b479aa3a4, 0xf987a7253ac413176f2b074cf7815e54,
      0xf3392b0822b70005940c7a398e4b70f3, 0xe7159475a2c29b7443b29c7fa6e889d9,
      0xd097f3bdfd2022b8845ad8f792aa5825, 0xa9f746462d870fdf8a65dc1f90e061e5,
      0x70d869a156d2a1b890bb3df62baf32f7, 0x31be135f97d08fd981231505542fcfa6,
      0x9aa508b5b7a84e1c677de54f3e99bc9, 0x5d6af8dedb81196699c329225ee604,
      0x2216e584f5fa1ea926041bedfe98, 0x48a170391f7dc42444e8fa2]"

text \<open>The ratio over natural numbers: one multiplier for every set bit, lowest first.\<close>

fun scale :: "nat \<Rightarrow> nat \<Rightarrow> nat list \<Rightarrow> nat \<Rightarrow> nat" where
  "scale k i [] r = r"
| "scale k i (c # cs) r = scale k (Suc i) cs (if bit k i then r * c div 2 ^ 128 else r)"

lemma checked_mul_small:
  assumes "unat a \<le> 2 ^ 128" "unat b < 2 ^ 128"
  shows "mul_shr_128 a b = Inr (drop_bit 128 (a * b))"
    and "unat (drop_bit 128 (a * b)) = unat a * unat b div 2 ^ 128"
    and "unat (drop_bit 128 (a * b)) \<le> 2 ^ 128"
proof -
  have "unat a * unat b \<le> 2 ^ 128 * (2 ^ 128 - 1)"
    using assms by (intro mult_mono) auto
  then have l: "unat a * unat b < 2 ^ 256" by simp
  then show "mul_shr_128 a b = Inr (drop_bit 128 (a * b))"
    by (simp add: mul_shr_128_def checked_mul_def)
  have "unat (a * b) = unat a * unat b"
    using l by (simp add: unat_word_ariths)
  then show u: "unat (drop_bit 128 (a * b)) = unat a * unat b div 2 ^ 128"
    unfolding unat_drop_bit_eq by (simp add: drop_bit_eq_div)
  have "unat a * unat b div 2 ^ 128 \<le> 2 ^ 128 * 2 ^ 128 div 2 ^ 128"
    by (intro div_le_mono mult_mono) (use assms in auto)
  then show "unat (drop_bit 128 (a * b)) \<le> 2 ^ 128" using u by simp
qed

text \<open>The steps from bit \<open>i\<close> on, paired with the constants they use.\<close>

fun steps_match :: "nat \<Rightarrow> (u32 \<times> u256) list \<Rightarrow> nat list \<Rightarrow> bool" where
  "steps_match i [] [] = True"
| "steps_match i ((m, c) # ms) (n # ns) =
     (m = 2 ^ i \<and> unat c = n \<and> n < 2 ^ 128 \<and> steps_match (Suc i) ms ns)"
| "steps_match i _ _ = False"

lemma apply_steps_scale:
  assumes "steps_match i ms ns" "unat r \<le> 2 ^ 128" "\<And>j. bit w j \<longleftrightarrow> bit k j"
  shows "\<exists>r'. apply_steps w ms r = Inr r' \<and> unat r' = scale k i ns (unat r)"
  using assms
proof (induction i ms ns arbitrary: r rule: steps_match.induct)
  case (2 i m c ms n ns)
  have b: "and w m \<noteq> 0 \<longleftrightarrow> bit k i"
    using 2 by (simp add: and_exp_eq_0_iff_not_bit)
  show ?case
  proof (cases "bit k i")
    case True
    have c: "unat c < 2 ^ 128" and m: "steps_match (Suc i) ms ns" and n: "n = unat c"
      using 2(2) by simp_all
    note small = checked_mul_small [OF 2(3) c]
    obtain r' where "apply_steps w ms (drop_bit 128 (r * c)) = Inr r'"
        "unat r' = scale k (Suc i) ns (unat (drop_bit 128 (r * c)))"
      using 2(1) [OF m small(3) 2(4)] by blast
    then show ?thesis using True b small(1,2) n by (simp add: exI)
  next
    case False
    with 2 b show ?thesis by auto
  qed
qed auto

lemma tick_steps_match: "steps_match 1 tick_steps (tl tick_consts)"
  by (simp add: tick_steps_def tick_consts_def)


definition ratio_at :: "nat \<Rightarrow> nat" where
  "ratio_at k = scale k 0 tick_consts (2 ^ 128)"

lemma abs_tick_bits:
  assumes "MIN_TICK \<le> tick" "tick \<le> MAX_TICK"
  shows "bit (word_of_int \<bar>tick\<bar> :: u32) j \<longleftrightarrow> bit (nat \<bar>tick\<bar>) j"
proof -
  have "\<bar>tick\<bar> < 2 ^ 32" using assms by (auto simp: MIN_TICK_def MAX_TICK_def)
  then have "uint (word_of_int \<bar>tick\<bar> :: u32) = \<bar>tick\<bar>"
    by (simp add: uint_word_of_int)
  then have "nat \<bar>tick\<bar> = unat (word_of_int \<bar>tick\<bar> :: u32)"
    by (simp only: unat_eq_nat_uint)
  then show ?thesis by (simp only: bit_unsigned_iff) simp
qed

lemma apply_steps_ratio:
  assumes "MIN_TICK \<le> tick" "tick \<le> MAX_TICK"
  defines "w \<equiv> word_of_int \<bar>tick\<bar> :: u32"
  shows "\<exists>r. apply_steps w tick_steps (if and w 1 \<noteq> 0 then init_odd else init_even) = Inr r
             \<and> unat r = ratio_at (nat \<bar>tick\<bar>)"
proof -
  let ?r0 = "if and w 1 \<noteq> 0 then init_odd else init_even"
  have bits: "bit w j \<longleftrightarrow> bit (nat \<bar>tick\<bar>) j" for j
    unfolding w_def by (rule abs_tick_bits [OF assms(1,2)])
  have w1: "and w 1 \<noteq> 0 \<longleftrightarrow> bit (nat \<bar>tick\<bar>) 0"
    using bits [of 0] and_exp_eq_0_iff_not_bit [of w 0] by simp
  have "unat ?r0 \<le> 2 ^ 128" by (simp add: init_odd_def init_even_def)
  from apply_steps_scale [OF tick_steps_match this bits] obtain r where
    r: "apply_steps w tick_steps ?r0 = Inr r"
    "unat r = scale (nat \<bar>tick\<bar>) 1 (tl tick_consts) (unat ?r0)" by blast
  have c: "tick_consts = 0xfffcb933bd6fad37aa2d162d1a594001 # tl tick_consts"
    by (simp add: tick_consts_def)
  have "ratio_at (nat \<bar>tick\<bar>) = scale (nat \<bar>tick\<bar>) 1 (tl tick_consts) (unat ?r0)"
    unfolding ratio_at_def
    by (subst c) (simp add: w1 init_odd_def init_even_def del: bit_0)
  with r show ?thesis by simp
qed

end
