(* ===== verification/Tick_Accuracy.thy ===== *)
theory Tick_Accuracy
  imports Tick_Math
begin

text \<open>
  How close \<open>get_sqrt_ratio_at_tick\<close> is to the real square root of the power of 1.0001. The
  constants of the code are related to each other (each is the square of the one before, up
  to a relative error of \<open>2 ^ (- 92)\<close>), the first one to the square root of 1.0001, and
  every multiply-and-shift step loses at most one unit of a number of at least \<open>2 ^ 50\<close>.
\<close>

section \<open>The constants\<close>

definition root_q :: real where
  "root_q = 1 / sqrt (10001 / 10000)"

definition eps :: real where
  "eps = 1 / 2 ^ 92"

definition q_lo :: real where "q_lo = root_q * (1 - eps)\<^sup>2"
definition q_hi :: real where "q_hi = root_q * (1 + eps)\<^sup>2"

fun squares_up :: "nat list \<Rightarrow> bool" where
  "squares_up (a # b # cs) =
     (a\<^sup>2 * (2 ^ 92 - 1) \<le> b * 2 ^ 220 \<and> b * 2 ^ 220 \<le> a\<^sup>2 * (2 ^ 92 + 1) \<and> squares_up (b # cs))"
| "squares_up _ = True"

lemma consts_square_up: "squares_up tick_consts"
  by (simp add: tick_consts_def power2_eq_square)

lemma root_q_pos: "0 < root_q" and root_q_le_1: "root_q \<le> 1"
  by (simp_all add: root_q_def)

lemma root_q_sq: "root_q\<^sup>2 = 10000 / 10001"
  by (simp add: root_q_def power_divide)

lemma eps_bounds: "0 < eps" "eps < 1"
  by (simp_all add: eps_def)

lemma first_const:
  "q_lo / (1 - eps) \<le> real 0xfffcb933bd6fad37aa2d162d1a594001 / 2 ^ 128"
  "real 0xfffcb933bd6fad37aa2d162d1a594001 / 2 ^ 128 \<le> q_hi / (1 + eps)"
proof -
  let ?a = "real 0xfffcb933bd6fad37aa2d162d1a594001 / 2 ^ 128"
  have lo: "q_lo / (1 - eps) = root_q * (1 - eps)" and hi: "q_hi / (1 + eps) = root_q * (1 + eps)"
    using eps_bounds by (simp_all add: q_lo_def q_hi_def power2_eq_square)
  have "10000 / 10001 * (1 - eps)\<^sup>2 \<le> ?a\<^sup>2" "?a\<^sup>2 \<le> 10000 / 10001 * (1 + eps)\<^sup>2"
    by (simp_all add: eps_def power2_eq_square)
  then have sq: "(root_q * (1 - eps))\<^sup>2 \<le> ?a\<^sup>2" "?a\<^sup>2 \<le> (root_q * (1 + eps))\<^sup>2"
    by (simp_all only: power_mult_distrib root_q_sq)
  show "q_lo / (1 - eps) \<le> ?a" unfolding lo by (rule power2_le_imp_le [OF sq(1)]) simp
  show "?a \<le> q_hi / (1 + eps)"
    unfolding hi by (rule power2_le_imp_le [OF sq(2)]) (use root_q_pos eps_bounds in simp)
qed

lemma square_step:
  fixes a b :: nat and lo hi :: real
  assumes "a\<^sup>2 * (2 ^ 92 - 1) \<le> b * 2 ^ 220" "b * 2 ^ 220 \<le> a\<^sup>2 * (2 ^ 92 + 1)"
    and lo: "lo / (1 - eps) \<le> a / 2 ^ 128" "0 \<le> lo"
    and hi: "a / 2 ^ 128 \<le> hi / (1 + eps)"
  shows "lo\<^sup>2 / (1 - eps) \<le> b / 2 ^ 128" "b / 2 ^ 128 \<le> hi\<^sup>2 / (1 + eps)"
proof -
  let ?a = "real a / 2 ^ 128" and ?b = "real b / 2 ^ 128"
  have "real (a\<^sup>2 * (2 ^ 92 - 1)) \<le> real (b * 2 ^ 220)"
       "real (b * 2 ^ 220) \<le> real (a\<^sup>2 * (2 ^ 92 + 1))"
    using assms(1,2) by (simp_all only: of_nat_le_iff)
  then have c: "?a\<^sup>2 * (1 - eps) \<le> ?b" "?b \<le> ?a\<^sup>2 * (1 + eps)"
    by (simp_all add: eps_def power2_eq_square field_simps)
  have "(lo / (1 - eps))\<^sup>2 \<le> ?a\<^sup>2"
    using lo eps_bounds by (intro power_mono) simp_all
  then have "(lo / (1 - eps))\<^sup>2 * (1 - eps) \<le> ?a\<^sup>2 * (1 - eps)"
    using eps_bounds by (intro mult_right_mono) simp_all
  moreover have "(lo / (1 - eps))\<^sup>2 * (1 - eps) = lo\<^sup>2 / (1 - eps)"
    using eps_bounds by (simp add: power2_eq_square)
  ultimately show "lo\<^sup>2 / (1 - eps) \<le> ?b" using c by linarith
  have "?a\<^sup>2 \<le> (hi / (1 + eps))\<^sup>2"
    using hi by (intro power_mono) simp_all
  then have "?a\<^sup>2 * (1 + eps) \<le> (hi / (1 + eps))\<^sup>2 * (1 + eps)"
    using eps_bounds by (intro mult_right_mono) simp_all
  moreover have "(hi / (1 + eps))\<^sup>2 * (1 + eps) = hi\<^sup>2 / (1 + eps)"
    using eps_bounds by (simp add: power2_eq_square add_nonneg_eq_0_iff)
  ultimately show "?b \<le> hi\<^sup>2 / (1 + eps)" using c by linarith
qed

text \<open>Every constant of the list lies between the two powers that bracket its exact value.\<close>

fun bracketed :: "real \<Rightarrow> real \<Rightarrow> nat list \<Rightarrow> bool" where
  "bracketed lo hi [] = True"
| "bracketed lo hi (c # cs) =
     (lo \<le> c / 2 ^ 128 \<and> c / 2 ^ 128 \<le> hi \<and> bracketed (lo\<^sup>2) (hi\<^sup>2) cs)"

lemma squares_up_bracketed:
  assumes "squares_up (c # cs)" "0 \<le> lo" "0 \<le> hi"
    and "lo / (1 - eps) \<le> c / 2 ^ 128" "c / 2 ^ 128 \<le> hi / (1 + eps)"
  shows "bracketed lo hi (c # cs)"
  using assms
proof (induction cs arbitrary: c lo hi)
  case Nil
  have "lo \<le> lo / (1 - eps)" "hi / (1 + eps) \<le> hi"
    using Nil(2,3) eps_bounds by (simp_all add: field_simps)
  with Nil(4,5) have "lo \<le> c / 2 ^ 128" "c / 2 ^ 128 \<le> hi" by linarith+
  then show ?case by simp
next
  case (Cons b cs)
  have "lo \<le> lo / (1 - eps)" "hi / (1 + eps) \<le> hi"
    using Cons.prems(2,3) eps_bounds by (simp_all add: field_simps)
  moreover have "bracketed (lo\<^sup>2) (hi\<^sup>2) (b # cs)"
    using Cons.prems square_step [of c b lo hi] by (intro Cons.IH) simp_all
  moreover have "lo \<le> c / 2 ^ 128" "c / 2 ^ 128 \<le> hi"
    using calculation(1,2) Cons.prems(4,5) by linarith+
  ultimately show ?case by simp
qed

lemma consts_bracketed: "bracketed q_lo q_hi tick_consts"
proof -
  obtain cs where cs: "tick_consts = 0xfffcb933bd6fad37aa2d162d1a594001 # cs"
    by (simp add: tick_consts_def)
  show ?thesis
    unfolding cs
    by (rule squares_up_bracketed)
      (use consts_square_up cs first_const root_q_pos eps_bounds in \<open>simp_all add: q_lo_def q_hi_def\<close>)
qed

section \<open>The product of the constants\<close>

text \<open>All bits set: the smallest value the ratio can have after each constant.\<close>

fun roomy :: "nat list \<Rightarrow> nat \<Rightarrow> bool" where
  "roomy [] l = (2 ^ 52 \<le> l)"
| "roomy (c # cs) l = (c \<le> 2 ^ 128 \<and> 2 ^ 50 \<le> l * c div 2 ^ 128 \<and> roomy cs (l * c div 2 ^ 128))"

lemma consts_roomy: "roomy tick_consts (2 ^ 128)"
  by (simp add: tick_consts_def)

definition loss :: real where
  "loss = 1 - 1 / 2 ^ 50"

lemma loss_bounds: "0 \<le> loss" "loss \<le> 1"
  by (simp_all add: loss_def)

lemma roomy_mono: "roomy cs l \<Longrightarrow> l \<le> r \<Longrightarrow> roomy cs r"
proof (induction cs arbitrary: l r)
  case Nil
  then show ?case by simp
next
  case (Cons c cs)
  have m: "l * c div 2 ^ 128 \<le> r * c div 2 ^ 128"
    using Cons.prems(2) by (intro div_le_mono mult_right_mono) simp_all
  then show ?case using Cons.prems Cons.IH [OF _ m] by auto
qed

lemma roomy_skip: "roomy (c # cs) r \<Longrightarrow> roomy cs r"
proof -
  assume r: "roomy (c # cs) r"
  have "r * c div 2 ^ 128 \<le> r * 2 ^ 128 div 2 ^ 128"
    using r by (intro div_le_mono mult_left_mono) simp_all
  also have "\<dots> = r" by simp
  finally show ?thesis using r roomy_mono by auto
qed

lemma real_div_plus_1: "0 < d \<Longrightarrow> real n / real d < real (n div d) + 1"
proof -
  assume d: "0 < d"
  have "n < d * (n div d + 1)" using dividend_less_times_div [OF d, of n] by (simp add: algebra_simps)
  then have "real n < real (d * (n div d + 1))" by (simp only: of_nat_less_iff)
  with d show ?thesis by (simp add: field_simps)
qed

lemma floor_loss: "2 ^ 50 \<le> y \<Longrightarrow> 0 \<le> z \<Longrightarrow> z \<le> y + 1 \<Longrightarrow> z * loss \<le> y" for y z :: real
  by (cases "z \<le> y") (simp_all add: loss_def field_simps)

lemma scale_step_lo:
  fixes r c :: nat
  assumes "2 ^ 50 \<le> r * c div 2 ^ 128"
  shows "real r * (c / 2 ^ 128) * loss \<le> real (r * c div 2 ^ 128)"
    and "real (r * c div 2 ^ 128) \<le> real r * (c / 2 ^ 128)"
proof -
  let ?x = "real r * (c / 2 ^ 128)" and ?y = "real (r * c div 2 ^ 128)"
  have x: "?x = real (r * c) / real (2 ^ 128)" by simp
  show u: "?y \<le> ?x" unfolding x by (rule of_nat_div_le_of_nat)
  have "?x \<le> ?y + 1"
    unfolding x using real_div_plus_1 [of "2 ^ 128" "r * c"] by simp
  moreover have "2 ^ 50 \<le> ?y" using assms by (metis of_nat_le_iff of_nat_numeral of_nat_power)
  ultimately show "?x * loss \<le> ?y" by (intro floor_loss) simp_all
qed

lemma bits_above:
  "(k div 2 ^ i) mod 2 ^ Suc n = (if bit k i then 1 else 0) + 2 * ((k div 2 ^ Suc i) mod 2 ^ n)"
  for k :: nat
proof -
  have "(k div 2 ^ i) mod (2 * 2 ^ n) = 2 * (k div 2 ^ i div 2 mod 2 ^ n) + k div 2 ^ i mod 2"
    by (rule mod_mult2_eq)
  moreover have "k div 2 ^ i div 2 = k div 2 ^ Suc i" by (metis div_mult2_eq power_Suc2)
  moreover have "k div 2 ^ i mod 2 = (if bit k i then 1 else 0)"
    by (simp add: bit_iff_odd mod2_eq_if)
  ultimately show ?thesis by simp
qed

lemma scale_bounds:
  assumes "bracketed lo hi cs" "roomy cs r" "0 \<le> lo" "0 \<le> hi"
  shows "real r * lo ^ (k div 2 ^ i mod 2 ^ length cs) * loss ^ length cs \<le> real (scale k i cs r)
    \<and> real (scale k i cs r) \<le> real r * hi ^ (k div 2 ^ i mod 2 ^ length cs)
    \<and> 2 ^ 52 \<le> scale k i cs r"
  using assms
proof (induction cs arbitrary: lo hi r i)
  case Nil
  then show ?case by simp
next
  case (Cons c cs)
  let ?m = "k div 2 ^ Suc i mod 2 ^ length cs"
  have pw: "z ^ (k div 2 ^ i mod 2 ^ length (c # cs)) = (if bit k i then z else 1) * (z\<^sup>2) ^ ?m"
    for z :: real
    unfolding length_Cons bits_above by (simp add: power_add power_mult)
  define r' where "r' = (if bit k i then r * c div 2 ^ 128 else r)"
  have ro: "roomy cs r'"
    using Cons.prems(2) roomy_skip [OF Cons.prems(2)] by (simp add: r'_def)
  have b: "0 \<le> lo" "lo \<le> c / 2 ^ 128" "c / 2 ^ 128 \<le> hi" using Cons.prems by simp_all
  have IH: "real r' * (lo\<^sup>2) ^ ?m * loss ^ length cs \<le> real (scale k (Suc i) cs r')"
      "real (scale k (Suc i) cs r') \<le> real r' * (hi\<^sup>2) ^ ?m" "2 ^ 52 \<le> scale k (Suc i) cs r'"
    using Cons.IH [of "lo\<^sup>2" "hi\<^sup>2" r' "Suc i"] Cons.prems ro by simp_all
  have st: "real r * (if bit k i then lo else 1) * loss \<le> real r'
    \<and> real r' \<le> real r * (if bit k i then hi else 1)"
  proof (cases "bit k i")
    case True
    have "2 ^ 50 \<le> r * c div 2 ^ 128" using Cons.prems(2) by simp
    note s = scale_step_lo [OF this]
    have "real r * lo * loss \<le> real r * (c / 2 ^ 128) * loss"
      using b loss_bounds by (intro mult_right_mono mult_left_mono) simp_all
    moreover have "real r * (c / 2 ^ 128) \<le> real r * hi"
      using b by (intro mult_left_mono) simp_all
    ultimately show ?thesis using True s by (simp add: r'_def)
  next
    case False
    have "real r * loss \<le> real r" using loss_bounds by (simp add: mult_left_le)
    with False show ?thesis by (simp add: r'_def)
  qed
  have "real r * (if bit k i then lo else 1) * loss * ((lo\<^sup>2) ^ ?m * loss ^ length cs)
      \<le> real r' * ((lo\<^sup>2) ^ ?m * loss ^ length cs)"
    using st loss_bounds by (intro mult_right_mono) simp_all
  then have L: "real r * lo ^ (k div 2 ^ i mod 2 ^ length (c # cs)) * loss ^ length (c # cs)
      \<le> real (scale k i (c # cs) r)"
    using IH(1) unfolding pw by (simp add: r'_def algebra_simps)
  have "real r' * (hi\<^sup>2) ^ ?m \<le> real r * (if bit k i then hi else 1) * (hi\<^sup>2) ^ ?m"
    using st by (intro mult_right_mono) simp_all
  then have U: "real (scale k i (c # cs) r) \<le> real r * hi ^ (k div 2 ^ i mod 2 ^ length (c # cs))"
    using IH(2) unfolding pw by (simp add: r'_def algebra_simps)
  show ?case using L U IH(3) by (simp add: r'_def)
qed

lemma ratio_at_bounds:
  assumes "k < 2 ^ 20"
  shows "2 ^ 128 * q_lo ^ k * loss ^ 20 \<le> real (ratio_at k)"
    and "real (ratio_at k) \<le> 2 ^ 128 * q_hi ^ k" and "2 ^ 52 \<le> ratio_at k"
proof -
  have l: "length tick_consts = 20" by (simp add: tick_consts_def)
  have p: "0 \<le> q_lo" "0 \<le> q_hi" using root_q_pos by (simp_all add: q_lo_def q_hi_def)
  from scale_bounds [OF consts_bracketed consts_roomy p, of k 0]
  show "2 ^ 128 * q_lo ^ k * loss ^ 20 \<le> real (ratio_at k)"
    "real (ratio_at k) \<le> 2 ^ 128 * q_hi ^ k" "2 ^ 52 \<le> ratio_at k"
    using assms by (simp_all add: ratio_at_def l)
qed

section \<open>Accuracy of the ratio\<close>

definition err :: real where
  "err = 1 / 2 ^ 45"

lemma powers_close:
  assumes "k < 2 ^ 20"
  shows "root_q ^ k * (1 - err) \<le> q_lo ^ k * loss ^ 20" "q_hi ^ k \<le> root_q ^ k * (1 + err)"
proof -
  have n: "1 - real (2 * k) * eps \<le> (1 - eps) ^ (2 * k)" "1 + real 20 * (- 1 / 2 ^ 50) \<le> loss ^ 20"
    using Bernoulli_inequality [of "- eps" "2 * k"] Bernoulli_inequality [of "- 1 / 2 ^ 50" 20]
      eps_bounds by (simp_all add: loss_def)
  have k: "real (2 * k) * eps \<le> 1 / 2 ^ 71"
  proof -
    have "real k \<le> 2 ^ 20" using assms by (metis less_imp_le of_nat_le_iff of_nat_numeral of_nat_power)
    then show ?thesis by (simp add: eps_def)
  qed
  have "(1 - err) \<le> (1 - 1 / 2 ^ 71) * (1 + 20 * (- 1 / 2 ^ 50))" by (simp add: err_def)
  also have "\<dots> \<le> (1 - eps) ^ (2 * k) * loss ^ 20"
    using n k by (intro mult_mono) simp_all
  finally have "root_q ^ k * (1 - err) \<le> root_q ^ k * ((1 - eps) ^ (2 * k) * loss ^ 20)"
    using root_q_pos by (intro mult_left_mono) simp_all
  then show "root_q ^ k * (1 - err) \<le> q_lo ^ k * loss ^ 20"
    by (simp add: q_lo_def power_mult_distrib power_mult mult.assoc)
  have "(1 + eps) * (1 - eps) \<le> 1" by (simp add: algebra_simps)
  then have "((1 + eps) * (1 - eps)) ^ (2 * k) \<le> 1"
    using eps_bounds by (intro power_le_one) simp_all
  then have "(1 + eps) ^ (2 * k) * (1 - eps) ^ (2 * k) \<le> 1" by (simp add: power_mult_distrib)
  moreover have l: "1 - 1 / 2 ^ 71 \<le> (1 - eps) ^ (2 * k)" using n(1) k by linarith
  moreover have "0 \<le> (1 + eps) ^ (2 * k)" using eps_bounds by simp
  ultimately have "(1 + eps) ^ (2 * k) * (1 - 1 / 2 ^ 71) \<le> 1"
    by (meson mult_left_mono order_trans)
  then have "(1 + eps) ^ (2 * k) \<le> 1 + err" by (simp add: err_def field_simps)
  then have "root_q ^ k * (1 + eps) ^ (2 * k) \<le> root_q ^ k * (1 + err)"
    using root_q_pos by (intro mult_left_mono) simp_all
  then show "q_hi ^ k \<le> root_q ^ k * (1 + err)"
    by (simp add: q_hi_def power_mult_distrib power_mult)
qed

lemma ratio_at_close:
  assumes "k < 2 ^ 20"
  shows "2 ^ 128 * root_q ^ k * (1 - err) \<le> ratio_at k" "ratio_at k \<le> 2 ^ 128 * root_q ^ k * (1 + err)"
proof -
  note b = ratio_at_bounds [OF assms] and c = powers_close [OF assms]
  have "2 ^ 128 * (root_q ^ k * (1 - err)) \<le> 2 ^ 128 * (q_lo ^ k * loss ^ 20)"
    "2 ^ 128 * q_hi ^ k \<le> 2 ^ 128 * (root_q ^ k * (1 + err))"
    using c by (intro mult_left_mono; simp)+
  with b show "2 ^ 128 * root_q ^ k * (1 - err) \<le> ratio_at k"
    "ratio_at k \<le> 2 ^ 128 * root_q ^ k * (1 + err)" by (simp_all add: mult.assoc)
qed

section \<open>Rounding and inversion\<close>

lemma ceil_div:
  fixes n d :: nat
  assumes "0 < d"
  shows "(n + d - 1) div d = (if n mod d = 0 then n div d else n div d + 1)"
proof (cases "n mod d = 0")
  case True
  then have "n + d - 1 = (d - 1) + d * (n div d)" using True assms mult_div_mod_eq [of d n] by simp
  then have "(n + d - 1) div d = n div d + (d - 1) div d" using assms by (simp only:) (rule div_mult_self2, simp)
  with True assms show ?thesis by simp
next
  case False
  have "n + d - 1 = (n mod d - 1) + d * (n div d + 1)"
  proof -
    have "n = n mod d + d * (n div d)" by simp
    moreover have "1 \<le> n mod d" using False by simp
    ultimately show ?thesis unfolding add_mult_distrib2 by linarith
  qed
  moreover have "n mod d - 1 < d" using mod_less_divisor [OF assms, of n] by linarith
  ultimately have "(n + d - 1) div d = n div d + 1 + (n mod d - 1) div d" "(n mod d - 1) div d = 0"
    using assms by (simp_all only: div_mult_self2 neq0_conv [symmetric] div_less not_False_eq_True)
  with False show ?thesis by simp
qed

lemma unat_round_up_32:
  "unat (round_up_32 r) = (unat r + 2 ^ 32 - 1) div 2 ^ 32"
proof -
  have d: "unat (drop_bit 32 r) = unat r div 2 ^ 32"
    unfolding unat_drop_bit_eq by (simp add: drop_bit_eq_div)
  have m: "r mod 2 ^ 32 = 0 \<longleftrightarrow> unat r mod 2 ^ 32 = 0"
    by (simp add: unat_eq_zero unat_mod flip: unat_0_iff)
  have "unat r < 2 ^ 256" by (rule order_less_le_trans [OF unsigned_less]) simp
  then have b: "unat r div 2 ^ 32 + 1 < 2 ^ 256" by simp
  then have s: "unat (drop_bit 32 r + 1) = unat r div 2 ^ 32 + 1"
    using d by (simp add: unat_word_ariths)
  have a: "(unat r + 2 ^ 32 - 1) div 2 ^ 32
      = (if unat r mod 2 ^ 32 = 0 then unat r div 2 ^ 32 else unat r div 2 ^ 32 + 1)"
    by (rule ceil_div) simp
  show ?thesis unfolding a round_up_32_def Let_def m by (simp only: d s if_distrib [of unat])
qed

lemma round_up_bounds:
  "unat r / 2 ^ 32 \<le> unat (round_up_32 r)" "unat (round_up_32 r) \<le> unat r / 2 ^ 32 + 1"
proof -
  let ?n = "unat r + 2 ^ 32 - 1"
  have n: "real ?n = unat r + (2 ^ 32 - 1)" by (simp add: of_nat_diff)
  have f: "real ?n / 2 ^ 32 < ?n div 2 ^ 32 + 1"
    using real_div_plus_1 [of "2 ^ 32" ?n] by simp
  have "real (?n div 2 ^ 32) * 2 ^ 32 \<le> real ?n"
    by (metis div_times_less_eq_dividend of_nat_le_iff of_nat_mult of_nat_numeral of_nat_power)
  then have g: "real (?n div 2 ^ 32) \<le> real ?n / 2 ^ 32" by simp
  have e: "?n < (?n div 2 ^ 32 + 1) * 2 ^ 32"
    using dividend_less_times_div [of "2 ^ 32" ?n] by (simp add: algebra_simps)
  then have "unat r + 2 ^ 32 - 1 < (?n div 2 ^ 32 + 1) * 2 ^ 32" .
  then have "unat r \<le> (?n div 2 ^ 32) * 2 ^ 32" by simp
  then have "real (unat r) \<le> real ((?n div 2 ^ 32) * 2 ^ 32)" by (simp only: of_nat_le_iff)
  then have h: "unat r / 2 ^ 32 \<le> real (?n div 2 ^ 32)" by (simp add: field_simps)
  show "unat r / 2 ^ 32 \<le> unat (round_up_32 r)" unfolding unat_round_up_32 by (rule h)
  show "unat (round_up_32 r) \<le> unat r / 2 ^ 32 + 1"
    unfolding unat_round_up_32 using g n by (simp add: field_simps)
qed

lemma unat_max_div:
  fixes r :: u256
  assumes "r \<noteq> 0"
  shows "2 ^ 256 / real (unat r) - 2 \<le> real (unat (- 1 div r))"
    and "real (unat (- 1 div r)) \<le> 2 ^ 256 / real (unat r)"
proof -
  have p: "1 \<le> unat r" using assms by (simp add: Suc_le_eq unat_gt_0)
  have u: "unat (- 1 div r) = (2 ^ 256 - 1) div unat r"
    by (simp add: unat_div unsigned_minus_1_eq_mask mask_eq_exp_minus_1)
  have "real (2 ^ 256 - 1) / real (unat r) < real (unat (- 1 div r)) + 1"
    unfolding u by (rule real_div_plus_1) (use p in linarith)
  moreover have "real (2 ^ 256 - 1) / real (unat r) = 2 ^ 256 / real (unat r) - 1 / real (unat r)"
    by (simp add: diff_divide_distrib)
  moreover have "1 / real (unat r) \<le> 1"
  proof -
    have "real 1 \<le> real (unat r)" using p by (simp only: of_nat_le_iff)
    then show ?thesis by (simp add: divide_le_eq)
  qed
  ultimately show "2 ^ 256 / real (unat r) - 2 \<le> real (unat (- 1 div r))" by linarith
  have "real (unat (- 1 div r)) \<le> real (2 ^ 256 - 1) / real (unat r)"
    unfolding u by (rule of_nat_div_le_of_nat)
  also have "\<dots> \<le> 2 ^ 256 / real (unat r)"
    by (rule divide_right_mono) (simp, rule of_nat_0_le_iff)
  finally show "real (unat (- 1 div r)) \<le> 2 ^ 256 / real (unat r)" .
qed

section \<open>The result\<close>

text \<open>The exact value the code approximates.\<close>

definition exact_sqrt_price :: "int \<Rightarrow> real" where
  "exact_sqrt_price t = 2 ^ 96 * sqrt ((10001 / 10000) powr t)"

lemma exact_neg: "exact_sqrt_price (- int k) = 2 ^ 96 * root_q ^ k"
  by (simp add: exact_sqrt_price_def root_q_def powr_minus powr_realpow real_sqrt_divide
      real_sqrt_power power_one_over inverse_eq_divide power_divide)

lemma exact_pos: "exact_sqrt_price (int k) = 2 ^ 96 / root_q ^ k"
  by (simp add: exact_sqrt_price_def root_q_def powr_realpow real_sqrt_power power_one_over)

lemma exact_pos_gt_0: "0 < exact_sqrt_price t"
  by (simp add: exact_sqrt_price_def)

lemma get_sqrt_ratio_unfold:
  assumes "MIN_TICK \<le> t" "t \<le> MAX_TICK"
  obtains r where "unat r = ratio_at (nat \<bar>t\<bar>)" "r \<noteq> 0"
    "get_sqrt_ratio_at_tick t = Inr (round_up_32 (if 0 < t then - 1 div r else r))"
proof -
  obtain r where r: "unat r = ratio_at (nat \<bar>t\<bar>)"
    "apply_steps (word_of_int \<bar>t\<bar>) tick_steps
        (if and (word_of_int \<bar>t\<bar>) 1 \<noteq> (0 :: u32) then init_odd else init_even) = Inr r"
    using apply_steps_ratio [OF assms] by auto
  have "nat \<bar>t\<bar> < 2 ^ 20" using assms by (auto simp: MIN_TICK_def MAX_TICK_def)
  from ratio_at_bounds(3) [OF this] have "unat r \<noteq> 0" by (simp add: r(1))
  then have nz: "r \<noteq> 0" by auto
  show thesis
    by (rule that [OF r(1) nz]) (use assms r(2) nz in \<open>simp add: get_sqrt_ratio_at_tick_def Let_def\<close>)
qed

text \<open>
  Every valid tick has a result, with no overflow and no division by zero, and the result is
  the exact square root price up to a relative error of \<open>2 ^ (- 44)\<close> and the rounding up.
\<close>

lemma sqrt_ratio_close:
  assumes "MIN_TICK \<le> t" "t \<le> MAX_TICK"
  shows "\<exists>s. get_sqrt_ratio_at_tick t = Inr s
    \<and> exact_sqrt_price t * (1 - 1 / 2 ^ 44) \<le> unat s
    \<and> unat s \<le> exact_sqrt_price t * (1 + 1 / 2 ^ 44) + 1
    \<and> 2 ^ 20 \<le> unat s"
proof -
  define k where "k = nat \<bar>t\<bar>"
  have k: "k < 2 ^ 20" using assms by (auto simp: k_def MIN_TICK_def MAX_TICK_def)
  obtain r where r: "unat r = ratio_at k" "r \<noteq> 0"
    and s: "get_sqrt_ratio_at_tick t = Inr (round_up_32 (if 0 < t then - 1 div r else r))"
    using get_sqrt_ratio_unfold [OF assms] unfolding k_def by blast
  note c = ratio_at_close [OF k] and big = ratio_at_bounds(3) [OF k]
  let ?R = "real (ratio_at k)" and ?Q = "root_q ^ k"
  have Q: "0 < ?Q" "?Q \<le> 1" using root_q_pos root_q_le_1 by (simp_all add: power_le_one)
  have R: "2 ^ 52 \<le> ?R" using big by (metis of_nat_le_iff of_nat_numeral of_nat_power)
  show ?thesis
  proof (cases "0 < t")
    case False
    then have t: "t = - int k" by (simp add: k_def)
    have "?R / 2 ^ 32 \<le> unat (round_up_32 r)" "unat (round_up_32 r) \<le> ?R / 2 ^ 32 + 1"
      using round_up_bounds [of r] by (simp_all only: r(1))
    moreover have "2 ^ 96 * ?Q * (1 - err) \<le> ?R / 2 ^ 32" "?R / 2 ^ 32 \<le> 2 ^ 96 * ?Q * (1 + err)"
      using c by (simp_all add: field_simps)
    moreover have "2 ^ 96 * ?Q * (1 - 1 / 2 ^ 44) \<le> 2 ^ 96 * ?Q * (1 - err)"
      "2 ^ 96 * ?Q * (1 + err) \<le> 2 ^ 96 * ?Q * (1 + 1 / 2 ^ 44)"
      using Q by (intro mult_left_mono; simp add: err_def)+
    moreover have "2 ^ 20 \<le> real (unat (round_up_32 r))" using calculation(1) R by simp
    ultimately have "2 ^ 96 * ?Q * (1 - 1 / 2 ^ 44) \<le> unat (round_up_32 r)"
      "unat (round_up_32 r) \<le> 2 ^ 96 * ?Q * (1 + 1 / 2 ^ 44) + 1"
      "2 ^ 20 \<le> real (unat (round_up_32 r))" by linarith+
    then show ?thesis
      using False s by (auto simp: t exact_neg simp flip: of_nat_le_iff [where 'a = real])
  next
    case True
    then have t: "t = int k" by (simp add: k_def)
    let ?M = "real (unat (- 1 div r))"
    let ?P = "2 ^ 96 / ?Q"
    have m: "2 ^ 256 / ?R - 2 \<le> ?M" "?M \<le> 2 ^ 256 / ?R"
      using unat_max_div [OF r(2)] by (simp_all only: r(1))
    have P: "2 ^ 96 \<le> ?P" using Q by (simp add: field_simps)
    have up: "2 ^ 224 / ?R \<le> ?P * (1 + 1 / 2 ^ 44)"
    proof -
      have "2 ^ 128 * ?Q * (1 - err) * (1 + 1 / 2 ^ 44) \<le> ?R * (1 + 1 / 2 ^ 44)"
        using c(1) by (intro mult_right_mono) simp_all
      moreover have "2 ^ 128 * ?Q * 1 \<le> 2 ^ 128 * ?Q * ((1 - err) * (1 + 1 / 2 ^ 44))"
        using Q by (intro mult_left_mono) (simp_all add: err_def)
      ultimately have "2 ^ 128 * ?Q \<le> ?R * (1 + 1 / 2 ^ 44)"
        unfolding mult.assoc mult_1_right by (rule order_trans [rotated])
      then show ?thesis using Q R by (simp add: field_simps)
    qed
    have lo: "?P * (1 - err) \<le> 2 ^ 224 / ?R"
    proof -
      have "?R * (1 - err) \<le> 2 ^ 128 * ?Q * (1 + err) * (1 - err)"
        using c(2) by (intro mult_right_mono) (simp_all add: err_def)
      moreover have "2 ^ 128 * ?Q * ((1 + err) * (1 - err)) \<le> 2 ^ 128 * ?Q * 1"
        using Q by (intro mult_left_mono) (simp_all add: err_def)
      ultimately have "?R * (1 - err) \<le> 2 ^ 128 * ?Q"
        unfolding mult.assoc mult_1_right by (rule order_trans)
      then show ?thesis using Q R by (simp add: field_simps)
    qed
    have "?P * (1 - 1 / 2 ^ 44) \<le> ?P * (1 - err) - 1"
      using P by (simp add: err_def algebra_simps)
    moreover have "2 ^ 224 / ?R - 1 \<le> ?M / 2 ^ 32" "?M / 2 ^ 32 \<le> 2 ^ 224 / ?R"
      using m by (simp_all add: field_simps)
    moreover have "?M / 2 ^ 32 \<le> unat (round_up_32 (- 1 div r))"
      "unat (round_up_32 (- 1 div r)) \<le> ?M / 2 ^ 32 + 1"
      using round_up_bounds [of "- 1 div r"] by simp_all
    ultimately have b: "?P * (1 - 1 / 2 ^ 44) \<le> unat (round_up_32 (- 1 div r))"
      "unat (round_up_32 (- 1 div r)) \<le> ?P * (1 + 1 / 2 ^ 44) + 1"
      using up lo by linarith+
    moreover have "2 ^ 20 \<le> real (unat (round_up_32 (- 1 div r)))"
    proof -
      have "2 ^ 96 * (1 - 1 / 2 ^ 44) \<le> ?P * (1 - 1 / 2 ^ 44)"
        using P by (intro mult_right_mono) simp_all
      from order_trans [OF this b(1)] show ?thesis by (rule order_trans [rotated]) simp
    qed
    ultimately show ?thesis
      using True s by (auto simp: t exact_pos simp flip: of_nat_le_iff [where 'a = real])
  qed
qed

lemma exact_step: "exact_sqrt_price t * (1 + 1 / 2 ^ 15) \<le> exact_sqrt_price (t + 1)"
proof -
  have "((1 + 1 / 2 ^ 15)::real)\<^sup>2 \<le> 10001 / 10000" by (simp add: power2_eq_square)
  then have "(1 + 1 / 2 ^ 15 :: real) \<le> sqrt (10001 / 10000)" by (rule real_le_rsqrt)
  then have "exact_sqrt_price t * (1 + 1 / 2 ^ 15) \<le> exact_sqrt_price t * sqrt (10001 / 10000)"
    using exact_pos_gt_0 [of t] by (intro mult_left_mono) simp_all
  also have "\<dots> = exact_sqrt_price (t + 1)"
    by (simp add: exact_sqrt_price_def powr_add flip: real_sqrt_mult)
  finally show ?thesis .
qed

lemma sqrt_ratio_step:
  assumes "MIN_TICK \<le> t" "t + 1 \<le> MAX_TICK"
    and "get_sqrt_ratio_at_tick t = Inr s" "get_sqrt_ratio_at_tick (t + 1) = Inr s'"
  shows "unat s < unat s'"
proof -
  have "exact_sqrt_price (t + 1) * (1 - 1 / 2 ^ 44) \<le> unat s'"
    using sqrt_ratio_close [of "t + 1"] assms by auto
  moreover have "unat s \<le> exact_sqrt_price t * (1 + 1 / 2 ^ 44) + 1"
    and "2 ^ 20 \<le> real (unat s)"
    using sqrt_ratio_close [of t] assms by (auto simp flip: of_nat_le_iff [where 'a = real])
  moreover have "exact_sqrt_price t * (1 + 1 / 2 ^ 15) * (1 - 1 / 2 ^ 44)
      \<le> exact_sqrt_price (t + 1) * (1 - 1 / 2 ^ 44)"
    by (intro mult_right_mono exact_step) simp
  ultimately have "real (unat s) < real (unat s')" by (simp add: algebra_simps)
  then show ?thesis by (simp only: of_nat_less_iff)
qed

lemma sqrt_ratio_some: "MIN_TICK \<le> t \<Longrightarrow> t \<le> MAX_TICK \<Longrightarrow> \<exists>s. get_sqrt_ratio_at_tick t = Inr s"
  using sqrt_ratio_close [of t] by blast

lemma sqrt_ratio_less:
  assumes "MIN_TICK \<le> t" "t < t'" "t' \<le> MAX_TICK"
  shows "\<exists>s s'. get_sqrt_ratio_at_tick t = Inr s \<and> get_sqrt_ratio_at_tick t' = Inr s' \<and> s < s'"
  using assms(2,3)
proof (induction t' rule: int_gr_induct)
  case base
  then show ?case
    using sqrt_ratio_step [of t] sqrt_ratio_some [of t] sqrt_ratio_some [of "t + 1"] assms(1)
    by (metis le_add_same_cancel1 order.trans word_less_nat_alt zero_le_one)
next
  case (step i)
  then obtain s s' where "get_sqrt_ratio_at_tick t = Inr s" "get_sqrt_ratio_at_tick i = Inr s'" "s < s'"
    by auto
  moreover obtain s'' where "get_sqrt_ratio_at_tick (i + 1) = Inr s''"
    using sqrt_ratio_some [of "i + 1"] step assms(1) by auto
  moreover have "unat s' < unat s''"
    using sqrt_ratio_step [of i s' s''] calculation step assms(1) by simp
  ultimately show ?case by (metis order_less_trans word_less_nat_alt)
qed

text \<open>
  C9. The square root price of a tick is total on the valid ticks: no multiplication
  overflows, no division is by zero, and the result is the exact value \<open>sqrt (1.0001 ^ t)\<close>
  scaled by \<open>2 ^ 96\<close>, up to a relative error of \<open>2 ^ (- 44)\<close> and the final rounding up; the
  only error is a tick out of range.
\<close>

theorem sqrt_ratio_accurate:
  "case get_sqrt_ratio_at_tick t of
     Inl e \<Rightarrow> e = TickOutOfRange t \<and> \<not> (MIN_TICK \<le> t \<and> t \<le> MAX_TICK)
   | Inr s \<Rightarrow> MIN_TICK \<le> t \<and> t \<le> MAX_TICK
       \<and> exact_sqrt_price t * (1 - 1 / 2 ^ 44) \<le> unat s
       \<and> unat s \<le> exact_sqrt_price t * (1 + 1 / 2 ^ 44) + 1
       \<and> 2 ^ 20 \<le> unat s"
proof (cases "MIN_TICK \<le> t \<and> t \<le> MAX_TICK")
  case True
  with sqrt_ratio_close [of t] show ?thesis by auto
next
  case False
  then show ?thesis by (auto simp: get_sqrt_ratio_at_tick_def)
qed

text \<open>
  The price strictly increases with the tick over the whole valid range.
\<close>

theorem sqrt_ratio_increases:
  assumes "MIN_TICK \<le> t" "t < t'" "t' \<le> MAX_TICK"
  shows "\<exists>s s'. get_sqrt_ratio_at_tick t = Inr s \<and> get_sqrt_ratio_at_tick t' = Inr s' \<and> s < s'"
  using sqrt_ratio_less [OF assms] .

theorem sqrt_ratio_increases_witness:
  "\<exists>s s'. get_sqrt_ratio_at_tick (- 887272) = Inr s \<and> get_sqrt_ratio_at_tick (- 69894) = Inr s' \<and> s < s'"
  by (rule sqrt_ratio_increases) (simp_all add: MIN_TICK_def MAX_TICK_def)

text \<open>
  The mean tick is the floor of the quotient, for every delta and positive window whose
  quotient fits 64 bits: the truncating division of Rust is corrected on negative deltas.
\<close>

theorem mean_tick_is_floor:
  assumes "0 < secs" "- (2 ^ 63) \<le> delta div secs" "delta div secs < 2 ^ 63"
  shows "uniswap_arithmetic_mean_tick delta secs = delta div secs"
proof -
  have q: "(if delta < 0 \<and> trunc_rem delta secs \<noteq> 0 then trunc_div delta secs - 1
      else trunc_div delta secs) = delta div secs"
  proof (cases "delta < 0")
    case True
    then show ?thesis
      using assms(1) div_minus_minus [of "- delta" secs] zdiv_zminus1_eq_if [of secs "- delta"]
        mod_minus_eq [of "- delta" secs]
      by (auto simp: trunc_div_def trunc_rem_def minus_mod_eq_mult_div [symmetric])
  next
    case False
    with assms(1) show ?thesis by (auto simp: trunc_div_def sgn_if)
  qed
  have "as_i64 (delta div secs) = delta div secs" using assms(2,3) by simp
  then show ?thesis by (simp only: uniswap_arithmetic_mean_tick_def Let_def q)
qed

theorem mean_tick_is_floor_witness: "uniswap_arithmetic_mean_tick (- 125809201) 1800 = - 69895"
  using mean_tick_is_floor [of 1800 "- 125809201"] by simp

end
