(* ===== verification/Rpc_Methods.thy ===== *)
theory Rpc_Methods
  imports Rpc_Cache
begin

text \<open>
  The typed calls of \<open>crates/core/src/rpc/provider.rs\<close> (\<open>eth_chainId\<close>, \<open>eth_blockNumber\<close>,
  \<open>eth_getBlockByNumber\<close>, \<open>eth_call\<close>, \<open>eth_getLogs\<close>) and what the watchers and the indexer
  share to use them: the conversion of a core error into the text of an \<open>anyhow\<close> error, the
  hexadecimal integers of JSON-RPC and the \<open>context\<close> of a missing field.
\<close>

definition not_hex_error :: "ext \<Rightarrow> 'n provider \<Rightarrow> string \<Rightarrow> json \<Rightarrow> core_error" where
  "not_hex_error x p method v =
     JsonRpc (pr_name p) method (- 32000) (''not a hex u64: '' @ json_text x v)"

definition hex_u64_call :: "ext \<Rightarrow> 'n provider \<Rightarrow> string \<Rightarrow> ('n, nat) rpc" where
  "hex_u64_call x p method =
     andthen (call_once x p method (JArr [])) (\<lambda>v.
       case parse_unsigned 16 64 (trim_0x (case jstr v of None \<Rightarrow> [] | Some t \<Rightarrow> t)) of
         None \<Rightarrow> throw (not_hex_error x p method v)
       | Some n \<Rightarrow> ret n)"

definition eth_chain_id :: "ext \<Rightarrow> 'n provider \<Rightarrow> ('n, nat) rpc" where
  "eth_chain_id x p = hex_u64_call x p ''eth_chainId''"

definition eth_block_number :: "ext \<Rightarrow> 'n provider \<Rightarrow> ('n, nat) rpc" where
  "eth_block_number x p = hex_u64_call x p ''eth_blockNumber''"

definition header_params :: "string \<Rightarrow> json" where
  "header_params tag = JArr [JStr tag, JBool False]"

definition eth_get_block_header :: "ext \<Rightarrow> 'n provider \<Rightarrow> block_tag \<Rightarrow> ('n, json) rpc" where
  "eth_get_block_header x p tag =
     call_once x p ''eth_getBlockByNumber'' (header_params (to_param tag))"

definition eth_call_params :: "string \<Rightarrow> string \<Rightarrow> block_tag \<Rightarrow> json" where
  "eth_call_params addr calldata blk =
     JArr [JObj [(''to'', JStr addr), (''data'', JStr calldata)], JStr (to_param blk)]"

definition eth_call :: "ext \<Rightarrow> 'n provider \<Rightarrow> string \<Rightarrow> string \<Rightarrow> block_tag \<Rightarrow> ('n, json) rpc" where
  "eth_call x p addr calldata blk = call_once x p ''eth_call'' (eth_call_params addr calldata blk)"

definition eth_get_logs ::
  "ext \<Rightarrow> 'n provider \<Rightarrow> string \<Rightarrow> string \<Rightarrow> nat \<Rightarrow> nat \<Rightarrow> ('n, json) rpc" where
  "eth_get_logs x p contract topic0 from_block to_block =
     call_once x p ''eth_getLogs''
       (JArr [JObj [(''address'', JStr contract), (''topics'', JArr [JStr topic0]),
                    (''fromBlock'', JStr (hex_0x from_block)), (''toBlock'', JStr (hex_0x to_block))]])"

text \<open>A call of the core crate under \<open>?\<close> in a function that returns an \<open>anyhow\<close> result.\<close>

definition core :: "('n, 'a) rpc \<Rightarrow> ('n, 'a) db" where
  "core m = map_err core_msg m"

definition some_or :: "string \<Rightarrow> 'a option \<Rightarrow> ('s, string, 'a) io" where
  "some_or msg v = (case v of None \<Rightarrow> throw msg | Some a \<Rightarrow> ret a)"

definition signed_hex :: "nat \<Rightarrow> string \<Rightarrow> string + int" where
  "signed_hex w s =
     (let t = trim_0x s in
      case parse_signed 16 w t of None \<Rightarrow> Inl (signed_error 16 w t) | Some i \<Rightarrow> Inr i)"

definition unsigned_hex :: "nat \<Rightarrow> string \<Rightarrow> string + nat" where
  "unsigned_hex w s =
     (let t = trim_0x s in
      case parse_unsigned 16 w t of None \<Rightarrow> Inl (unsigned_error 16 w t) | Some n \<Rightarrow> Inr n)"

lemma core_frame: "(\<And>r t. m s = (r, t) \<Longrightarrow> t = s\<lparr>w_net := w_net t\<rparr>) \<Longrightarrow> core m s = (r', t') \<Longrightarrow>
    t' = s\<lparr>w_net := w_net t'\<rparr>"
  by (auto simp: core_def map_err_def split: prod.splits sum.splits)

lemma hex_u64_call_frame:
  "hex_u64_call x p method s = (r, t) \<Longrightarrow> t = s\<lparr>w_net := w_net t\<rparr>"
  by (auto simp: hex_u64_call_def io_simps dest: call_once_frame
      split: prod.splits sum.splits option.splits)

lemma core_call_frame: "core (call_once x p m ps) s = (r, t) \<Longrightarrow> t = s\<lparr>w_net := w_net t\<rparr>"
  by (rule core_frame) (auto dest: call_once_frame)

lemma core_hex_frame: "core (hex_u64_call x p m) s = (r, t) \<Longrightarrow> t = s\<lparr>w_net := w_net t\<rparr>"
  by (rule core_frame) (auto dest: hex_u64_call_frame)

text \<open>What a step that only talks to the network leaves alone.\<close>

definition same_tables :: "'n world \<Rightarrow> 'n world \<Rightarrow> bool" where
  "same_tables s t \<longleftrightarrow> (\<exists>n. t = s\<lparr>w_net := n\<rparr>)"

lemma same_tablesI: "t = s\<lparr>w_net := w_net t\<rparr> \<Longrightarrow> same_tables s t"
  by (auto simp: same_tables_def)

lemma same_tables_refl [simp]: "same_tables s s"
  unfolding same_tables_def by (rule exI [of _ "w_net s"]) simp

lemma same_tables_trans: "same_tables s t \<Longrightarrow> same_tables t u \<Longrightarrow> same_tables s u"
  by (auto simp: same_tables_def)

lemma same_tablesD:
  assumes "same_tables s t"
  shows "w_events t = w_events s" "w_dead t = w_dead s" "w_valuations t = w_valuations s"
    "w_attempts t = w_attempts s" "w_prices t = w_prices s" "w_cache t = w_cache s"
    "w_divergences t = w_divergences s" "w_reorgs t = w_reorgs s"
    "w_checkpoints t = w_checkpoints s" "w_cursors t = w_cursors s" "w_seeds t = w_seeds s"
    "w_stakes t = w_stakes s" "w_registry t = w_registry s" "w_now t = w_now s"
  using assms by (auto simp: same_tables_def)

end
