(* ===== verification/Watchers.thy ===== *)
theory Watchers
  imports Rpc_Methods
begin

text \<open>
  The two watchers that move the life cycle of an event row: the reorg watcher
  (\<open>crates/livepeer-reorg-watcher\<close>) compares the stored block hashes of the tentative window
  with the chain and marks rows non-canonical; the finality watcher
  (\<open>crates/livepeer-finality-watcher\<close>) moves canonical rows to \<open>l1_posted\<close> and \<open>finalized\<close>.
\<close>

section \<open>The reorg watcher\<close>

definition WALK_DEPTH :: nat where "WALK_DEPTH = 7500"

record reorg_summary =
  ro_head :: nat
  ro_window_start :: nat
  ro_blocks_checked :: nat
  ro_divergences :: nat

text \<open>
  The distinct pairs of block number and hash in the tentative window, by block number. (SQL
  leaves the order of two hashes of one block open; here it is the order of insertion.)
\<close>

definition in_window :: "int \<Rightarrow> int \<Rightarrow> event_row \<Rightarrow> bool" where
  "in_window lo hi r \<longleftrightarrow> e_chain r = ARBITRUM_CHAIN_ID \<and> e_finality r = Tentative \<and> e_canonical r
     \<and> lo \<le> e_block r \<and> e_block r \<le> hi"

definition stored_blocks :: "int \<Rightarrow> int \<Rightarrow> event_row list \<Rightarrow> (int \<times> string) list" where
  "stored_blocks lo hi evs =
     sort_key fst (remdups (map (\<lambda>r. (e_block r, e_hash r)) (filter (in_window lo hi) evs)))"

definition hit_by_reorg :: "int \<Rightarrow> event_row \<Rightarrow> bool" where
  "hit_by_reorg b r \<longleftrightarrow> e_chain r = ARBITRUM_CHAIN_ID \<and> e_block r = b \<and> e_canonical r"

definition drop_block :: "int \<Rightarrow> event_row \<Rightarrow> event_row" where
  "drop_block b r = (if hit_by_reorg b r then r\<lparr>e_canonical := False\<rparr> else r)"

definition handle_divergence :: "nat \<Rightarrow> string \<Rightarrow> string \<Rightarrow> 'n world \<Rightarrow> 'n world" where
  "handle_divergence block_number old_hash new_hash s =
     (let b = as_i64 (int block_number);
          affected = length (filter (hit_by_reorg b) (w_events s)) in
      s\<lparr>w_events := map (drop_block b) (w_events s),
        w_reorgs := w_reorgs s @ [\<lparr>o_chain = ARBITRUM_CHAIN_ID, o_block = b, o_depth = 1,
          o_old = [old_hash], o_new = [new_hash], o_affected = as_i32 (int affected),
          o_notes = ''v1 reorg-watcher: events-only walk; non-canonical marker only (TD-005)''\<rparr>]\<rparr>)"

definition header_hash :: "json \<Rightarrow> string option" where
  "header_hash header = map_option lower (Option.bind (jget ''hash'' header) jstr)"

definition check_block :: "ext \<Rightarrow> 'n provider \<Rightarrow> int \<times> string \<Rightarrow> nat \<Rightarrow> ('n, nat) db" where
  "check_block x secondary bh divergences =
     (let n = as_u64 (fst bh) in
      andthen (core (eth_get_block_header x secondary (Number n))) (\<lambda>header.
      andthen (some_or ''block header missing .hash'' (header_hash header)) (\<lambda>chain_hash.
        let stored_hash = lower (snd bh) in
        if chain_hash \<noteq> stored_hash then
          andthen (modifying (handle_divergence n stored_hash chain_hash))
            (\<lambda>_. ret (divergences + 1))
        else ret divergences)))"

definition reorg_run_once :: "ext \<Rightarrow> 'n provider \<Rightarrow> ('n, reorg_summary) db" where
  "reorg_run_once x secondary =
     andthen (core (eth_block_number x secondary)) (\<lambda>head.
       let window_start = head - WALK_DEPTH in
       andthen (reading (\<lambda>s. stored_blocks (as_i64 (int window_start)) (as_i64 (int head)) (w_events s)))
         (\<lambda>stored.
       andthen (fold_io (check_block x secondary) stored 0) (\<lambda>divergences.
         ret \<lparr>ro_head = head, ro_window_start = window_start, ro_blocks_checked = length stored,
              ro_divergences = divergences\<rparr>)))"

datatype severity = Info | Warn | Critical

definition severity_level :: "nat \<Rightarrow> severity" where
  "severity_level depth = (if depth \<le> 2 then Info else if depth \<le> 50 then Warn else Critical)"

text \<open>The loop's sleep between two passes, from the clock and the last detections.\<close>

definition pick_cadence :: "nat \<Rightarrow> nat option \<Rightarrow> nat option \<Rightarrow> nat" where
  "pick_cadence now last_detection last_clean =
     (if (case last_detection of None \<Rightarrow> False | Some t \<Rightarrow> now - t \<le> 300) then 5
      else if (case last_clean of None \<Rightarrow> False | Some t \<Rightarrow> 3600 \<le> now - t) then 60
      else 15)"

section \<open>The finality watcher\<close>

definition POSTING_LAG_SECS :: int where "POSTING_LAG_SECS = 600"
definition FINALITY_SAFETY_MARGIN_SECS :: int where "FINALITY_SAFETY_MARGIN_SECS = 60"

definition REPLAY_LATEST_TS_CHECKPOINT :: string where
  "REPLAY_LATEST_TS_CHECKPOINT = ''replay_finality_latest_l1_ts''"

definition REPLAY_FINALIZED_TS_CHECKPOINT :: string where
  "REPLAY_FINALIZED_TS_CHECKPOINT = ''replay_finality_finalized_l1_ts''"

record finality_summary =
  fs_latest_l1_ts :: int
  fs_finalized_l1_ts :: int
  fs_l1_posted_cutoff :: int
  fs_finalized_cutoff :: int
  fs_rows_marked_l1_posted :: nat
  fs_rows_marked_finalized :: nat

definition to_post :: "int \<Rightarrow> event_row \<Rightarrow> bool" where
  "to_post cutoff r \<longleftrightarrow> e_chain r = ARBITRUM_CHAIN_ID \<and> e_finality r = Tentative \<and> e_canonical r
     \<and> e_ts r \<le> cutoff"

definition to_finalize :: "int \<Rightarrow> event_row \<Rightarrow> bool" where
  "to_finalize cutoff r \<longleftrightarrow> e_chain r = ARBITRUM_CHAIN_ID
     \<and> (e_finality r = Tentative \<or> e_finality r = L1Posted) \<and> e_canonical r \<and> e_ts r \<le> cutoff"

definition post_row :: "int \<Rightarrow> event_row \<Rightarrow> event_row" where
  "post_row cutoff r = (if to_post cutoff r then r\<lparr>e_finality := L1Posted\<rparr> else r)"

definition finalize_row :: "int \<Rightarrow> int \<Rightarrow> event_row \<Rightarrow> event_row" where
  "finalize_row now cutoff r =
     (if to_finalize cutoff r then r\<lparr>e_finality := Finalized, e_finalized_at := Some now\<rparr> else r)"

definition run_with_timestamps :: "int \<Rightarrow> int \<Rightarrow> ('n, finality_summary) db" where
  "run_with_timestamps latest_ts finalized_ts s =
     (let l1_posted_cutoff = latest_ts - POSTING_LAG_SECS;
          finalized_cutoff = finalized_ts - FINALITY_SAFETY_MARGIN_SECS;
          evs1 = map (post_row l1_posted_cutoff) (w_events s);
          evs2 = map (finalize_row (w_now s) finalized_cutoff) evs1
      in (Inr \<lparr>fs_latest_l1_ts = latest_ts, fs_finalized_l1_ts = finalized_ts,
               fs_l1_posted_cutoff = l1_posted_cutoff, fs_finalized_cutoff = finalized_cutoff,
               fs_rows_marked_l1_posted = length (filter (to_post l1_posted_cutoff) (w_events s)),
               fs_rows_marked_finalized = length (filter (to_finalize finalized_cutoff) evs1)\<rparr>,
          s\<lparr>w_events := evs2,
            w_checkpoints := advance_greatest ''finality_watcher'' finalized_cutoff (w_checkpoints s)\<rparr>))"

definition timestamp_of :: "string \<Rightarrow> json \<Rightarrow> ('n, int) db" where
  "timestamp_of missing header =
     andthen (some_or missing (Option.bind (jget ''timestamp'' header) jstr))
       (\<lambda>ts_hex. of_result (signed_hex 64 ts_hex))"

definition l1_block_timestamp :: "ext \<Rightarrow> 'n provider \<Rightarrow> block_tag \<Rightarrow> ('n, int) db" where
  "l1_block_timestamp x l1 tag =
     andthen (core (eth_get_block_header x l1 tag)) (timestamp_of ''L1 block header missing .timestamp'')"

definition l1_block_timestamp_str :: "ext \<Rightarrow> 'n provider \<Rightarrow> string \<Rightarrow> ('n, int) db" where
  "l1_block_timestamp_str x l1 tag =
     andthen (core (call_once x l1 ''eth_getBlockByNumber'' (header_params tag)))
       (timestamp_of (''L1 block header at tag='' @ tag @ '' missing .timestamp''))"

definition persist_replay_inputs :: "int \<Rightarrow> int \<Rightarrow> 'n world \<Rightarrow> 'n world" where
  "persist_replay_inputs latest_ts finalized_ts s =
     s\<lparr>w_checkpoints := set_checkpoint REPLAY_FINALIZED_TS_CHECKPOINT finalized_ts
         (set_checkpoint REPLAY_LATEST_TS_CHECKPOINT latest_ts (w_checkpoints s))\<rparr>"

definition replay_input :: "string \<Rightarrow> ('n, int) db" where
  "replay_input name =
     andthen (reading (\<lambda>s. checkpoint (w_checkpoints s) name))
       (some_or (''missing replay finality input checkpoint '' @ name))"

definition finality_run_once :: "ext \<Rightarrow> 'n provider \<Rightarrow> ('n, finality_summary) db" where
  "finality_run_once x l1 =
     andthen (l1_block_timestamp x l1 Latest) (\<lambda>latest_ts.
     andthen (l1_block_timestamp_str x l1 ''finalized'') (\<lambda>finalized_ts.
     andthen (modifying (persist_replay_inputs latest_ts finalized_ts)) (\<lambda>_.
       run_with_timestamps latest_ts finalized_ts)))"

definition finality_run_once_replay :: "('n, finality_summary) db" where
  "finality_run_once_replay =
     andthen (replay_input REPLAY_LATEST_TS_CHECKPOINT) (\<lambda>latest_ts.
     andthen (replay_input REPLAY_FINALIZED_TS_CHECKPOINT) (\<lambda>finalized_ts.
       run_with_timestamps latest_ts finalized_ts))"

section \<open>What a reorg pass does\<close>

definition drop_blocks :: "int set \<Rightarrow> event_row \<Rightarrow> event_row" where
  "drop_blocks bs r =
     (if e_chain r = ARBITRUM_CHAIN_ID \<and> e_block r \<in> bs \<and> e_canonical r
      then r\<lparr>e_canonical := False\<rparr> else r)"

lemma drop_blocks_step: "map (drop_blocks bs) (map (drop_block b) evs) = map (drop_blocks (insert b bs)) evs"
  by (simp add: drop_block_def drop_blocks_def hit_by_reorg_def)

lemma drop_blocks_empty [simp]: "map (drop_blocks {}) evs = evs"
  by (simp add: drop_blocks_def map_idI)

text \<open>The hash the provider was seen to report for a stored block.\<close>

definition reported :: "ext \<Rightarrow> 'n provider \<Rightarrow> int \<times> string \<Rightarrow> string \<Rightarrow> bool" where
  "reported x p bh c \<longleftrightarrow>
     (\<exists>u header u'. call_once x p ''eth_getBlockByNumber''
          (header_params (hex_0x (as_u64 (fst bh)))) u = (Inr header, u')
        \<and> header_hash header = Some c)"

definition stored_as :: "int \<times> string \<Rightarrow> int" where
  "stored_as bh = as_i64 (int (as_u64 (fst bh)))"

definition disagreeing :: "(int \<times> string) list \<Rightarrow> string list \<Rightarrow> int list" where
  "disagreeing bhs cs = map (\<lambda>bc. stored_as (fst bc)) (filter (\<lambda>bc. snd bc \<noteq> lower (snd (fst bc))) (zip bhs cs))"

definition audit_rows :: "int list \<Rightarrow> reorg_row list \<Rightarrow> bool" where
  "audit_rows hits gs \<longleftrightarrow> map o_block gs = hits \<and> (\<forall>g\<in>set gs. o_old g \<noteq> o_new g)"

lemma check_block_Inr:
  assumes "check_block x p bh d s = (Inr d', s')"
  obtains c n where "reported x p bh c"
    and "c = lower (snd bh)" "d' = d" "s' = s\<lparr>w_net := n\<rparr>"
  | c n where "reported x p bh c" and "c \<noteq> lower (snd bh)" "d' = d + 1"
    "s' = handle_divergence (as_u64 (fst bh)) (lower (snd bh)) c (s\<lparr>w_net := n\<rparr>)"
proof -
  from assms obtain header u where
    h: "core (eth_get_block_header x p (Number (as_u64 (fst bh)))) s = (Inr header, u)"
    and rest: "andthen (some_or ''block header missing .hash'' (header_hash header)) (\<lambda>chain_hash.
        if chain_hash \<noteq> lower (snd bh) then
          andthen (modifying (handle_divergence (as_u64 (fst bh)) (lower (snd bh)) chain_hash))
            (\<lambda>_. ret (d + 1))
        else ret d) u = (Inr d', s')"
    by (auto simp: check_block_def Let_def andthen_Inr_iff)
  from h have call: "call_once x p ''eth_getBlockByNumber''
        (header_params (hex_0x (as_u64 (fst bh)))) s = (Inr header, u)"
    by (auto simp: core_def map_err_def eth_get_block_header_def split: prod.splits sum.splits)
  from rest obtain c where c: "header_hash header = Some c"
    by (auto simp: some_or_def io_simps split: option.splits)
  have rep: "reported x p bh c" unfolding reported_def using call c by blast
  obtain n where u: "u = s\<lparr>w_net := n\<rparr>" using call_once_frame [OF call] by blast
  show thesis
  proof (cases "c = lower (snd bh)")
    case True
    with rest c that(1) [OF rep True, of n] u show ?thesis
      by (simp add: some_or_def io_simps)
  next
    case False
    with rest c that(2) [OF rep False, of n] u show ?thesis
      by (simp add: some_or_def io_simps)
  qed
qed

lemma fold_check_blocks:
  assumes "fold_io (check_block x p) bhs d s = (Inr d', s')"
  shows "\<exists>cs gs n. list_all2 (reported x p) bhs cs
    \<and> audit_rows (disagreeing bhs cs) gs \<and> d' = d + length gs
    \<and> s' = s\<lparr>w_events := map (drop_blocks (set (disagreeing bhs cs))) (w_events s),
            w_reorgs := w_reorgs s @ gs, w_net := n\<rparr>"
  using assms
proof (induction bhs arbitrary: d s)
  case Nil
  then have "s' = s\<lparr>w_events := map (drop_blocks (set (disagreeing [] []))) (w_events s),
            w_reorgs := w_reorgs s @ [], w_net := w_net s\<rparr>" "d' = d + length ([] :: reorg_row list)"
    by (simp_all add: disagreeing_def)
  moreover have "audit_rows (disagreeing [] []) []" by (simp add: audit_rows_def disagreeing_def)
  ultimately show ?case by blast
next
  case (Cons bh bhs)
  from Cons.prems obtain d1 s1 where step: "check_block x p bh d s = (Inr d1, s1)"
    and rest: "fold_io (check_block x p) bhs d1 s1 = (Inr d', s')"
    by (auto split: prod.splits sum.splits)
  from Cons.IH [OF rest] obtain cs gs n where IH: "list_all2 (reported x p) bhs cs"
    "audit_rows (disagreeing bhs cs) gs" "d' = d1 + length gs"
    "s' = s1\<lparr>w_events := map (drop_blocks (set (disagreeing bhs cs))) (w_events s1),
            w_reorgs := w_reorgs s1 @ gs, w_net := n\<rparr>" by blast
  from step show ?case
  proof (cases rule: check_block_Inr)
    case (1 c m)
    then have "disagreeing (bh # bhs) (c # cs) = disagreeing bhs cs" by (simp add: disagreeing_def)
    moreover have "list_all2 (reported x p) (bh # bhs) (c # cs)" using 1(1) IH(1) by simp
    moreover have "s' = s\<lparr>w_events := map (drop_blocks (set (disagreeing bhs cs))) (w_events s),
            w_reorgs := w_reorgs s @ gs, w_net := n\<rparr>" using IH(4) 1(4) by simp
    ultimately show ?thesis using IH(2,3) 1(3) by metis
  next
    case (2 c m)
    let ?g = "\<lparr>o_chain = ARBITRUM_CHAIN_ID, o_block = stored_as bh, o_depth = 1,
          o_old = [lower (snd bh)], o_new = [c],
          o_affected = as_i32 (int (length (filter (hit_by_reorg (stored_as bh)) (w_events s)))),
          o_notes = ''v1 reorg-watcher: events-only walk; non-canonical marker only (TD-005)''\<rparr>"
    have d: "disagreeing (bh # bhs) (c # cs) = stored_as bh # disagreeing bhs cs"
      using 2 by (simp add: disagreeing_def)
    have "list_all2 (reported x p) (bh # bhs) (c # cs)" using 2(1) IH(1) by simp
    moreover have "audit_rows (disagreeing (bh # bhs) (c # cs)) (?g # gs)"
      using IH(2) 2(2) by (auto simp: d audit_rows_def)
    moreover have "d' = d + length (?g # gs)" using IH(3) 2(3) by simp
    moreover have "s' = s\<lparr>w_events := map (drop_blocks (set (disagreeing (bh # bhs) (c # cs)))) (w_events s),
            w_reorgs := w_reorgs s @ ?g # gs, w_net := n\<rparr>"
      unfolding d list.set drop_blocks_step [symmetric]
      using IH(4) 2(4) by (simp add: handle_divergence_def stored_as_def Let_def)
    ultimately show ?thesis by blast
  qed
qed

lemma reorg_run_once_Inr:
  assumes "reorg_run_once x p s = (Inr sm, s')"
  shows "\<exists>cs gs n. let bhs = stored_blocks (as_i64 (int (ro_window_start sm))) (as_i64 (int (ro_head sm))) (w_events s) in
      ro_blocks_checked sm = length bhs \<and> ro_divergences sm = length gs
    \<and> list_all2 (reported x p) bhs cs \<and> audit_rows (disagreeing bhs cs) gs
    \<and> s' = s\<lparr>w_events := map (drop_blocks (set (disagreeing bhs cs))) (w_events s),
            w_reorgs := w_reorgs s @ gs, w_net := n\<rparr>"
proof -
  from assms obtain head u where h: "core (eth_block_number x p) s = (Inr head, u)"
    by (auto simp: reorg_run_once_def andthen_Inr_iff)
  obtain m where u: "u = s\<lparr>w_net := m\<rparr>"
    using core_hex_frame h unfolding eth_block_number_def by blast
  let ?bhs = "stored_blocks (as_i64 (int (head - WALK_DEPTH))) (as_i64 (int head)) (w_events s)"
  from assms h obtain d where f: "fold_io (check_block x p) ?bhs 0 u = (Inr d, s')"
    and sm: "sm = \<lparr>ro_head = head, ro_window_start = head - WALK_DEPTH,
        ro_blocks_checked = length ?bhs, ro_divergences = d\<rparr>"
    by (auto simp: reorg_run_once_def andthen_Inr_iff Let_def reading_def ret_def u)
  from fold_check_blocks [OF f] show ?thesis by (auto simp: sm Let_def u)
qed

lemma as_i64_range: "- (2 ^ 63) \<le> as_i64 n \<and> as_i64 n < 2 ^ 63"
  using pos_mod_bound [of "2 ^ 64" "n + 2 ^ 63"] pos_mod_sign [of "2 ^ 64" "n + 2 ^ 63"]
  by (simp add: as_i64_def)

lemma as_i64_as_u64: "- (2 ^ 63) \<le> n \<Longrightarrow> n < 2 ^ 63 \<Longrightarrow> as_i64 (int (as_u64 n)) = n"
  by (simp add: as_i64_def as_u64_def mod_add_left_eq)

lemma set_stored_blocks:
  "bh \<in> set (stored_blocks lo hi evs) \<longleftrightarrow>
     (\<exists>r\<in>set evs. in_window lo hi r \<and> bh = (e_block r, e_hash r))"
  by (auto simp: stored_blocks_def)

lemma in_window_drop:
  "in_window lo hi (drop_blocks bs r) \<longleftrightarrow> in_window lo hi r \<and> e_block r \<notin> bs"
  by (auto simp: in_window_def drop_blocks_def)

lemma disagreeing_member:
  assumes "list_all2 P bhs cs" "bh \<in> set bhs"
  shows "\<exists>c. P bh c \<and> (c \<noteq> lower (snd bh) \<longrightarrow> stored_as bh \<in> set (disagreeing bhs cs))"
  using assms
proof (induction rule: list_all2_induct)
  case (Cons b bhs c cs)
  then show ?case by (cases "bh = b") (auto simp: disagreeing_def)
qed simp

text \<open>
  C12. After a successful reorg pass against a provider that serves one canonical header per
  block, every canonical tentative row of the walked window carries the hash of the chain.
\<close>

theorem reorg_pass_agrees:
  assumes "\<And>n u header u'. call_once x p ''eth_getBlockByNumber'' (header_params (hex_0x n)) u
      = (Inr header, u') \<Longrightarrow> header_hash header = Some (H n)"
    and "reorg_run_once x p s = (Inr sm, s')"
    and "r \<in> set (w_events s')"
    and "in_window (as_i64 (int (ro_window_start sm))) (as_i64 (int (ro_head sm))) r"
  shows "lower (e_hash r) = H (as_u64 (e_block r))"
proof -
  let ?lo = "as_i64 (int (ro_window_start sm))" and ?hi = "as_i64 (int (ro_head sm))"
  let ?bhs = "stored_blocks ?lo ?hi (w_events s)"
  from reorg_run_once_Inr [OF assms(2)] obtain cs gs n where
    rep: "list_all2 (reported x p) ?bhs cs"
    and s': "s' = s\<lparr>w_events := map (drop_blocks (set (disagreeing ?bhs cs))) (w_events s),
            w_reorgs := w_reorgs s @ gs, w_net := n\<rparr>" by (auto simp: Let_def)
  from assms(3,4) obtain r0 where r0: "r0 \<in> set (w_events s)" "in_window ?lo ?hi r0"
    "e_block r0 \<notin> set (disagreeing ?bhs cs)"
    and r: "r = drop_blocks (set (disagreeing ?bhs cs)) r0"
    by (auto simp: s' in_window_drop)
  let ?bh = "(e_block r0, e_hash r0)"
  have "- (2 ^ 63) \<le> e_block r0 \<and> e_block r0 < 2 ^ 63"
    using r0(2) as_i64_range [of "int (ro_window_start sm)"] as_i64_range [of "int (ro_head sm)"]
    unfolding in_window_def by linarith
  then have st: "stored_as ?bh = e_block r0" by (simp add: stored_as_def as_i64_as_u64)
  have "?bh \<in> set ?bhs" using r0 by (auto simp: set_stored_blocks)
  from disagreeing_member [OF rep this] obtain c where c: "reported x p ?bh c" "c = lower (e_hash r0)"
    using r0(3) st by auto
  have "c = H (as_u64 (e_block r0))" using c(1) assms(1) by (auto simp: reported_def)
  moreover have "e_hash r = e_hash r0" "e_block r = e_block r0" by (simp_all add: r drop_blocks_def)
  ultimately show ?thesis using c(2) by simp
qed

text \<open>
  C13. What a successful reorg pass writes: canonical marks are only ever cleared, exactly for
  the rows of blocks for which some stored hash disagreed with the header the provider
  reported; every disagreement leaves one audit row with two different hashes; no other table
  changes.
\<close>

theorem reorg_pass_audit:
  assumes "reorg_run_once x p s = (Inr sm, s')"
  shows "\<exists>cs gs n bhs. bhs = stored_blocks (as_i64 (int (ro_window_start sm))) (as_i64 (int (ro_head sm))) (w_events s)
    \<and> list_all2 (reported x p) bhs cs
    \<and> ro_blocks_checked sm = length bhs \<and> ro_divergences sm = length gs
    \<and> map o_block gs = disagreeing bhs cs \<and> (\<forall>g\<in>set gs. o_old g \<noteq> o_new g)
    \<and> s' = s\<lparr>w_events := map (drop_blocks (set (disagreeing bhs cs))) (w_events s),
             w_reorgs := w_reorgs s @ gs, w_net := n\<rparr>"
  using reorg_run_once_Inr [OF assms] by (auto simp: Let_def audit_rows_def)

text \<open>A network that reports one hash for every block, and two rows of the tentative window.\<close>

definition header_ext :: ext where
  "header_ext = sample_ext\<lparr>parse_response := (\<lambda>t. Some \<lparr>rs_id = Some 1,
     rs_result = Some (if t = ''head'' then JStr ''0x10'' else JObj [(''hash'', JStr ''0xAB'')]),
     rs_error = None\<rparr>)\<rparr>"

definition chain_provider :: "unit provider" where
  "chain_provider = \<lparr>pr_name = ''node'', pr_post = (\<lambda>req u.
     (Body (if jget ''method'' req = Some (JStr ''eth_blockNumber'') then ''head'' else ''header''), u))\<rparr>"

definition sample_event :: event_row where
  "sample_event = \<lparr>e_id = 1, e_chain = ARBITRUM_CHAIN_ID, e_tx = ''0xt'', e_log = 0, e_block = 9,
     e_hash = ''0xcd'', e_ts = 1000, e_address = ''0xa'', e_contract = ''BondingManager'',
     e_name = ''Reward'', e_signature = ''0xs'', e_asset = Some ''LPT'', e_amount_raw = Some 5,
     e_amount = Some 5, e_valuable = True, e_from = None, e_to = None, e_finality = Tentative,
     e_canonical = True, e_finalized_at = None, e_raw = JNull, e_abi = ''h''\<rparr>"

definition two_hash_world :: "unit world" where
  "two_hash_world = (empty_world ())\<lparr>w_events :=
     [sample_event, sample_event\<lparr>e_id := 2, e_log := 1, e_block := 8, e_hash := ''0xab''\<rparr>]\<rparr>"

lemma lower_samples [simp]:
  "lower ''0xAB'' = ''0xab''" "lower ''0xab'' = ''0xab''" "lower ''0xcd'' = ''0xcd''"
  by code_simp+

lemma two_hash_run:
  "reorg_run_once header_ext chain_provider two_hash_world =
     (Inr \<lparr>ro_head = 16, ro_window_start = 0, ro_blocks_checked = 2, ro_divergences = 1\<rparr>,
      handle_divergence 9 ''0xcd'' ''0xab'' two_hash_world)"
  by (simp add: reorg_run_once_def io_simps core_def eth_block_number_def hex_u64_call_def
      call_once_def post_def chain_provider_def header_ext_def response_value_def rpc_request_def
      parse_unsigned_def parse_digits_def digit_val_def Let_def two_hash_world_def stored_blocks_def
      in_window_def sample_event_def WALK_DEPTH_def check_block_def eth_get_block_header_def
      header_params_def header_hash_def some_or_def as_i64_def as_u64_def
      empty_world_def)

theorem reorg_pass_agrees_witness:
  "\<exists>sm s'. reorg_run_once header_ext chain_provider two_hash_world = (Inr sm, s')
    \<and> sample_event\<lparr>e_id := 2, e_log := 1, e_block := 8, e_hash := ''0xab''\<rparr> \<in> set (w_events s')
    \<and> lower ''0xab'' = ''0xab''"
proof -
  let ?r = "sample_event\<lparr>e_id := 2, e_log := 1, e_block := 8, e_hash := ''0xab''\<rparr>"
  let ?s' = "handle_divergence 9 ''0xcd'' ''0xab'' two_hash_world"
  have H: "header_hash header = Some ''0xab''"
    if "call_once header_ext chain_provider ''eth_getBlockByNumber'' (header_params (hex_0x n)) u
      = (Inr header, u')" for n u header u'
    using that by (auto simp: call_once_def post_def chain_provider_def header_ext_def rpc_request_def
        response_value_def header_hash_def)
  have r: "?r \<in> set (w_events ?s')"
    by (simp add: handle_divergence_def Let_def two_hash_world_def drop_block_def hit_by_reorg_def
        sample_event_def)
  have w: "in_window (as_i64 (int 0)) (as_i64 (int 16)) ?r"
    by (simp add: in_window_def sample_event_def)
  have "lower (e_hash ?r) = ''0xab''"
    by (rule reorg_pass_agrees [OF H two_hash_run r]) (use w in simp_all)
  then show ?thesis using two_hash_run r by auto
qed

theorem reorg_pass_audit_witness:
  "\<exists>gs s'. reorg_run_once header_ext chain_provider two_hash_world =
     (Inr \<lparr>ro_head = 16, ro_window_start = 0, ro_blocks_checked = 2, ro_divergences = 1\<rparr>, s')
     \<and> length gs = 1 \<and> w_reorgs s' = w_reorgs two_hash_world @ gs"
  using reorg_pass_audit [OF two_hash_run] two_hash_run by fastforce

section \<open>What a finality pass does\<close>

text \<open>The two updates as one function of the row, the clock and the two cutoffs.\<close>

definition settled_row :: "int \<Rightarrow> int \<Rightarrow> int \<Rightarrow> event_row \<Rightarrow> event_row" where
  "settled_row now posted_cutoff final_cutoff r =
     (if e_chain r = ARBITRUM_CHAIN_ID \<and> e_canonical r \<and> e_finality r \<noteq> Finalized then
        (if e_ts r \<le> final_cutoff then r\<lparr>e_finality := Finalized, e_finalized_at := Some now\<rparr>
         else if e_ts r \<le> posted_cutoff then r\<lparr>e_finality := L1Posted\<rparr>
         else r)
      else r)"

lemma settled_row_eq: "finalize_row now fc (post_row pc r) = settled_row now pc fc r"
  by (cases "e_finality r")
    (auto simp: finalize_row_def post_row_def to_post_def to_finalize_def settled_row_def)

lemma settled_row_idem: "settled_row now' pc fc (settled_row now pc fc r) = settled_row now pc fc r"
  by (cases "e_finality r") (auto simp: settled_row_def)

lemma settled_not_pending:
  "\<not> to_post pc (settled_row now pc fc r)" "\<not> to_finalize fc (settled_row now pc fc r)"
  by (cases "e_finality r"; auto simp: to_post_def to_finalize_def settled_row_def)+

text \<open>What no watcher pass changes in a row, and the directions in which it moves.\<close>

definition row_evolves :: "event_row \<Rightarrow> event_row \<Rightarrow> bool" where
  "row_evolves r r' \<longleftrightarrow>
     r' = r\<lparr>e_finality := e_finality r', e_canonical := e_canonical r', e_finalized_at := e_finalized_at r'\<rparr>
     \<and> e_finality r \<le> e_finality r' \<and> (e_canonical r' \<longrightarrow> e_canonical r)
     \<and> (e_finality r = Finalized \<longrightarrow> e_finalized_at r' = e_finalized_at r)
     \<and> (e_finality r' \<noteq> e_finality r \<longrightarrow> e_canonical r)"

lemma settled_row_evolves: "row_evolves r (settled_row now pc fc r)"
  by (cases "e_finality r") (auto simp: row_evolves_def settled_row_def less_eq_finality_def)

lemma drop_blocks_evolves: "row_evolves r (drop_blocks bs r)"
  by (auto simp: row_evolves_def drop_blocks_def)

lemma run_with_timestamps_eq:
  "run_with_timestamps latest fin s =
     (let pc = latest - POSTING_LAG_SECS; fc = fin - FINALITY_SAFETY_MARGIN_SECS in
      (Inr \<lparr>fs_latest_l1_ts = latest, fs_finalized_l1_ts = fin, fs_l1_posted_cutoff = pc,
            fs_finalized_cutoff = fc,
            fs_rows_marked_l1_posted = length (filter (to_post pc) (w_events s)),
            fs_rows_marked_finalized =
              length (filter (to_finalize fc) (map (post_row pc) (w_events s)))\<rparr>,
       s\<lparr>w_events := map (settled_row (w_now s) pc fc) (w_events s),
         w_checkpoints := advance_greatest ''finality_watcher'' fc (w_checkpoints s)\<rparr>))"
  by (simp add: run_with_timestamps_def Let_def settled_row_eq comp_def)

lemma finality_run_once_Inr:
  assumes "finality_run_once x p s = (Inr sm, s')"
  obtains n latest fin where
    "run_with_timestamps latest fin (persist_replay_inputs latest fin (s\<lparr>w_net := n\<rparr>)) = (Inr sm, s')"
proof -
  from assms obtain latest fin u where
    r: "run_with_timestamps latest fin (persist_replay_inputs latest fin u) = (Inr sm, s')"
    and l: "andthen (l1_block_timestamp x p Latest) (\<lambda>a. andthen
        (l1_block_timestamp_str x p ''finalized'') (\<lambda>b. ret (a, b))) s = (Inr (latest, fin), u)"
    by (auto simp: finality_run_once_def andthen_Inr_iff modifying_def ret_def)
  have t: "timestamp_of msg h w = (Inr i, w') \<Longrightarrow> w' = w" for msg h i and w w' :: "'a world"
    by (auto simp: timestamp_of_def some_or_def io_simps split: option.splits)
  from l have "same_tables s u"
    by (auto simp: andthen_Inr_iff ret_def l1_block_timestamp_def l1_block_timestamp_str_def
        eth_get_block_header_def dest!: t core_call_frame same_tablesI intro: same_tables_trans)
  then obtain n where "u = s\<lparr>w_net := n\<rparr>" by (auto simp: same_tables_def)
  with r that show thesis by blast
qed

text \<open>
  C14. A finality pass moves every row forward only: it finalizes exactly the canonical rows
  at or before the finalized cutoff, posts the tentative ones at or before the posting cutoff,
  leaves non-canonical and finalized rows alone, and records the time of finalization once.
\<close>

theorem finality_pass_rows:
  assumes "finality_run_once x p s = (Inr sm, s')"
  shows "w_events s' = map (settled_row (w_now s) (fs_l1_posted_cutoff sm) (fs_finalized_cutoff sm)) (w_events s)
    \<and> list_all2 row_evolves (w_events s) (w_events s')
    \<and> fs_l1_posted_cutoff sm = fs_latest_l1_ts sm - 600
    \<and> fs_finalized_cutoff sm = fs_finalized_l1_ts sm - 60"
proof -
  from finality_run_once_Inr [OF assms] obtain n latest fin where
    "run_with_timestamps latest fin (persist_replay_inputs latest fin (s\<lparr>w_net := n\<rparr>)) = (Inr sm, s')" .
  then show ?thesis
    by (auto simp: run_with_timestamps_eq Let_def persist_replay_inputs_def list_all2_map2
        POSTING_LAG_SECS_def FINALITY_SAFETY_MARGIN_SECS_def settled_row_evolves list.rel_refl_strong)
qed

text \<open>
  C15. Replay of a finality pass: running it again from the two persisted inputs, at any later
  clock and whatever the network says, computes the same cutoffs, marks no row and changes
  no row.
\<close>

theorem finality_replay:
  assumes "finality_run_once x p s = (Inr sm, s')"
  shows "\<exists>t. finality_run_once_replay (s'\<lparr>w_now := later, w_net := net\<rparr>) =
     (Inr (sm\<lparr>fs_rows_marked_l1_posted := 0, fs_rows_marked_finalized := 0\<rparr>), t)
     \<and> w_events t = w_events s'
     \<and> checkpoint (w_checkpoints t) = checkpoint (w_checkpoints s')"
proof -
  from finality_run_once_Inr [OF assms] obtain n latest fin where
    r: "run_with_timestamps latest fin (persist_replay_inputs latest fin (s\<lparr>w_net := n\<rparr>)) = (Inr sm, s')" .
  let ?pc = "latest - POSTING_LAG_SECS" and ?fc = "fin - FINALITY_SAFETY_MARGIN_SECS"
  let ?w = "s'\<lparr>w_now := later, w_net := net\<rparr>"
  have ev: "w_events s' = map (settled_row (w_now s) ?pc ?fc) (w_events s)"
    using r by (auto simp: run_with_timestamps_eq Let_def persist_replay_inputs_def)
  have cp: "w_checkpoints s' = advance_greatest ''finality_watcher'' ?fc
      (set_checkpoint REPLAY_FINALIZED_TS_CHECKPOINT fin
         (set_checkpoint REPLAY_LATEST_TS_CHECKPOINT latest (w_checkpoints s)))"
    using r by (auto simp: run_with_timestamps_eq Let_def persist_replay_inputs_def)
  have c: "checkpoint (w_checkpoints s') REPLAY_LATEST_TS_CHECKPOINT = Some latest"
    "checkpoint (w_checkpoints s') REPLAY_FINALIZED_TS_CHECKPOINT = Some fin"
    by (simp_all add: cp marks.advance_other REPLAY_LATEST_TS_CHECKPOINT_def
        REPLAY_FINALIZED_TS_CHECKPOINT_def)
  have run: "finality_run_once_replay ?w = run_with_timestamps latest fin ?w"
    by (simp add: finality_run_once_replay_def replay_input_def some_or_def io_simps c)
  have p: "filter (to_post ?pc) (w_events s') = []" "map (post_row ?pc) (w_events s') = w_events s'"
    by (auto simp: ev settled_not_pending post_row_def filter_empty_conv)
  have f: "filter (to_finalize ?fc \<circ> post_row ?pc) (w_events s') = []"
    by (auto simp: ev settled_not_pending filter_empty_conv post_row_def)
  have k: "map (settled_row later ?pc ?fc) (w_events s') = w_events s'"
    by (simp add: ev settled_row_idem)
  have m: "checkpoint (advance_greatest ''finality_watcher'' ?fc (w_checkpoints s')) = checkpoint (w_checkpoints s')"
    unfolding cp by (rule ext) (simp add: marks.mark_advance split: option.splits)
  have sm: "fs_latest_l1_ts sm = latest" "fs_finalized_l1_ts sm = fin"
    "fs_l1_posted_cutoff sm = ?pc" "fs_finalized_cutoff sm = ?fc"
    using r by (auto simp: run_with_timestamps_eq Let_def)
  show ?thesis
    unfolding run using sm by (cases sm) (simp add: run_with_timestamps_eq Let_def p f k m)
qed

definition l1_ext :: ext where
  "l1_ext = sample_ext\<lparr>parse_response := (\<lambda>t. Some \<lparr>rs_id = Some 1,
     rs_result = Some (JObj [(''timestamp'', JStr ''0x800'')]), rs_error = None\<rparr>)\<rparr>"

lemma l1_pass:
  "\<exists>s'. finality_run_once l1_ext chain_provider two_hash_world = (Inr \<lparr>fs_latest_l1_ts = 2048,
     fs_finalized_l1_ts = 2048, fs_l1_posted_cutoff = 1448, fs_finalized_cutoff = 1988,
     fs_rows_marked_l1_posted = 2, fs_rows_marked_finalized = 2\<rparr>, s')"
  by (simp add: finality_run_once_def l1_block_timestamp_def l1_block_timestamp_str_def
      eth_get_block_header_def call_once_def post_def io_simps core_def timestamp_of_def some_or_def
      signed_hex_def parse_signed_def parse_digits_def digit_val_def Let_def chain_provider_def
      l1_ext_def response_value_def rpc_request_def run_with_timestamps_def persist_replay_inputs_def
      two_hash_world_def sample_event_def empty_world_def to_post_def to_finalize_def post_row_def
      POSTING_LAG_SECS_def FINALITY_SAFETY_MARGIN_SECS_def)

theorem finality_pass_rows_witness:
  "\<exists>sm s'. finality_run_once l1_ext chain_provider two_hash_world = (Inr sm, s')
     \<and> list_all2 row_evolves (w_events two_hash_world) (w_events s')"
  using finality_pass_rows [of l1_ext chain_provider two_hash_world] l1_pass by blast

theorem finality_replay_witness:
  "\<exists>(t :: unit world) t'. finality_run_once_replay t =
     (Inr \<lparr>fs_latest_l1_ts = 2048, fs_finalized_l1_ts = 2048, fs_l1_posted_cutoff = 1448,
        fs_finalized_cutoff = 1988, fs_rows_marked_l1_posted = 0, fs_rows_marked_finalized = 0\<rparr>, t')"
proof -
  obtain s' where "finality_run_once l1_ext chain_provider two_hash_world = (Inr \<lparr>fs_latest_l1_ts = 2048,
     fs_finalized_l1_ts = 2048, fs_l1_posted_cutoff = 1448, fs_finalized_cutoff = 1988,
     fs_rows_marked_l1_posted = 2, fs_rows_marked_finalized = 2\<rparr>, s')" using l1_pass by blast
  from finality_replay [OF this, of "()" 0] show ?thesis by auto
qed

end
