(* ===== verification/Decode.thy ===== *)
theory Decode
  imports Rpc_Methods
begin

text \<open>
  The log decoding of \<open>crates/livepeer-indexer/src/backfill.rs\<close>: the contracts and their
  events, which events are subscribed, which are strict, and \<open>decode_one\<close>, which turns a raw
  log into a row to insert or into a failure. The types and decoders the \<open>sol!\<close> macro
  generates from the ABI files are the record \<open>abi\<close>, an argument of the definitions: the
  signature hash of an event, and the decoder of its log data, whose result gives the value of
  each named field. A 32-byte word and an address are their numbers.
\<close>

section \<open>Contracts and events\<close>

datatype contract_kind = BondingManager | TicketBroker | LivepeerToken | RoundsManager | Governor

fun contract_name :: "contract_kind \<Rightarrow> string" where
  "contract_name BondingManager = ''BondingManager''"
| "contract_name TicketBroker = ''TicketBroker''"
| "contract_name LivepeerToken = ''LivepeerToken''"
| "contract_name RoundsManager = ''RoundsManager''"
| "contract_name Governor = ''Governor''"

definition contract_parse :: "string \<Rightarrow> contract_kind option" where
  "contract_parse s =
     (if s = ''BondingManager'' then Some BondingManager
      else if s = ''TicketBroker'' then Some TicketBroker
      else if s = ''LivepeerToken'' then Some LivepeerToken
      else if s = ''RoundsManager'' then Some RoundsManager
      else if s = ''Governor'' then Some Governor
      else None)"

text \<open>The events with a branch, named as their generated types (a prefix where several
  contracts have one of that name), with the \<open>event_name\<close> each is stored under; then, per
  contract, the branches of the dispatch in the order of the code.\<close>

datatype event_kind =
    Reward | Bond | Unbond | Rebond | WithdrawStake | TransferBond | EarningsClaimed |
    WithdrawFees | TranscoderActivated | TranscoderDeactivated | TranscoderUpdate |
    TranscoderSlashed | BM_ParameterUpdate | BM_SetController | WinningTicketRedeemed |
    WinningTicketTransfer | DepositFunded | ReserveFunded | Withdrawal | Unlock |
    ReserveClaimed | UnlockCancelled | TB_ParameterUpdate | TB_SetController | Transfer | Mint |
    Burn | Approval | NewRound | RM_ParameterUpdate | RM_SetController | ProposalCreated |
    ProposalExecuted | VoteCast | VoteCastWithParams | ProposalCanceled | ProposalQueued |
    GV_ParameterUpdate | GV_SetController

fun event_label :: "event_kind \<Rightarrow> string" where
  "event_label Reward = ''Reward''"
| "event_label Bond = ''Bond''"
| "event_label Unbond = ''Unbond''"
| "event_label Rebond = ''Rebond''"
| "event_label WithdrawStake = ''WithdrawStake''"
| "event_label TransferBond = ''TransferBond''"
| "event_label EarningsClaimed = ''EarningsClaimed''"
| "event_label WithdrawFees = ''WithdrawFees''"
| "event_label TranscoderActivated = ''TranscoderActivated''"
| "event_label TranscoderDeactivated = ''TranscoderDeactivated''"
| "event_label TranscoderUpdate = ''TranscoderUpdate''"
| "event_label TranscoderSlashed = ''TranscoderSlashed''"
| "event_label BM_ParameterUpdate = ''ParameterUpdate''"
| "event_label BM_SetController = ''SetController''"
| "event_label WinningTicketRedeemed = ''WinningTicketRedeemed''"
| "event_label WinningTicketTransfer = ''WinningTicketTransfer''"
| "event_label DepositFunded = ''DepositFunded''"
| "event_label ReserveFunded = ''ReserveFunded''"
| "event_label Withdrawal = ''Withdrawal''"
| "event_label Unlock = ''Unlock''"
| "event_label ReserveClaimed = ''ReserveClaimed''"
| "event_label UnlockCancelled = ''UnlockCancelled''"
| "event_label TB_ParameterUpdate = ''ParameterUpdate''"
| "event_label TB_SetController = ''SetController''"
| "event_label Transfer = ''Transfer''"
| "event_label Mint = ''Mint''"
| "event_label Burn = ''Burn''"
| "event_label Approval = ''Approval''"
| "event_label NewRound = ''NewRound''"
| "event_label RM_ParameterUpdate = ''ParameterUpdate''"
| "event_label RM_SetController = ''SetController''"
| "event_label ProposalCreated = ''ProposalCreated''"
| "event_label ProposalExecuted = ''ProposalExecuted''"
| "event_label VoteCast = ''VoteCast''"
| "event_label VoteCastWithParams = ''VoteCastWithParams''"
| "event_label ProposalCanceled = ''ProposalCanceled''"
| "event_label ProposalQueued = ''ProposalQueued''"
| "event_label GV_ParameterUpdate = ''ParameterUpdate''"
| "event_label GV_SetController = ''SetController''"

fun dispatched :: "contract_kind \<Rightarrow> event_kind list" where
  "dispatched BondingManager =
     [Reward, Bond, Unbond, Rebond, WithdrawStake, TransferBond, EarningsClaimed, WithdrawFees,
     TranscoderActivated, TranscoderDeactivated, TranscoderUpdate, TranscoderSlashed,
     BM_ParameterUpdate, BM_SetController]"
| "dispatched TicketBroker =
     [WinningTicketRedeemed, WinningTicketTransfer, DepositFunded, ReserveFunded, Withdrawal,
     Unlock, ReserveClaimed, UnlockCancelled, TB_ParameterUpdate, TB_SetController]"
| "dispatched LivepeerToken =
     [Transfer, Mint, Burn, Approval]"
| "dispatched RoundsManager =
     [NewRound, RM_ParameterUpdate, RM_SetController]"
| "dispatched Governor =
     [ProposalCreated, ProposalExecuted, VoteCast, VoteCastWithParams, ProposalCanceled,
     ProposalQueued, GV_ParameterUpdate, GV_SetController]"

text \<open>\<open>topic0s_for\<close>: the events a contract subscribes to, in the order of the request.\<close>

fun subscribed :: "contract_kind \<Rightarrow> event_kind list" where
  "subscribed BondingManager =
     [Reward, Bond, Unbond, Rebond, WithdrawStake, TransferBond, EarningsClaimed, WithdrawFees,
      TranscoderActivated, TranscoderDeactivated, TranscoderUpdate, TranscoderSlashed,
      BM_ParameterUpdate, BM_SetController]"
| "subscribed TicketBroker =
     [WinningTicketRedeemed, WinningTicketTransfer, DepositFunded, ReserveFunded, Withdrawal,
      Unlock, ReserveClaimed, UnlockCancelled, TB_ParameterUpdate, TB_SetController]"
| "subscribed LivepeerToken = [Transfer, Approval, Mint, Burn]"
| "subscribed RoundsManager = [NewRound, RM_ParameterUpdate, RM_SetController]"
| "subscribed Governor =
     [ProposalCreated, ProposalExecuted, VoteCast, VoteCastWithParams, ProposalCanceled,
      ProposalQueued, GV_ParameterUpdate, GV_SetController]"

text \<open>\<open>is_strict_event\<close>: the events whose decode failure halts the batch.\<close>

fun strict_events :: "contract_kind \<Rightarrow> event_kind list" where
  "strict_events BondingManager =
     [Bond, Unbond, Rebond, WithdrawStake, TransferBond, Reward, EarningsClaimed,
      TranscoderSlashed]"
| "strict_events TicketBroker = [WinningTicketRedeemed, WinningTicketTransfer]"
| "strict_events LivepeerToken = [Transfer]"
| "strict_events RoundsManager = []"
| "strict_events Governor = []"

section \<open>Logs and the generated decoders\<close>

record raw_log =
  l_address :: string
  l_topics :: "string list"
  l_data :: string
  l_block_number :: string
  l_block_hash :: string
  l_tx_hash :: string
  l_log_index :: string

type_synonym log_data = "nat list \<times> string"

record sol_event =
  ev_uint :: "string \<Rightarrow> nat"
  ev_addr :: "string \<Rightarrow> nat"
  ev_text :: "string \<Rightarrow> string"
  ev_hex :: "string \<Rightarrow> string"

text \<open>
  \<open>b256_from_str\<close> parses a 32-byte hexadecimal word; \<open>alloy_hex\<close> is \<open>alloy::hex::decode\<close>;
  \<open>log_data_ok\<close> says when \<open>LogData::new\<close> accepts; \<open>timestamp_ok\<close> when
  \<open>DateTime::from_timestamp\<close> does; \<open>logs_from_json\<close> is the deserialisation of the log array;
  \<open>json_error\<close> is the text of the parser's error.
\<close>

record abi =
  signature_hash :: "event_kind \<Rightarrow> nat"
  decode_log_data :: "event_kind \<Rightarrow> log_data \<Rightarrow> string + sol_event"
  b256_from_str :: "string \<Rightarrow> nat option"
  alloy_hex :: "string \<Rightarrow> string option"
  log_data_ok :: "log_data \<Rightarrow> bool"
  timestamp_ok :: "int \<Rightarrow> bool"
  logs_from_json :: "json \<Rightarrow> raw_log list option"
  json_error :: "string \<Rightarrow> string"

definition is_strict_event :: "abi \<Rightarrow> contract_kind \<Rightarrow> nat \<Rightarrow> bool" where
  "is_strict_event ab c topic0 \<longleftrightarrow> (\<exists>k\<in>set (strict_events c). topic0 = signature_hash ab k)"

text \<open>\<open>{:x}\<close> of a fixed-size word: all digits, no prefix.\<close>

definition hex_fixed :: "nat \<Rightarrow> nat \<Rightarrow> string" where
  "hex_fixed w n = (let d = show_base 16 n in replicate (w - length d) (CHR ''0'') @ d)"

definition topic_hex :: "nat \<Rightarrow> string" where
  "topic_hex t = ''0x'' @ hex_fixed 64 t"

definition addr_lower :: "nat \<Rightarrow> string" where
  "addr_lower a = ''0x'' @ hex_fixed 40 a"

definition topic0s_for :: "abi \<Rightarrow> contract_kind \<Rightarrow> string list" where
  "topic0s_for ab c = map (\<lambda>k. topic_hex (signature_hash ab k)) (subscribed c)"

section \<open>Rows\<close>

record prepared_row =
  y_tx :: string
  y_log :: int
  y_block :: int
  y_hash :: string
  y_ts :: int
  y_address :: string
  y_contract :: string
  y_name :: string
  y_signature :: string
  y_asset :: "string option"
  y_amount_raw :: "rat option"
  y_amount :: "rat option"
  y_valuable :: bool
  y_from :: "string option"
  y_to :: "string option"
  y_raw :: json

definition LPT_DECIMALS :: nat where "LPT_DECIMALS = 18"
definition ETH_DECIMALS :: nat where "ETH_DECIMALS = 18"

definition set_amount :: "ext \<Rightarrow> nat \<Rightarrow> nat \<Rightarrow> prepared_row \<Rightarrow> prepared_row" where
  "set_amount x amount decimals row =
     (let raw = (case bd_parse x (show_nat amount) of None \<Rightarrow> 0 | Some v \<Rightarrow> v) in
      row\<lparr>y_amount_raw := Some raw, y_amount := Some (bd_div x raw (10 ^ decimals))\<rparr>)"

text \<open>A branch that names an asset, an amount and whether it counts.\<close>

definition money :: "ext \<Rightarrow> string \<Rightarrow> nat \<Rightarrow> prepared_row \<Rightarrow> prepared_row" where
  "money x asset amount row =
     set_amount x amount (if asset = ''LPT'' then LPT_DECIMALS else ETH_DECIMALS)
       (row\<lparr>y_asset := Some asset, y_valuable := True\<rparr>)"

definition from_to :: "nat option \<Rightarrow> nat option \<Rightarrow> prepared_row \<Rightarrow> prepared_row" where
  "from_to f t row =
     (let row1 = (case f of None \<Rightarrow> row | Some a \<Rightarrow> row\<lparr>y_from := Some (addr_lower a)\<rparr>)
      in case t of None \<Rightarrow> row1 | Some a \<Rightarrow> row1\<lparr>y_to := Some (addr_lower a)\<rparr>)"

definition put_decoded :: "(string \<times> json) list \<Rightarrow> prepared_row \<Rightarrow> prepared_row" where
  "put_decoded kvs row = row\<lparr>y_raw := jput ''decoded'' (JObj kvs) (y_raw row)\<rparr>"

abbreviation dec :: "sol_event \<Rightarrow> string \<Rightarrow> json" where
  "dec d f \<equiv> JStr (show_nat (ev_uint d f))"

abbreviation adr :: "sol_event \<Rightarrow> string \<Rightarrow> json" where
  "adr d f \<equiv> JStr (addr_lower (ev_addr d f))"

text \<open>The monetary events of the bonding manager.\<close>

fun fill_bonding :: "ext \<Rightarrow> event_kind \<Rightarrow> sol_event \<Rightarrow> prepared_row \<Rightarrow> prepared_row" where
  "fill_bonding x Reward d row =
     from_to None (Some (ev_addr d ''transcoder'')) (money x ''LPT'' (ev_uint d ''amount'') row)"
| "fill_bonding x Bond d row =
     from_to (Some (ev_addr d ''delegator'')) (Some (ev_addr d ''newDelegate''))
       (money x ''LPT'' (ev_uint d ''additionalAmount'') row)"
| "fill_bonding x Unbond d row =
     from_to (Some (ev_addr d ''delegator'')) (Some (ev_addr d ''delegate''))
       (money x ''LPT'' (ev_uint d ''amount'') row)"
| "fill_bonding x Rebond d row =
     from_to (Some (ev_addr d ''delegator'')) (Some (ev_addr d ''delegate''))
       (money x ''LPT'' (ev_uint d ''amount'') row)"
| "fill_bonding x WithdrawStake d row =
     from_to (Some (ev_addr d ''delegator'')) None (money x ''LPT'' (ev_uint d ''amount'') row)"
| "fill_bonding x TransferBond d row =
     from_to (Some (ev_addr d ''oldDelegator'')) (Some (ev_addr d ''newDelegator''))
       (money x ''LPT'' (ev_uint d ''amount'') row)"
| "fill_bonding x EarningsClaimed d row =
     put_decoded [(''rewards'', dec d ''rewards''), (''fees'', dec d ''fees''),
         (''startRound'', dec d ''startRound''), (''endRound'', dec d ''endRound'')]
       (from_to (Some (ev_addr d ''delegator'')) (Some (ev_addr d ''delegate''))
         (row\<lparr>y_asset := None, y_valuable := True, y_amount_raw := None, y_amount := None\<rparr>))"
| "fill_bonding x WithdrawFees d row =
     from_to (Some (ev_addr d ''delegator'')) (Some (ev_addr d ''recipient''))
       (money x ''ETH'' (ev_uint d ''amount'') row)"
| "fill_bonding x _ d row = row"

fun fill_transcoder :: "ext \<Rightarrow> event_kind \<Rightarrow> sol_event \<Rightarrow> prepared_row \<Rightarrow> prepared_row" where
  "fill_transcoder x TranscoderActivated d row =
     put_decoded [(''transcoder'', adr d ''transcoder''), (''activationRound'', dec d ''activationRound'')]
       (from_to None (Some (ev_addr d ''transcoder'')) row)"
| "fill_transcoder x TranscoderDeactivated d row =
     put_decoded [(''transcoder'', adr d ''transcoder''), (''deactivationRound'', dec d ''deactivationRound'')]
       (from_to None (Some (ev_addr d ''transcoder'')) row)"
| "fill_transcoder x TranscoderUpdate d row =
     put_decoded [(''transcoder'', adr d ''transcoder''), (''rewardCut'', dec d ''rewardCut''),
         (''feeShare'', dec d ''feeShare'')]
       (from_to None (Some (ev_addr d ''transcoder'')) row)"
| "fill_transcoder x TranscoderSlashed d row =
     put_decoded [(''transcoder'', adr d ''transcoder''), (''finder'', adr d ''finder''),
         (''penalty'', dec d ''penalty''), (''finderReward'', dec d ''finderReward'')]
       (from_to (Some (ev_addr d ''transcoder'')) (Some (ev_addr d ''finder''))
         (money x ''LPT'' (ev_uint d ''penalty'') row))"
| "fill_transcoder x _ d row = row"

text \<open>The ticket broker; \<open>saturating_add\<close> of two 256-bit amounts.\<close>

definition saturating_add_u256 :: "nat \<Rightarrow> nat \<Rightarrow> nat" where
  "saturating_add_u256 a b = min (a + b) (2 ^ 256 - 1)"

fun fill_broker :: "ext \<Rightarrow> event_kind \<Rightarrow> sol_event \<Rightarrow> prepared_row \<Rightarrow> prepared_row" where
  "fill_broker x WinningTicketRedeemed d row =
     from_to (Some (ev_addr d ''sender'')) (Some (ev_addr d ''recipient''))
       (money x ''ETH'' (ev_uint d ''faceValue'') row)"
| "fill_broker x WinningTicketTransfer d row =
     from_to (Some (ev_addr d ''sender'')) (Some (ev_addr d ''recipient''))
       (money x ''ETH'' (ev_uint d ''amount'') row)"
| "fill_broker x DepositFunded d row =
     from_to (Some (ev_addr d ''sender'')) None (money x ''ETH'' (ev_uint d ''amount'') row)"
| "fill_broker x ReserveFunded d row =
     from_to (Some (ev_addr d ''reserveHolder'')) None (money x ''ETH'' (ev_uint d ''amount'') row)"
| "fill_broker x Withdrawal d row =
     from_to (Some (ev_addr d ''sender'')) None
       (money x ''ETH'' (saturating_add_u256 (ev_uint d ''deposit'') (ev_uint d ''reserve'')) row)"
| "fill_broker x Unlock d row = from_to (Some (ev_addr d ''sender'')) None row"
| "fill_broker x ReserveClaimed d row =
     from_to (Some (ev_addr d ''reserveHolder'')) (Some (ev_addr d ''claimant''))
       (set_amount x (ev_uint d ''amount'') ETH_DECIMALS
         (row\<lparr>y_asset := Some ''ETH'', y_valuable := False\<rparr>))"
| "fill_broker x UnlockCancelled d row = from_to (Some (ev_addr d ''sender'')) None row"
| "fill_broker x _ d row = row"

fun fill_token :: "ext \<Rightarrow> event_kind \<Rightarrow> sol_event \<Rightarrow> prepared_row \<Rightarrow> prepared_row" where
  "fill_token x Transfer d row =
     from_to (Some (ev_addr d ''from'')) (Some (ev_addr d ''to'')) (money x ''LPT'' (ev_uint d ''value'') row)"
| "fill_token x Mint d row =
     from_to None (Some (ev_addr d ''to'')) (money x ''LPT'' (ev_uint d ''amount'') row)"
| "fill_token x Burn d row =
     from_to (Some (ev_addr d ''burner'')) None (money x ''LPT'' (ev_uint d ''value'') row)"
| "fill_token x _ d row = row"

text \<open>The two events every contract but the token shares.\<close>

definition fill_controller :: "event_kind \<Rightarrow> sol_event \<Rightarrow> prepared_row \<Rightarrow> prepared_row" where
  "fill_controller k d row =
     (if k \<in> {BM_ParameterUpdate, TB_ParameterUpdate, RM_ParameterUpdate, GV_ParameterUpdate} then
        put_decoded [(''param'', JStr (ev_text d ''param''))] row
      else if k \<in> {BM_SetController, TB_SetController, RM_SetController, GV_SetController} then
        put_decoded [(''controller'', adr d ''controller'')] row
      else row)"

fun fill_governor :: "ext \<Rightarrow> event_kind \<Rightarrow> sol_event \<Rightarrow> prepared_row \<Rightarrow> prepared_row" where
  "fill_governor x ProposalCreated d row =
     put_decoded [(''proposalId'', dec d ''proposalId''), (''proposer'', adr d ''proposer''),
       (''voteStart'', dec d ''voteStart''), (''voteEnd'', dec d ''voteEnd''),
       (''description'', JStr (ev_text d ''description''))] row"
| "fill_governor x ProposalExecuted d row = put_decoded [(''proposalId'', dec d ''proposalId'')] row"
| "fill_governor x VoteCast d row =
     from_to (Some (ev_addr d ''voter'')) None
       (put_decoded [(''voter'', adr d ''voter''), (''proposalId'', dec d ''proposalId''),
         (''support'', JNum (int (ev_uint d ''support''))), (''weight'', dec d ''weight''),
         (''reason'', JStr (ev_text d ''reason''))] row)"
| "fill_governor x VoteCastWithParams d row =
     put_decoded [(''voter'', adr d ''voter''), (''proposalId'', dec d ''proposalId''),
         (''support'', JNum (int (ev_uint d ''support''))), (''weight'', dec d ''weight''),
         (''reason'', JStr (ev_text d ''reason'')), (''params'', JStr (''0x'' @ ev_hex d ''params''))]
       (from_to (Some (ev_addr d ''voter'')) None row)"
| "fill_governor x ProposalCanceled d row = put_decoded [(''proposalId'', dec d ''proposalId'')] row"
| "fill_governor x ProposalQueued d row =
     put_decoded [(''proposalId'', dec d ''proposalId''), (''eta'', dec d ''eta'')] row"
| "fill_governor x _ d row = row"

fun fill_rounds :: "event_kind \<Rightarrow> sol_event \<Rightarrow> prepared_row \<Rightarrow> prepared_row" where
  "fill_rounds NewRound d row =
     put_decoded [(''round'', dec d ''round''), (''blockHash'', JStr (''0x'' @ ev_hex d ''blockHash''))] row"
| "fill_rounds _ d row = row"

definition fill_event :: "ext \<Rightarrow> contract_kind \<Rightarrow> event_kind \<Rightarrow> sol_event \<Rightarrow> prepared_row \<Rightarrow> prepared_row" where
  "fill_event x c k d row =
     fill_controller k d
       (case c of
          BondingManager \<Rightarrow> fill_transcoder x k d (fill_bonding x k d row)
        | TicketBroker \<Rightarrow> fill_broker x k d row
        | LivepeerToken \<Rightarrow> fill_token x k d row
        | RoundsManager \<Rightarrow> fill_rounds k d row
        | Governor \<Rightarrow> fill_governor x k d row)"

section \<open>decode_one\<close>

datatype dispatch_outcome =
    Decoded prepared_row
  | DecodeFailed string nat bool string
  | UnknownTopic0 nat

definition decode_failed :: "abi \<Rightarrow> contract_kind \<Rightarrow> string \<Rightarrow> nat \<Rightarrow> string \<Rightarrow> dispatch_outcome" where
  "decode_failed ab c name topic0 e = DecodeFailed name topic0 (is_strict_event ab c topic0) e"

fun all_some :: "'a option list \<Rightarrow> 'a list option" where
  "all_some [] = Some []"
| "all_some (None # xs) = None"
| "all_some (Some a # xs) = map_option ((#) a) (all_some xs)"

definition build_log_data :: "abi \<Rightarrow> raw_log \<Rightarrow> string + log_data" where
  "build_log_data ab raw =
     (case all_some (map (\<lambda>t. b256_from_str ab (trim_0x t)) (l_topics raw)) of
        None \<Rightarrow> Inl ''decoding topic bytes''
      | Some topics \<Rightarrow>
          (case alloy_hex ab (trim_0x (l_data raw)) of
             None \<Rightarrow> Inl ''decoding data hex''
           | Some bytes \<Rightarrow>
               if log_data_ok ab (topics, bytes) then Inr (topics, bytes)
               else Inl ''malformed LogData (topics/data shape)''))"

definition raw_to_json :: "raw_log \<Rightarrow> json" where
  "raw_to_json raw =
     JObj [(''address'', JStr (l_address raw)), (''topics'', JArr (map JStr (l_topics raw))),
       (''data'', JStr (l_data raw)), (''blockNumber'', JStr (l_block_number raw)),
       (''blockHash'', JStr (l_block_hash raw)), (''transactionHash'', JStr (l_tx_hash raw)),
       (''logIndex'', JStr (l_log_index raw))]"

definition envelope_row :: "contract_kind \<Rightarrow> raw_log \<Rightarrow> nat \<Rightarrow> nat \<Rightarrow> nat \<Rightarrow> int \<Rightarrow> prepared_row" where
  "envelope_row c raw topic0 block_number log_index ts =
     \<lparr>y_tx = lower (l_tx_hash raw), y_log = as_i32 (int log_index), y_block = as_i64 (int block_number),
      y_hash = lower (l_block_hash raw), y_ts = ts, y_address = lower (l_address raw),
      y_contract = contract_name c, y_name = [], y_signature = topic_hex topic0, y_asset = None,
      y_amount_raw = None, y_amount = None, y_valuable = False, y_from = None, y_to = None,
      y_raw = raw_to_json raw\<rparr>"

text \<open>The chain of comparisons of \<open>topic0\<close> with the signature hashes.\<close>

definition dispatch ::
  "ext \<Rightarrow> abi \<Rightarrow> contract_kind \<Rightarrow> nat \<Rightarrow> log_data \<Rightarrow> prepared_row \<Rightarrow> dispatch_outcome" where
  "dispatch x ab c topic0 ld row =
     (case List.find (\<lambda>k. topic0 = signature_hash ab k) (dispatched c) of
        None \<Rightarrow> UnknownTopic0 topic0
      | Some k \<Rightarrow>
          let named = row\<lparr>y_name := event_label k\<rparr> in
          if k = Approval then Decoded named
          else (case decode_log_data ab k ld of
                  Inr d \<Rightarrow> Decoded (fill_event x c k d named)
                | Inl e \<Rightarrow> decode_failed ab c (event_label k) topic0 e))"

definition decode_one ::
  "ext \<Rightarrow> abi \<Rightarrow> contract_kind \<Rightarrow> raw_log \<Rightarrow> (nat \<Rightarrow> int option) \<Rightarrow> dispatch_outcome" where
  "decode_one x ab c raw block_ts =
     (case (case l_topics raw of [] \<Rightarrow> None | t # _ \<Rightarrow> b256_from_str ab (trim_0x t)) of
        None \<Rightarrow> DecodeFailed ''(none)'' 0 False ''log missing or malformed topic0''
      | Some topic0 \<Rightarrow>
     (case build_log_data ab raw of
        Inl e \<Rightarrow> DecodeFailed ''(unknown)'' topic0 (is_strict_event ab c topic0) e
      | Inr log_data \<Rightarrow>
     (case unsigned_hex 64 (l_block_number raw) of
        Inl e \<Rightarrow> DecodeFailed ''(envelope)'' topic0 False (''bad block_number: '' @ e)
      | Inr block_number \<Rightarrow>
     (case unsigned_hex 32 (l_log_index raw) of
        Inl e \<Rightarrow> DecodeFailed ''(envelope)'' topic0 False (''bad log_index: '' @ e)
      | Inr log_index \<Rightarrow>
     (case block_ts block_number of
        None \<Rightarrow> DecodeFailed ''(envelope)'' topic0 False
                  (''missing block timestamp for block '' @ show_nat block_number)
      | Some ts \<Rightarrow>
          if \<not> timestamp_ok ab ts then
            DecodeFailed ''(envelope)'' topic0 False (''invalid timestamp: '' @ show_int ts)
          else dispatch x ab c topic0 log_data (envelope_row c raw topic0 block_number log_index ts))))))"

end
