(* ===== verification/Decode_Props.thy ===== *)
theory Decode_Props
  imports Decode
begin

text \<open>
  What the log decoder guarantees: the subscribed topics are exactly those with a branch,
  every strict event is monetary, and each event is stored under its name with the asset, the
  amount in base units and the amount divided by \<open>10 ^ 18\<close> that a table states.
\<close>

section \<open>The money table\<close>

text \<open>For each event that moves an amount: the asset, the amount, and whether it counts.\<close>

fun money_of :: "event_kind \<Rightarrow> sol_event \<Rightarrow> (string \<times> nat \<times> bool) option" where
  "money_of Reward d = Some (''LPT'', ev_uint d ''amount'', True)"
| "money_of Bond d = Some (''LPT'', ev_uint d ''additionalAmount'', True)"
| "money_of Unbond d = Some (''LPT'', ev_uint d ''amount'', True)"
| "money_of Rebond d = Some (''LPT'', ev_uint d ''amount'', True)"
| "money_of WithdrawStake d = Some (''LPT'', ev_uint d ''amount'', True)"
| "money_of TransferBond d = Some (''LPT'', ev_uint d ''amount'', True)"
| "money_of WithdrawFees d = Some (''ETH'', ev_uint d ''amount'', True)"
| "money_of TranscoderSlashed d = Some (''LPT'', ev_uint d ''penalty'', True)"
| "money_of WinningTicketRedeemed d = Some (''ETH'', ev_uint d ''faceValue'', True)"
| "money_of WinningTicketTransfer d = Some (''ETH'', ev_uint d ''amount'', True)"
| "money_of DepositFunded d = Some (''ETH'', ev_uint d ''amount'', True)"
| "money_of ReserveFunded d = Some (''ETH'', ev_uint d ''amount'', True)"
| "money_of Withdrawal d =
     Some (''ETH'', min (ev_uint d ''deposit'' + ev_uint d ''reserve'') (2 ^ 256 - 1), True)"
| "money_of ReserveClaimed d = Some (''ETH'', ev_uint d ''amount'', False)"
| "money_of Transfer d = Some (''LPT'', ev_uint d ''value'', True)"
| "money_of Mint d = Some (''LPT'', ev_uint d ''amount'', True)"
| "money_of Burn d = Some (''LPT'', ev_uint d ''value'', True)"
| "money_of _ d = None"

definition row_states :: "(string \<times> nat \<times> bool) option \<Rightarrow> bool \<Rightarrow> prepared_row \<Rightarrow> bool" where
  "row_states m claimed row \<longleftrightarrow>
     (case m of
        Some (asset, amount, counts) \<Rightarrow>
          y_asset row = Some asset \<and> y_amount_raw row = Some (of_nat amount)
          \<and> y_amount row = Some (of_nat amount / 10 ^ 18) \<and> y_valuable row = counts
      | None \<Rightarrow> y_asset row = None \<and> y_amount_raw row = None \<and> y_amount row = None
          \<and> y_valuable row = claimed)"

lemma dispatched_subscribed: "set (dispatched c) = set (subscribed c)"
  by (cases c) auto

lemma strict_dispatched: "set (strict_events c) \<subseteq> set (dispatched c)"
  by (cases c) auto

lemma set_amount_fields:
  assumes "bd_reads_nat x" "bd_exact x"
  shows "y_amount_raw (set_amount x n dcs row) = Some (of_nat n)"
    "y_amount (set_amount x n dcs row) = Some (of_nat n / 10 ^ dcs)"
    "y_asset (set_amount x n dcs row) = y_asset row" "y_valuable (set_amount x n dcs row) = y_valuable row"
    "y_name (set_amount x n dcs row) = y_name row"
proof -
  have "bd_div x (of_nat n) (10 ^ dcs) = of_nat n / 10 ^ dcs"
    using assms(2) [unfolded bd_exact_def, rule_format, of "int n" dcs] by simp
  then show "y_amount_raw (set_amount x n dcs row) = Some (of_nat n)"
    "y_amount (set_amount x n dcs row) = Some (of_nat n / 10 ^ dcs)"
    "y_asset (set_amount x n dcs row) = y_asset row" "y_valuable (set_amount x n dcs row) = y_valuable row"
    "y_name (set_amount x n dcs row) = y_name row"
    using assms(1) by (simp_all add: set_amount_def bd_reads_nat_def Let_def)
qed

lemma money_fields:
  assumes "bd_reads_nat x" "bd_exact x"
  shows "y_amount_raw (money x a n row) = Some (of_nat n)"
    "y_amount (money x a n row) = Some (of_nat n / 10 ^ 18)"
    "y_asset (money x a n row) = Some a" "y_valuable (money x a n row)"
    "y_name (money x a n row) = y_name row"
  by (simp_all add: money_def set_amount_fields [OF assms] LPT_DECIMALS_def ETH_DECIMALS_def)

lemma from_to_fields [simp]:
  "y_amount_raw (from_to f t row) = y_amount_raw row" "y_amount (from_to f t row) = y_amount row"
  "y_asset (from_to f t row) = y_asset row" "y_valuable (from_to f t row) = y_valuable row"
  "y_name (from_to f t row) = y_name row"
  by (auto simp: from_to_def Let_def split: option.splits)

lemma put_decoded_fields [simp]:
  "y_amount_raw (put_decoded kvs row) = y_amount_raw row" "y_amount (put_decoded kvs row) = y_amount row"
  "y_asset (put_decoded kvs row) = y_asset row" "y_valuable (put_decoded kvs row) = y_valuable row"
  "y_name (put_decoded kvs row) = y_name row"
  by (simp_all add: put_decoded_def)

definition plain_row :: "prepared_row \<Rightarrow> bool" where
  "plain_row row \<longleftrightarrow> y_asset row = None \<and> y_amount_raw row = None \<and> y_amount row = None \<and> \<not> y_valuable row"

lemma fill_event_states:
  assumes "bd_reads_nat x" "bd_exact x" "k \<in> set (dispatched c)" "plain_row row"
  shows "row_states (money_of k d) (k = EarningsClaimed) (fill_event x c k d row)
    \<and> y_name (fill_event x c k d row) = y_name row"
  using assms(3,4)
  by (cases c)
    (auto simp: fill_event_def fill_controller_def row_states_def plain_row_def
      money_fields [OF assms(1,2)] set_amount_fields [OF assms(1,2)] saturating_add_u256_def
      ETH_DECIMALS_def)

lemma dispatch_known:
  assumes "inj_on (signature_hash ab) (set (dispatched c))" "k \<in> set (dispatched c)"
  shows "List.find (\<lambda>k'. signature_hash ab k = signature_hash ab k') (dispatched c) = Some k"
proof -
  obtain k' where f: "List.find (\<lambda>k'. signature_hash ab k = signature_hash ab k') (dispatched c) = Some k'"
    using assms(2) by (metis (mono_tags, lifting) find_None_iff option.exhaust)
  then have "k' \<in> set (dispatched c)" "signature_hash ab k = signature_hash ab k'"
    by (auto simp: find_Some_iff)
  with assms f show ?thesis by (metis inj_on_eq_iff)
qed


definition probe_abi :: abi where
  "probe_abi = \<lparr>signature_hash = (\<lambda>k. if k = NewRound then 1 else if k = RM_ParameterUpdate then 2 else 3),
     decode_log_data = (\<lambda>_ _. Inr \<lparr>ev_uint = (\<lambda>_. 5), ev_addr = (\<lambda>_. 7), ev_text = (\<lambda>_. []), ev_hex = (\<lambda>_. [])\<rparr>),
     b256_from_str = (\<lambda>_. Some 1), alloy_hex = Some, log_data_ok = (\<lambda>_. True),
     timestamp_ok = (\<lambda>_. True), logs_from_json = (\<lambda>_. None), json_error = (\<lambda>t. t)\<rparr>"


text \<open>
  The request, the dispatch and the strict list agree: a log whose \<open>topic0\<close> is one of the
  subscribed signatures is never treated as unknown, and every strict event is one whose row
  counts as valuable.
\<close>

theorem subscribed_never_unknown:
  assumes "k \<in> set (subscribed c)" "l_topics raw = t # rest"
    and "b256_from_str ab (trim_0x t) = Some (signature_hash ab k)"
  shows "decode_one x ab c raw ts \<noteq> UnknownTopic0 u
    \<and> (\<forall>k\<in>set (strict_events c). k \<in> set (subscribed c)
         \<and> (k = EarningsClaimed \<or> (\<exists>a n. money_of k d = Some (a, n, True))))"
proof
  have "List.find (\<lambda>k'. signature_hash ab k = signature_hash ab k') (dispatched c) \<noteq> None"
    using assms(1) by (auto simp: find_None_iff dispatched_subscribed)
  then show "decode_one x ab c raw ts \<noteq> UnknownTopic0 u"
    using assms(2,3) by (auto simp: decode_one_def dispatch_def decode_failed_def Let_def
        split: sum.splits option.splits)
  show "\<forall>k\<in>set (strict_events c). k \<in> set (subscribed c)
         \<and> (k = EarningsClaimed \<or> (\<exists>a n. money_of k d = Some (a, n, True)))"
    by (cases c) auto
qed

definition bare_log :: raw_log where
  "bare_log = \<lparr>l_address = [], l_topics = [''0x1''], l_data = [],
     l_block_number = [], l_block_hash = [], l_tx_hash = [], l_log_index = []\<rparr>"

theorem subscribed_never_unknown_witness:
  "decode_one sample_ext probe_abi RoundsManager bare_log (\<lambda>_. None) \<noteq> UnknownTopic0 1"
proof -
  have "NewRound \<in> set (subscribed RoundsManager)" "l_topics bare_log = ''0x1'' # []"
    "b256_from_str probe_abi (trim_0x ''0x1'') = Some (signature_hash probe_abi NewRound)"
    by (simp_all add: probe_abi_def bare_log_def)
  from subscribed_never_unknown [OF this] show ?thesis by blast
qed

end
