(* ===== verification/Indexer.thy ===== *)
theory Indexer
  imports Decode
begin

text \<open>
  The chunked log backfill of \<open>crates/livepeer-indexer/src\<close>: \<open>backfill.rs\<close> (one chunk, its
  single transaction, the driver with its dynamic batch size and retries, resuming from the
  checkpoint) and \<open>runner.rs\<close> (one run). A chunk's transaction is one update of the world; a
  failure of the database itself is not modelled. The driver is a loop that might not end, so it is
  a partial function into \<open>option\<close>; that it always returns is proved in \<open>Indexer_Props\<close>.
\<close>

section \<open>Constants\<close>

definition BATCH_INSERT_SIZE :: nat where "BATCH_INSERT_SIZE = 500"
definition DEFAULT_BATCH_BLOCKS :: nat where "DEFAULT_BATCH_BLOCKS = 5000"
definition MAX_BATCH_BLOCKS :: nat where "MAX_BATCH_BLOCKS = 9000"
definition MIN_BATCH_BLOCKS :: nat where "MIN_BATCH_BLOCKS = 100"
definition MAX_RETRIES_PER_CHUNK :: nat where "MAX_RETRIES_PER_CHUNK = 50"
definition RETRY_BACKOFF_SECS :: nat where "RETRY_BACKOFF_SECS = 2"
definition MIN_BATCH_RETRY_BACKOFF_CAP_SECS :: nat where "MIN_BATCH_RETRY_BACKOFF_CAP_SECS = 60"

section \<open>The job and its checkpoint\<close>

record 'n job =
  jb_archive :: "'n provider"
  jb_contract :: contract_kind
  jb_suffix :: string
  jb_proxy :: string
  jb_abi_hash :: string

definition checkpoint_name :: "contract_kind \<Rightarrow> string \<Rightarrow> string" where
  "checkpoint_name c suffix =
     (if suffix = [] then ''indexer_'' @ contract_name c
      else ''indexer_'' @ contract_name c @ ''_'' @ suffix)"

definition resume_from :: "contract_kind \<Rightarrow> string \<Rightarrow> nat \<Rightarrow> 'n world \<Rightarrow> nat" where
  "resume_from c suffix requested_from s =
     (case checkpoint (w_checkpoints s) (checkpoint_name c suffix) of
        Some cp \<Rightarrow>
          if requested_from \<le> as_u64 cp then min (as_u64 cp + 1) (2 ^ 64 - 1) else requested_from
      | None \<Rightarrow> requested_from)"

definition advance_checkpoint :: "contract_kind \<Rightarrow> string \<Rightarrow> nat \<Rightarrow> 'n world \<Rightarrow> 'n world" where
  "advance_checkpoint c suffix to_block s =
     s\<lparr>w_checkpoints := advance_greatest (checkpoint_name c suffix) (as_i64 (int to_block)) (w_checkpoints s)\<rparr>"

section \<open>Inserts\<close>

text \<open>
  \<open>id\<close> is a serial: a new row gets a number above all others. (The numbers a serial skips on
  conflicts are not modelled; only their order is used anywhere.)
\<close>

definition next_event_id :: "event_row list \<Rightarrow> int" where
  "next_event_id evs = 1 + foldr (\<lambda>r m. max (e_id r) m) evs 0"

definition event_of :: "ext \<Rightarrow> string \<Rightarrow> int \<Rightarrow> prepared_row \<Rightarrow> event_row" where
  "event_of x abi_hash i y =
     \<lparr>e_id = i, e_chain = ARBITRUM_CHAIN_ID, e_tx = y_tx y, e_log = y_log y, e_block = y_block y,
      e_hash = y_hash y, e_ts = y_ts y, e_address = y_address y, e_contract = y_contract y,
      e_name = y_name y, e_signature = y_signature y, e_asset = y_asset y,
      e_amount_raw = y_amount_raw y, e_amount = map_option (numeric18 x) (y_amount y),
      e_valuable = y_valuable y, e_from = y_from y, e_to = y_to y, e_finality = Tentative,
      e_canonical = True, e_finalized_at = None, e_raw = y_raw y, e_abi = abi_hash\<rparr>"

definition insert_event :: "ext \<Rightarrow> string \<Rightarrow> prepared_row \<Rightarrow> event_row list \<Rightarrow> event_row list" where
  "insert_event x abi_hash y evs = ins_nothing event_key (event_of x abi_hash (next_event_id evs) y) evs"

definition insert_events :: "ext \<Rightarrow> string \<Rightarrow> prepared_row list \<Rightarrow> event_row list \<Rightarrow> event_row list" where
  "insert_events x abi_hash prepared =
     fold (fold (insert_event x abi_hash)) (chunks BATCH_INSERT_SIZE prepared)"

definition insert_dead_letters :: "dead_row list \<Rightarrow> dead_row list \<Rightarrow> dead_row list" where
  "insert_dead_letters dead = fold (fold (ins_nothing dead_key)) (chunks BATCH_INSERT_SIZE dead)"

text \<open>\<open>DeadLetterRow::from_raw\<close>.\<close>

definition dead_from_raw :: "abi \<Rightarrow> raw_log \<Rightarrow> string \<Rightarrow> string \<Rightarrow> string + dead_row" where
  "dead_from_raw ab raw abi_hash err_msg =
     (case unsigned_hex 64 (l_block_number raw) of
        Inl e \<Rightarrow> Inl e
      | Inr bn \<Rightarrow>
     (case unsigned_hex 32 (l_log_index raw) of
        Inl e \<Rightarrow> Inl e
      | Inr li \<Rightarrow>
     (case alloy_hex ab (trim_0x (l_data raw)) of
        None \<Rightarrow> Inl ''decoding data hex for dead-letter''
      | Some bytes \<Rightarrow>
          Inr \<lparr>d_chain = ARBITRUM_CHAIN_ID, d_block = as_i64 (int bn), d_hash = lower (l_block_hash raw),
               d_tx = lower (l_tx_hash raw), d_log = as_i32 (int li),
               d_address = lower (l_address raw), d_topics = map lower (l_topics raw),
               d_data = bytes, d_abi = abi_hash, d_error = err_msg\<rparr>)))"

section \<open>One chunk\<close>

definition eth_get_logs_multi_topic ::
  "ext \<Rightarrow> bool \<Rightarrow> abi \<Rightarrow> 'n provider \<Rightarrow> string \<Rightarrow> string list \<Rightarrow> nat \<Rightarrow> nat \<Rightarrow> ('n, json) db" where
  "eth_get_logs_multi_topic x co ab p contract topic0s from_block to_block =
     (let params = JArr [JObj [(''address'', JStr contract), (''topics'', JArr [JArr (map JStr topic0s)]),
            (''fromBlock'', JStr (hex_0x from_block)), (''toBlock'', JStr (hex_0x to_block))]] in
      andthen (core (single_call_cached x co p ''eth_getLogs'' params None)) (\<lambda>oc.
        of_result (case json_parse x (oc_bytes oc) of
            None \<Rightarrow> Inl (json_error ab (oc_bytes oc)) | Some v \<Rightarrow> Inr v)))"

fun collect_blocks :: "raw_log list \<Rightarrow> string + nat list" where
  "collect_blocks [] = Inr []"
| "collect_blocks (l # ls) =
     (case unsigned_hex 64 (l_block_number l) of
        Inl e \<Rightarrow> Inl e
      | Inr n \<Rightarrow> (case collect_blocks ls of Inl e \<Rightarrow> Inl e | Inr ns \<Rightarrow> Inr (n # ns)))"

definition block_timestamp_at ::
  "ext \<Rightarrow> bool \<Rightarrow> abi \<Rightarrow> 'n provider \<Rightarrow> nat \<Rightarrow> (nat \<Rightarrow> int option) \<Rightarrow> ('n, nat \<Rightarrow> int option) db" where
  "block_timestamp_at x co ab p n m =
     andthen (core (single_call_cached x co p ''eth_getBlockByNumber'' (header_params (hex_0x n))
                      (Some (as_i64 (int n))))) (\<lambda>oc.
     andthen (of_result (case json_parse x (oc_bytes oc) of
                None \<Rightarrow> Inl (json_error ab (oc_bytes oc)) | Some v \<Rightarrow> Inr v)) (\<lambda>header.
     andthen (some_or ''block has no timestamp'' (Option.bind (jget ''timestamp'' header) jstr)) (\<lambda>ts_hex.
     andthen (of_result (signed_hex 64 ts_hex)) (\<lambda>ts.
       ret (m(n := Some ts))))))"

definition fetch_block_timestamps ::
  "ext \<Rightarrow> bool \<Rightarrow> abi \<Rightarrow> 'n provider \<Rightarrow> raw_log list \<Rightarrow> ('n, nat \<Rightarrow> int option) db" where
  "fetch_block_timestamps x co ab p logs =
     andthen (of_result (collect_blocks logs)) (\<lambda>ns.
       fold_io (block_timestamp_at x co ab p) (sort (remdups ns)) (\<lambda>_. None))"

type_synonym sorted_logs = "prepared_row list \<times> dead_row list \<times> string list"

definition strict_detail :: "raw_log \<Rightarrow> string \<Rightarrow> nat \<Rightarrow> string \<Rightarrow> string" where
  "strict_detail raw name topic0 err_msg =
     ''tx='' @ l_tx_hash raw @ '' log_index='' @ l_log_index raw @ '' event='' @ name
     @ '' topic0='' @ topic_hex topic0 @ '' err='' @ err_msg"

fun sort_logs ::
  "ext \<Rightarrow> abi \<Rightarrow> 'n job \<Rightarrow> (nat \<Rightarrow> int option) \<Rightarrow> raw_log list \<Rightarrow> sorted_logs \<Rightarrow> string + sorted_logs" where
  "sort_logs x ab jb ts [] acc = Inr acc"
| "sort_logs x ab jb ts (raw # rest) (prepared, dead, strict) =
     (case decode_one x ab (jb_contract jb) raw ts of
        Decoded row \<Rightarrow> sort_logs x ab jb ts rest (prepared @ [row], dead, strict)
      | DecodeFailed name topic0 is_strict err_msg \<Rightarrow>
          if is_strict then
            sort_logs x ab jb ts rest (prepared, dead, strict @ [strict_detail raw name topic0 err_msg])
          else (case dead_from_raw ab raw (jb_abi_hash jb) err_msg of
                  Inl e \<Rightarrow> Inl e
                | Inr d \<Rightarrow> sort_logs x ab jb ts rest (prepared, dead @ [d], strict))
      | UnknownTopic0 topic0 \<Rightarrow>
          (case dead_from_raw ab raw (jb_abi_hash jb)
                  (''topic0 '' @ topic_hex topic0 @ '' not in known set for '' @ contract_name (jb_contract jb)) of
             Inl e \<Rightarrow> Inl e
           | Inr d \<Rightarrow> sort_logs x ab jb ts rest (prepared, dead @ [d], strict)))"

record chunk_summary =
  ch_logs_seen :: nat
  ch_events_inserted :: nat
  ch_dead_lettered :: nat

definition strict_halt :: "nat \<Rightarrow> nat \<Rightarrow> string list \<Rightarrow> string" where
  "strict_halt chunk_start chunk_end failures =
     ''strict-decode halt: '' @ show_nat (length failures) @ '' critical-event decode failure(s) in [''
     @ show_nat chunk_start @ '', '' @ show_nat chunk_end @ '']: '' @ join '' | '' failures"

text \<open>The transaction: events, dead letters and the checkpoint together.\<close>

definition commit_chunk ::
  "ext \<Rightarrow> 'n job \<Rightarrow> nat \<Rightarrow> raw_log list \<Rightarrow> prepared_row list \<Rightarrow> dead_row list \<Rightarrow> ('n, chunk_summary) db" where
  "commit_chunk x jb chunk_end raw_logs prepared dead s =
     (let evs = insert_events x (jb_abi_hash jb) prepared (w_events s);
          dls = insert_dead_letters dead (w_dead s)
      in (Inr \<lparr>ch_logs_seen = length raw_logs, ch_events_inserted = length evs - length (w_events s),
               ch_dead_lettered = length dls - length (w_dead s)\<rparr>,
          advance_checkpoint (jb_contract jb) (jb_suffix jb) chunk_end (s\<lparr>w_events := evs, w_dead := dls\<rparr>)))"

definition backfill_chunk ::
  "ext \<Rightarrow> bool \<Rightarrow> abi \<Rightarrow> 'n job \<Rightarrow> nat \<Rightarrow> nat \<Rightarrow> ('n, chunk_summary) db" where
  "backfill_chunk x co ab jb chunk_start chunk_end =
     andthen (eth_get_logs_multi_topic x co ab (jb_archive jb) (jb_proxy jb)
                (topic0s_for ab (jb_contract jb)) chunk_start chunk_end) (\<lambda>logs_value.
     andthen (some_or ''decoding eth_getLogs response'' (logs_from_json ab logs_value)) (\<lambda>raw_logs.
       if raw_logs = [] then
         andthen (modifying (advance_checkpoint (jb_contract jb) (jb_suffix jb) chunk_end))
           (\<lambda>_. ret \<lparr>ch_logs_seen = 0, ch_events_inserted = 0, ch_dead_lettered = 0\<rparr>)
       else
         andthen (fetch_block_timestamps x co ab (jb_archive jb) raw_logs) (\<lambda>block_ts.
         andthen (of_result (sort_logs x ab jb block_ts raw_logs ([], [], []))) (\<lambda>(prepared, dead, strict).
           if strict \<noteq> [] then throw (strict_halt chunk_start chunk_end strict)
           else commit_chunk x jb chunk_end raw_logs prepared dead))))"

section \<open>The driver\<close>

definition is_transient :: "string \<Rightarrow> bool" where
  "is_transient msg \<longleftrightarrow>
     \<not> str_contains ''strict-decode halt'' msg \<and>
     (str_contains ''HTTP error'' msg \<or> str_contains ''timeout'' msg \<or> str_contains ''rate'' msg
      \<or> str_contains ''status code: 429'' msg \<or> str_contains ''status code: 5'' msg)"

record drive_summary =
  ds_chunks :: nat
  ds_logs_seen :: nat
  ds_events_inserted :: nat
  ds_dead_lettered :: nat
  ds_final_batch_size :: nat

definition no_summary :: drive_summary where
  "no_summary = \<lparr>ds_chunks = 0, ds_logs_seen = 0, ds_events_inserted = 0, ds_dead_lettered = 0,
     ds_final_batch_size = 0\<rparr>"

record drive_state =
  dr_summary :: drive_summary
  dr_batch :: nat
  dr_next :: nat
  dr_retries :: nat
  dr_min_retries :: nat

definition chunk_end_of :: "drive_state \<Rightarrow> nat \<Rightarrow> nat" where
  "chunk_end_of st to_block = min (dr_next st + dr_batch st - 1) to_block"

definition after_success :: "chunk_summary \<Rightarrow> nat \<Rightarrow> drive_state \<Rightarrow> drive_state" where
  "after_success chunk chunk_end st =
     \<lparr>dr_summary = (dr_summary st)
        \<lparr>ds_chunks := ds_chunks (dr_summary st) + 1,
         ds_logs_seen := ds_logs_seen (dr_summary st) + ch_logs_seen chunk,
         ds_events_inserted := ds_events_inserted (dr_summary st) + ch_events_inserted chunk,
         ds_dead_lettered := ds_dead_lettered (dr_summary st) + ch_dead_lettered chunk\<rparr>,
      dr_batch = (if dr_batch st < MAX_BATCH_BLOCKS then min (dr_batch st * 2) MAX_BATCH_BLOCKS
                  else dr_batch st),
      dr_next = chunk_end + 1, dr_retries = 0, dr_min_retries = 0\<rparr>"

definition backoff_secs :: "nat \<Rightarrow> nat" where
  "backoff_secs min_batch_retries =
     min (RETRY_BACKOFF_SECS * 2 ^ min (min_batch_retries - 1) 20) MIN_BATCH_RETRY_BACKOFF_CAP_SECS"

text \<open>The four error arms: \<open>None\<close> leaves the loop, \<open>Some\<close> retries after a sleep.\<close>

definition after_error :: "string \<Rightarrow> drive_state \<Rightarrow> (drive_state \<times> nat) option" where
  "after_error e st =
     (if is_transient e \<and> MAX_RETRIES_PER_CHUNK \<le> dr_retries st then None
      else if is_transient e \<and> MIN_BATCH_BLOCKS < dr_batch st then
        Some (st\<lparr>dr_batch := max (dr_batch st div 2) MIN_BATCH_BLOCKS,
                 dr_retries := dr_retries st + 1\<rparr>, RETRY_BACKOFF_SECS)
      else if is_transient e then
        (let st' = st\<lparr>dr_retries := dr_retries st + 1, dr_min_retries := dr_min_retries st + 1\<rparr> in
         if MAX_RETRIES_PER_CHUNK \<le> dr_retries st' then None
         else Some (st', backoff_secs (dr_min_retries st')))
      else None)"

partial_function (option) drive_loop ::
  "(nat \<Rightarrow> nat \<Rightarrow> ('s, string, chunk_summary) io) \<Rightarrow> (nat \<Rightarrow> 's \<Rightarrow> 's) \<Rightarrow> nat \<Rightarrow> drive_state \<Rightarrow> 's
     \<Rightarrow> ((string + drive_summary) \<times> 's) option" where
  "drive_loop chunk sleep to_block st s =
     (if dr_next st \<le> to_block then
        (case chunk (dr_next st) (chunk_end_of st to_block) s of
           (Inr c, s') \<Rightarrow>
             drive_loop chunk sleep to_block (after_success c (chunk_end_of st to_block) st) s'
         | (Inl e, s') \<Rightarrow>
             (case after_error e st of
                None \<Rightarrow> Some (Inl e, s')
              | Some (st', secs) \<Rightarrow> drive_loop chunk sleep to_block st' (sleep secs s')))
      else Some (Inr ((dr_summary st)\<lparr>ds_final_batch_size := dr_batch st\<rparr>), s))"

definition sleep_world :: "nat \<Rightarrow> 'n world \<Rightarrow> 'n world" where
  "sleep_world secs s = s\<lparr>w_now := w_now s + int secs\<rparr>"

definition start_state :: "nat \<Rightarrow> drive_state" where
  "start_state from_block = \<lparr>dr_summary = no_summary, dr_batch = DEFAULT_BATCH_BLOCKS,
     dr_next = from_block, dr_retries = 0, dr_min_retries = 0\<rparr>"

definition drive_backfill ::
  "ext \<Rightarrow> bool \<Rightarrow> abi \<Rightarrow> 'n job \<Rightarrow> nat \<Rightarrow> nat \<Rightarrow> 'n world \<Rightarrow> ((string + drive_summary) \<times> 'n world) option" where
  "drive_backfill x co ab jb from_block to_block s =
     (if to_block < from_block then Some (Inr no_summary, s)
      else drive_loop (backfill_chunk x co ab jb) sleep_world to_block (start_state from_block) s)"

section \<open>One run (runner.rs)\<close>

record run_summary =
  rn_contract :: string
  rn_requested_from :: nat
  rn_actual_from :: nat
  rn_to :: nat
  rn_inner :: drive_summary

text \<open>
  The proxy address comes from the configuration (\<open>proxy\<close>) and the ABI hash from the first row
  of the contract in \<open>contract_abi_registry\<close> (\<open>registry\<close>).
\<close>

definition run_backfill ::
  "ext \<Rightarrow> bool \<Rightarrow> abi \<Rightarrow> 'n provider \<Rightarrow> (contract_kind \<Rightarrow> string) \<Rightarrow> (string \<Rightarrow> string option)
     \<Rightarrow> contract_kind \<Rightarrow> nat \<Rightarrow> nat \<Rightarrow> bool \<Rightarrow> string \<Rightarrow> 'n world
     \<Rightarrow> ((string + run_summary) \<times> 'n world) option" where
  "run_backfill x co ab archive proxy registry contract from_block to_block no_resume suffix s =
     (case registry (contract_name contract) of
        None \<Rightarrow> Some (Inl (''loading '' @ contract_name contract @ '' abi_hash from registry''), s)
      | Some abi_hash \<Rightarrow>
        (let actual_from = (if no_resume then from_block
                            else resume_from contract suffix from_block s);
             jb = \<lparr>jb_archive = archive, jb_contract = contract, jb_suffix = suffix,
                   jb_proxy = lower (proxy contract), jb_abi_hash = abi_hash\<rparr>;
             result = (\<lambda>inner. \<lparr>rn_contract = contract_name contract, rn_requested_from = from_block,
                        rn_actual_from = actual_from, rn_to = to_block, rn_inner = inner\<rparr>)
         in if to_block < actual_from then Some (Inr (result no_summary), s)
            else (case drive_backfill x co ab jb actual_from to_block s of
                    None \<Rightarrow> None
                  | Some (Inl e, s') \<Rightarrow> Some (Inl e, s')
                  | Some (Inr inner, s') \<Rightarrow> Some (Inr (result inner), s'))))"

end
