(* ===== verification/Cache_Replay.thy ===== *)
theory Cache_Replay
  imports Rpc_Methods Rpc_Replay
begin

text \<open>
  Programs built from cached reads: which tables they leave alone, and when a later run reads
  the same values from the cache they left. The rules are per combinator, so that the indexer
  and the valuator get both facts by following their definitions.
\<close>

section \<open>What a cached read leaves alone\<close>

lemma keeps_core: "keeps P m \<Longrightarrow> keeps P (core m)"
  by (simp add: core_def keeps_map_err)

lemma keeps_some_or [intro, simp]: "keeps P (some_or msg v)"
  by (simp add: some_or_def split: option.splits)


definition cache_le :: "'n world \<Rightarrow> 'm world \<Rightarrow> bool" where
  "cache_le s t \<longleftrightarrow> (\<forall>h oc. cached_outcome s h = Some oc \<longrightarrow> cached_outcome t h = Some oc)"

lemma cache_le_refl [simp]: "cache_le s s"
  by (simp add: cache_le_def)

lemma cache_le_trans: "cache_le s t \<Longrightarrow> cache_le t u \<Longrightarrow> cache_le s u"
  by (simp add: cache_le_def)

lemma cache_le_put: "cache_le s (cache_put r s)"
  by (simp add: cache_le_def cached_outcome_put)

text \<open>
  A step that only reads through the cache: the network may change, the cache may grow.
\<close>

definition same_rows :: "'n world \<Rightarrow> 'n world \<Rightarrow> bool" where
  "same_rows s t \<longleftrightarrow> (\<exists>n c. t = s\<lparr>w_net := n, w_cache := c\<rparr>) \<and> cache_le s t"

lemma same_rows_refl [simp]: "same_rows s s"
  unfolding same_rows_def
  by (rule conjI, rule exI [of _ "w_net s"], rule exI [of _ "w_cache s"]) simp_all

lemma same_rows_trans: "same_rows s t \<Longrightarrow> same_rows t u \<Longrightarrow> same_rows s u"
  unfolding same_rows_def
  by (elim conjE exE, rule conjI, rule exI, rule exI, simp) (rule cache_le_trans)

lemma same_rowsD:
  assumes "same_rows s t"
  shows "w_events t = w_events s" "w_dead t = w_dead s" "w_valuations t = w_valuations s"
    "w_attempts t = w_attempts s" "w_prices t = w_prices s" "w_divergences t = w_divergences s"
    "w_reorgs t = w_reorgs s" "w_checkpoints t = w_checkpoints s" "w_cursors t = w_cursors s"
    "w_seeds t = w_seeds s" "w_stakes t = w_stakes s" "w_registry t = w_registry s"
    "w_now t = w_now s" "cache_le s t"
  using assms by (auto simp: same_rows_def)

lemma same_rows_net [simp]: "same_rows s (s\<lparr>w_net := n\<rparr>)"
  unfolding same_rows_def
  by (rule conjI, rule exI [of _ n], rule exI [of _ "w_cache s"]) (simp_all add: cache_le_def)

lemma same_rows_put [simp]: "same_rows s (cache_put r s)"
proof -
  have "cache_put r s = s\<lparr>w_net := w_net s, w_cache := ins_nothing c_hash r (w_cache s)\<rparr>"
    by (simp add: cache_put_def)
  then show ?thesis unfolding same_rows_def by (blast intro: cache_le_put)
qed

text \<open>\<open>only_reads m\<close>: the computation is such a step on every world.\<close>

definition only_reads :: "('n world, 'e, 'a) io \<Rightarrow> bool" where
  "only_reads m \<longleftrightarrow> (\<forall>s. same_rows s (snd (m s)))"

lemma only_readsD: "only_reads m \<Longrightarrow> m s = (r, t) \<Longrightarrow> same_rows s t"
  unfolding only_reads_def by (metis snd_conv)

lemma only_reads_keeps: "only_reads m \<longleftrightarrow> (\<forall>s. keeps (same_rows s) m)"
proof
  assume r: "only_reads m"
  show "\<forall>s. keeps (same_rows s) m"
    by (intro allI keepsI) (rule same_rows_trans, assumption, rule r [unfolded only_reads_def, THEN spec])
next
  assume "\<forall>s. keeps (same_rows s) m"
  then show "only_reads m" unfolding only_reads_def by (blast intro: keepsD same_rows_refl)
qed

lemma only_reads_ret [intro, simp]: "only_reads (ret v)"
  by (simp add: only_reads_keeps)

lemma only_reads_of_result [intro, simp]: "only_reads (of_result r)"
  by (simp add: only_reads_keeps)

lemma only_reads_andthen [intro]:
  "only_reads m \<Longrightarrow> (\<And>v. only_reads (f v)) \<Longrightarrow> only_reads (andthen m f)"
  by (simp add: only_reads_keeps keeps_andthen)

lemma only_reads_core [intro]: "only_reads m \<Longrightarrow> only_reads (core m)"
  by (simp add: only_reads_keeps keeps_core)

lemma only_reads_attempt [intro]: "only_reads m \<Longrightarrow> only_reads (attempt m)"
  by (simp add: only_reads_keeps keeps_attempt)

lemma same_rows_settle: "same_rows s u \<Longrightarrow> same_rows s (fold (settle_store x p reqs) irs u)"
proof (induction irs arbitrary: u)
  case Nil
  then show ?case by simp
next
  case (Cons ir irs)
  have "same_rows u (settle_store x p reqs ir u)"
    by (simp add: settle_store_def split: sum.splits)
  with Cons.prems have "same_rows s (settle_store x p reqs ir u)" by (rule same_rows_trans)
  then show ?case by (simp add: Cons.IH)
qed

lemma only_reads_batch [intro, simp]: "only_reads (batch_call_cached x co p reqs)"
  unfolding only_reads_def
proof
  fix s :: "'a world"
  have frame: "same_rows s s1" if "call_batch x p b s = (r, s1)" for b r s1
    using call_batch_frame [OF that] same_rows_net by metis
  then show "same_rows s (snd (batch_call_cached x co p reqs s))"
    by (cases rule: batch_call_cached_cases [of x s reqs co p])
      (use frame in \<open>simp_all add: same_rows_settle\<close>)
qed

lemma only_reads_single [intro, simp]: "only_reads (single_call_cached x co p m ps b)"
  unfolding only_reads_def
proof
  fix s :: "'a world"
  show "same_rows s (snd (single_call_cached x co p m ps b s))"
  proof (cases "cached_outcome s (compute_call_hash x m ps b) = None \<and> \<not> co")
    case False
    then show ?thesis by (auto simp: single_call_cached_def Let_def split: option.split)
  next
    case True
    obtain r u where c: "call_once x p m ps s = (r, u)" by fastforce
    obtain n where u: "u = s\<lparr>w_net := n\<rparr>" using call_once_frame [OF c] by blast
    have "same_rows s (cache_put row u)" for row
      by (rule same_rows_trans [of _ u]) (simp_all add: u)
    then show ?thesis using True c u
      by (cases r) (simp_all add: single_call_cached_def Let_def andthen_def modifying_def ret_def)
  qed
qed

section \<open>Reads that replay from the cache\<close>

text \<open>
  \<open>replays m m'\<close>: what \<open>m\<close> read successfully, \<open>m'\<close> reads from the cache that \<open>m\<close> left (or any
  larger one), without changing the world.
\<close>

definition replays :: "('n world, 'e, 'a) io \<Rightarrow> ('m world, 'e, 'a) io \<Rightarrow> bool" where
  "replays m m' \<longleftrightarrow> (\<forall>s v s'. m s = (Inr v, s') \<longrightarrow>
     cache_le s s' \<and> (\<forall>t. cache_le s' t \<longrightarrow> m' t = (Inr v, t)))"

lemma replays_ret [intro, simp]: "replays (ret v) (ret v)"
  by (simp add: replays_def ret_def)

lemma replays_of_result [intro, simp]: "replays (of_result r) (of_result r)"
  by (simp add: replays_def of_result_def)

lemma replays_throw [intro, simp]: "replays (throw e) (throw e)"
  by (simp add: replays_def throw_def)

lemma replays_some_or [intro, simp]: "replays (some_or msg v) (some_or msg v)"
  by (simp add: some_or_def split: option.splits)

lemma replays_andthen [intro]:
  assumes "replays m m'" "\<And>v. replays (f v) (f' v)"
  shows "replays (andthen m f) (andthen m' f')"
  unfolding replays_def
proof (intro allI impI)
  fix s v s' assume "andthen m f s = (Inr v, s')"
  then obtain a u where 1: "m s = (Inr a, u)" and 2: "f a u = (Inr v, s')"
    by (auto simp: andthen_Inr_iff)
  have "cache_le s u" "cache_le u s'" using assms 1 2 unfolding replays_def by blast+
  moreover have "andthen m' f' t = (Inr v, t)" if t: "cache_le s' t" for t
  proof -
    have "m' t = (Inr a, t)" using assms(1) 1 cache_le_trans [OF \<open>cache_le u s'\<close> t]
      unfolding replays_def by blast
    moreover have "f' a t = (Inr v, t)" using assms(2) 2 t unfolding replays_def by blast
    ultimately show ?thesis by (simp add: andthen_def)
  qed
  ultimately show "cache_le s s' \<and> (\<forall>t. cache_le s' t \<longrightarrow> andthen m' f' t = (Inr v, t))"
    using cache_le_trans by blast
qed

lemma replays_fold_io [intro]:
  assumes "\<And>y b. replays (f y b) (f' y b)"
  shows "replays (fold_io f ys b) (fold_io f' ys b)"
proof (induction ys arbitrary: b)
  case Nil
  then show ?case by (simp add: replays_def)
next
  case (Cons y ys)
  have e: "fold_io g (y # ys) b = andthen (g y b) (fold_io g ys)"
    for g :: "_ \<Rightarrow> _ \<Rightarrow> ('z world, _, _) io"
    by (rule ext) (simp add: andthen_def)
  show ?case unfolding e by (intro replays_andthen assms Cons.IH)
qed

lemma replays_core: "replays m m' \<Longrightarrow> replays (core m) (core m')"
  unfolding replays_def core_def map_err_def
  by (auto split: prod.splits sum.splits)

lemma replays_single:
  "replays (single_call_cached x co p m ps b) (single_call_cached x co' p' m ps b)"
  unfolding replays_def
proof (intro allI impI)
  fix s v s' assume run: "single_call_cached x co p m ps b s = (Inr v, s')"
  let ?h = "compute_call_hash x m ps b"
  have "fetch_request x co p (m, ps, b) s = (Inr v, s')"
    using run by (simp add: fetch_request_def)
  then have fill: "cached_outcome s' ?h = Some v"
    using rpc_reads.fills by (fastforce simp: look_request_def request_hash_def)
  have le: "cache_le s s'"
    using run unfolding cache_le_def
    by (metis single_call_undisturbed snd_conv)
  have "single_call_cached x co' p' m ps b t = (Inr v, t)" if "cache_le s' t" for t
    using that fill by (auto simp: cache_le_def single_call_cached_def Let_def)
  with le show "cache_le s s' \<and> (\<forall>t. cache_le s' t \<longrightarrow> single_call_cached x co' p' m ps b t = (Inr v, t))"
    by blast
qed

lemma batch_undisturbed:
  assumes "cached_outcome s h = Some oc"
  shows "cached_outcome (snd (batch_call_cached x co p reqs s)) h = Some oc"
proof (cases rule: batch_call_cached_cases [of x s reqs co p])
  case (failed e s1)
  then show ?thesis using assms cached_outcome_call_batch [OF failed(3)] by simp
next
  case (fetched rs s1 outs)
  then show ?thesis using assms cached_outcome_call_batch [OF fetched(3)]
    by (simp add: cached_outcome_settle_store)
qed (use assms in simp_all)

text \<open>
  A batch replays for what is taken from it afterwards, as long as every entry taken was a
  success: the entries have to be different requests.
\<close>

lemma replays_batch:
  assumes d: "distinct (map (request_hash x) reqs)"
    and n: "n = length reqs"
    and rest: "\<And>outs. replays (f outs) (f' outs)"
    and needs: "\<And>outs t v t' i. length outs = n \<Longrightarrow> f outs t = (Inr v, t') \<Longrightarrow> i < n \<Longrightarrow>
      \<exists>oc. outs ! i = Inr oc"
  shows "replays (andthen (core (batch_call_cached x co p reqs)) f)
    (andthen (core (batch_call_cached x co' q reqs)) f')"
  unfolding replays_def
proof (intro allI impI)
  fix s v s' assume "andthen (core (batch_call_cached x co p reqs)) f s = (Inr v, s')"
  then obtain outs u where 1: "core (batch_call_cached x co p reqs) s = (Inr outs, u)"
      and 2: "f outs u = (Inr v, s')"
    by (auto simp: andthen_Inr_iff)
  from 1 have run: "batch_call_cached x co p reqs s = (Inr outs, u)"
    by (auto simp: core_def map_err_def split: prod.splits sum.splits)
  have len: "length outs = n"
    by (cases rule: batch_call_cached_cases [of x s reqs co p]) (use run n in auto)
  have ok: "\<exists>oc. outs ! i = Inr oc \<and> cached_outcome u (request_hash x (reqs ! i)) = Some oc"
    if "i < n" for i
    using needs [OF len 2 that] batch_success_cached [OF d run] that n by blast
  have le: "cache_le s u"
    using run unfolding cache_le_def by (metis batch_undisturbed snd_conv)
  have le': "cache_le u s'" and f': "\<And>t. cache_le s' t \<Longrightarrow> f' outs t = (Inr v, t)"
    using rest 2 unfolding replays_def by blast+
  have "andthen (core (batch_call_cached x co' q reqs)) f' t = (Inr v, t)" if t: "cache_le s' t" for t
  proof -
    have c: "cached_outcome t (request_hash x (reqs ! i)) = Some (projr (outs ! i))" "outs ! i = Inr (projr (outs ! i))"
      if "i < n" for i
      using ok [OF that] cache_le_trans [OF le' t] by (auto simp: cache_le_def)
    have no: "batch_misses x t reqs = []"
      using c(1) n by (auto simp: batch_misses_def batch_outs_def filter_empty_conv)
    have "map (\<lambda>r. Inr (the (cached_outcome t (request_hash x r)))) reqs = outs"
      by (rule nth_equalityI) (use c n len in auto)
    then have "batch_call_cached x co' q reqs t = (Inr outs, t)"
      by (cases rule: batch_call_cached_cases [of x t reqs co' q]) (use no in auto)
    then show ?thesis using f' [OF t] by (simp add: andthen_def core_def map_err_def)
  qed
  with le le' show "cache_le s s' \<and> (\<forall>t. cache_le s' t \<longrightarrow>
      andthen (core (batch_call_cached x co' q reqs)) f' t = (Inr v, t))"
    using cache_le_trans by blast
qed

end
