(* ===== verification/Indexer_Props.thy ===== *)
theory Indexer_Props
  imports Indexer Cache_Replay
begin

text \<open>
  What the indexer guarantees: the driver always returns; what it committed is a contiguous
  run of chunks from the requested start, each in one transaction, and a failing chunk leaves
  the durable tables as they were; resuming from the checkpoint continues exactly there;
  indexing a range again adds nothing; a strict failure halts.
\<close>

section \<open>The driver over any chunk function\<close>

lemma after_success_batch:
  "1 \<le> dr_batch st \<Longrightarrow> dr_batch st \<le> MAX_BATCH_BLOCKS \<Longrightarrow>
     1 \<le> dr_batch (after_success c e st) \<and> dr_batch (after_success c e st) \<le> MAX_BATCH_BLOCKS"
  by (auto simp: after_success_def MAX_BATCH_BLOCKS_def)

lemma after_error_state:
  assumes "after_error e st = Some (st', secs)"
  shows "dr_next st' = dr_next st" "dr_summary st' = dr_summary st"
    "dr_retries st' = dr_retries st + 1" "dr_retries st < MAX_RETRIES_PER_CHUNK" "is_transient e"
    "dr_batch st \<le> MAX_BATCH_BLOCKS \<Longrightarrow> 1 \<le> dr_batch st \<Longrightarrow> 1 \<le> dr_batch st' \<and> dr_batch st' \<le> MAX_BATCH_BLOCKS"
    "secs \<le> 60"
  using assms
  by (auto simp: after_error_def Let_def MIN_BATCH_BLOCKS_def MAX_BATCH_BLOCKS_def
      RETRY_BACKOFF_SECS_def backoff_secs_def MIN_BATCH_RETRY_BACKOFF_CAP_SECS_def split: if_splits)

text \<open>Every turn of the loop commits a block or uses up a retry.\<close>

lemma drive_induct [case_names step]:
  assumes "\<And>st s. (\<And>st' s'. dr_next st \<le> to_block \<Longrightarrow>
        dr_next st < dr_next st' \<or> dr_next st' = dr_next st \<and> dr_retries st < dr_retries st'
          \<and> dr_retries st < MAX_RETRIES_PER_CHUNK \<Longrightarrow> P st' s') \<Longrightarrow> P st s"
  shows "P st s"
proof (induction "(st, s)" arbitrary: st s
    rule: wf_induct_rule [OF wf_inv_image [where f = "\<lambda>(st, s). (to_block + 1 - dr_next st,
        MAX_RETRIES_PER_CHUNK + 1 - dr_retries st)", OF wf_lex_prod [OF wf_less_than wf_less_than]]])
  case 1
  show ?case
    by (rule assms, rule 1) auto
qed

lemma drive_loop_returns:
  assumes "1 \<le> dr_batch st" "dr_batch st \<le> MAX_BATCH_BLOCKS"
  shows "\<exists>r. drive_loop chunk sleep to_block st s = Some r"
  using assms
proof (induction st s rule: drive_induct [where to_block = to_block])
  case (step st s)
  show ?case
  proof (cases "dr_next st \<le> to_block")
    case False
    then show ?thesis by (subst drive_loop.simps) simp
  next
    case True
    let ?e = "chunk_end_of st to_block"
    obtain r s' where c: "chunk (dr_next st) ?e s = (r, s')" by fastforce
    show ?thesis
    proof (cases r)
      case (Inr cs)
      have "dr_next st < dr_next (after_success cs ?e st)"
        using step(2) True by (simp add: after_success_def chunk_end_of_def)
      then have "\<exists>r. drive_loop chunk sleep to_block (after_success cs ?e st) s' = Some r"
        using step after_success_batch [OF step(2,3)] True by blast
      then show ?thesis using True c Inr by (subst drive_loop.simps) simp
    next
      case (Inl e)
      show ?thesis
      proof (cases "after_error e st")
        case None
        then show ?thesis using True c Inl by (subst drive_loop.simps) simp
      next
        case (Some a)
        obtain st' secs where a: "a = (st', secs)" by fastforce
        note ae = after_error_state [OF Some [unfolded a]]
        have "\<exists>r. drive_loop chunk sleep to_block st' (sleep secs s') = Some r"
          by (rule step(1)) (use True ae step(2,3) in auto)
        then show ?thesis using True c Inl Some a by (subst drive_loop.simps) simp
      qed
    qed
  qed
qed

text \<open>A contiguous run of committed chunks over the blocks from \<open>a\<close> to before \<open>m\<close>.\<close>

inductive committed :: "(nat \<Rightarrow> nat \<Rightarrow> 'd \<Rightarrow> 'd \<Rightarrow> bool) \<Rightarrow> nat \<Rightarrow> nat \<Rightarrow> 'd \<Rightarrow> 'd \<Rightarrow> bool"
  for R where
  committed_none: "committed R a a d d"
| committed_chunk: "R a b d d1 \<Longrightarrow> a \<le> b \<Longrightarrow> b < a + MAX_BATCH_BLOCKS \<Longrightarrow> committed R (b + 1) m d1 d2 \<Longrightarrow>
    committed R a m d d2"

inductive_cases committedE: "committed R a m d d2"

lemma committed_le: "committed R a m d d' \<Longrightarrow> a \<le> m"
  by (induction rule: committed.induct) auto

lemma committed_trans: "committed R a m d d1 \<Longrightarrow> committed R m n d1 d2 \<Longrightarrow> committed R a n d d2"
  by (induction rule: committed.induct) (auto intro: committed_chunk)

text \<open>
  The contract between the driver and a chunk: a chunk that succeeds has committed its range,
  one that fails has changed nothing durable, and sleeping changes nothing durable.
\<close>

locale atomic_chunks =
  fixes chunk :: "nat \<Rightarrow> nat \<Rightarrow> ('s, string, chunk_summary) io"
    and sleep :: "nat \<Rightarrow> 's \<Rightarrow> 's"
    and durable :: "'s \<Rightarrow> 'd"
    and commits :: "nat \<Rightarrow> nat \<Rightarrow> 'd \<Rightarrow> 'd \<Rightarrow> bool"
  assumes chunk_ok: "chunk a b s = (Inr c, s') \<Longrightarrow> commits a b (durable s) (durable s')"
    and chunk_err: "chunk a b s = (Inl e, s') \<Longrightarrow> durable s' = durable s"
    and sleep_durable: "durable (sleep n s) = durable s"
begin

lemma drive_committed:
  assumes "drive_loop chunk sleep to_block st s = Some (r, s')"
    and "1 \<le> dr_batch st" "dr_batch st \<le> MAX_BATCH_BLOCKS"
  shows "\<exists>m. committed commits (dr_next st) m (durable s) (durable s')
    \<and> (case r of Inr _ \<Rightarrow> m = max (dr_next st) (to_block + 1) | Inl _ \<Rightarrow> m \<le> to_block)"
  using assms
proof (induction st s rule: drive_induct [where to_block = to_block])
  case (step st s)
  show ?case
  proof (cases "dr_next st \<le> to_block")
    case False
    then have "r = Inr ((dr_summary st)\<lparr>ds_final_batch_size := dr_batch st\<rparr>) \<and> s' = s"
      using step(2) by (subst (asm) drive_loop.simps) simp
    then show ?thesis using False committed_none by (intro exI [of _ "dr_next st"]) auto
  next
    case True
    let ?e = "chunk_end_of st to_block"
    have e: "dr_next st \<le> ?e" "?e < dr_next st + MAX_BATCH_BLOCKS" "?e \<le> to_block"
      using True step(3,4) by (auto simp: chunk_end_of_def)
    obtain q u where c: "chunk (dr_next st) ?e s = (q, u)" by fastforce
    show ?thesis
    proof (cases q)
      case (Inr cs)
      let ?st = "after_success cs ?e st"
      have run: "drive_loop chunk sleep to_block ?st u = Some (r, s')"
        using step(2) True c Inr by (subst (asm) drive_loop.simps) simp
      have nx: "dr_next ?st = ?e + 1" by (simp add: after_success_def)
      have "\<exists>m. committed commits (dr_next ?st) m (durable u) (durable s')
          \<and> (case r of Inr _ \<Rightarrow> m = max (dr_next ?st) (to_block + 1) | Inl _ \<Rightarrow> m \<le> to_block)"
        by (rule step(1)) (use True run nx e after_success_batch [OF step(3,4)] in auto)
      then obtain m where m: "committed commits (?e + 1) m (durable u) (durable s')"
        "case r of Inr _ \<Rightarrow> m = max (?e + 1) (to_block + 1) | Inl _ \<Rightarrow> m \<le> to_block"
        unfolding nx by blast
      have "committed commits (dr_next st) m (durable s) (durable s')"
        using chunk_ok [OF c [unfolded Inr]] e(1,2) m(1) by (rule committed_chunk)
      then show ?thesis using m(2) e True by (intro exI [of _ m]) (auto split: sum.splits)
    next
      case (Inl e1)
      have d: "durable u = durable s" by (rule chunk_err [OF c [unfolded Inl]])
      show ?thesis
      proof (cases "after_error e1 st")
        case None
        then have "r = Inl e1 \<and> s' = u"
          using step(2) True c Inl by (subst (asm) drive_loop.simps) simp
        then show ?thesis using d True committed_none by (intro exI [of _ "dr_next st"]) auto
      next
        case (Some a)
        obtain st' secs where a: "a = (st', secs)" by fastforce
        note ae = after_error_state [OF Some [unfolded a]]
        have run: "drive_loop chunk sleep to_block st' (sleep secs u) = Some (r, s')"
          using step(2) True c Inl Some a by (subst (asm) drive_loop.simps) simp
        have "\<exists>m. committed commits (dr_next st') m (durable (sleep secs u)) (durable s')
          \<and> (case r of Inr _ \<Rightarrow> m = max (dr_next st') (to_block + 1) | Inl _ \<Rightarrow> m \<le> to_block)"
          by (rule step(1)) (use True run ae step(3,4) in auto)
        then show ?thesis unfolding ae(1) sleep_durable d .
      qed
    qed
  qed
qed

end

section \<open>The chunk keeps the contract\<close>

definition durable :: "'n world \<Rightarrow> event_row list \<times> dead_row list \<times> checkpoint_row list" where
  "durable s = (w_events s, w_dead s, w_checkpoints s)"

definition index_commits ::
  "ext \<Rightarrow> 'n job \<Rightarrow> nat \<Rightarrow> nat \<Rightarrow> event_row list \<times> dead_row list \<times> checkpoint_row list
     \<Rightarrow> event_row list \<times> dead_row list \<times> checkpoint_row list \<Rightarrow> bool" where
  "index_commits x jb a b d d' \<longleftrightarrow> (\<exists>prepared dead. d' =
     (insert_events x (jb_abi_hash jb) prepared (fst d), insert_dead_letters dead (fst (snd d)),
      advance_greatest (checkpoint_name (jb_contract jb) (jb_suffix jb)) (as_i64 (int b)) (snd (snd d))))"

lemma insert_events_Nil [simp]: "insert_events x h [] evs = evs"
  by (simp add: insert_events_def chunks.simps)

lemma insert_dead_Nil [simp]: "insert_dead_letters [] ds = ds"
  by (simp add: insert_dead_letters_def chunks.simps)

lemma insert_events_fold: "insert_events x h ys = fold (insert_event x h) ys"
  by (rule ext) (simp add: insert_events_def fold_chunks BATCH_INSERT_SIZE_def)

lemma insert_dead_fold: "insert_dead_letters ds = fold (ins_nothing dead_key) ds"
  by (rule ext) (simp add: insert_dead_letters_def fold_chunks BATCH_INSERT_SIZE_def)

lemma durable_net [simp]: "durable (s\<lparr>w_net := n\<rparr>) = durable s"
  by (simp add: durable_def)

lemma durable_cache [simp]: "durable (cache_put r s) = durable s"
  by (simp add: durable_def cache_put_def)

lemma durable_sleep [simp]: "durable (sleep_world secs s) = durable s"
  by (simp add: durable_def sleep_world_def)

lemma keeps_durable_call: "keeps (\<lambda>s. durable s = d) (call_once x p m ps)"
  by (rule keepsI) (metis durable_net call_once_frame prod.collapse)

lemma keeps_durable_single:
  fixes p :: "'n provider"
  shows "keeps (\<lambda>s. durable s = d) (single_call_cached x co p m ps b)"
proof (rule keepsI)
  fix s :: "'n world"
  assume s: "durable s = d"
  let ?f = "\<lambda>result. let bytes = json_text x result in
     andthen (modifying (cache_put (make_cache_row x (compute_call_hash x m ps b) m ps b bytes (pr_name p) None)))
       (\<lambda>_. ret \<lparr>oc_hash = compute_call_hash x m ps b, oc_bytes = bytes,
                  oc_resp_hash = hash_response_bytes x bytes\<rparr>)"
  have "keeps (\<lambda>s. durable s = d) (andthen (call_once x p m ps) ?f)"
    by (auto simp: Let_def intro!: keeps_andthen keeps_durable_call keeps_modifying)
  then have "durable (snd (andthen (call_once x p m ps) ?f s)) = d" using s by (rule keepsD)
  then show "durable (snd (single_call_cached x co p m ps b s)) = d"
    using s by (simp add: single_call_cached_def Let_def split: option.splits)
qed

lemma keeps_durable_logs:
  "keeps (\<lambda>s. durable s = d) (eth_get_logs_multi_topic x co ab p c ts a b)"
  by (auto simp: eth_get_logs_multi_topic_def Let_def intro!: keeps_andthen keeps_core
      keeps_durable_single)

lemma keeps_durable_times: "keeps (\<lambda>s. durable s = d) (fetch_block_timestamps x co ab p logs)"
  by (auto simp: fetch_block_timestamps_def block_timestamp_at_def intro!: keeps_andthen
      keeps_fold_io keeps_core keeps_durable_single)

lemmas durable_keeps = keeps_durable_logs keeps_durable_times keeps_durable_single

text \<open>What a chunk has read before its transaction.\<close>

lemma backfill_chunk_cases:
  assumes "backfill_chunk x co ab jb a b s = (r, s')"
  obtains (read_error) e where "r = Inl e" "durable s' = durable s"
  | (empty) u where "durable u = durable s" "s' = advance_checkpoint (jb_contract jb) (jb_suffix jb) b u"
      "r = Inr \<lparr>ch_logs_seen = 0, ch_events_inserted = 0, ch_dead_lettered = 0\<rparr>"
  | (strict) prepared dead strict logs ts where "strict \<noteq> []" "durable s' = durable s"
      "sort_logs x ab jb ts logs ([], [], []) = Inr (prepared, dead, strict)"
      "r = Inl (strict_halt a b strict)"
  | (stored) logs ts prepared dead u where "durable u = durable s" "logs \<noteq> []"
      "sort_logs x ab jb ts logs ([], [], []) = Inr (prepared, dead, [])"
      "commit_chunk x jb b logs prepared dead u = (r, s')"
proof -
  let ?get = "eth_get_logs_multi_topic x co ab (jb_archive jb) (jb_proxy jb)
      (topic0s_for ab (jb_contract jb)) a b"
  obtain q u1 where g: "?get s = (q, u1)" by fastforce
  have d1: "durable u1 = durable s"
    using keepsD [OF keeps_durable_logs [of "durable s" x co ab "jb_archive jb" "jb_proxy jb"
        "topic0s_for ab (jb_contract jb)" a b], of s] g by simp
  show thesis
  proof (cases q)
    case (Inl e)
    then show thesis using assms g d1 by (intro read_error [of e])
      (auto simp: backfill_chunk_def andthen_def)
  next
    case (Inr v)
    show thesis
    proof (cases "logs_from_json ab v")
      case None
      then show thesis using assms g d1 Inr by (intro read_error)
        (auto simp: backfill_chunk_def andthen_def some_or_def throw_def)
    next
      case (Some logs)
      show thesis
      proof (cases "logs = []")
        case True
        then show thesis using assms g d1 Inr Some by (intro empty [of u1])
          (auto simp: backfill_chunk_def andthen_def some_or_def ret_def modifying_def)
      next
        case False
        obtain q2 u2 where f: "fetch_block_timestamps x co ab (jb_archive jb) logs u1 = (q2, u2)"
          by fastforce
        have d2: "durable u2 = durable s"
          using keepsD [OF keeps_durable_times [of "durable s" x co ab "jb_archive jb" logs], of u1]
            f d1 by simp
        show thesis
        proof (cases q2)
          case (Inl e)
          then show thesis using assms g Inr Some False f d2 by (intro read_error [of e])
            (auto simp: backfill_chunk_def andthen_def some_or_def ret_def)
        next
          case ts: (Inr ts)
          show thesis
          proof (cases "sort_logs x ab jb ts logs ([], [], [])")
            case (Inl e)
            then show thesis using assms g Inr Some False f d2 ts by (intro read_error [of e])
              (auto simp: backfill_chunk_def andthen_def some_or_def ret_def of_result_def)
          next
            case sorted: (Inr acc)
            obtain prepared dead strict where acc: "acc = (prepared, dead, strict)"
              using prod_cases3 by blast
            have run: "(if strict \<noteq> [] then throw (strict_halt a b strict)
                else commit_chunk x jb b logs prepared dead) u2 = (r, s')"
              using assms g Inr Some False f ts sorted acc
              by (auto simp: backfill_chunk_def andthen_def some_or_def ret_def of_result_def)
            show thesis
            proof (cases "strict = []")
              case True
              then show thesis using run d2 sorted acc False that(4) by auto
            next
              case nonempty: False
              then show thesis using run d2 sorted acc that(3) [OF nonempty] by (simp add: throw_def)
            qed
          qed
        qed
      qed
    qed
  qed
qed

lemma backfill_chunk_commits:
  assumes "backfill_chunk x co ab jb a b s = (Inr c, s')"
  shows "index_commits x jb a b (durable s) (durable s')"
  using assms
proof (cases rule: backfill_chunk_cases)
  case (empty u)
  show ?thesis unfolding index_commits_def
    by (rule exI [of _ "[]"], rule exI [of _ "[]"])
      (use empty in \<open>simp add: durable_def advance_checkpoint_def\<close>)
next
  case (stored logs ts prepared dead u)
  show ?thesis unfolding index_commits_def
    by (rule exI [of _ prepared], rule exI [of _ dead])
      (use stored in \<open>auto simp: durable_def advance_checkpoint_def commit_chunk_def Let_def\<close>)
qed simp_all

lemma backfill_chunk_aborts:
  assumes "backfill_chunk x co ab jb a b s = (Inl e, s')"
  shows "durable s' = durable s"
  using assms by (cases rule: backfill_chunk_cases) (auto simp: commit_chunk_def Let_def)

interpretation ix: atomic_chunks "backfill_chunk x co ab jb" sleep_world durable "index_commits x jb"
  for x co ab jb
  by unfold_locales (simp_all add: backfill_chunk_commits backfill_chunk_aborts durable_sleep)

section \<open>Inserts that change nothing\<close>

lemma event_key_event_of [simp]: "event_key (event_of x h i y) = (ARBITRUM_CHAIN_ID, y_tx y, y_log y)"
  by (simp add: event_key_def event_of_def)

lemma insert_event_present:
  "find_row event_key evs (ARBITRUM_CHAIN_ID, y_tx y, y_log y) \<noteq> None \<Longrightarrow> insert_event x h y evs = evs"
  by (simp add: insert_event_def ins_nothing_def)

lemma insert_event_stored:
  "find_row event_key (insert_event x h y evs) (ARBITRUM_CHAIN_ID, y_tx y, y_log y) \<noteq> None"
  by (simp add: insert_event_def find_row_ins_nothing)

lemma insert_event_keeps:
  "find_row event_key evs k \<noteq> None \<Longrightarrow> find_row event_key (insert_event x h y evs) k \<noteq> None"
  by (simp add: insert_event_def find_row_ins_nothing)

lemma insert_events_keeps:
  "find_row event_key evs k \<noteq> None \<Longrightarrow> find_row event_key (insert_events x h ys evs) k \<noteq> None"
  unfolding insert_events_fold
  by (induction ys arbitrary: evs) (simp_all add: insert_event_keeps del: not_None_eq)

lemma insert_events_stored:
  "y \<in> set ys \<Longrightarrow>
     find_row event_key (insert_events x h ys evs) (ARBITRUM_CHAIN_ID, y_tx y, y_log y) \<noteq> None"
proof (induction ys arbitrary: evs)
  case Nil
  then show ?case by simp
next
  case (Cons z ys)
  show ?case
  proof (cases "y = z")
    case True
    have "find_row event_key (insert_events x h ys (insert_event x h z evs)) (ARBITRUM_CHAIN_ID, y_tx z, y_log z) \<noteq> None"
      by (intro insert_events_keeps insert_event_stored)
    with True show ?thesis by (simp add: insert_events_fold)
  next
    case False
    with Cons show ?thesis by (simp add: insert_events_fold)
  qed
qed

lemma insert_events_present:
  "\<forall>y\<in>set ys. find_row event_key evs (ARBITRUM_CHAIN_ID, y_tx y, y_log y) \<noteq> None \<Longrightarrow>
     insert_events x h ys evs = evs"
  unfolding insert_events_fold by (induction ys) (simp_all add: insert_event_present)

lemma insert_dead_present:
  "\<forall>d\<in>set ds. find_row dead_key t (dead_key d) \<noteq> None \<Longrightarrow> insert_dead_letters ds t = t"
  unfolding insert_dead_fold
  by (induction ds) (auto simp: ins_nothing_def)

lemma insert_dead_stored:
  "d \<in> set ds \<Longrightarrow> find_row dead_key (insert_dead_letters ds t) (dead_key d) \<noteq> None"
  unfolding insert_dead_fold by (rule wo_dead.stored_after_fold)

section \<open>The reads of a chunk replay from the cache\<close>

lemma replays_logs:
  "replays (eth_get_logs_multi_topic x co ab p c ts a b) (eth_get_logs_multi_topic x co' ab p' c ts a b)"
  by (auto simp: eth_get_logs_multi_topic_def Let_def intro!: replays_andthen replays_core replays_single)

lemma replays_times:
  "replays (fetch_block_timestamps x co ab p logs) (fetch_block_timestamps x co' ab p' logs)"
  by (auto simp: fetch_block_timestamps_def block_timestamp_at_def
      intro!: replays_andthen replays_fold_io replays_core replays_single)

lemma chunk_again:
  assumes run: "backfill_chunk x co ab jb a b s = (Inr c, s')"
    and le: "cache_le s' t"
    and ev: "\<And>k. find_row event_key (w_events s') k \<noteq> None \<Longrightarrow> find_row event_key (w_events t) k \<noteq> None"
    and dl: "\<And>k. find_row dead_key (w_dead s') k \<noteq> None \<Longrightarrow> find_row dead_key (w_dead t) k \<noteq> None"
  shows "backfill_chunk x co' ab (jb\<lparr>jb_archive := p\<rparr>) a b t
    = (Inr \<lparr>ch_logs_seen = ch_logs_seen c, ch_events_inserted = 0, ch_dead_lettered = 0\<rparr>,
       advance_checkpoint (jb_contract jb) (jb_suffix jb) b t)"
proof -
  let ?get = "eth_get_logs_multi_topic x co ab (jb_archive jb) (jb_proxy jb)
      (topic0s_for ab (jb_contract jb)) a b"
  let ?get' = "eth_get_logs_multi_topic x co' ab p (jb_proxy jb) (topic0s_for ab (jb_contract jb)) a b"
  from run obtain v u logs where g: "?get s = (Inr v, u)" and l: "logs_from_json ab v = Some logs"
    by (auto simp: backfill_chunk_def andthen_Inr_iff some_or_def throw_def split: option.splits)
  have "cache_le s u" and g': "\<And>w. cache_le u w \<Longrightarrow> ?get' w = (Inr v, w)"
    using replays_logs [of x co ab "jb_archive jb" "jb_proxy jb" "topic0s_for ab (jb_contract jb)" a b co' p] g
    unfolding replays_def by blast+
  show ?thesis
  proof (cases "logs = []")
    case True
    then have "c = \<lparr>ch_logs_seen = 0, ch_events_inserted = 0, ch_dead_lettered = 0\<rparr>"
      and s': "s' = advance_checkpoint (jb_contract jb) (jb_suffix jb) b u"
      using run g l by (auto simp: backfill_chunk_def andthen_def some_or_def ret_def modifying_def)
    moreover have "cache_le u t"
      using le s' by (auto simp: cache_le_def advance_checkpoint_def cached_outcome_def cache_get_def
          cache_row_at_def)
    ultimately show ?thesis using g' l True
      by (simp add: backfill_chunk_def andthen_def some_or_def ret_def modifying_def)
  next
    case False
    let ?ft = "fetch_block_timestamps x co ab (jb_archive jb) logs"
    from run g l False obtain ts u2 where f: "?ft u = (Inr ts, u2)"
      by (auto simp: backfill_chunk_def andthen_def some_or_def ret_def split: prod.splits sum.splits)
    have "cache_le u u2" and f': "\<And>w. cache_le u2 w \<Longrightarrow> fetch_block_timestamps x co' ab p logs w = (Inr ts, w)"
      using replays_times [of x co ab "jb_archive jb" logs co' p] f unfolding replays_def by blast+
    from run g l False f obtain prepared dead where
      srt: "sort_logs x ab jb ts logs ([], [], []) = Inr (prepared, dead, [])"
      and cm: "commit_chunk x jb b logs prepared dead u2 = (Inr c, s')"
      by (auto simp: backfill_chunk_def andthen_def some_or_def ret_def of_result_def throw_def
          split: sum.splits if_splits)
    have srt': "sort_logs x ab (jb\<lparr>jb_archive := p\<rparr>) ts ls acc = sort_logs x ab jb ts ls acc" for ls acc
      by (induction x ab jb ts ls acc rule: sort_logs.induct)
        (auto split: dispatch_outcome.splits sum.splits)
    have "cache_le u2 t"
      using le cm by (auto simp: cache_le_def commit_chunk_def Let_def advance_checkpoint_def
          cached_outcome_def cache_get_def cache_row_at_def)
    then have c2: "cache_le u t" "cache_le u2 t" using \<open>cache_le u u2\<close> cache_le_trans by blast+
    have "w_events s' = insert_events x (jb_abi_hash jb) prepared (w_events u2)"
      "w_dead s' = insert_dead_letters dead (w_dead u2)" "ch_logs_seen c = length logs"
      using cm by (auto simp: commit_chunk_def Let_def advance_checkpoint_def)
    moreover have "insert_events x (jb_abi_hash jb) prepared (w_events t) = w_events t"
      by (rule insert_events_present) (use ev calculation(1) insert_events_stored in metis)
    moreover have "insert_dead_letters dead (w_dead t) = w_dead t"
      by (rule insert_dead_present) (use dl calculation(2) insert_dead_stored in metis)
    ultimately show ?thesis
      using g' [OF c2(1)] f' [OF c2(2)] l False srt
      by (simp add: backfill_chunk_def andthen_def some_or_def ret_def of_result_def srt'
          commit_chunk_def Let_def)
  qed
qed

section \<open>Checkpoints of a run\<close>

definition mark_of :: "'n job \<Rightarrow> event_row list \<times> dead_row list \<times> checkpoint_row list \<Rightarrow> int option" where
  "mark_of jb d = checkpoint (snd (snd d)) (checkpoint_name (jb_contract jb) (jb_suffix jb))"

lemma mark_after_commit:
  "index_commits x jb a b d d' \<Longrightarrow>
     mark_of jb d' = Some (case mark_of jb d of None \<Rightarrow> as_i64 (int b) | Some w \<Rightarrow> max w (as_i64 (int b)))"
  by (auto simp: index_commits_def mark_of_def marks.mark_advance)

lemma mark_after_run:
  assumes "committed (index_commits x jb) a m d d'" "m \<le> 2 ^ 63"
    and "\<And>cp. mark_of jb d = Some cp \<Longrightarrow> cp < int a"
  shows "mark_of jb d' = (if m = a then mark_of jb d else Some (int m - 1))"
  using assms
proof (induction rule: committed.induct)
  case (committed_chunk a b d d1 m d2)
  have m: "b + 1 \<le> m" using committed_chunk(4) by (rule committed_le)
  then have b: "as_i64 (int b) = int b" using committed_chunk(6) by simp
  have "mark_of jb d1 = Some (int b)"
    using mark_after_commit [OF committed_chunk(1)] committed_chunk(2,7) b
    by (force split: option.splits)
  moreover from this have "mark_of jb d2 = (if m = b + 1 then mark_of jb d1 else Some (int m - 1))"
    by (intro committed_chunk.IH) (use committed_chunk(6) in auto)
  ultimately show ?case using m committed_chunk(2) by auto
qed simp

lemma resume_from_mark:
  "resume_from (jb_contract jb) (jb_suffix jb) a0 s =
     (case mark_of jb (durable s) of
        None \<Rightarrow> a0
      | Some cp \<Rightarrow> if a0 \<le> as_u64 cp then min (as_u64 cp + 1) (2 ^ 64 - 1) else a0)"
  by (simp add: resume_from_def mark_of_def durable_def)

section \<open>Properties\<close>

lemma drive_backfill_some: "\<exists>r s'. drive_backfill x co ab jb a b s = Some (r, s')"
  using drive_loop_returns [of "start_state a" "backfill_chunk x co ab jb" sleep_world b s]
  by (auto simp: drive_backfill_def start_state_def DEFAULT_BATCH_BLOCKS_def MAX_BATCH_BLOCKS_def)


lemma drive_backfill_committed:
  assumes "drive_backfill x co ab jb a b s = Some (r, s')"
  shows "\<exists>m. committed (index_commits x jb) a m (durable s) (durable s')
    \<and> (case r of Inr _ \<Rightarrow> m = max a (b + 1) | Inl _ \<Rightarrow> m \<le> b)"
proof (cases "b < a")
  case True
  with assms have "r = Inr no_summary" "s' = s" by (simp_all add: drive_backfill_def)
  with True show ?thesis using committed_none by (intro exI [of _ a]) auto
next
  case False
  with assms have "drive_loop (backfill_chunk x co ab jb) sleep_world b (start_state a) s = Some (r, s')"
    by (simp add: drive_backfill_def)
  moreover have st: "dr_next (start_state a) = a" "1 \<le> dr_batch (start_state a)"
    "dr_batch (start_state a) \<le> MAX_BATCH_BLOCKS"
    by (simp_all add: start_state_def DEFAULT_BATCH_BLOCKS_def MAX_BATCH_BLOCKS_def)
  ultimately show ?thesis using ix.drive_committed [OF _ st(2,3)] unfolding st(1) by blast
qed


definition sample_job :: "unit job" where
  "sample_job = \<lparr>jb_archive = \<lparr>pr_name = ''node'', pr_post = (\<lambda>_ u. (Body [], u))\<rparr>,
     jb_contract = BondingManager, jb_suffix = [], jb_proxy = ''0xb'', jb_abi_hash = ''h''\<rparr>"

definition sample_log :: raw_log where
  "sample_log = \<lparr>l_address = ''0xb'', l_topics = [''0x1''], l_data = [], l_block_number = ''0x5'',
     l_block_hash = ''0xc'', l_tx_hash = ''0xd'', l_log_index = ''0x0''\<rparr>"

definition index_ext :: ext where
  "index_ext = sample_ext\<lparr>json_parse := (\<lambda>_. Some (JObj [(''timestamp'', JStr ''0x10'')]))\<rparr>"

definition index_abi :: "(string + sol_event) \<Rightarrow> abi" where
  "index_abi r = \<lparr>signature_hash = (\<lambda>k. if k = Reward then 1 else 2), decode_log_data = (\<lambda>_ _. r),
     b256_from_str = (\<lambda>_. Some 1), alloy_hex = Some, log_data_ok = (\<lambda>_. True),
     timestamp_ok = (\<lambda>_. True), logs_from_json = (\<lambda>_. Some [sample_log]), json_error = (\<lambda>t. t)\<rparr>"

definition sample_sol :: sol_event where
  "sample_sol = \<lparr>ev_uint = (\<lambda>_. 5), ev_addr = (\<lambda>_. 7), ev_text = (\<lambda>_. []), ev_hex = (\<lambda>_. [])\<rparr>"


text \<open>
  C18. Resuming leaves no gap and repeats nothing: after a run that started at the resume
  point, whether it finished or was interrupted, the next resume point is the first block
  that was not committed.
\<close>

theorem resume_continues:
  assumes "drive_backfill x co ab jb (resume_from (jb_contract jb) (jb_suffix jb) a0 s) b s = Some (r, s')"
    and "b < 2 ^ 63 - 1" "a0 < 2 ^ 63"
    and "\<And>cp. checkpoint (w_checkpoints s) (checkpoint_name (jb_contract jb) (jb_suffix jb)) = Some cp
      \<Longrightarrow> 0 \<le> cp \<and> cp < 2 ^ 63 - 1"
  shows "committed (index_commits x jb) (resume_from (jb_contract jb) (jb_suffix jb) a0 s)
      (resume_from (jb_contract jb) (jb_suffix jb) a0 s') (durable s) (durable s')"
proof -
  let ?a = "resume_from (jb_contract jb) (jb_suffix jb) a0 s"
  from drive_backfill_committed [OF assms(1)] obtain m where
    c: "committed (index_commits x jb) ?a m (durable s) (durable s')"
    and m: "case r of Inr _ \<Rightarrow> m = max ?a (b + 1) | Inl _ \<Rightarrow> m \<le> b" by blast
  have cp: "0 \<le> cp \<and> cp < 2 ^ 63 - 1" if "mark_of jb (durable s) = Some cp" for cp
    using assms(4) that by (simp add: mark_of_def durable_def)
  have a: "?a \<le> 2 ^ 63" "\<And>cp. mark_of jb (durable s) = Some cp \<Longrightarrow> cp < int ?a" "a0 \<le> ?a"
    using cp assms(3) by (auto simp: resume_from_mark nat_less_iff split: option.splits)
  have "m \<le> 2 ^ 63" using m a(1) assms(2) by (auto split: sum.splits)
  from mark_after_run [OF c this a(2)]
  have mk: "mark_of jb (durable s') = (if m = ?a then mark_of jb (durable s) else Some (int m - 1))" .
  have "resume_from (jb_contract jb) (jb_suffix jb) a0 s' = m"
  proof (cases "m = ?a")
    case True
    then show ?thesis using mk by (simp only: resume_from_mark if_True refl)
  next
    case False
    then have "?a < m" using committed_le [OF c] by simp
    then show ?thesis using mk False a(3) \<open>m \<le> 2 ^ 63\<close>
      by (simp add: resume_from_mark nat_diff_distrib)
  qed
  with c show ?thesis by simp
qed

theorem resume_continues_witness:
  "\<exists>r s'. drive_backfill index_ext False (index_abi (Inr sample_sol)) sample_job
       (resume_from BondingManager [] 3 (empty_world ())) 20000 (empty_world ()) = Some (r, s')
     \<and> committed (index_commits index_ext sample_job) (resume_from BondingManager [] 3 (empty_world ()))
       (resume_from BondingManager [] 3 s') (durable (empty_world ())) (durable s')"
proof -
  obtain r s' where run: "drive_backfill index_ext False (index_abi (Inr sample_sol)) sample_job
      (resume_from (jb_contract sample_job) (jb_suffix sample_job) 3 (empty_world ())) 20000
      (empty_world ()) = Some (r, s')" using drive_backfill_some by blast
  have "committed (index_commits index_ext sample_job)
      (resume_from (jb_contract sample_job) (jb_suffix sample_job) 3 (empty_world ()))
      (resume_from (jb_contract sample_job) (jb_suffix sample_job) 3 s')
      (durable (empty_world ())) (durable s')"
    by (rule resume_continues [OF run]) (simp_all add: empty_world_def checkpoint_def)
  with run show ?thesis by (auto simp: sample_job_def)
qed

lemma str_contains_prefix: "starts_with q t \<Longrightarrow> str_contains q t"
  by (cases t) (auto simp: starts_with_def)

lemma strict_halt_not_transient: "\<not> is_transient (strict_halt a b fs)"
proof -
  have "starts_with ''strict-decode halt'' (strict_halt a b fs)"
    by (simp add: starts_with_def strict_halt_def)
  then show ?thesis using str_contains_prefix by (simp add: is_transient_def)
qed

lemma fixed_errors_not_transient:
  "\<not> is_transient ''cannot parse integer from empty string''"
  "\<not> is_transient ''invalid digit found in string''"
  "\<not> is_transient TOO_LARGE" "\<not> is_transient ''decoding data hex for dead-letter''"
  by code_simp+

lemma first_int_error_cases:
  "first_int_error over b mx acc s = over \<or> first_int_error over b mx acc s = ''invalid digit found in string''"
  by (induction over b mx acc s rule: first_int_error.induct) (auto split: option.splits)

lemma unsigned_error_not_transient: "\<not> is_transient (unsigned_error b w s)"
proof (cases s)
  case Nil
  then show ?thesis by (simp only: unsigned_error_def list.case fixed_errors_not_transient not_False_eq_True)
next
  case (Cons c r)
  show ?thesis
  proof (cases r)
    case Nil
    with Cons show ?thesis
      by (simp only: unsigned_error_def list.case fixed_errors_not_transient not_False_eq_True)
  next
    case (Cons d r')
    define body where "body = (if c = CHR ''+'' then r else s)"
    have "unsigned_error b w s = first_int_error TOO_LARGE b (2 ^ w - 1) 0 body"
      by (simp only: unsigned_error_def body_def \<open>s = c # r\<close> Cons list.case)
    moreover have "\<not> is_transient (first_int_error TOO_LARGE b (2 ^ w - 1) 0 body)"
      using first_int_error_cases [of TOO_LARGE b "2 ^ w - 1" 0 body] fixed_errors_not_transient(2,3)
      by (elim disjE) (simp_all only: not_False_eq_True)
    ultimately show ?thesis by simp
  qed
qed

lemma unsigned_hex_error: "unsigned_hex w s = Inl e \<Longrightarrow> \<not> is_transient e"
  by (auto simp: unsigned_hex_def unsigned_error_not_transient Let_def split: option.splits)

lemma dead_from_raw_error: "dead_from_raw ab raw h msg = Inl e \<Longrightarrow> \<not> is_transient e"
  using fixed_errors_not_transient(4)
  by (auto simp: dead_from_raw_def unsigned_hex_error split: sum.splits option.splits)

lemma sort_logs_strict:
  assumes "sort_logs x ab jb ts logs (p, d, st) = Inr (p', d', st')"
  shows "set st \<subseteq> set st' \<and> ((\<exists>raw\<in>set logs. \<exists>n t e. decode_one x ab (jb_contract jb) raw ts = DecodeFailed n t True e)
    \<longrightarrow> st' \<noteq> [])"
  using assms
proof (induction logs arbitrary: p d st)
  case Nil
  then show ?case by simp
next
  case (Cons raw logs)
  show ?case
  proof (cases "decode_one x ab (jb_contract jb) raw ts")
    case (Decoded row)
    with Cons show ?thesis by fastforce
  next
    case (DecodeFailed n t strict e)
    show ?thesis
    proof (cases strict)
      case True
      with Cons.prems DecodeFailed have
        "sort_logs x ab jb ts logs (p, d, st @ [strict_detail raw n t e]) = Inr (p', d', st')" by simp
      from Cons.IH [OF this] show ?thesis by auto
    next
      case False
      with Cons DecodeFailed show ?thesis by (fastforce split: sum.splits)
    qed
  next
    case (UnknownTopic0 t)
    with Cons show ?thesis by (fastforce split: sum.splits)
  qed
qed

lemma sort_logs_error: "sort_logs x ab jb ts logs acc = Inl e \<Longrightarrow> \<not> is_transient e"
  by (induction x ab jb ts logs acc rule: sort_logs.induct)
    (auto simp: dead_from_raw_error split: dispatch_outcome.splits sum.splits if_splits)

text \<open>
  C19. A critical event that does not decode halts the backfill: the chunk that holds it
  commits nothing, and whatever error it ends with is not retried.
\<close>

theorem strict_failure_halts:
  assumes "eth_get_logs_multi_topic x co ab (jb_archive jb) (jb_proxy jb)
      (topic0s_for ab (jb_contract jb)) a b s = (Inr v, u)"
    and "logs_from_json ab v = Some logs" "raw \<in> set logs"
    and "fetch_block_timestamps x co ab (jb_archive jb) logs u = (Inr ts, u2)"
    and "decode_one x ab (jb_contract jb) raw ts = DecodeFailed name topic0 True msg"
  shows "\<exists>e s'. backfill_chunk x co ab jb a b s = (Inl e, s') \<and> durable s' = durable s
    \<and> (\<forall>st. after_error e st = None)"
proof -
  have ne: "logs \<noteq> []" using assms(3) by auto
  let ?sorted = "sort_logs x ab jb ts logs ([], [], [])"
  have run: "backfill_chunk x co ab jb a b s =
     andthen (of_result ?sorted) (\<lambda>(prepared, dead, strict).
       if strict \<noteq> [] then throw (strict_halt a b strict)
       else commit_chunk x jb b logs prepared dead) u2"
    using assms(1,2,4) ne
    by (simp add: backfill_chunk_def andthen_def some_or_def ret_def split del: if_split)
  have halt: "\<forall>st. after_error e st = None" if "\<not> is_transient e" for e
    using that by (simp add: after_error_def)
  show ?thesis
  proof (cases ?sorted)
    case (Inl e)
    then have r: "backfill_chunk x co ab jb a b s = (Inl e, u2)"
      unfolding run by (simp add: andthen_def of_result_def)
    then show ?thesis using backfill_chunk_aborts [OF r] halt sort_logs_error [OF Inl] by blast
  next
    case (Inr acc)
    obtain p d st where acc: "acc = (p, d, st)" using prod_cases3 by blast
    have "st \<noteq> []" using sort_logs_strict [of x ab jb ts logs "[]" "[]" "[]" p d st] Inr acc assms(3,5) by auto
    then have r: "backfill_chunk x co ab jb a b s = (Inl (strict_halt a b st), u2)"
      unfolding run using Inr acc by (simp add: andthen_def of_result_def throw_def)
    then show ?thesis using backfill_chunk_aborts [OF r] halt strict_halt_not_transient by blast
  qed
qed

text \<open>
  C20. Indexing a committed range again is a no-op on the events and dead letters: a second
  pass over the range, offline from the cache and with any provider, on any later database
  that still has the rows, succeeds, sees the same logs and inserts nothing.
\<close>

theorem reindex_inserts_nothing:
  assumes "backfill_chunk x co ab jb a b s = (Inr c, s')"
    and "cache_le s' t"
    and "\<And>k. find_row event_key (w_events s') k \<noteq> None \<Longrightarrow> find_row event_key (w_events t) k \<noteq> None"
    and "\<And>k. find_row dead_key (w_dead s') k \<noteq> None \<Longrightarrow> find_row dead_key (w_dead t) k \<noteq> None"
  shows "\<exists>t'. backfill_chunk x True ab (jb\<lparr>jb_archive := p\<rparr>) a b t
      = (Inr \<lparr>ch_logs_seen = ch_logs_seen c, ch_events_inserted = 0, ch_dead_lettered = 0\<rparr>, t')
    \<and> w_events t' = w_events t \<and> w_dead t' = w_dead t"
  using chunk_again [OF assms] by (simp add: advance_checkpoint_def)

text \<open>
  C21. A log of a non-critical event whose data is not hexadecimal cannot be dead-lettered:
  it is classified as not strict, and building its dead-letter row fails on the same data, so
  the whole chunk fails with an error that is not retried.
\<close>

theorem bad_data_halts_non_critical:
  assumes "l_topics raw = t # rest" "all_some (map (\<lambda>t. b256_from_str ab (trim_0x t)) (l_topics raw)) = Some (n # ns)"
    and "alloy_hex ab (trim_0x (l_data raw)) = None"
    and "\<not> is_strict_event ab (jb_contract jb) n"
    and "unsigned_hex 64 (l_block_number raw) = Inr bn" "unsigned_hex 32 (l_log_index raw) = Inr li"
  shows "decode_one x ab (jb_contract jb) raw ts = DecodeFailed ''(unknown)'' n False ''decoding data hex''
    \<and> sort_logs x ab jb ts (raw # logs) acc = Inl ''decoding data hex for dead-letter''
    \<and> after_error ''decoding data hex for dead-letter'' st = None"
proof -
  have "b256_from_str ab (trim_0x t) = Some n"
    using assms(1,2) by (cases "b256_from_str ab (trim_0x t)") auto
  then have d: "decode_one x ab (jb_contract jb) raw ts
      = DecodeFailed ''(unknown)'' n False ''decoding data hex''"
    using assms(1-4) by (simp add: decode_one_def build_log_data_def)
  have "dead_from_raw ab raw (jb_abi_hash jb) ''decoding data hex'' = Inl ''decoding data hex for dead-letter''"
    using assms(3,5,6) by (simp add: dead_from_raw_def)
  with d have "sort_logs x ab jb ts (raw # logs) acc = Inl ''decoding data hex for dead-letter''"
    by (cases acc) simp
  moreover have "after_error ''decoding data hex for dead-letter'' st = None"
    using fixed_errors_not_transient(4) by (simp add: after_error_def)
  ultimately show ?thesis using d by blast
qed

section \<open>Concrete chunks\<close>

lemma call_once_sample: "call_once index_ext (jb_archive sample_job) m ps s = (Inr (JStr []), s)"
  by (simp add: call_once_def post_def sample_ext_def index_ext_def sample_job_def response_value_def)

lemma sample_single:
  "\<exists>oc s'. single_call_cached index_ext False (jb_archive sample_job) m ps b s = (Inr oc, s')"
  by (auto simp: single_call_cached_def Let_def andthen_def modifying_def ret_def call_once_sample
      split: option.splits)

lemma index_parse: "json_parse index_ext t = Some (JObj [(''timestamp'', JStr ''0x10'')])"
  by (simp add: index_ext_def)

lemma sample_logs:
  "\<exists>v u. eth_get_logs_multi_topic index_ext False (index_abi r) (jb_archive sample_job) c ts a b s = (Inr v, u)"
proof -
  let ?params = "JArr [JObj [(''address'', JStr c), (''topics'', JArr [JArr (map JStr ts)]),
            (''fromBlock'', JStr (hex_0x a)), (''toBlock'', JStr (hex_0x b))]]"
  obtain oc s' where "single_call_cached index_ext False (jb_archive sample_job) ''eth_getLogs''
      ?params None s = (Inr oc, s')" using sample_single by blast
  then show ?thesis
    by (simp add: eth_get_logs_multi_topic_def Let_def andthen_def core_def map_err_def
        of_result_def index_parse)
qed

lemma sample_times:
  "\<exists>u. fetch_block_timestamps index_ext False (index_abi r) (jb_archive sample_job) [sample_log] s
     = (Inr [5 \<mapsto> 16], u)"
proof -
  obtain oc s' where "single_call_cached index_ext False (jb_archive sample_job) ''eth_getBlockByNumber''
      (header_params (hex_0x 5)) (Some 5) s = (Inr oc, s')" using sample_single by blast
  then show ?thesis
    by (simp add: fetch_block_timestamps_def sample_log_def unsigned_hex_def parse_unsigned_def
        parse_digits_def digit_val_def Let_def andthen_def of_result_def block_timestamp_at_def
        core_def map_err_def index_parse some_or_def ret_def signed_hex_def parse_signed_def)
qed

lemma sample_decode:
  "decode_one index_ext (index_abi r) BondingManager sample_log [5 \<mapsto> 16] =
     (case r of Inl e \<Rightarrow> DecodeFailed ''Reward'' 1 True e
      | Inr d \<Rightarrow> Decoded (fill_event index_ext BondingManager Reward d
          ((envelope_row BondingManager sample_log 1 5 0 16)\<lparr>y_name := ''Reward''\<rparr>)))"
  by (simp add: decode_one_def sample_log_def index_abi_def build_log_data_def unsigned_hex_def
      parse_unsigned_def parse_digits_def digit_val_def Let_def dispatch_def decode_failed_def
      is_strict_event_def split: sum.split)

lemma sample_chunk:
  "\<exists>c s'. backfill_chunk index_ext False (index_abi (Inr sample_sol)) sample_job 2 20 s = (Inr c, s')"
proof -
  obtain v u where g: "eth_get_logs_multi_topic index_ext False (index_abi (Inr sample_sol))
      (jb_archive sample_job) (jb_proxy sample_job)
      (topic0s_for (index_abi (Inr sample_sol)) BondingManager) 2 20 s = (Inr v, u)"
    using sample_logs by blast
  obtain u2 where t: "fetch_block_timestamps index_ext False (index_abi (Inr sample_sol))
      (jb_archive sample_job) [sample_log] u = (Inr [5 \<mapsto> 16], u2)" using sample_times by blast
  have k: "jb_contract sample_job = BondingManager" by (simp add: sample_job_def)
  have l: "logs_from_json (index_abi (Inr sample_sol)) v = Some [sample_log]" by (simp add: index_abi_def)
  show ?thesis
    by (simp add: backfill_chunk_def andthen_def k g l t some_or_def ret_def of_result_def sample_decode
        commit_chunk_def Let_def)
qed

theorem strict_failure_halts_witness:
  "\<exists>e s'. backfill_chunk index_ext False (index_abi (Inl ''bad'')) sample_job 2 20 (empty_world ()) = (Inl e, s')
     \<and> durable s' = durable (empty_world ()) \<and> (\<forall>st. after_error e st = None)"
proof -
  let ?ab = "index_abi (Inl ''bad'')"
  obtain v u where g: "eth_get_logs_multi_topic index_ext False ?ab
      (jb_archive sample_job) (jb_proxy sample_job) (topic0s_for ?ab (jb_contract sample_job)) 2 20
      (empty_world ()) = (Inr v, u)" using sample_logs by blast
  obtain u2 where t: "fetch_block_timestamps index_ext False ?ab
      (jb_archive sample_job) [sample_log] u = (Inr [5 \<mapsto> 16], u2)" using sample_times by blast
  have l: "logs_from_json ?ab v = Some [sample_log]" by (simp add: index_abi_def)
  have d: "decode_one index_ext ?ab (jb_contract sample_job) sample_log [5 \<mapsto> 16] =
      DecodeFailed ''Reward'' 1 True ''bad''"
    using sample_decode [of "Inl ''bad''"] by (simp add: sample_job_def)
  show ?thesis by (rule strict_failure_halts [OF g l _ t d]) simp
qed

theorem reindex_inserts_nothing_witness:
  "\<exists>c s' t'. backfill_chunk index_ext False (index_abi (Inr sample_sol)) sample_job 2 20 (empty_world ()) = (Inr c, s')
     \<and> backfill_chunk index_ext True (index_abi (Inr sample_sol)) (sample_job\<lparr>jb_archive := jb_archive sample_job\<rparr>) 2 20 s'
       = (Inr \<lparr>ch_logs_seen = ch_logs_seen c, ch_events_inserted = 0, ch_dead_lettered = 0\<rparr>, t')"
proof -
  obtain c s' where run: "backfill_chunk index_ext False (index_abi (Inr sample_sol)) sample_job 2 20
      (empty_world ()) = (Inr c, s')" using sample_chunk by blast
  from reindex_inserts_nothing [OF run cache_le_refl] run show ?thesis by blast
qed

definition bad_data_abi :: abi where
  "bad_data_abi = (index_abi (Inr sample_sol))\<lparr>alloy_hex := \<lambda>_. None, b256_from_str := \<lambda>_. Some 2\<rparr>"

theorem bad_data_halts_non_critical_witness:
  "sort_logs index_ext bad_data_abi (sample_job\<lparr>jb_contract := RoundsManager\<rparr>) (\<lambda>_. None) [sample_log] ([], [], [])
     = Inl ''decoding data hex for dead-letter''"
proof -
  have "decode_one index_ext bad_data_abi (jb_contract (sample_job\<lparr>jb_contract := RoundsManager\<rparr>)) sample_log (\<lambda>_. None)
      = DecodeFailed ''(unknown)'' 2 False ''decoding data hex''
    \<and> sort_logs index_ext bad_data_abi (sample_job\<lparr>jb_contract := RoundsManager\<rparr>) (\<lambda>_. None) [sample_log] ([], [], [])
      = Inl ''decoding data hex for dead-letter''
    \<and> after_error ''decoding data hex for dead-letter'' (start_state 0) = None"
    by (rule bad_data_halts_non_critical [where t = "''0x1''" and rest = "[]" and ns = "[]" and bn = 5 and li = 0])
      (simp_all add: sample_log_def bad_data_abi_def index_abi_def is_strict_event_def unsigned_hex_def
        parse_unsigned_def parse_digits_def digit_val_def Let_def)
  then show ?thesis by blast
qed

end
