(* ===== verification/Valuator_Store.thy ===== *)
theory Valuator_Store
  imports World
begin

text \<open>
  What the valuator (\<open>crates/livepeer-valuator/src\<close>) keeps in the database: the per-pass
  cursor (\<open>cursor.rs\<close>), the single-row writes with the determinism guard (\<open>persist.rs\<close>) and
  the bulk buffers (\<open>bulk.rs\<close>). A failure of the database is not modelled, so the
  statements are functions of the tables; a \<open>NUMERIC(38,18)\<close> column keeps \<open>numeric18\<close> of the
  decimal bound to it.
\<close>

section \<open>cursor.rs\<close>

definition DEFAULT_LOOKBACK_SECS :: int where "DEFAULT_LOOKBACK_SECS = 600"

definition pass_key :: "string \<Rightarrow> string \<Rightarrow> string" where
  "pass_key version pass = ''valuator_'' @ version @ ''_'' @ pass"

definition epoch :: int where "epoch = 0"

definition stored_watermark :: "'n world \<Rightarrow> string \<Rightarrow> int option" where
  "stored_watermark s key = map_option u_watermark (find_row u_key (w_cursors s) key)"

definition has_valuations :: "'n world \<Rightarrow> string \<Rightarrow> bool" where
  "has_valuations s version \<longleftrightarrow> (\<exists>v\<in>set (w_valuations s). v_version v = version)"

definition scan_floor :: "string \<Rightarrow> string \<Rightarrow> int \<Rightarrow> bool \<Rightarrow> 'n world \<Rightarrow> int" where
  "scan_floor version key lookback_secs include_tentative s =
     (if include_tentative then epoch
      else case stored_watermark s key of
        None \<Rightarrow> epoch
      | Some wm \<Rightarrow> if has_valuations s version then wm - lookback_secs else epoch)"

definition next_watermark :: "int option \<Rightarrow> int \<Rightarrow> int" where
  "next_watermark min_unresolved frontier =
     (case min_unresolved of Some m \<Rightarrow> min m frontier | None \<Rightarrow> frontier)"

definition advance :: "string \<Rightarrow> int option \<Rightarrow> int option \<Rightarrow> bool \<Rightarrow> 'n world \<Rightarrow> 'n world" where
  "advance key min_unresolved frontier include_tentative s =
     (if include_tentative then s
      else case frontier of
        None \<Rightarrow> s
      | Some f \<Rightarrow>
          s\<lparr>w_cursors := upsert u_key (\<lambda>old new. old\<lparr>u_watermark := u_watermark new\<rparr>)
              \<lparr>u_key = key, u_watermark = next_watermark min_unresolved f, u_seed = None\<rparr>
              (w_cursors s)\<rparr>)"

text \<open>\<open>MAX\<close> of SQL: \<open>NULL\<close> over no rows, nulls ignored.\<close>

definition sql_max :: "int list \<Rightarrow> int option" where
  "sql_max xs = (if xs = [] then None else Some (Max (set xs)))"

definition in_asset_universe :: "int \<Rightarrow> string \<Rightarrow> event_row \<Rightarrow> bool" where
  "in_asset_universe chain asset r \<longleftrightarrow>
     e_chain r = chain \<and> e_valuable r \<and> e_canonical r \<and> e_finality r = Finalized
     \<and> e_asset r = Some asset"

definition frontier_for_asset :: "int \<Rightarrow> string \<Rightarrow> 'n world \<Rightarrow> int option" where
  "frontier_for_asset chain asset s =
     sql_max (List.map_filter e_finalized_at (filter (in_asset_universe chain asset) (w_events s)))"

definition in_multi_universe :: "int \<Rightarrow> event_row \<Rightarrow> bool" where
  "in_multi_universe chain r \<longleftrightarrow>
     e_chain r = chain \<and> e_valuable r \<and> e_canonical r \<and> e_finality r = Finalized
     \<and> e_name r = ''EarningsClaimed'' \<and> e_asset r = None"

definition frontier_multi :: "int \<Rightarrow> 'n world \<Rightarrow> int option" where
  "frontier_multi chain s =
     sql_max (List.map_filter e_finalized_at (filter (in_multi_universe chain) (w_events s)))"

section \<open>persist.rs\<close>

definition STATUS_PRICED :: string where "STATUS_PRICED = ''priced''"
definition STATUS_FAILED_MISSING_ORACLE :: string where
  "STATUS_FAILED_MISSING_ORACLE = ''failed_missing_oracle''"
definition STATUS_FAILED_MISSING_POOL :: string where
  "STATUS_FAILED_MISSING_POOL = ''failed_missing_pool''"
definition STATUS_FAILED_SEQUENCER_OUTAGE :: string where
  "STATUS_FAILED_SEQUENCER_OUTAGE = ''failed_sequencer_outage''"
definition STATUS_DETERMINISM_VIOLATION :: string where
  "STATUS_DETERMINISM_VIOLATION = ''failed_determinism_violation''"

text \<open>What the columns keep of a row that is bound to an insert.\<close>

definition stored_price :: "ext \<Rightarrow> price_row \<Rightarrow> price_row" where
  "stored_price x r = r\<lparr>p_price := numeric18 x (p_price r)\<rparr>"

definition stored_valuation :: "ext \<Rightarrow> valuation_row \<Rightarrow> valuation_row" where
  "stored_valuation x r =
     r\<lparr>v_amount := numeric18 x (v_amount r), v_price := map_option (numeric18 x) (v_price r),
       v_usd := map_option (numeric18 x) (v_usd r)\<rparr>"

definition put_price :: "ext \<Rightarrow> price_row \<Rightarrow> price_row list \<Rightarrow> price_row list" where
  "put_price x r = ins_nothing price_key (stored_price x r)"

definition put_valuation :: "ext \<Rightarrow> valuation_row \<Rightarrow> valuation_row list \<Rightarrow> valuation_row list" where
  "put_valuation x r = ins_nothing valuation_key (stored_valuation x r)"

lemma valuation_key_stored [simp]: "valuation_key (stored_valuation x r) = valuation_key r"
  by (simp add: valuation_key_def stored_valuation_def)

lemma put_valuation_find:
  "find_row valuation_key (put_valuation x r t) k =
     (if k = valuation_key r \<and> find_row valuation_key t k = None then Some (stored_valuation x r)
      else find_row valuation_key t k)"
  by (simp add: put_valuation_def find_row_ins_nothing)

definition upsert_price :: "ext \<Rightarrow> price_row \<Rightarrow> 'n world \<Rightarrow> 'n world" where
  "upsert_price x r s = s\<lparr>w_prices := put_price x (r\<lparr>p_chain := ARBITRUM_CHAIN_ID\<rparr>) (w_prices s)\<rparr>"

text \<open>The arguments of the two inserts; the chain is always Arbitrum there.\<close>

definition insert_valuation :: "ext \<Rightarrow> valuation_row \<Rightarrow> 'n world \<Rightarrow> 'n world" where
  "insert_valuation x r s =
     s\<lparr>w_valuations := put_valuation x (r\<lparr>v_chain := ARBITRUM_CHAIN_ID\<rparr>) (w_valuations s)\<rparr>"

record attempt_input =
  i_event :: int
  i_version :: string
  i_asset :: string
  i_status :: string
  i_detail :: "json option"

definition input_key :: "attempt_input \<Rightarrow> int \<times> string \<times> string" where
  "input_key i = (i_event i, i_version i, i_asset i)"

definition attempt_group :: "attempt_row \<Rightarrow> int \<times> string \<times> string" where
  "attempt_group a = (a_event a, a_version a, a_asset a)"

definition numbered :: "attempt_input \<Rightarrow> int \<Rightarrow> attempt_row" where
  "numbered i n = \<lparr>a_event = i_event i, a_version = i_version i, a_asset = i_asset i, a_number = n,
     a_status = i_status i, a_detail = i_detail i\<rparr>"

text \<open>\<open>COALESCE(MAX(attempt_number), 0)\<close> of one event, version and asset.\<close>

definition max_attempt :: "attempt_row list \<Rightarrow> int \<times> string \<times> string \<Rightarrow> int" where
  "max_attempt t k =
     (case sql_max (map a_number (filter (\<lambda>a. attempt_group a = k) t)) of None \<Rightarrow> 0 | Some m \<Rightarrow> m)"

definition insert_attempt :: "attempt_input \<Rightarrow> attempt_row list \<Rightarrow> attempt_row list" where
  "insert_attempt i t = ins_nothing attempt_key (numbered i (max_attempt t (input_key i) + 1)) t"

text \<open>The determinism guard: the fields of \<open>StoredValuation\<close> and their comparison.\<close>

definition changed :: "string \<Rightarrow> bool \<Rightarrow> json \<Rightarrow> json \<Rightarrow> (string \<times> json) list" where
  "changed field same stored recomputed =
     (if same then []
      else [(field, JObj [(''stored'', stored), (''recomputed'', recomputed)])])"

definition diff :: "ext \<Rightarrow> valuation_row \<Rightarrow> valuation_row \<Rightarrow> json" where
  "diff x stored new =
     (let shown = (\<lambda>q. JStr (bd_show x q));
          shown_opt = (\<lambda>q. jstr_opt (map_option (bd_show x) q));
          entries =
            changed ''pricing_method'' (v_method stored = v_method new)
              (JStr (v_method stored)) (JStr (v_method new))
            @ changed ''source'' (v_source stored = v_source new)
                (JStr (v_source stored)) (JStr (v_source new))
            @ changed ''status'' (v_status stored = v_status new)
                (JStr (v_status stored)) (JStr (v_status new))
            @ changed ''amount_native'' (v_amount stored = v_amount new)
                (shown (v_amount stored)) (shown (v_amount new))
            @ changed ''native_usd_price'' (v_price stored = v_price new)
                (shown_opt (v_price stored)) (shown_opt (v_price new))
            @ changed ''amount_usd'' (v_usd stored = v_usd new)
                (shown_opt (v_usd stored)) (shown_opt (v_usd new))
      in if entries = [] then JNull else JObj entries)"

datatype determinism_outcome = Inserted | Idempotent | Violation json

definition attempt_for :: "valuation_row \<Rightarrow> string \<Rightarrow> json option \<Rightarrow> attempt_input" where
  "attempt_for r status detail =
     \<lparr>i_event = v_event r, i_version = v_version r, i_asset = v_asset r, i_status = status,
      i_detail = detail\<rparr>"

definition insert_valuation_checked ::
  "ext \<Rightarrow> valuation_row \<Rightarrow> 'n world \<Rightarrow> determinism_outcome \<times> 'n world" where
  "insert_valuation_checked x r s =
     (case find_row valuation_key (w_valuations s) (valuation_key r) of
        Some stored \<Rightarrow>
          let d = diff x stored r in
          if d = JNull then (Idempotent, s)
          else (Violation d,
                s\<lparr>w_attempts := insert_attempt
                    (attempt_for r STATUS_DETERMINISM_VIOLATION (Some d)) (w_attempts s)\<rparr>)
      | None \<Rightarrow>
          let s' = insert_valuation x r s in
          (Inserted,
           s'\<lparr>w_attempts := insert_attempt (attempt_for r (v_status r) None) (w_attempts s')\<rparr>))"

section \<open>bulk.rs\<close>

definition FLUSH_THRESHOLD :: nat where "FLUSH_THRESHOLD = 500"

record buffers =
  bf_valuations :: "valuation_row list"
  bf_attempts :: "attempt_input list"
  bf_prices :: "price_row list"

definition new_buffers :: buffers where
  "new_buffers = \<lparr>bf_valuations = [], bf_attempts = [], bf_prices = []\<rparr>"

definition push_price :: "price_row \<Rightarrow> buffers \<Rightarrow> buffers" where
  "push_price p b = b\<lparr>bf_prices := bf_prices b @ [p]\<rparr>"

text \<open>
  \<open>push_priced\<close> and \<open>push_failed_outcome\<close> queue a valuation with its paired attempt; the
  rows they build are named apart.
\<close>

definition priced_row ::
  "int \<Rightarrow> int \<Rightarrow> string \<Rightarrow> string \<Rightarrow> string \<Rightarrow> string \<Rightarrow> int \<Rightarrow> rat \<Rightarrow> rat \<Rightarrow> rat \<Rightarrow> json \<Rightarrow> string
     \<Rightarrow> valuation_row" where
  "priced_row chain event version asset pmethod source block amount price usd chain_json status =
     \<lparr>v_event = event, v_version = version, v_asset = asset, v_method = pmethod,
      v_source = source, v_status = status, v_chain = chain, v_block = block, v_amount = amount,
      v_price = Some price, v_usd = Some usd, v_detail = chain_json\<rparr>"

definition failed_row ::
  "int \<Rightarrow> int \<Rightarrow> string \<Rightarrow> string \<Rightarrow> string \<Rightarrow> string \<Rightarrow> int \<Rightarrow> rat \<Rightarrow> string \<Rightarrow> json \<Rightarrow> valuation_row" where
  "failed_row chain event version asset pmethod source block amount status detail =
     \<lparr>v_event = event, v_version = version, v_asset = asset, v_method = pmethod,
      v_source = source, v_status = status, v_chain = chain, v_block = block, v_amount = amount,
      v_price = None, v_usd = None, v_detail = detail\<rparr>"

definition push_priced :: "valuation_row \<Rightarrow> buffers \<Rightarrow> buffers" where
  "push_priced v b =
     b\<lparr>bf_valuations := bf_valuations b @ [v],
       bf_attempts := bf_attempts b @ [attempt_for v (v_status v) None]\<rparr>"

definition push_failed_outcome :: "valuation_row \<Rightarrow> buffers \<Rightarrow> buffers" where
  "push_failed_outcome v b =
     b\<lparr>bf_valuations := bf_valuations b @ [v],
       bf_attempts := bf_attempts b @ [attempt_for v (v_status v) (Some (v_detail v))]\<rparr>"

text \<open>
  One statement of \<open>flush_attempts\<close>: \<open>ROW_NUMBER()\<close> numbers the rows of one key in the
  order of status and then of the detail's text, nulls first; every row gets the maximum
  stored before the statement plus its number.
\<close>

definition attempt_order :: "ext \<Rightarrow> attempt_input list \<Rightarrow> attempt_input list" where
  "attempt_order x rows =
     sort_key (\<lambda>r. collate x (i_status r))
       (filter (\<lambda>r. i_detail r = None) rows
        @ sort_key (\<lambda>r. collate x (jsonb_text x (the (i_detail r))))
            (filter (\<lambda>r. i_detail r \<noteq> None) rows))"

fun row_numbers :: "attempt_input list \<Rightarrow> attempt_input list \<Rightarrow> (attempt_input \<times> nat) list" where
  "row_numbers seen [] = []"
| "row_numbers seen (r # rs) =
     (r, Suc (length (filter (\<lambda>q. input_key q = input_key r) seen))) # row_numbers (r # seen) rs"

definition next_n :: "attempt_row list \<Rightarrow> attempt_input \<times> nat \<Rightarrow> attempt_row" where
  "next_n t rn = numbered (fst rn) (max_attempt t (input_key (fst rn)) + int (snd rn))"

definition insert_attempts :: "ext \<Rightarrow> attempt_input list \<Rightarrow> attempt_row list \<Rightarrow> attempt_row list" where
  "insert_attempts x rows t =
     fold (ins_nothing attempt_key) (map (next_n t) (row_numbers [] (attempt_order x rows))) t"

definition flush_valuations :: "ext \<Rightarrow> valuation_row list \<Rightarrow> valuation_row list \<Rightarrow> valuation_row list" where
  "flush_valuations x rows = fold (fold (put_valuation x)) (chunks FLUSH_THRESHOLD rows)"

definition flush_prices :: "ext \<Rightarrow> price_row list \<Rightarrow> price_row list \<Rightarrow> price_row list" where
  "flush_prices x rows = fold (fold (put_price x)) (chunks FLUSH_THRESHOLD rows)"

definition flush_attempts :: "ext \<Rightarrow> attempt_input list \<Rightarrow> attempt_row list \<Rightarrow> attempt_row list" where
  "flush_attempts x rows = fold (insert_attempts x) (chunks FLUSH_THRESHOLD rows)"

definition flush :: "ext \<Rightarrow> buffers \<Rightarrow> 'n world \<Rightarrow> buffers \<times> 'n world" where
  "flush x b s =
     (new_buffers,
      s\<lparr>w_valuations := flush_valuations x (bf_valuations b) (w_valuations s),
        w_prices := flush_prices x (bf_prices b) (w_prices s),
        w_attempts := flush_attempts x (bf_attempts b) (w_attempts s)\<rparr>)"

definition maybe_flush :: "ext \<Rightarrow> buffers \<Rightarrow> 'n world \<Rightarrow> buffers \<times> 'n world" where
  "maybe_flush x b s =
     (if FLUSH_THRESHOLD \<le> length (bf_valuations b) \<or> FLUSH_THRESHOLD \<le> length (bf_attempts b)
         \<or> FLUSH_THRESHOLD \<le> length (bf_prices b)
      then flush x b s else (b, s))"

end
