(* ===== verification/Onchain.thy ===== *)
theory Onchain
  imports Valuator_Store Rpc_Methods Tick_Math
begin

text \<open>
  \<open>crates/livepeer-valuator/src/onchain.rs\<close>: decoding the batched reads, pricing an ETH
  amount with Chainlink and an LPT amount with the Uniswap pool and Chainlink, the candidate
  queries and the two passes. The work after the network reads is a pure function of the
  decoded answers (\<open>judge_eth\<close>, \<open>judge_lpt\<close>), as in the source, where nothing after the
  batch touches the database. The LPT pass runs up to 14 pricing tasks at a time; the
  order in which they complete is the argument \<open>sched\<close>, and one task's reads happen
  together at the point where it is joined.
\<close>

section \<open>Constants\<close>

definition CHAINLINK_DECIMALS :: nat where "CHAINLINK_DECIMALS = 8"
definition PRICING_METHOD_ETH :: string where "PRICING_METHOD_ETH = ''chainlink_eth_usd''"
definition SOURCE_ETH :: string where "SOURCE_ETH = ''chainlink_dual_rpc''"
definition PRICING_METHOD_LPT_TWAP :: string where
  "PRICING_METHOD_LPT_TWAP = ''uniswap_v3_twap_30min_x_chainlink_eth''"
definition PRICING_METHOD_LPT_SPOT :: string where
  "PRICING_METHOD_LPT_SPOT = ''uniswap_v3_spot_x_chainlink_eth''"
definition SOURCE_LPT :: string where "SOURCE_LPT = ''uniswap_v3_dual_rpc''"
definition TWAP_WINDOW_SECS :: nat where "TWAP_WINDOW_SECS = 1800"
definition REQUIRED_CARDINALITY :: nat where "REQUIRED_CARDINALITY = 144"
definition STALENESS_FAIL_SECS :: int where "STALENESS_FAIL_SECS = 86400"
definition STALENESS_WARN_SECS :: int where "STALENESS_WARN_SECS = 14400"
definition DEGRADED_VERSION_SUFFIX :: string where
  "DEGRADED_VERSION_SUFFIX = ''_degraded_spot_pre_cardinality''"
definition TWAP_VERSION :: string where
  "TWAP_VERSION = ''v1_lpt_weth_twap_30min_x_chainlink_eth''"
definition CONCURRENCY :: nat where "CONCURRENCY = 14"

definition degraded_version :: string where
  "degraded_version = ''v1'' @ DEGRADED_VERSION_SUFFIX"

record pricing_config =
  pc_sequencer :: string
  pc_chainlink :: string
  pc_pool :: string

section \<open>Decoding the outcomes of a batch\<close>

definition outcome_hex :: "outcome \<Rightarrow> string" where
  "outcome_hex oc = trim_0x (trim_char (CHR 0x22) (from_utf8_or_empty (oc_bytes oc)))"

definition decode_round_outcome ::
  "ext \<Rightarrow> core_error + outcome \<Rightarrow> string + decoded_round option" where
  "decode_round_outcome x res =
     (case res of
        Inl e \<Rightarrow> Inl (core_msg e)
      | Inr oc \<Rightarrow>
          (case hex_decode x (outcome_hex oc) of
             None \<Rightarrow> Inl ''decoding eth_call return hex''
           | Some raw \<Rightarrow>
               if raw = [] then Inr None
               else (case abi_round x raw of
                       None \<Rightarrow> Inl ''ABI-decoding latestRoundData return tuple''
                     | Some rd \<Rightarrow> Inr (Some rd))))"

definition decode_slot0_outcome ::
  "ext \<Rightarrow> core_error + outcome \<Rightarrow> string + pool_slot0 option" where
  "decode_slot0_outcome x res =
     (case res of
        Inl e \<Rightarrow> Inl (core_msg e)
      | Inr oc \<Rightarrow>
          if outcome_hex oc = [] then Inr None
          else (case hex_decode x (outcome_hex oc) of
             None \<Rightarrow> Inl ''decoding slot0() return hex''
           | Some raw \<Rightarrow>
               (case abi_slot0 x raw of
                  None \<Rightarrow> Inl ''ABI-decoding slot0() return tuple''
                | Some sl \<Rightarrow>
                    if sl_tick sl < - (2 ^ 31) \<or> 2 ^ 31 \<le> sl_tick sl then Inl ''tick to i32''
                    else Inr (Some sl))))"

text \<open>The two cumulative ticks of \<open>observe\<close>: then and now.\<close>

definition decode_observe_outcome ::
  "ext \<Rightarrow> core_error + outcome \<Rightarrow> string + (int \<times> int) option" where
  "decode_observe_outcome x res =
     (case res of
        Inl e \<Rightarrow> Inl (core_msg e)
      | Inr oc \<Rightarrow>
          if outcome_hex oc = [] then Inr None
          else (case hex_decode x (outcome_hex oc) of
             None \<Rightarrow> Inl ''decoding observe() return hex''
           | Some raw \<Rightarrow>
               (case abi_observe x raw of
                  None \<Rightarrow> Inr None
                | Some cum \<Rightarrow>
                    if length cum < 2 then Inr None else Inr (Some (cum ! 0, cum ! 1)))))"

definition chainlink_audit :: "decoded_round \<Rightarrow> json" where
  "chainlink_audit cl =
     JObj [(''roundId'', JStr (rd_round_id cl)), (''answer'', JStr (rd_answer cl)),
           (''startedAt'', JStr (rd_started_at cl)), (''updatedAt'', JStr (rd_updated_at cl)),
           (''answeredInRound'', JStr (rd_answered_in cl))]"

definition u128_or_0 :: "string \<Rightarrow> nat" where
  "u128_or_0 t = (case parse_unsigned 10 128 t of None \<Rightarrow> 0 | Some n \<Rightarrow> n)"

definition i64_or_0 :: "string \<Rightarrow> int" where
  "i64_or_0 t = (case parse_signed 10 64 t of None \<Rightarrow> 0 | Some i \<Rightarrow> i)"

text \<open>The price with Chainlink's eight decimals.\<close>

definition chainlink_price :: "ext \<Rightarrow> int \<Rightarrow> rat" where
  "chainlink_price x answer = bd_div x (of_int answer) (10 ^ CHAINLINK_DECIMALS)"

definition round_call :: "ext \<Rightarrow> string \<Rightarrow> nat \<Rightarrow> request" where
  "round_call x addr block =
     (''eth_call'',
      JArr [JObj [(''to'', JStr addr), (''data'', JStr (''0x'' @ round_call_hex x))], JStr (hex_0x block)],
      Some (as_i64 (int block)))"

definition slot0_call :: "ext \<Rightarrow> string \<Rightarrow> nat \<Rightarrow> request" where
  "slot0_call x addr block =
     (''eth_call'',
      JArr [JObj [(''to'', JStr addr), (''data'', JStr (''0x'' @ slot0_call_hex x))], JStr (hex_0x block)],
      Some (as_i64 (int block)))"

definition observe_call :: "ext \<Rightarrow> string \<Rightarrow> nat \<Rightarrow> request" where
  "observe_call x addr block =
     (''eth_call'',
      JArr [JObj [(''to'', JStr addr), (''data'', JStr (''0x'' @ observe_call_hex x [TWAP_WINDOW_SECS, 0]))],
            JStr (hex_0x block)],
      Some (as_i64 (int block)))"

section \<open>ETH\<close>

datatype pricing_outcome =
    Priced rat rat json
  | SequencerOutage json
  | MissingOracle json

definition eth_price_row :: "pricing_config \<Rightarrow> nat \<Rightarrow> string \<Rightarrow> int \<Rightarrow> rat \<Rightarrow> decoded_round \<Rightarrow> price_row" where
  "eth_price_row cfg block hash ts price cl =
     \<lparr>p_chain = ARBITRUM_CHAIN_ID, p_asset = ''ETH'', p_quote = ''USD'', p_block = as_i64 (int block),
      p_hash = hash, p_ts = ts, p_price = price, p_source = ''chainlink'', p_pool = None,
      p_oracle = Some (pc_chainlink cfg), p_raw = Some (JObj [(''raw_round'', chainlink_audit cl)])\<rparr>"

definition eth_provenance ::
  "ext \<Rightarrow> pricing_config \<Rightarrow> nat \<Rightarrow> rat \<Rightarrow> rat \<Rightarrow> rat \<Rightarrow> int \<Rightarrow> decoded_round \<Rightarrow> json" where
  "eth_provenance x cfg block amount price usd staleness cl =
     JObj [(''steps'', JArr [JObj [(''asset'', JStr ''ETH''), (''quote'', JStr ''USD''),
              (''price'', JStr (bd_show x price)), (''source'', JStr ''chainlink''),
              (''oracle'', JStr (pc_chainlink cfg)), (''block_number'', JNum (int block)),
              (''raw_round'', chainlink_audit cl)]]),
           (''result'', JObj [(''asset'', JStr ''ETH''), (''quote'', JStr ''USD''),
              (''price'', JStr (bd_show x price)), (''amount_native'', JStr (bd_show x amount)),
              (''amount_usd'', JStr (bd_show x usd))]),
           (''checks'', JObj [(''sequencer_up'', JBool True), (''answered_in_round_ok'', JBool True),
              (''staleness_secs'', JNum staleness),
              (''staleness_warn'', JBool (STALENESS_WARN_SECS < staleness))])]"

definition judge_eth ::
  "ext \<Rightarrow> pricing_config \<Rightarrow> nat \<Rightarrow> string \<Rightarrow> int \<Rightarrow> rat \<Rightarrow> decoded_round option
     \<Rightarrow> decoded_round option \<Rightarrow> string + pricing_outcome \<times> price_row list" where
  "judge_eth x cfg block hash ts amount seq_res cl_res =
     (case seq_res of
        None \<Rightarrow> Inr (MissingOracle (JObj
           [(''reason'', JStr ''L2 sequencer uptime feed not deployed at this block''),
            (''feed'', JStr (pc_sequencer cfg)), (''block'', JNum (int block))]), [])
      | Some seq_round \<Rightarrow>
     if rd_answer seq_round \<noteq> ''0'' then Inr (SequencerOutage (JObj
           [(''feed'', JStr (pc_sequencer cfg)), (''block'', JNum (int block)),
            (''answer'', JStr (rd_answer seq_round)), (''startedAt'', JStr (rd_started_at seq_round)),
            (''note'', JStr (''sequencer answer != 0; per SPEC '' @ SECTION_SIGN
               @ ''7.3.4 do not trust on-chain prices in this period''))]), [])
     else
     (case cl_res of
        None \<Rightarrow> Inr (MissingOracle (JObj
           [(''reason'', JStr ''Chainlink ETH/USD aggregator not deployed at this block''),
            (''oracle'', JStr (pc_chainlink cfg)), (''block'', JNum (int block))]), [])
      | Some cl \<Rightarrow>
     if u128_or_0 (rd_answered_in cl) < u128_or_0 (rd_round_id cl) then Inr (MissingOracle (JObj
           [(''reason'', JStr ''answeredInRound < roundId''), (''roundId'', JStr (rd_round_id cl)),
            (''answeredInRound'', JStr (rd_answered_in cl)), (''block'', JNum (int block))]), [])
     else (let updated = i64_or_0 (rd_updated_at cl); staleness = ts - updated in
     if STALENESS_FAIL_SECS < staleness then Inr (MissingOracle (JObj
           [(''reason'', JStr ''staleness > 24h''), (''staleness_secs'', JNum staleness),
            (''updatedAt'', JNum updated), (''block_ts'', JNum ts), (''block'', JNum (int block))]), [])
     else
     (case parse_signed 10 128 (rd_answer cl) of
        None \<Rightarrow> Inl ''decoding chainlink answer''
      | Some answer \<Rightarrow>
     if answer \<le> 0 then Inr (MissingOracle (JObj
           [(''reason'', JStr ''non-positive answer''), (''answer'', JStr (rd_answer cl))]), [])
     else (let price = chainlink_price x answer; usd = amount * price in
       Inr (Priced price usd (eth_provenance x cfg block amount price usd staleness cl),
            [eth_price_row cfg block hash ts price cl]))))))"

definition price_eth_amount ::
  "ext \<Rightarrow> bool \<Rightarrow> 'n provider \<Rightarrow> pricing_config \<Rightarrow> nat \<Rightarrow> string \<Rightarrow> int \<Rightarrow> rat
     \<Rightarrow> ('n, pricing_outcome \<times> price_row list) db" where
  "price_eth_amount x co archive cfg block hash ts amount =
     andthen (core (batch_call_cached x co archive
        [round_call x (pc_sequencer cfg) block, round_call x (pc_chainlink cfg) block])) (\<lambda>outcomes.
     andthen (of_result (decode_round_outcome x (outcomes ! 0))) (\<lambda>seq_res.
     andthen (of_result (decode_round_outcome x (outcomes ! 1))) (\<lambda>cl_res.
       of_result (judge_eth x cfg block hash ts amount seq_res cl_res))))"

section \<open>Candidates\<close>

record candidate =
  cd_event :: int
  cd_block :: int
  cd_hash :: string
  cd_ts :: int
  cd_asset :: "string option"
  cd_amount :: "rat option"
  cd_finalized_at :: "int option"

definition candidate_of :: "event_row \<Rightarrow> candidate" where
  "candidate_of r = \<lparr>cd_event = e_id r, cd_block = e_block r, cd_hash = e_hash r, cd_ts = e_ts r,
     cd_asset = e_asset r, cd_amount = e_amount r, cd_finalized_at = e_finalized_at r\<rparr>"

text \<open>\<open>LIKE 'failed_%'\<close>: the underscore stands for any one character.\<close>

definition like_failed :: "string \<Rightarrow> bool" where
  "like_failed t \<longleftrightarrow> take 6 t = ''failed'' \<and> 7 \<le> length t"

text \<open>The two anti-joins: no valuation and no failed attempt under one of the versions.\<close>

definition valued :: "'n world \<Rightarrow> string list \<Rightarrow> int \<Rightarrow> string \<Rightarrow> bool" where
  "valued s versions event asset \<longleftrightarrow>
     (\<exists>v\<in>set (w_valuations s). v_event v = event \<and> v_version v \<in> set versions \<and> v_asset v = asset)"

definition failed_before :: "'n world \<Rightarrow> string list \<Rightarrow> int \<Rightarrow> string \<Rightarrow> bool" where
  "failed_before s versions event asset \<longleftrightarrow>
     (\<exists>a\<in>set (w_attempts s). a_event a = event \<and> a_version a \<in> set versions \<and> a_asset a = asset
        \<and> like_failed (a_status a))"

definition unresolved :: "'n world \<Rightarrow> string list \<Rightarrow> int \<Rightarrow> string \<Rightarrow> bool" where
  "unresolved s versions event asset \<longleftrightarrow>
     \<not> valued s versions event asset \<and> \<not> failed_before s versions event asset"

text \<open>\<open>AND r.finality = 'finalized'\<close> and \<open>AND r.finalized_at >= floor\<close>, dropped for tentative runs.\<close>

definition passes_floor :: "bool \<Rightarrow> int \<Rightarrow> event_row \<Rightarrow> bool" where
  "passes_floor include_tentative fl r \<longleftrightarrow>
     include_tentative \<or>
     e_finality r = Finalized \<and> (case e_finalized_at r of None \<Rightarrow> False | Some t \<Rightarrow> fl \<le> t)"

definition asset_candidates ::
  "string \<Rightarrow> string list \<Rightarrow> bool \<Rightarrow> int \<Rightarrow> 'n world \<Rightarrow> event_row list" where
  "asset_candidates asset versions include_tentative fl s =
     sort_key e_block (sort_key e_log (filter (\<lambda>r.
        e_chain r = ARBITRUM_CHAIN_ID \<and> e_valuable r \<and> e_canonical r \<and> e_asset r = Some asset
        \<and> passes_floor include_tentative fl r \<and> unresolved s versions (e_id r) asset) (w_events s)))"

definition fetch_eth_candidates :: "string \<Rightarrow> bool \<Rightarrow> int \<Rightarrow> 'n world \<Rightarrow> candidate list" where
  "fetch_eth_candidates version include_tentative fl s =
     map candidate_of (asset_candidates ''ETH'' [version] include_tentative fl s)"

definition fetch_lpt_candidates :: "string \<Rightarrow> bool \<Rightarrow> int \<Rightarrow> 'n world \<Rightarrow> candidate list" where
  "fetch_lpt_candidates version include_tentative fl s =
     map candidate_of (asset_candidates ''LPT'' [version, degraded_version] include_tentative fl s)"

section \<open>The ETH pass\<close>

record eth_summary =
  es_considered :: nat
  es_priced :: nat
  es_sequencer :: nat
  es_oracle :: nat
  es_skipped :: nat

type_synonym eth_state = "eth_summary \<times> buffers \<times> int option"

definition pin :: "int option \<Rightarrow> int option \<Rightarrow> int option" where
  "pin finalized_at unresolved_min =
     (case finalized_at of None \<Rightarrow> unresolved_min | Some fa \<Rightarrow> min_opt unresolved_min fa)"

text \<open>The \<open>match\<close> on the result of one event.\<close>

definition settle_eth ::
  "string \<Rightarrow> candidate \<Rightarrow> rat \<Rightarrow> string + pricing_outcome \<times> price_row list \<Rightarrow> eth_state \<Rightarrow> eth_state" where
  "settle_eth version ev amount res st =
     (case st of (sm, b, m) \<Rightarrow>
      case res of
        Inr (Priced price usd provenance, prices) \<Rightarrow>
          (sm\<lparr>es_priced := es_priced sm + 1\<rparr>,
           push_priced (priced_row ARBITRUM_CHAIN_ID (cd_event ev) version ''ETH'' PRICING_METHOD_ETH
               SOURCE_ETH (cd_block ev) amount price usd provenance STATUS_PRICED)
             (fold push_price prices b), m)
      | Inr (SequencerOutage detail, _) \<Rightarrow>
          (sm\<lparr>es_sequencer := es_sequencer sm + 1\<rparr>,
           push_failed_outcome (failed_row ARBITRUM_CHAIN_ID (cd_event ev) version ''ETH''
               PRICING_METHOD_ETH SOURCE_ETH (cd_block ev) amount STATUS_FAILED_SEQUENCER_OUTAGE detail) b, m)
      | Inr (MissingOracle detail, _) \<Rightarrow>
          (sm\<lparr>es_oracle := es_oracle sm + 1\<rparr>,
           push_failed_outcome (failed_row ARBITRUM_CHAIN_ID (cd_event ev) version ''ETH''
               PRICING_METHOD_ETH SOURCE_ETH (cd_block ev) amount STATUS_FAILED_MISSING_ORACLE detail) b, m)
      | Inl e \<Rightarrow> (sm\<lparr>es_skipped := es_skipped sm + 1\<rparr>, b, pin (cd_finalized_at ev) m))"

definition eth_step ::
  "ext \<Rightarrow> bool \<Rightarrow> 'n provider \<Rightarrow> pricing_config \<Rightarrow> string \<Rightarrow> candidate \<Rightarrow> eth_state \<Rightarrow> ('n, eth_state) db" where
  "eth_step x co archive cfg version ev st =
     (let (sm, b, m) = st; skip = ret (sm\<lparr>es_skipped := es_skipped sm + 1\<rparr>, b, m);
          asset = (case cd_asset ev of None \<Rightarrow> [] | Some a \<Rightarrow> a) in
      if asset \<noteq> ''ETH'' then skip
      else case cd_amount ev of
        None \<Rightarrow> skip
      | Some amount \<Rightarrow>
          andthen (attempt (price_eth_amount x co archive cfg (as_u64 (cd_block ev)) (cd_hash ev)
                     (cd_ts ev) amount)) (\<lambda>res s.
            let (sm', b', m') = settle_eth version ev amount res st;
                (b'', s') = maybe_flush x b' s
            in (Inr (sm', b'', m'), s')))"

definition run_onchain_pass_eth ::
  "ext \<Rightarrow> bool \<Rightarrow> 'n provider \<Rightarrow> pricing_config \<Rightarrow> string \<Rightarrow> bool \<Rightarrow> ('n, eth_summary) db" where
  "run_onchain_pass_eth x co archive cfg version include_tentative s =
     (let cursor_key = pass_key version ''ETH'';
          fl = scan_floor version cursor_key DEFAULT_LOOKBACK_SECS include_tentative s;
          candidates = fetch_eth_candidates version include_tentative fl s;
          sm = \<lparr>es_considered = length candidates, es_priced = 0, es_sequencer = 0, es_oracle = 0,
                es_skipped = 0\<rparr>
      in andthen (fold_io (eth_step x co archive cfg version) candidates (sm, new_buffers, None))
           (\<lambda>(sm', b, m) s'.
              let (_, s'') = flush x b s';
                  frontier = frontier_for_asset ARBITRUM_CHAIN_ID ''ETH'' s''
              in (Inr sm', advance cursor_key m frontier include_tentative s''))
           s)"

section \<open>LPT\<close>

text \<open>The substring tests run on the lower-cased text of the error.\<close>

definition permanent_lpt_failure_detail :: "string \<Rightarrow> json option" where
  "permanent_lpt_failure_detail e =
     (if str_contains ''execution reverted: old'' (lower e) then
        Some (JObj [(''reason'', JStr ''observe() cannot serve the requested TWAP window at this block''),
                    (''classification'', JStr ''failed_missing_pool''), (''error'', JStr e)])
      else if str_contains ''execution reverted'' (lower e) then
        Some (JObj [(''reason'', JStr ''deterministic eth_call revert while pricing LPT at this finalized block''),
                    (''classification'', JStr ''failed_missing_pool''), (''error'', JStr e)])
      else None)"

datatype lpt_outcome =
    PricedTwap rat rat json string
  | PricedDegraded rat rat json string
  | LptSequencerOutage json
  | LptMissingOracle json
  | MissingPool json

text \<open>What the checks before the choice of the path yield: an outcome, or the inputs of the price.\<close>

record lpt_inputs =
  li_slot0 :: pool_slot0
  li_eth_usd :: rat
  li_staleness :: int
  li_round :: decoded_round

definition lpt_checks ::
  "ext \<Rightarrow> pricing_config \<Rightarrow> nat \<Rightarrow> int \<Rightarrow> decoded_round option \<Rightarrow> pool_slot0 option
     \<Rightarrow> decoded_round option \<Rightarrow> string + (lpt_outcome + lpt_inputs)" where
  "lpt_checks x cfg block ts seq_res slot0_res cl_res =
     (case seq_res of
        None \<Rightarrow> Inr (Inl (LptMissingOracle (JObj
           [(''reason'', JStr ''L2 sequencer uptime feed not deployed at this block''),
            (''feed'', JStr (pc_sequencer cfg)), (''block'', JNum (int block))])))
      | Some seq_round \<Rightarrow>
     if rd_answer seq_round \<noteq> ''0'' then Inr (Inl (LptSequencerOutage (JObj
           [(''feed'', JStr (pc_sequencer cfg)), (''block'', JNum (int block)),
            (''answer'', JStr (rd_answer seq_round)), (''startedAt'', JStr (rd_started_at seq_round))])))
     else
     (case slot0_res of
        None \<Rightarrow> Inr (Inl (MissingPool (JObj
           [(''pool'', JStr (pc_pool cfg)), (''block'', JNum (int block)),
            (''reason'', JStr (''slot0() returned empty bytes '' @ EM_DASH @ '' pool not yet deployed''))])))
      | Some sl \<Rightarrow>
     (case cl_res of
        None \<Rightarrow> Inr (Inl (LptMissingOracle (JObj
           [(''reason'', JStr ''Chainlink ETH/USD aggregator not deployed at this block''),
            (''oracle'', JStr (pc_chainlink cfg)), (''block'', JNum (int block))])))
      | Some cl \<Rightarrow>
     if u128_or_0 (rd_answered_in cl) < u128_or_0 (rd_round_id cl) then Inr (Inl (LptMissingOracle (JObj
           [(''reason'', JStr ''answeredInRound < roundId''), (''roundId'', JStr (rd_round_id cl)),
            (''answeredInRound'', JStr (rd_answered_in cl))])))
     else (let updated = i64_or_0 (rd_updated_at cl); staleness = ts - updated in
     if STALENESS_FAIL_SECS < staleness then Inr (Inl (LptMissingOracle (JObj
           [(''reason'', JStr ''chainlink staleness > 24h''), (''staleness_secs'', JNum staleness),
            (''updatedAt'', JNum updated), (''block_ts'', JNum ts)])))
     else
     (case parse_signed 10 128 (rd_answer cl) of
        None \<Rightarrow> Inl ''decoding chainlink answer''
      | Some answer \<Rightarrow>
     if answer \<le> 0 then Inr (Inl (LptMissingOracle (JObj
           [(''reason'', JStr ''non-positive answer''), (''answer'', JStr (rd_answer cl))])))
     else Inr (Inr \<lparr>li_slot0 = sl, li_eth_usd = chainlink_price x answer, li_staleness = staleness,
                    li_round = cl\<rparr>))))))"

definition lpt_price_row ::
  "nat \<Rightarrow> string \<Rightarrow> int \<Rightarrow> string \<Rightarrow> string \<Rightarrow> rat \<Rightarrow> string \<Rightarrow> string option \<Rightarrow> string option \<Rightarrow> json option
     \<Rightarrow> price_row" where
  "lpt_price_row block hash ts asset quote price source pool oracle raw =
     \<lparr>p_chain = ARBITRUM_CHAIN_ID, p_asset = asset, p_quote = quote, p_block = as_i64 (int block),
      p_hash = hash, p_ts = ts, p_price = price, p_source = source, p_pool = pool,
      p_oracle = oracle, p_raw = raw\<rparr>"

definition weth_step :: "ext \<Rightarrow> pricing_config \<Rightarrow> nat \<Rightarrow> lpt_inputs \<Rightarrow> json" where
  "weth_step x cfg block li =
     JObj [(''asset'', JStr ''WETH''), (''quote'', JStr ''USD''),
           (''price'', JStr (bd_show x (li_eth_usd li))), (''source'', JStr ''chainlink''),
           (''oracle'', JStr (pc_chainlink cfg)), (''block_number'', JNum (int block)),
           (''raw_round'', chainlink_audit (li_round li))]"

definition lpt_result :: "ext \<Rightarrow> rat \<Rightarrow> rat \<Rightarrow> rat \<Rightarrow> json" where
  "lpt_result x amount lpt_usd usd =
     JObj [(''asset'', JStr ''LPT''), (''quote'', JStr ''USD''), (''price'', JStr (bd_show x lpt_usd)),
           (''amount_native'', JStr (bd_show x amount)), (''amount_usd'', JStr (bd_show x usd))]"

definition price_degraded ::
  "ext \<Rightarrow> pricing_config \<Rightarrow> nat \<Rightarrow> string \<Rightarrow> int \<Rightarrow> rat \<Rightarrow> lpt_inputs \<Rightarrow> lpt_outcome \<times> price_row list" where
  "price_degraded x cfg block hash ts amount li =
     (let sqrt_p = word_of_nat (sl_sqrt (li_slot0 li)) :: u256;
          card = int (sl_cardinality (li_slot0 li));
          slot_log = JObj [(''pool'', JStr (pc_pool cfg)), (''block'', JNum (int block)),
             (''sqrtPriceX96'', JStr (show_nat (unat sqrt_p))), (''tick'', JNum (sl_tick (li_slot0 li))),
             (''observationCardinality'', JNum card)];
          per_weth = sqrt_price_x96_to_price (bd_div x) sqrt_p;
          lpt_usd = per_weth * li_eth_usd li;
          usd = amount * lpt_usd;
          provenance = JObj [(''steps'', JArr
              [JObj [(''asset'', JStr ''LPT''), (''quote'', JStr ''WETH''), (''price'', JStr (bd_show x per_weth)),
                     (''source'', JStr ''uniswap_v3_spot''), (''pool'', JStr (pc_pool cfg)),
                     (''block_number'', JNum (int block)), (''raw_slot0'', slot_log),
                     (''note'', JStr (''DEGRADED '' @ EM_DASH @ '' pool cardinality below required 144 (Q-OD-9)''))],
               weth_step x cfg block li]),
            (''result'', lpt_result x amount lpt_usd usd),
            (''checks'', JObj [(''sequencer_up'', JBool True), (''answered_in_round_ok'', JBool True),
               (''staleness_secs'', JNum (li_staleness li)), (''cardinality'', JNum card),
               (''cardinality_required'', JNum (int REQUIRED_CARDINALITY)),
               (''twap_window_secs'', JNum (int TWAP_WINDOW_SECS))])]
      in (PricedDegraded lpt_usd usd provenance degraded_version,
          [lpt_price_row block hash ts ''LPT'' ''USD'' lpt_usd ''uniswap_v3_spot_x_chainlink''
             (Some (pc_pool cfg)) (Some (pc_chainlink cfg)) None,
           lpt_price_row block hash ts ''LPT'' ''WETH'' per_weth ''uniswap_v3_spot''
             (Some (pc_pool cfg)) None None,
           lpt_price_row block hash ts ''ETH'' ''USD'' (li_eth_usd li) ''chainlink_eth_usd''
             None (Some (pc_chainlink cfg)) (Some (chainlink_audit (li_round li)))]))"

definition price_twap ::
  "ext \<Rightarrow> pricing_config \<Rightarrow> nat \<Rightarrow> string \<Rightarrow> int \<Rightarrow> rat \<Rightarrow> lpt_inputs \<Rightarrow> (int \<times> int) option
     \<Rightarrow> string + lpt_outcome \<times> price_row list" where
  "price_twap x cfg block hash ts amount li twap =
     (case twap of
        None \<Rightarrow> Inr (MissingPool (JObj
           [(''pool'', JStr (pc_pool cfg)), (''block'', JNum (int block)),
            (''reason'', JStr (''observe() failed '' @ EM_DASH
               @ '' pool may lack observations spanning the TWAP window''))]), [])
      | Some (cum_then, cum_now) \<Rightarrow>
     (let avg_tick = uniswap_arithmetic_mean_tick (cum_now - cum_then) (int TWAP_WINDOW_SECS) in
      if avg_tick < - (2 ^ 31) \<or> 2 ^ 31 \<le> avg_tick then Inl ''avg_tick out of i32 range''
      else case get_sqrt_ratio_at_tick avg_tick of
        Inl e \<Rightarrow> Inl (tick_msg e)
      | Inr sqrt_p \<Rightarrow>
     (let per_weth = sqrt_price_x96_to_price (bd_div x) sqrt_p;
          lpt_usd = per_weth * li_eth_usd li;
          usd = amount * lpt_usd;
          provenance = JObj [(''steps'', JArr
              [JObj [(''asset'', JStr ''LPT''), (''quote'', JStr ''WETH''), (''price'', JStr (bd_show x per_weth)),
                     (''source'', JStr ''uniswap_v3_twap_30min''), (''pool'', JStr (pc_pool cfg)),
                     (''block_number'', JNum (int block)),
                     (''raw_observe'', JObj
                        [(''secondsAgos'', JArr [JNum (int TWAP_WINDOW_SECS), JNum 0]),
                         (''tickCumulativeThen'', JStr (show_int cum_then)),
                         (''tickCumulativeNow'', JStr (show_int cum_now)),
                         (''delta'', JStr (show_int (cum_now - cum_then))),
                         (''arithmeticMeanTick'', JNum avg_tick),
                         (''sqrtPriceX96'', JStr (show_nat (unat sqrt_p)))])],
               weth_step x cfg block li]),
            (''result'', lpt_result x amount lpt_usd usd),
            (''checks'', JObj [(''sequencer_up'', JBool True), (''answered_in_round_ok'', JBool True),
               (''staleness_secs'', JNum (li_staleness li)),
               (''cardinality'', JNum (int (sl_cardinality (li_slot0 li)))),
               (''twap_window_secs'', JNum (int TWAP_WINDOW_SECS))])]
      in Inr (PricedTwap lpt_usd usd provenance TWAP_VERSION,
          [lpt_price_row block hash ts ''LPT'' ''USD'' lpt_usd ''uniswap_v3_twap_30min_x_chainlink_eth''
             (Some (pc_pool cfg)) (Some (pc_chainlink cfg)) None,
           lpt_price_row block hash ts ''LPT'' ''WETH'' per_weth ''uniswap_v3_twap_30min''
             (Some (pc_pool cfg)) None
             (Some (JObj [(''meanTick'', JNum avg_tick), (''sqrtPriceX96'', JStr (show_nat (unat sqrt_p)))])),
           lpt_price_row block hash ts ''ETH'' ''USD'' (li_eth_usd li) ''chainlink_eth_usd''
             None (Some (pc_chainlink cfg)) (Some (chainlink_audit (li_round li)))]))))"

definition price_lpt_amount ::
  "ext \<Rightarrow> bool \<Rightarrow> 'n provider \<Rightarrow> pricing_config \<Rightarrow> nat \<Rightarrow> string \<Rightarrow> int \<Rightarrow> rat
     \<Rightarrow> ('n, lpt_outcome \<times> price_row list) db" where
  "price_lpt_amount x co archive cfg block hash ts amount =
     andthen (core (batch_call_cached x co archive
        [round_call x (pc_sequencer cfg) block, slot0_call x (pc_pool cfg) block,
         round_call x (pc_chainlink cfg) block])) (\<lambda>outcomes.
     andthen (of_result (decode_round_outcome x (outcomes ! 0))) (\<lambda>seq_res.
     andthen (of_result (decode_slot0_outcome x (outcomes ! 1))) (\<lambda>slot0_res.
     andthen (of_result (decode_round_outcome x (outcomes ! 2))) (\<lambda>cl_res.
     andthen (of_result (lpt_checks x cfg block ts seq_res slot0_res cl_res)) (\<lambda>checked.
       case checked of
         Inl early \<Rightarrow> ret (early, [])
       | Inr li \<Rightarrow>
           if sl_cardinality (li_slot0 li) < REQUIRED_CARDINALITY then
             ret (price_degraded x cfg block hash ts amount li)
           else
             andthen (core (batch_call_cached x co archive [observe_call x (pc_pool cfg) block])) (\<lambda>obs.
             andthen (of_result (decode_observe_outcome x (obs ! 0))) (\<lambda>twap.
               of_result (price_twap x cfg block hash ts amount li twap))))))))"

section \<open>The LPT pass\<close>

record lpt_summary =
  ls_considered :: nat
  ls_twap :: nat
  ls_degraded :: nat
  ls_sequencer :: nat
  ls_oracle :: nat
  ls_pool :: nat
  ls_skipped :: nat

type_synonym lpt_state = "lpt_summary \<times> buffers \<times> int option"
type_synonym job = "candidate \<times> rat"

definition lpt_row :: "candidate \<Rightarrow> rat \<Rightarrow> string \<Rightarrow> string \<Rightarrow> rat \<Rightarrow> rat \<Rightarrow> json \<Rightarrow> valuation_row" where
  "lpt_row ev amount version pmethod price usd provenance =
     priced_row ARBITRUM_CHAIN_ID (cd_event ev) version ''LPT'' pmethod SOURCE_LPT (cd_block ev)
       amount price usd provenance STATUS_PRICED"

definition lpt_failure :: "candidate \<Rightarrow> rat \<Rightarrow> string \<Rightarrow> string \<Rightarrow> json \<Rightarrow> valuation_row" where
  "lpt_failure ev amount version status detail =
     failed_row ARBITRUM_CHAIN_ID (cd_event ev) version ''LPT'' PRICING_METHOD_LPT_TWAP SOURCE_LPT
       (cd_block ev) amount status detail"

text \<open>The \<open>match\<close> on the result of one joined task.\<close>

definition settle_lpt ::
  "string \<Rightarrow> job \<Rightarrow> string + lpt_outcome \<times> price_row list \<Rightarrow> lpt_state \<Rightarrow> lpt_state" where
  "settle_lpt version jb res st =
     (case jb of (ev, amount) \<Rightarrow> case st of (sm, b, m) \<Rightarrow>
      case res of
        Inr (PricedTwap price usd provenance ver, prices) \<Rightarrow>
          (sm\<lparr>ls_twap := ls_twap sm + 1\<rparr>,
           push_priced (lpt_row ev amount ver PRICING_METHOD_LPT_TWAP price usd provenance)
             (fold push_price prices b), m)
      | Inr (PricedDegraded price usd provenance ver, prices) \<Rightarrow>
          (sm\<lparr>ls_degraded := ls_degraded sm + 1\<rparr>,
           push_priced (lpt_row ev amount ver PRICING_METHOD_LPT_SPOT price usd provenance)
             (fold push_price prices b), m)
      | Inr (LptSequencerOutage detail, _) \<Rightarrow>
          (sm\<lparr>ls_sequencer := ls_sequencer sm + 1\<rparr>,
           push_failed_outcome (lpt_failure ev amount version STATUS_FAILED_SEQUENCER_OUTAGE detail) b, m)
      | Inr (LptMissingOracle detail, _) \<Rightarrow>
          (sm\<lparr>ls_oracle := ls_oracle sm + 1\<rparr>,
           push_failed_outcome (lpt_failure ev amount version STATUS_FAILED_MISSING_ORACLE detail) b, m)
      | Inr (MissingPool detail, _) \<Rightarrow>
          (sm\<lparr>ls_pool := ls_pool sm + 1\<rparr>,
           push_failed_outcome (lpt_failure ev amount version STATUS_FAILED_MISSING_POOL detail) b, m)
      | Inl e \<Rightarrow>
          (case permanent_lpt_failure_detail e of
             Some detail \<Rightarrow>
               (sm\<lparr>ls_pool := ls_pool sm + 1\<rparr>,
                push_failed_outcome (lpt_failure ev amount version STATUS_FAILED_MISSING_POOL detail) b, m)
           | None \<Rightarrow> (sm\<lparr>ls_skipped := ls_skipped sm + 1\<rparr>, b, pin (cd_finalized_at ev) m)))"

text \<open>\<open>try_spawn\<close>: the next candidate with an amount becomes a task, the ones before it are skipped.\<close>

fun try_spawn :: "job list \<Rightarrow> candidate list \<Rightarrow> lpt_summary \<Rightarrow> job list \<times> candidate list \<times> lpt_summary" where
  "try_spawn running [] sm = (running, [], sm)"
| "try_spawn running (ev # rest) sm =
     (let asset = (case cd_asset ev of None \<Rightarrow> [] | Some a \<Rightarrow> a) in
      if asset \<noteq> ''LPT'' then try_spawn running rest (sm\<lparr>ls_skipped := ls_skipped sm + 1\<rparr>)
      else case cd_amount ev of
        None \<Rightarrow> try_spawn running rest (sm\<lparr>ls_skipped := ls_skipped sm + 1\<rparr>)
      | Some amount \<Rightarrow> (running @ [(ev, amount)], rest, sm))"

fun spawn_times :: "nat \<Rightarrow> job list \<Rightarrow> candidate list \<Rightarrow> lpt_summary \<Rightarrow> job list \<times> candidate list \<times> lpt_summary" where
  "spawn_times 0 running waiting sm = (running, waiting, sm)"
| "spawn_times (Suc n) running waiting sm =
     (case try_spawn running waiting sm of (running', waiting', sm') \<Rightarrow>
        spawn_times n running' waiting' sm')"

definition price_job ::
  "ext \<Rightarrow> bool \<Rightarrow> 'n provider \<Rightarrow> pricing_config \<Rightarrow> job \<Rightarrow> ('n, lpt_outcome \<times> price_row list) db" where
  "price_job x co archive cfg jb =
     (case jb of (ev, amount) \<Rightarrow>
        price_lpt_amount x co archive cfg (as_u64 (cd_block ev)) (cd_hash ev) (cd_ts ev) amount)"

text \<open>Which of the running tasks completes next: an index taken from the schedule.\<close>

definition pick :: "nat list \<Rightarrow> 'a list \<Rightarrow> nat" where
  "pick sched running = (case sched of [] \<Rightarrow> 0 | i # _ \<Rightarrow> i mod length running)"

lemma try_spawn_size:
  "try_spawn running waiting sm = (running', waiting', sm') \<Longrightarrow>
     length running' + length waiting' \<le> length running + length waiting"
  by (induction running waiting sm rule: try_spawn.induct)
    (auto simp: Let_def split: if_splits option.splits)

lemma pick_less: "running \<noteq> [] \<Longrightarrow> pick sched running < length running"
  by (auto simp: pick_def split: list.splits)

function lpt_loop ::
  "ext \<Rightarrow> bool \<Rightarrow> 'n provider \<Rightarrow> pricing_config \<Rightarrow> string \<Rightarrow> nat list \<Rightarrow> job list \<Rightarrow> candidate list
     \<Rightarrow> lpt_state \<Rightarrow> 'n world \<Rightarrow> lpt_state \<times> 'n world" where
  "lpt_loop x co archive cfg version sched running waiting st s =
     (if running = [] then (st, s)
      else let i = pick sched running;
               (res, s1) = price_job x co archive cfg (running ! i) s;
               (sm, b, m) = settle_lpt version (running ! i) res st;
               (b', s2) = maybe_flush x b s1;
               (running', waiting', sm') =
                 try_spawn (take i running @ drop (Suc i) running) waiting sm
           in lpt_loop x co archive cfg version (tl sched) running' waiting' (sm', b', m) s2)"
  by pat_completeness auto
termination
proof (relation "measure (\<lambda>(x, co, archive, cfg, version, sched, running, waiting, st, s).
        length running + length waiting)", goal_cases)
  case 1
  then show ?case by simp
next
  case (2 x co archive cfg version sched running waiting st s i a res s1 b sm c bb m d b' s2 e running' f waiting' sm')
  have i: "i < length running" using 2(1,2) pick_less by blast
  have "length running' + length waiting' \<le> length (take i running @ drop (Suc i) running) + length waiting"
    by (rule try_spawn_size [of _ _ sm _ _ sm']) (use 2 in simp)
  then show ?case using i by simp
qed

declare lpt_loop.simps [simp del]

definition run_onchain_pass_lpt ::
  "ext \<Rightarrow> bool \<Rightarrow> 'n provider \<Rightarrow> pricing_config \<Rightarrow> string \<Rightarrow> bool \<Rightarrow> nat list \<Rightarrow> ('n, lpt_summary) db" where
  "run_onchain_pass_lpt x co archive cfg version include_tentative sched s =
     (let cursor_key = pass_key version ''LPT'';
          fl = scan_floor version cursor_key DEFAULT_LOOKBACK_SECS include_tentative s;
          candidates = fetch_lpt_candidates version include_tentative fl s;
          sm = \<lparr>ls_considered = length candidates, ls_twap = 0, ls_degraded = 0, ls_sequencer = 0,
                ls_oracle = 0, ls_pool = 0, ls_skipped = 0\<rparr>;
          (running, waiting, sm0) = spawn_times CONCURRENCY [] candidates sm;
          ((sm', b, m), s') =
            lpt_loop x co archive cfg version sched running waiting (sm0, new_buffers, None) s;
          (_, s'') = flush x b s';
          frontier = frontier_for_asset ARBITRUM_CHAIN_ID ''LPT'' s''
      in (Inr sm', advance cursor_key m frontier include_tentative s''))"

end
