(* ===== verification/Valuator_Facts.thy ===== *)
theory Valuator_Facts
  imports Onchain
begin

text \<open>
  What the valuator's store does: the buffered writes land as the same rows the direct writes
  would give, attempts are numbered without gaps, the determinism guard, and the contract of
  an incremental pass with its cursor.
\<close>

section \<open>Buffered writes\<close>

lemma price_key_stored [simp]: "price_key (stored_price x r) = price_key r"
  by (simp add: price_key_def stored_price_def)

lemma flush_valuations_fold: "flush_valuations x rows t = fold (put_valuation x) rows t"
  unfolding flush_valuations_def by (rule fold_chunks) (simp add: FLUSH_THRESHOLD_def)

lemma flush_prices_fold: "flush_prices x rows t = fold (put_price x) rows t"
  unfolding flush_prices_def by (rule fold_chunks) (simp add: FLUSH_THRESHOLD_def)

text \<open>The tables as they will be once the buffers are drained.\<close>

definition landed :: "ext \<Rightarrow> buffers \<Rightarrow> 'n world \<Rightarrow> valuation_row list" where
  "landed x b s = fold (put_valuation x) (bf_valuations b) (w_valuations s)"

definition landed_prices :: "ext \<Rightarrow> buffers \<Rightarrow> 'n world \<Rightarrow> price_row list" where
  "landed_prices x b s = fold (put_price x) (bf_prices b) (w_prices s)"

lemma landed_new [simp]: "landed x new_buffers s = w_valuations s"
    "landed_prices x new_buffers s = w_prices s"
  by (simp_all add: landed_def landed_prices_def new_buffers_def)

lemma flush_lands [simp]:
  "fst (flush x b s) = new_buffers"
  "w_valuations (snd (flush x b s)) = landed x b s"
  "w_prices (snd (flush x b s)) = landed_prices x b s"
  "w_attempts (snd (flush x b s)) = flush_attempts x (bf_attempts b) (w_attempts s)"
  "w_events (snd (flush x b s)) = w_events s"
  "w_cursors (snd (flush x b s)) = w_cursors s"
  "w_cache (snd (flush x b s)) = w_cache s"
  by (simp_all add: flush_def landed_def landed_prices_def flush_valuations_fold flush_prices_fold)

lemma landed_flush [simp]:
  "landed x (fst (flush x b s)) (snd (flush x b s)) = landed x b s"
  "landed_prices x (fst (flush x b s)) (snd (flush x b s)) = landed_prices x b s"
  by simp_all

lemma maybe_flush_lands [simp]:
  "landed x (fst (maybe_flush x b s)) (snd (maybe_flush x b s)) = landed x b s"
  "landed_prices x (fst (maybe_flush x b s)) (snd (maybe_flush x b s)) = landed_prices x b s"
  "w_events (snd (maybe_flush x b s)) = w_events s"
  "w_cursors (snd (maybe_flush x b s)) = w_cursors s"
  "w_cache (snd (maybe_flush x b s)) = w_cache s"
  unfolding maybe_flush_def by simp_all

lemma landed_tables: "w_valuations s' = w_valuations s \<Longrightarrow> landed x b s' = landed x b s"
    "w_prices s' = w_prices s \<Longrightarrow> landed_prices x b s' = landed_prices x b s"
  by (simp_all add: landed_def landed_prices_def)

lemma landed_push_price [simp]: "landed x (fold push_price ps b) s = landed x b s"
  by (induction ps arbitrary: b) (auto simp: landed_def push_price_def)

lemma landed_push [simp]:
  "landed x (push_priced v b) s = put_valuation x v (landed x b s)"
  "landed x (push_failed_outcome v b) s = put_valuation x v (landed x b s)"
  by (simp_all add: landed_def push_priced_def push_failed_outcome_def)

section \<open>Attempt numbers\<close>

lemma max_attempt_Nil: "filter (\<lambda>a. attempt_group a = k) t = [] \<Longrightarrow> max_attempt t k = 0"
  by (simp add: max_attempt_def sql_max_def)

lemma max_attempt_ge: "a \<in> set t \<Longrightarrow> attempt_group a = k \<Longrightarrow> a_number a \<le> max_attempt t k"
  by (auto simp: max_attempt_def sql_max_def filter_empty_conv intro!: Max_ge)

lemma attempt_group_numbered [simp]: "attempt_group (numbered i n) = input_key i"
  by (simp add: attempt_group_def numbered_def input_key_def)

lemma a_number_numbered [simp]: "a_number (numbered i n) = n"
  by (simp add: numbered_def)

lemma attempt_key_split: "attempt_key a = attempt_key b \<longleftrightarrow>
    attempt_group a = attempt_group b \<and> a_number a = a_number b"
  by (auto simp: attempt_key_def attempt_group_def)

lemma fresh_attempt:
  "find_row attempt_key t (attempt_key (numbered i (max_attempt t (input_key i) + 1))) = None"
  unfolding find_row_None_iff
  by (auto simp: attempt_key_split dest!: max_attempt_ge)

lemma insert_attempt_append:
  "insert_attempt i t = t @ [numbered i (max_attempt t (input_key i) + 1)]"
  by (simp add: insert_attempt_def ins_nothing_def fresh_attempt)

lemma max_attempt_insert:
  "max_attempt (insert_attempt i t) k =
     (if input_key i = k then max_attempt t k + 1 else max_attempt t k)"
proof (cases "input_key i = k")
  case False
  then show ?thesis by (simp add: insert_attempt_append max_attempt_def)
next
  case True
  show ?thesis
  proof (cases "filter (\<lambda>a. attempt_group a = k) t = []")
    case e: True
    then show ?thesis using True max_attempt_Nil [OF e]
      by (simp add: insert_attempt_append max_attempt_def [of "t @ _"] sql_max_def)
  next
    case False
    have "Max (set (map a_number (filter (\<lambda>a. attempt_group a = k) t))) = max_attempt t k"
      using False by (simp add: max_attempt_def sql_max_def)
    moreover have "finite (a_number ` {a \<in> set t. attempt_group a = k})" "a_number ` {a \<in> set t. attempt_group a = k} \<noteq> {}"
      using False by (auto simp: filter_empty_conv)
    ultimately show ?thesis using True False
      by (simp add: insert_attempt_append max_attempt_def [of "t @ _"] sql_max_def)
  qed
qed

lemma row_numbers_stepwise:
  assumes "\<And>k. max_attempt t k = max_attempt t0 k + int (length (filter (\<lambda>q. input_key q = k) seen))"
  shows "fold (ins_nothing attempt_key) (map (next_n t0) (row_numbers seen rs)) t = fold insert_attempt rs t"
  using assms
proof (induction rs arbitrary: seen t)
  case Nil
  then show ?case by simp
next
  case (Cons r rs)
  have "next_n t0 (r, Suc (length (filter (\<lambda>q. input_key q = input_key r) seen)))
      = numbered r (max_attempt t (input_key r) + 1)"
    using Cons.prems [of "input_key r"] by (simp add: next_n_def add_ac)
  moreover have "fold (ins_nothing attempt_key) (map (next_n t0) (row_numbers (r # seen) rs))
      (insert_attempt r t) = fold insert_attempt rs (insert_attempt r t)"
    by (rule Cons.IH) (simp add: max_attempt_insert Cons.prems)
  ultimately show ?case
    by (simp only: row_numbers.simps list.map fold_simps insert_attempt_def [of r t, symmetric])
qed

lemma insert_attempts_one_by_one:
  "insert_attempts x rows t = fold insert_attempt (attempt_order x rows) t"
  unfolding insert_attempts_def by (rule row_numbers_stepwise) simp

lemma flush_attempts_one_by_one:
  "flush_attempts x rows t =
     fold insert_attempt (concat (map (attempt_order x) (chunks FLUSH_THRESHOLD rows))) t"
proof -
  have "fold (insert_attempts x) cs t = fold insert_attempt (concat (map (attempt_order x) cs)) t" for cs
    by (induction cs arbitrary: t) (auto simp: insert_attempts_one_by_one)
  then show ?thesis by (simp add: flush_attempts_def)
qed

lemma mset_attempt_order: "mset (attempt_order x rows) = mset rows"
  by (simp add: attempt_order_def)

lemma mset_concat_orders: "mset (concat (map (attempt_order x) cs)) = mset (concat cs)"
  by (induction cs) (simp_all add: mset_attempt_order)

text \<open>The attempts of every event, version and asset are numbered from 1 without a gap.\<close>

definition attempts_dense :: "attempt_row list \<Rightarrow> bool" where
  "attempts_dense t \<longleftrightarrow>
     (\<forall>k. map a_number (filter (\<lambda>a. attempt_group a = k) t)
          = map int [1..<Suc (length (filter (\<lambda>a. attempt_group a = k) t))])"

lemma attempts_dense_max:
  assumes "attempts_dense t"
  shows "max_attempt t k = int (length (filter (\<lambda>a. attempt_group a = k) t))"
proof (cases "filter (\<lambda>a. attempt_group a = k) t = []")
  case True
  then show ?thesis by (simp add: max_attempt_Nil)
next
  case False
  let ?n = "length (filter (\<lambda>a. attempt_group a = k) t)"
  have "map a_number (filter (\<lambda>a. attempt_group a = k) t) = map int [1..<Suc ?n]"
    using assms unfolding attempts_dense_def by (rule spec)
  then have "set (map a_number (filter (\<lambda>a. attempt_group a = k) t)) = int ` set [1..<Suc ?n]"
    by (simp only: set_map)
  then have "set (map a_number (filter (\<lambda>a. attempt_group a = k) t)) = int ` {1..?n}"
    by (simp only: set_upt atLeastLessThanSuc_atLeastAtMost)
  moreover have "Max (int ` {1..?n}) = int ?n"
    using False by (intro Max_eqI) (auto simp: Suc_le_eq)
  ultimately show ?thesis using False by (simp add: max_attempt_def sql_max_def)
qed

lemma attempts_dense_insert:
  assumes "attempts_dense t"
  shows "attempts_dense (insert_attempt i t)"
  using assms attempts_dense_max [OF assms]
  by (simp add: attempts_dense_def insert_attempt_append)

lemma attempts_dense_fold: "attempts_dense t \<Longrightarrow> attempts_dense (fold insert_attempt rows t)"
  by (induction rows arbitrary: t) (auto simp: attempts_dense_insert)

lemma fold_insert_attempt_append:
  "\<exists>new. fold insert_attempt rows t = t @ new \<and>
     map (\<lambda>a. (attempt_group a, a_status a, a_detail a)) new
       = map (\<lambda>i. (input_key i, i_status i, i_detail i)) rows"
proof (induction rows arbitrary: t)
  case Nil
  then show ?case by simp
next
  case (Cons r rows)
  obtain new where n: "fold insert_attempt rows (insert_attempt r t) = insert_attempt r t @ new"
      "map (\<lambda>a. (attempt_group a, a_status a, a_detail a)) new
        = map (\<lambda>i. (input_key i, i_status i, i_detail i)) rows"
    using Cons by blast
  let ?a = "numbered r (max_attempt t (input_key r) + 1)"
  have a: "attempt_group ?a = input_key r" "a_status ?a = i_status r" "a_detail ?a = i_detail r"
    by simp (simp_all add: numbered_def)
  show ?case
    by (rule exI [of _ "?a # new"]) (use n in \<open>simp add: a insert_attempt_append [of r t]\<close>)
qed


definition sample_attempt :: attempt_input where
  "sample_attempt = \<lparr>i_event = 5, i_version = ''v'', i_asset = ''ETH'', i_status = ''priced'',
     i_detail = None\<rparr>"



section \<open>The determinism guard\<close>

lemma diff_null:
  "diff x stored new = JNull \<longleftrightarrow>
     v_method stored = v_method new \<and> v_source stored = v_source new \<and> v_status stored = v_status new
     \<and> v_amount stored = v_amount new \<and> v_price stored = v_price new \<and> v_usd stored = v_usd new"
  by (simp add: diff_def changed_def Let_def)

lemma guard_first:
  assumes "insert_valuation_checked x r s = (Inserted, s')"
  shows "find_row valuation_key (w_valuations s') (valuation_key r)
      = Some (stored_valuation x (r\<lparr>v_chain := ARBITRUM_CHAIN_ID\<rparr>))"
proof -
  have k: "valuation_key (r\<lparr>v_chain := ARBITRUM_CHAIN_ID\<rparr>) = valuation_key r"
    by (simp add: valuation_key_def)
  have "find_row valuation_key (w_valuations s) (valuation_key r) = None"
    "w_valuations s' = put_valuation x (r\<lparr>v_chain := ARBITRUM_CHAIN_ID\<rparr>) (w_valuations s)"
    using assms by (auto simp: insert_valuation_checked_def insert_valuation_def Let_def
        split: option.splits if_splits)
  then show ?thesis using k by (simp add: put_valuation_find)
qed

text \<open>
  The determinism guard stores a first computation; repeating the same computation is
  reported as idempotent exactly when the three decimals survive the rounding of
  \<open>NUMERIC(38,18)\<close> columns, and otherwise as a violation that adds one attempt; in no case
  does the second call change the stored valuations.
\<close>

theorem guard_repeated:
  assumes "insert_valuation_checked x r s = (Inserted, s')"
  shows "w_valuations (snd (insert_valuation_checked x r s')) = w_valuations s' \<and>
    (fst (insert_valuation_checked x r s') = Idempotent \<longleftrightarrow>
       numeric18 x (v_amount r) = v_amount r \<and> map_option (numeric18 x) (v_price r) = v_price r
       \<and> map_option (numeric18 x) (v_usd r) = v_usd r) \<and>
    (fst (insert_valuation_checked x r s') \<noteq> Idempotent \<longrightarrow>
       length (w_attempts (snd (insert_valuation_checked x r s'))) = Suc (length (w_attempts s')))"
  using guard_first [OF assms]
  by (auto simp: insert_valuation_checked_def Let_def diff_null stored_valuation_def
      insert_attempt_append)

definition sample_valuation :: valuation_row where
  "sample_valuation = priced_row 42161 5 ''v'' ''ETH'' ''m'' ''c'' 7 (3 / 2) 2 3 JNull STATUS_PRICED"

lemma guard_repeated_witness:
  "insert_valuation_checked sample_ext sample_valuation (empty_world ())
     = (Inserted, snd (insert_valuation_checked sample_ext sample_valuation (empty_world ()))) \<and>
   fst (insert_valuation_checked sample_ext sample_valuation
     (snd (insert_valuation_checked sample_ext sample_valuation (empty_world ())))) = Idempotent"
proof -
  let ?s = "snd (insert_valuation_checked sample_ext sample_valuation (empty_world ()))"
  have "insert_valuation_checked sample_ext sample_valuation (empty_world ()) = (Inserted, ?s)"
    by (simp add: insert_valuation_checked_def empty_world_def Let_def)
  note guard_repeated [OF this]
  moreover have "numeric18 sample_ext q = q" for q
    by (simp add: sample_ext_def)
  ultimately show ?thesis
    by (simp add: insert_valuation_checked_def empty_world_def Let_def sample_valuation_def priced_row_def)
qed

section \<open>The contract of an incremental pass\<close>

text \<open>
  What every valuator pass promises its caller about the rows it is responsible for: the rows
  stay, settled rows stay settled, and every finalized row the scan reaches is settled by the
  pass or kept at or above the new watermark. The rule \<open>caught_up\<close> that no unsettled row lies
  below the part the next scan reads then holds forever.
\<close>

definition caught_up ::
  "string \<Rightarrow> (event_row \<Rightarrow> bool) \<Rightarrow> ('n world \<Rightarrow> event_row \<Rightarrow> bool) \<Rightarrow> 'n world \<Rightarrow> bool" where
  "caught_up key wants settled s \<longleftrightarrow>
     (\<forall>r\<in>set (w_events s). wants r \<longrightarrow> \<not> settled s r \<longrightarrow>
        (\<exists>t\<ge>0. e_finalized_at r = Some t \<and>
           (\<forall>wm. stored_watermark s key = Some wm \<longrightarrow> wm - DEFAULT_LOOKBACK_SECS \<le> t)))"

locale incremental_pass =
  fixes pass :: "'n world \<Rightarrow> 'n world"
    and version :: string
    and key :: string
    and wants :: "event_row \<Rightarrow> bool"
    and settled :: "'n world \<Rightarrow> event_row \<Rightarrow> bool"
  assumes keeps_events: "w_events (pass s) = w_events s"
    and stays_settled: "settled s r \<Longrightarrow> settled (pass s) r"
    and visits: "r \<in> set (w_events s) \<Longrightarrow> wants r \<Longrightarrow> e_finalized_at r = Some t \<Longrightarrow>
      scan_floor version key DEFAULT_LOOKBACK_SECS False s \<le> t \<Longrightarrow> \<not> settled (pass s) r \<Longrightarrow>
      stored_watermark (pass s) key = Some wm \<Longrightarrow> wm \<le> t"
begin

lemma reached:
  assumes "caught_up key wants settled s" "r \<in> set (w_events s)" "wants r" "\<not> settled s r"
  shows "\<exists>t\<ge>0. e_finalized_at r = Some t \<and> scan_floor version key DEFAULT_LOOKBACK_SECS False s \<le> t"
  using assms by (force simp: caught_up_def scan_floor_def epoch_def split: option.splits)

lemma pass_catches_up:
  assumes "caught_up key wants settled s"
  shows "caught_up key wants settled (pass s)"
  unfolding caught_up_def
proof (intro ballI impI)
  fix r assume r: "r \<in> set (w_events (pass s))" "wants r" "\<not> settled (pass s) r"
  then have "r \<in> set (w_events s)" "\<not> settled s r"
    using keeps_events stays_settled by auto
  then obtain t where t: "0 \<le> t" "e_finalized_at r = Some t"
      "scan_floor version key DEFAULT_LOOKBACK_SECS False s \<le> t"
    using reached [OF assms] r(2) by blast
  have "wm - DEFAULT_LOOKBACK_SECS \<le> t" if "stored_watermark (pass s) key = Some wm" for wm
    using visits [OF \<open>r \<in> set (w_events s)\<close> r(2) t(2,3) r(3) that] by (simp add: DEFAULT_LOOKBACK_SECS_def)
  then show "\<exists>t\<ge>0. e_finalized_at r = Some t \<and>
      (\<forall>wm. stored_watermark (pass s) key = Some wm \<longrightarrow> wm - DEFAULT_LOOKBACK_SECS \<le> t)"
    using t by blast
qed

lemma passes_catch_up:
  "caught_up key wants settled s \<Longrightarrow> caught_up key wants settled ((pass ^^ n) s)"
  by (induction n) (auto intro: pass_catches_up)

end

section \<open>The cursor\<close>

lemma stored_watermark_advance:
  "stored_watermark (advance key m f False s) k =
     (case f of None \<Rightarrow> stored_watermark s k
      | Some fr \<Rightarrow> if k = key then Some (next_watermark m fr) else stored_watermark s k)"
  by (auto simp: advance_def stored_watermark_def find_row_upsert split: option.splits)

lemma advance_frame [simp]:
  "w_events (advance key m f inc s) = w_events s"
  "w_valuations (advance key m f inc s) = w_valuations s"
  "w_attempts (advance key m f inc s) = w_attempts s"
  "w_prices (advance key m f inc s) = w_prices s"
  "w_cache (advance key m f inc s) = w_cache s"
  by (simp_all add: advance_def split: option.splits)

lemma sql_max_ge: "y \<in> set ys \<Longrightarrow> \<exists>f. sql_max ys = Some f \<and> y \<le> f"
  by (auto simp: sql_max_def)

lemma next_watermark_le: "next_watermark m f \<le> f" "m = Some a \<Longrightarrow> next_watermark m f \<le> a"
  by (auto simp: next_watermark_def split: option.splits)

end
