(* ===== verification/Valuator_Passes.thy ===== *)
theory Valuator_Passes
  imports Valuator_Facts Cache_Replay
begin

text \<open>
  The ETH and LPT passes of the valuator: what one priced event adds, that no finalized event
  is ever lost behind the cursor, and that the passes replay from the cache.
\<close>

section \<open>Pricing only reads\<close>

lemma only_reads_price_eth [intro, simp]: "only_reads (price_eth_amount x co p cfg block hash ts amount)"
  by (auto simp: price_eth_amount_def)

lemma only_reads_price_lpt [intro, simp]: "only_reads (price_lpt_amount x co p cfg block hash ts amount)"
proof -
  have "only_reads (case checked of Inl early \<Rightarrow> ret (early, [])
      | Inr li \<Rightarrow> if sl_cardinality (li_slot0 li) < REQUIRED_CARDINALITY
          then ret (price_degraded x cfg block hash ts amount li)
          else andthen (core (batch_call_cached x co p [observe_call x (pc_pool cfg) block])) (\<lambda>obs.
            andthen (of_result (decode_observe_outcome x (obs ! 0))) (\<lambda>twap.
              of_result (price_twap x cfg block hash ts amount li twap))))" for checked
    by (auto split: sum.split)
  then show ?thesis unfolding price_lpt_amount_def
    by (intro only_reads_andthen only_reads_core only_reads_batch only_reads_of_result)
qed

text \<open>The oracle addresses are different contracts, so the batched requests have different keys.\<close>

definition distinct_reads :: "ext \<Rightarrow> pricing_config \<Rightarrow> bool" where
  "distinct_reads x cfg \<longleftrightarrow> (\<forall>block. distinct (map (request_hash x)
     [round_call x (pc_sequencer cfg) block, slot0_call x (pc_pool cfg) block,
      round_call x (pc_chainlink cfg) block]))"

lemma decode_round_needs: "decode_round_outcome x r = Inr v \<Longrightarrow> \<exists>oc. r = Inr oc"
  by (auto simp: decode_round_outcome_def split: sum.splits)

lemma decode_slot0_needs: "decode_slot0_outcome x r = Inr v \<Longrightarrow> \<exists>oc. r = Inr oc"
  by (auto simp: decode_slot0_outcome_def split: sum.splits)

lemma decode_observe_needs: "decode_observe_outcome x r = Inr v \<Longrightarrow> \<exists>oc. r = Inr oc"
  by (auto simp: decode_observe_outcome_def split: sum.splits)

lemma of_result_Inr: "of_result r s = (Inr v, t) \<longleftrightarrow> r = Inr v \<and> t = s"
  by (auto simp: of_result_def)

lemma replays_price_eth:
  assumes "distinct_reads x cfg"
  shows "replays (price_eth_amount x co p cfg block hash ts amount)
    (price_eth_amount x co' q cfg block hash ts amount)"
  unfolding price_eth_amount_def
proof (rule replays_batch)
  show "distinct (map (request_hash x)
      [round_call x (pc_sequencer cfg) block, round_call x (pc_chainlink cfg) block])"
    using assms by (auto simp: distinct_reads_def)
  show "\<exists>oc. outs ! i = Inr oc"
    if "andthen (of_result (decode_round_outcome x (outs ! 0))) (\<lambda>seq_res.
          andthen (of_result (decode_round_outcome x (outs ! 1))) (\<lambda>cl_res.
            of_result (judge_eth x cfg block hash ts amount seq_res cl_res))) t = (Inr v, t')" "i < 2"
    for outs t v t' i
    using that by (auto simp: andthen_Inr_iff of_result_Inr less_2_cases_iff dest: decode_round_needs)
qed (auto intro!: replays_andthen)

lemma replays_price_lpt:
  assumes "distinct_reads x cfg"
  shows "replays (price_lpt_amount x co p cfg block hash ts amount)
    (price_lpt_amount x co' q cfg block hash ts amount)"
  unfolding price_lpt_amount_def
proof (rule replays_batch [where n = 3], goal_cases)
  case 1
  then show ?case using assms unfolding distinct_reads_def by blast
next
  case 2
  then show ?case by simp
next
  case (3 outs)
  have obs: "replays
      (andthen (core (batch_call_cached x co p [observe_call x (pc_pool cfg) block])) (\<lambda>obs.
         andthen (of_result (decode_observe_outcome x (obs ! 0))) (\<lambda>twap.
           of_result (price_twap x cfg block hash ts amount li twap))))
      (andthen (core (batch_call_cached x co' q [observe_call x (pc_pool cfg) block])) (\<lambda>obs.
         andthen (of_result (decode_observe_outcome x (obs ! 0))) (\<lambda>twap.
           of_result (price_twap x cfg block hash ts amount li twap))))" for li
    by (rule replays_batch [where n = 1])
      (auto simp: andthen_Inr_iff of_result_Inr dest: decode_observe_needs intro!: replays_andthen)
  show ?case by (intro replays_andthen replays_of_result) (simp add: obs split: sum.splits)
next
  case (4 outs t v t' i)
  then have "i = 0 \<or> i = 1 \<or> i = 2" by auto
  with 4 show ?case
    by (auto simp: andthen_Inr_iff of_result_Inr dest: decode_round_needs decode_slot0_needs)
qed

section \<open>Traces\<close>

text \<open>
  A pass is described by its trace: the priced jobs in the order they were settled, each with
  the result of its pricing.
\<close>

type_synonym 'o trace = "(job \<times> (string + 'o \<times> price_row list)) list"

definition job_of :: "string \<Rightarrow> candidate \<Rightarrow> job option" where
  "job_of asset ev = (if cd_asset ev = Some asset then map_option (\<lambda>a. (ev, a)) (cd_amount ev) else None)"

definition jobs :: "string \<Rightarrow> candidate list \<Rightarrow> job list" where
  "jobs asset = List.map_filter (job_of asset)"

lemma jobs_simps [simp]:
  "jobs asset [] = []"
  "jobs asset (ev # evs) = (case job_of asset ev of None \<Rightarrow> jobs asset evs | Some j \<Rightarrow> j # jobs asset evs)"
  by (simp_all add: jobs_def map_filter_simps split: option.split)

definition eth_row :: "string \<Rightarrow> job \<Rightarrow> pricing_outcome \<Rightarrow> valuation_row" where
  "eth_row version j oc = (case j of (ev, amount) \<Rightarrow> case oc of
       Priced price usd prov \<Rightarrow> priced_row ARBITRUM_CHAIN_ID (cd_event ev) version ''ETH''
         PRICING_METHOD_ETH SOURCE_ETH (cd_block ev) amount price usd prov STATUS_PRICED
     | SequencerOutage d \<Rightarrow> failed_row ARBITRUM_CHAIN_ID (cd_event ev) version ''ETH''
         PRICING_METHOD_ETH SOURCE_ETH (cd_block ev) amount STATUS_FAILED_SEQUENCER_OUTAGE d
     | MissingOracle d \<Rightarrow> failed_row ARBITRUM_CHAIN_ID (cd_event ev) version ''ETH''
         PRICING_METHOD_ETH SOURCE_ETH (cd_block ev) amount STATUS_FAILED_MISSING_ORACLE d)"

text \<open>The rows a trace adds, and the bound it pins the cursor at.\<close>

definition trace_rows :: "(job \<Rightarrow> string + 'o \<times> price_row list \<Rightarrow> valuation_row option) \<Rightarrow> 'o trace \<Rightarrow> valuation_row list" where
  "trace_rows row = List.map_filter (\<lambda>(j, res). row j res)"

definition trace_pins :: "(job \<Rightarrow> string + 'o \<times> price_row list \<Rightarrow> valuation_row option) \<Rightarrow> 'o trace \<Rightarrow> int option \<Rightarrow> int option" where
  "trace_pins row = fold (\<lambda>(j, res) m. if row j res = None then pin (cd_finalized_at (fst j)) m else m)"

lemma trace_simps [simp]:
  "trace_rows row [] = []"
  "trace_rows row ((j, res) # tr) =
     (case row j res of None \<Rightarrow> trace_rows row tr | Some v \<Rightarrow> v # trace_rows row tr)"
  "trace_pins row [] m = m"
  "trace_pins row ((j, res) # tr) m =
     trace_pins row tr (if row j res = None then pin (cd_finalized_at (fst j)) m else m)"
  by (simp_all add: trace_rows_def trace_pins_def map_filter_simps split: option.split)

lemma pin_le: "pin f m = Some a \<Longrightarrow> (\<forall>t. f = Some t \<longrightarrow> a \<le> t) \<and> (\<forall>c. m = Some c \<longrightarrow> a \<le> c)"
  by (auto simp: pin_def min_opt_def split: option.splits)

lemma pin_Some: "m = Some c \<or> f = Some t \<Longrightarrow> pin f m \<noteq> None"
  by (auto simp: pin_def min_opt_def split: option.splits)

lemma trace_pins_mono: "m = Some c \<Longrightarrow> \<exists>a. trace_pins row tr m = Some a \<and> a \<le> c"
proof (induction tr arbitrary: m c)
  case Nil
  then show ?case by simp
next
  case (Cons p tr)
  obtain j res where p: "p = (j, res)" by (cases p)
  obtain c' where c': "(if row j res = None then pin (cd_finalized_at (fst j)) m else m) = Some c'" "c' \<le> c"
  proof (cases "row j res = None")
    case True
    obtain q where "pin (cd_finalized_at (fst j)) m = Some q" using pin_Some [of m c] Cons.prems by blast
    then show ?thesis using that True Cons.prems pin_le by metis
  qed (use Cons.prems that [of c] in \<open>simp del: not_None_eq\<close>)
  show ?case using Cons.IH [OF c'(1)] c' p by fastforce
qed

text \<open>Every job without a row is pinned at or below its own finalization.\<close>

lemma trace_pins_hit:
  "(j, res) \<in> set tr \<Longrightarrow> row j res = None \<Longrightarrow> cd_finalized_at (fst j) = Some t \<Longrightarrow>
     \<exists>a. trace_pins row tr m = Some a \<and> a \<le> t"
proof (induction tr arbitrary: m)
  case Nil
  then show ?case by simp
next
  case (Cons p tr)
  show ?case
  proof (cases "p = (j, res)")
    case True
    obtain c where c: "pin (cd_finalized_at (fst j)) m = Some c" "c \<le> t"
      using Cons.prems pin_Some [of m _ "cd_finalized_at (fst j)" t] pin_le by blast
    obtain a where "trace_pins row tr (Some c) = Some a" "a \<le> c"
      using trace_pins_mono by blast
    then show ?thesis using True Cons.prems c by auto
  next
    case False
    with Cons show ?thesis by (cases p) auto
  qed
qed

text \<open>A pass whose every job had a row pins nothing.\<close>

lemma trace_pins_none: "\<forall>(j, res)\<in>set tr. row j res \<noteq> None \<Longrightarrow> trace_pins row tr m = m"
  by (induction tr arbitrary: m) auto

lemma trace_rows_hit: "(j, res) \<in> set tr \<Longrightarrow> row j res = Some v \<Longrightarrow> v \<in> set (trace_rows row tr)"
  by (induction tr) (auto split: option.splits)

text \<open>Rows land whatever else lands.\<close>

lemma put_valuation_stays:
  "find_row valuation_key t k = Some v \<Longrightarrow> find_row valuation_key (fold (put_valuation x) rs t) k = Some v"
  by (induction rs arbitrary: t) (simp_all add: put_valuation_find)

lemma put_valuation_lands:
  "r \<in> set rs \<Longrightarrow> find_row valuation_key (fold (put_valuation x) rs t) (valuation_key r) \<noteq> None"
proof (induction rs arbitrary: t)
  case Nil
  then show ?case by simp
next
  case (Cons q rs)
  obtain v where "find_row valuation_key (put_valuation x q t) (valuation_key q) = Some v"
    by (cases "find_row valuation_key t (valuation_key q)") (auto simp: put_valuation_find)
  with Cons show ?case using put_valuation_stays [of "put_valuation x q t" "valuation_key q" v x rs] by auto
qed

text \<open>What a pass keeps while it loops.\<close>

definition pass_frame :: "'n world \<Rightarrow> 'n world \<Rightarrow> bool" where
  "pass_frame s t \<longleftrightarrow> w_events t = w_events s \<and> w_cursors t = w_cursors s \<and> w_now t = w_now s
     \<and> w_checkpoints t = w_checkpoints s \<and> cache_le s t \<and> set (w_attempts s) \<subseteq> set (w_attempts t)"

lemma pass_frame_refl [simp]: "pass_frame s s"
  by (simp add: pass_frame_def)

lemma pass_frame_trans: "pass_frame s t \<Longrightarrow> pass_frame t u \<Longrightarrow> pass_frame s u"
  unfolding pass_frame_def using cache_le_trans by auto

lemma pass_frame_reads: "same_rows s t \<Longrightarrow> pass_frame s t"
  by (simp add: pass_frame_def same_rowsD)

lemma flush_attempts_grow: "set t \<subseteq> set (flush_attempts x rows t)"
  unfolding flush_attempts_one_by_one
  using fold_insert_attempt_append [of "concat (map (attempt_order x) (chunks FLUSH_THRESHOLD rows))" t] by auto

lemma cache_le_same: "w_cache t = w_cache s \<Longrightarrow> cache_le s t"
  by (simp add: cache_le_def cached_outcome_def cache_get_def cache_row_at_def)

lemma pass_frame_flush: "pass_frame s (snd (flush x b s))"
  by (simp add: pass_frame_def cache_le_same flush_attempts_grow) (simp add: flush_def)

lemma pass_frame_maybe_flush: "pass_frame s (snd (maybe_flush x b s))"
  by (simp add: maybe_flush_def pass_frame_flush)

section \<open>The ETH loop\<close>

definition eth_outcome_row :: "string \<Rightarrow> job \<Rightarrow> string + pricing_outcome \<times> price_row list \<Rightarrow> valuation_row option" where
  "eth_outcome_row version j res = (case res of Inl e \<Rightarrow> None | Inr (oc, _) \<Rightarrow> Some (eth_row version j oc))"

lemma settle_eth_lands:
  assumes "settle_eth version ev amount res (sm, b, m) = (sm', b', m')"
  shows "landed x b' s = (case eth_outcome_row version (ev, amount) res of
        None \<Rightarrow> landed x b s | Some v \<Rightarrow> put_valuation x v (landed x b s))"
    and "m' = (if eth_outcome_row version (ev, amount) res = None then pin (cd_finalized_at ev) m else m)"
  using assms
  by (auto simp: settle_eth_def eth_outcome_row_def eth_row_def split: sum.splits prod.splits pricing_outcome.splits)

definition price_eth_job :: "ext \<Rightarrow> bool \<Rightarrow> 'n provider \<Rightarrow> pricing_config \<Rightarrow> job \<Rightarrow> ('n, pricing_outcome \<times> price_row list) db" where
  "price_eth_job x co p cfg j = price_eth_amount x co p cfg (as_u64 (cd_block (fst j))) (cd_hash (fst j)) (cd_ts (fst j)) (snd j)"

lemma eth_step_job:
  assumes "job_of ''ETH'' ev = Some j" "price_eth_job x co p cfg j s = (res, s1)"
    "settle_eth version ev (snd j) res st = (sm, b, m)" "maybe_flush x b s1 = (b', s2)"
  shows "eth_step x co p cfg version ev st s = (Inr (sm, b', m), s2)"
  using assms
  by (cases st) (auto simp: eth_step_def job_of_def Let_def andthen_def attempt_def price_eth_job_def
      split: if_splits option.splits prod.splits)

lemma eth_step_skip:
  assumes "job_of ''ETH'' ev = None"
  shows "\<exists>sm'. eth_step x co p cfg version ev (sm, b, m) s = (Inr (sm', b, m), s)"
  using assms
  by (auto simp: eth_step_def job_of_def Let_def ret_def split: if_splits option.splits)

lemma eth_loop:
  assumes "fold_io (eth_step x co p cfg version) cds (sm, b, m) s = (r, s')"
  shows "\<exists>sm' b' tr. r = Inr (sm', b', trace_pins (eth_outcome_row version) tr m)
     \<and> map fst tr = jobs ''ETH'' cds
     \<and> landed x b' s' = fold (put_valuation x) (trace_rows (eth_outcome_row version) tr) (landed x b s)
     \<and> pass_frame s s'
     \<and> (\<forall>(j, res)\<in>set tr. \<exists>u w. cache_le s u \<and> price_eth_job x co p cfg j u = (res, w))
     \<and> (distinct_reads x cfg \<longrightarrow> (\<forall>(j, res)\<in>set tr. \<forall>v. res = Inr v \<longrightarrow>
          (\<forall>co' (q :: 'm provider) t. cache_le s' t \<longrightarrow> price_eth_job x co' q cfg j t = (Inr v, t))))"
  using assms
proof (induction cds arbitrary: sm b m s)
  case Nil
  then show ?case by (intro exI [of _ sm] exI [of _ b] exI [of _ "[]"]) simp
next
  case (Cons ev cds)
  show ?case
  proof (cases "job_of ''ETH'' ev")
    case None
    then obtain sm1 where "eth_step x co p cfg version ev (sm, b, m) s = (Inr (sm1, b, m), s)"
      using eth_step_skip by blast
    then show ?thesis using Cons None by simp
  next
    case (Some j)
    obtain res s1 where p: "price_eth_job x co p cfg j s = (res, s1)" by fastforce
    obtain sm1 b1 m1 where st: "settle_eth version ev (snd j) res (sm, b, m) = (sm1, b1, m1)"
      by (cases "settle_eth version ev (snd j) res (sm, b, m)")
    obtain b2 s2 where fl: "maybe_flush x b1 s1 = (b2, s2)" by fastforce
    have j: "j = (ev, snd j)" using Some by (auto simp: job_of_def split: if_splits)
    have rd: "same_rows s s1" using p only_readsD only_reads_price_eth unfolding price_eth_job_def by blast
    have fr: "pass_frame s s2"
      using pass_frame_trans [OF pass_frame_reads [OF rd] pass_frame_maybe_flush [of s1 x b1]] fl by simp
    have "fold_io (eth_step x co p cfg version) cds (sm1, b2, m1) s2 = (r, s')"
      using Cons.prems eth_step_job [OF Some p st fl] by simp
    from Cons.IH [OF this] obtain sm' b' tr where IH:
      "r = Inr (sm', b', trace_pins (eth_outcome_row version) tr m1)" "map fst tr = jobs ''ETH'' cds"
      "landed x b' s' = fold (put_valuation x) (trace_rows (eth_outcome_row version) tr) (landed x b2 s2)"
      "pass_frame s2 s'"
      "\<forall>(j, res)\<in>set tr. \<exists>u w. cache_le s2 u \<and> price_eth_job x co p cfg j u = (res, w)"
      "distinct_reads x cfg \<longrightarrow> (\<forall>(j, res)\<in>set tr. \<forall>v. res = Inr v \<longrightarrow>
          (\<forall>co' (q :: 'm provider) t. cache_le s' t \<longrightarrow> price_eth_job x co' q cfg j t = (Inr v, t)))"
      by blast
    have "landed x b2 s2 = landed x b1 s1" using maybe_flush_lands(1) [of x b1 s1] fl by simp
    also have "\<dots> = landed x b1 s" using landed_tables(1) [OF same_rowsD(3) [OF rd]] by blast
    also have "\<dots> = (case eth_outcome_row version j res of
        None \<Rightarrow> landed x b s | Some v \<Rightarrow> put_valuation x v (landed x b s))"
      using settle_eth_lands(1) [OF st] j by simp
    finally have ld: "landed x b2 s2 = \<dots>" .
    have m1: "m1 = (if eth_outcome_row version j res = None then pin (cd_finalized_at (fst j)) m else m)"
      using settle_eth_lands(2) [OF st] j by (metis fst_conv)
    have c2: "cache_le s1 s2" using pass_frame_maybe_flush [of s1 x b1] fl by (simp add: pass_frame_def)
    have rp: "\<forall>co' (q :: 'm provider) t. cache_le s' t \<longrightarrow> price_eth_job x co' q cfg j t = (Inr v, t)"
      if "distinct_reads x cfg" "res = Inr v" for v
    proof (intro allI impI)
      fix co' and q :: "'m provider" and t :: "'m world" assume t: "cache_le s' t"
      have "cache_le s2 s'" using IH(4) by (simp add: pass_frame_def)
      then have le: "cache_le s1 t" using c2 t cache_le_trans by blast
      have "replays (price_eth_job x co p cfg j) (price_eth_job x co' q cfg j)"
        unfolding price_eth_job_def by (rule replays_price_eth [OF that(1)])
      then show "price_eth_job x co' q cfg j t = (Inr v, t)"
        using p that(2) le unfolding replays_def by blast
    qed
    show ?thesis
    proof (intro exI [of _ sm'] exI [of _ b'] exI [of _ "(j, res) # tr"] conjI)
      show "r = Inr (sm', b', trace_pins (eth_outcome_row version) ((j, res) # tr) m)"
        using IH(1) m1 by simp
      show "map fst ((j, res) # tr) = jobs ''ETH'' (ev # cds)" using IH(2) Some by simp
      show "landed x b' s' = fold (put_valuation x)
          (trace_rows (eth_outcome_row version) ((j, res) # tr)) (landed x b s)"
        unfolding IH(3) ld by (simp split: option.split)
      show "pass_frame s s'" using fr IH(4) by (rule pass_frame_trans)
      show "distinct_reads x cfg \<longrightarrow> (\<forall>(j, res)\<in>set ((j, res) # tr). \<forall>v. res = Inr v \<longrightarrow>
          (\<forall>co' (q :: 'm provider) t. cache_le s' t \<longrightarrow> price_eth_job x co' q cfg j t = (Inr v, t)))"
        using IH(6) rp by simp
      have "cache_le s s2" using fr by (simp add: pass_frame_def)
      then have "\<forall>(j, res)\<in>set tr. \<exists>u w. cache_le s u \<and> price_eth_job x co p cfg j u = (res, w)"
        using IH(5) cache_le_trans by fast
      then show "\<forall>(j, res)\<in>set ((j, res) # tr). \<exists>u w. cache_le s u \<and> price_eth_job x co p cfg j u = (res, w)"
        using p cache_le_refl by fastforce
    qed
  qed
qed

text \<open>The two frontier queries differ in the universe of events they range over.\<close>

definition frontier_of :: "(event_row \<Rightarrow> bool) \<Rightarrow> 'n world \<Rightarrow> int option" where
  "frontier_of U s = sql_max (List.map_filter e_finalized_at (filter U (w_events s)))"

lemma frontiers:
  "frontier_for_asset c a s = frontier_of (in_asset_universe c a) s"
  "frontier_multi c s = frontier_of (in_multi_universe c) s"
  by (simp_all add: frontier_of_def frontier_for_asset_def frontier_multi_def)

lemma frontier_events: "w_events t = w_events s \<Longrightarrow> frontier_of U t = frontier_of U s"
  by (simp add: frontier_of_def)

lemma frontier_of_reaches:
  assumes "r \<in> set (w_events s)" "U r" "e_finalized_at r = Some t"
  shows "\<exists>f. frontier_of U s = Some f \<and> t \<le> f"
  unfolding frontier_of_def
  by (rule sql_max_ge) (use assms in \<open>force simp: List.map_filter_def image_iff\<close>)

lemma stored_watermark_cursors: "w_cursors t = w_cursors s \<Longrightarrow> stored_watermark t k = stored_watermark s k"
  by (simp add: stored_watermark_def)

lemma stored_watermark_advanced:
  "stored_watermark (advance key m f inc s) k =
     (if inc then stored_watermark s k else case f of None \<Rightarrow> stored_watermark s k
      | Some fr \<Rightarrow> if k = key then Some (next_watermark m fr) else stored_watermark s k)"
  by (cases inc) (simp_all add: advance_def stored_watermark_advance [unfolded advance_def, simplified])

text \<open>What a pass did, as far as the tables it is read from show.\<close>

definition pass_did ::
  "string \<Rightarrow> (event_row \<Rightarrow> bool) \<Rightarrow> bool \<Rightarrow> ext \<Rightarrow> valuation_row list \<Rightarrow> int option \<Rightarrow> 'n world \<Rightarrow> 'n world \<Rightarrow> bool" where
  "pass_did key U inc x rows pins s t \<longleftrightarrow>
     w_events t = w_events s \<and> w_now t = w_now s \<and> w_checkpoints t = w_checkpoints s
     \<and> cache_le s t \<and> set (w_attempts s) \<subseteq> set (w_attempts t)
     \<and> w_valuations t = fold (put_valuation x) rows (w_valuations s)
     \<and> (\<forall>k. stored_watermark t k = (if inc \<or> k \<noteq> key then stored_watermark s k
          else case frontier_of U s of None \<Rightarrow> stored_watermark s k
          | Some f \<Rightarrow> Some (next_watermark pins f)))"

lemma pass_finish:
  assumes "pass_frame s s1" "landed x b s1 = fold (put_valuation x) rows (w_valuations s)"
    "t = advance key m (frontier_of U (snd (flush x b s1))) inc (snd (flush x b s1))"
  shows "pass_did key U inc x rows m s t"
proof -
  have fr: "pass_frame s (snd (flush x b s1))"
    using assms(1) pass_frame_flush by (rule pass_frame_trans)
  then have "w_now t = w_now s" "w_checkpoints t = w_checkpoints s"
    unfolding assms(3) by (simp_all add: pass_frame_def advance_def split: option.splits)
  moreover have "cache_le s t"
    using fr cache_le_same [of t "snd (flush x b s1)"] cache_le_trans
    unfolding assms(3) pass_frame_def by (metis advance_frame(5))
  ultimately show ?thesis
    using fr assms(2) frontier_events [of "snd (flush x b s1)" s]
      stored_watermark_cursors [of "snd (flush x b s1)" s]
    unfolding pass_did_def assms(3) by (auto simp: pass_frame_def stored_watermark_advanced split: option.splits)
qed

lemma eth_pass_trace:
  assumes "run_onchain_pass_eth x co p cfg version inc s = (r, t)"
  shows "\<exists>sm tr. r = Inr sm
     \<and> map fst tr = jobs ''ETH'' (fetch_eth_candidates version inc
          (scan_floor version (pass_key version ''ETH'') DEFAULT_LOOKBACK_SECS inc s) s)
     \<and> pass_did (pass_key version ''ETH'') (in_asset_universe ARBITRUM_CHAIN_ID ''ETH'') inc x (trace_rows (eth_outcome_row version) tr)
          (trace_pins (eth_outcome_row version) tr None) s t
     \<and> (\<forall>(j, res)\<in>set tr. \<exists>u w. cache_le s u \<and> price_eth_job x co p cfg j u = (res, w))
     \<and> (distinct_reads x cfg \<longrightarrow> (\<forall>(j, res)\<in>set tr. \<forall>v. res = Inr v \<longrightarrow>
          (\<forall>co' (q :: 'm provider) u. cache_le t u \<longrightarrow> price_eth_job x co' q cfg j u = (Inr v, u))))"
proof -
  let ?c = "fetch_eth_candidates version inc
    (scan_floor version (pass_key version ''ETH'') DEFAULT_LOOKBACK_SECS inc s) s"
  let ?sm = "\<lparr>es_considered = length ?c, es_priced = 0, es_sequencer = 0, es_oracle = 0, es_skipped = 0\<rparr>"
  obtain r1 s1 where l: "fold_io (eth_step x co p cfg version) ?c (?sm, new_buffers, None) s = (r1, s1)"
    by fastforce
  from eth_loop [OF l, where ?'m = 'm] obtain sm b tr where L:
    "r1 = Inr (sm, b, trace_pins (eth_outcome_row version) tr None)" "map fst tr = jobs ''ETH'' ?c"
    "landed x b s1 = fold (put_valuation x) (trace_rows (eth_outcome_row version) tr) (w_valuations s)"
    "pass_frame s s1"
    "\<forall>(j, res)\<in>set tr. \<exists>u w. cache_le s u \<and> price_eth_job x co p cfg j u = (res, w)"
    "distinct_reads x cfg \<longrightarrow> (\<forall>(j, res)\<in>set tr. \<forall>v. res = Inr v \<longrightarrow>
          (\<forall>co' (q :: 'm provider) u. cache_le s1 u \<longrightarrow> price_eth_job x co' q cfg j u = (Inr v, u)))"
    by (simp only: landed_new) blast
  have t: "t = advance (pass_key version ''ETH'') (trace_pins (eth_outcome_row version) tr None)
      (frontier_of (in_asset_universe ARBITRUM_CHAIN_ID ''ETH'') (snd (flush x b s1))) inc (snd (flush x b s1))"
    and r: "r = Inr sm"
    using assms l L(1) by (auto simp: run_onchain_pass_eth_def frontiers Let_def andthen_def split: prod.splits)
  have "w_cache t = w_cache s1" unfolding t by simp
  then have "cache_le s1 t" by (rule cache_le_same)
  then have "distinct_reads x cfg \<longrightarrow> (\<forall>(j, res)\<in>set tr. \<forall>v. res = Inr v \<longrightarrow>
      (\<forall>co' (q :: 'm provider) u. cache_le t u \<longrightarrow> price_eth_job x co' q cfg j u = (Inr v, u)))"
    using L(6) cache_le_trans by fast
  with r L(2,5) pass_finish [OF L(4,3) t] show ?thesis by blast
qed

section \<open>No finalized event is lost behind a cursor\<close>

lemma valued_grows: "valued s vs e a \<Longrightarrow> (\<And>k v. find_row valuation_key (w_valuations s) k = Some v \<Longrightarrow>
    find_row valuation_key (w_valuations t) k \<noteq> None) \<Longrightarrow> valued t vs e a"
  unfolding valued_def
proof (elim bexE conjE)
  fix v assume v: "v \<in> set (w_valuations s)" "v_event v = e" "v_version v \<in> set vs" "v_asset v = a"
    and keep: "\<And>k v. find_row valuation_key (w_valuations s) k = Some v \<Longrightarrow>
      find_row valuation_key (w_valuations t) k \<noteq> None"
  have "find_row valuation_key (w_valuations s) (valuation_key v) \<noteq> None"
    using v(1) by (auto simp: find_row_None_iff)
  then have "find_row valuation_key (w_valuations t) (valuation_key v) \<noteq> None" using keep by blast
  then obtain u where "u \<in> set (w_valuations t)" "valuation_key u = valuation_key v"
    by (auto simp: find_row_None_iff)
  then show "\<exists>v\<in>set (w_valuations t). v_event v = e \<and> v_version v \<in> set vs \<and> v_asset v = a"
    using v by (auto simp: valuation_key_def)
qed

lemma valued_landed:
  assumes "w_valuations t = fold (put_valuation x) rows V" "v \<in> set rows"
    "v_event v = e" "v_version v \<in> set vs" "v_asset v = a"
  shows "valued t vs e a"
proof -
  have "find_row valuation_key (w_valuations t) (valuation_key v) \<noteq> None"
    using put_valuation_lands [OF assms(2)] assms(1) by simp
  then obtain u where "u \<in> set (w_valuations t)" "valuation_key u = valuation_key v"
    by (auto simp: find_row_None_iff)
  then show ?thesis using assms(3-5) unfolding valued_def by (auto simp: valuation_key_def)
qed

lemma pass_did_settled:
  assumes "pass_did key U inc x rows pins s t" "\<not> unresolved s vs e a"
  shows "\<not> unresolved t vs e a"
proof -
  have keep: "find_row valuation_key (w_valuations t) k \<noteq> None"
    if "find_row valuation_key (w_valuations s) k = Some v" for k v
    using assms(1) put_valuation_stays [OF that] by (simp add: pass_did_def)
  have "failed_before s vs e a \<Longrightarrow> failed_before t vs e a"
    using assms(1) by (auto simp: failed_before_def pass_did_def)
  moreover have "valued s vs e a \<Longrightarrow> valued t vs e a"
    by (erule valued_grows) (rule keep)
  ultimately show ?thesis using assms(2) unfolding unresolved_def by blast
qed

lemma unresolved_fewer: "unresolved s vs e a \<Longrightarrow> set ws \<subseteq> set vs \<Longrightarrow> unresolved s ws e a"
  by (auto simp: unresolved_def valued_def failed_before_def)

lemma pass_did_visits:
  assumes did: "pass_did key U False x (trace_rows row tr) (trace_pins row tr None) s t"
    and r: "r \<in> set (w_events s)" "U r" "e_finalized_at r = Some f"
    and tr: "(j, res) \<in> set tr" "cd_finalized_at (fst j) = Some f"
    and row: "\<And>v. row j res = Some v \<Longrightarrow> v_event v = e_id r \<and> v_version v \<in> set vs \<and> v_asset v = asset"
    and u: "unresolved t vs (e_id r) asset" and wm: "stored_watermark t key = Some wm"
  shows "wm \<le> f"
proof -
  have V: "w_valuations t = fold (put_valuation x) (trace_rows row tr) (w_valuations s)"
    using did by (simp add: pass_did_def)
  have "row j res = None"
  proof (rule ccontr)
    assume "row j res \<noteq> None"
    then obtain v where v: "row j res = Some v" by blast
    have "valued t vs (e_id r) asset"
      using valued_landed [OF V trace_rows_hit [where row = row, OF tr(1) v]] row [OF v] by blast
    then show False using u by (simp add: unresolved_def)
  qed
  then obtain a where "trace_pins row tr None = Some a" "a \<le> f"
    using trace_pins_hit [where row = row, OF tr(1) _ tr(2)] by blast
  moreover obtain g where "frontier_of U s = Some g"
    using frontier_of_reaches [where U = U, OF r(1,2,3)] by blast
  moreover have "stored_watermark t key = Some (next_watermark (trace_pins row tr None) g)"
    if "frontier_of U s = Some g" for g
    using did that unfolding pass_did_def by (elim conjE) (drule spec [of _ key], simp)
  ultimately show ?thesis
    using wm next_watermark_le(2) order_trans by (metis option.inject)
qed

definition asset_wants :: "string \<Rightarrow> event_row \<Rightarrow> bool" where
  "asset_wants asset r \<longleftrightarrow> in_asset_universe ARBITRUM_CHAIN_ID asset r \<and> e_amount r \<noteq> None"

definition eth_settled :: "string \<Rightarrow> 'n world \<Rightarrow> event_row \<Rightarrow> bool" where
  "eth_settled version s r \<longleftrightarrow> \<not> unresolved s [version] (e_id r) ''ETH''"

definition lpt_settled :: "string \<Rightarrow> 'n world \<Rightarrow> event_row \<Rightarrow> bool" where
  "lpt_settled version s r \<longleftrightarrow>
     \<not> unresolved s [version, degraded_version, TWAP_VERSION] (e_id r) ''LPT''"

lemma asset_candidate_job:
  assumes "r \<in> set (w_events s)" "asset_wants asset r" "e_finalized_at r = Some f" "fl \<le> f"
    "unresolved s vs (e_id r) asset"
  shows "\<exists>j\<in>set (jobs asset (map candidate_of (asset_candidates asset vs False fl s))).
    fst j = candidate_of r"
proof -
  obtain a where a: "e_amount r = Some a" using assms(2) by (auto simp: asset_wants_def)
  have "r \<in> set (asset_candidates asset vs False fl s)"
    using assms by (auto simp: asset_candidates_def asset_wants_def in_asset_universe_def passes_floor_def)
  moreover have "job_of asset (candidate_of r) = Some (candidate_of r, a)"
    using assms(2) a by (simp add: job_of_def candidate_of_def asset_wants_def in_asset_universe_def)
  ultimately have "(candidate_of r, a) \<in> set (jobs asset (map candidate_of (asset_candidates asset vs False fl s)))"
    by (force simp: jobs_def List.map_filter_def image_iff)
  then show ?thesis by force
qed

interpretation eth_pass: incremental_pass
  "\<lambda>s. snd (run_onchain_pass_eth x co p cfg version False s)" version "pass_key version ''ETH''"
  "asset_wants ''ETH''" "eth_settled version" for x co p cfg version
proof
  fix s :: "'a world"
  let ?t = "snd (run_onchain_pass_eth x co p cfg version False s)"
  obtain r' where "run_onchain_pass_eth x co p cfg version False s = (r', ?t)" by (metis prod.collapse)
  from eth_pass_trace [OF this] obtain tr where
    tr: "map fst tr = jobs ''ETH'' (fetch_eth_candidates version False
          (scan_floor version (pass_key version ''ETH'') DEFAULT_LOOKBACK_SECS False s) s)"
    and did: "pass_did (pass_key version ''ETH'') (in_asset_universe ARBITRUM_CHAIN_ID ''ETH'') False x (trace_rows (eth_outcome_row version) tr)
          (trace_pins (eth_outcome_row version) tr None) s ?t" by blast
  show "w_events ?t = w_events s" using did by (simp add: pass_did_def)
  fix r
  show keep: "eth_settled version ?t r" if "eth_settled version s r"
    using that pass_did_settled [OF did] by (simp add: eth_settled_def)
  fix f wm
  assume r: "r \<in> set (w_events s)" "asset_wants ''ETH'' r" "e_finalized_at r = Some f"
    "scan_floor version (pass_key version ''ETH'') DEFAULT_LOOKBACK_SECS False s \<le> f"
    "\<not> eth_settled version ?t r" "stored_watermark ?t (pass_key version ''ETH'') = Some wm"
  have "unresolved s [version] (e_id r) ''ETH''" using keep r(5) by (auto simp: eth_settled_def)
  from asset_candidate_job [OF r(1-4) this] obtain j where
    "j \<in> set (map fst tr)" "fst j = candidate_of r"
    unfolding tr fetch_eth_candidates_def by blast
  then obtain res where j: "(j, res) \<in> set tr" "fst j = candidate_of r" by auto
  have ev: "v_event v = e_id r \<and> v_version v \<in> set [version] \<and> v_asset v = ''ETH''"
    if "eth_outcome_row version j res = Some v" for v
    using that j(2) by (cases j) (auto simp: eth_outcome_row_def eth_row_def priced_row_def failed_row_def
        candidate_of_def split: sum.splits prod.splits pricing_outcome.splits)
  have u: "unresolved ?t [version] (e_id r) ''ETH''" using r(5) by (simp add: eth_settled_def)
  have uni: "in_asset_universe ARBITRUM_CHAIN_ID ''ETH'' r" using r(2) by (simp add: asset_wants_def)
  have jf: "cd_finalized_at (fst j) = Some f" using j(2) r(3) by (simp add: candidate_of_def)
  show "wm \<le> f" by (rule pass_did_visits [OF did r(1) uni r(3) j(1) jf ev u r(6)])
qed

section \<open>The LPT loop\<close>

definition lpt_outcome_row :: "string \<Rightarrow> job \<Rightarrow> string + lpt_outcome \<times> price_row list \<Rightarrow> valuation_row option" where
  "lpt_outcome_row version j res = (case j of (ev, amount) \<Rightarrow> case res of
       Inr (PricedTwap price usd prov ver, _) \<Rightarrow> Some (lpt_row ev amount ver PRICING_METHOD_LPT_TWAP price usd prov)
     | Inr (PricedDegraded price usd prov ver, _) \<Rightarrow> Some (lpt_row ev amount ver PRICING_METHOD_LPT_SPOT price usd prov)
     | Inr (LptSequencerOutage d, _) \<Rightarrow> Some (lpt_failure ev amount version STATUS_FAILED_SEQUENCER_OUTAGE d)
     | Inr (LptMissingOracle d, _) \<Rightarrow> Some (lpt_failure ev amount version STATUS_FAILED_MISSING_ORACLE d)
     | Inr (MissingPool d, _) \<Rightarrow> Some (lpt_failure ev amount version STATUS_FAILED_MISSING_POOL d)
     | Inl e \<Rightarrow> map_option (lpt_failure ev amount version STATUS_FAILED_MISSING_POOL) (permanent_lpt_failure_detail e))"

lemma settle_lpt_lands:
  assumes "settle_lpt version j res (sm, b, m) = (sm', b', m')"
  shows "landed x b' s = (case lpt_outcome_row version j res of
        None \<Rightarrow> landed x b s | Some v \<Rightarrow> put_valuation x v (landed x b s))"
    and "m' = (if lpt_outcome_row version j res = None then pin (cd_finalized_at (fst j)) m else m)"
  using assms
  by (auto simp: settle_lpt_def lpt_outcome_row_def split: sum.splits prod.splits lpt_outcome.splits option.splits)

lemma try_spawn_jobs:
  assumes "try_spawn running waiting sm = (running', waiting', sm')"
  shows "running' @ jobs ''LPT'' waiting' = running @ jobs ''LPT'' waiting"
    and "running' = [] \<Longrightarrow> jobs ''LPT'' waiting' = []"
  using assms
  by (induction running waiting sm rule: try_spawn.induct)
    (auto simp: Let_def job_of_def split: if_splits option.splits)

lemma spawn_times_jobs:
  "spawn_times (Suc n) running waiting sm = (running', waiting', sm') \<Longrightarrow>
     running' @ jobs ''LPT'' waiting' = running @ jobs ''LPT'' waiting \<and>
     (running' = [] \<longrightarrow> jobs ''LPT'' waiting' = [])"
proof (induction n arbitrary: running waiting sm)
  case 0
  then show ?case using try_spawn_jobs by (auto split: prod.splits)
next
  case (Suc n)
  obtain r1 w1 m1 where 1: "try_spawn running waiting sm = (r1, w1, m1)" by (cases "try_spawn running waiting sm")
  have "spawn_times (Suc n) r1 w1 m1 = (running', waiting', sm')"
    using Suc.prems 1 by (subst (asm) spawn_times.simps(2)) simp
  from Suc.IH [OF this] show ?case using try_spawn_jobs(1) [OF 1] by simp
qed

lemma mset_remove_nth: "i < length xs \<Longrightarrow> mset xs = add_mset (xs ! i) (mset (take i xs @ drop (Suc i) xs))"
  by (subst id_take_nth_drop [of i xs]) simp_all

text \<open>
  Whatever the order in which the tasks complete, the loop settles every job exactly once.
\<close>

lemma lpt_loop_trace:
  assumes "lpt_loop x co p cfg version sched running waiting (sm, b, m) s = ((sm', b', m'), s')"
    and "running = [] \<longrightarrow> jobs ''LPT'' waiting = []"
  shows "\<exists>tr. m' = trace_pins (lpt_outcome_row version) tr m
     \<and> mset (map fst tr) = mset (running @ jobs ''LPT'' waiting)
     \<and> landed x b' s' = fold (put_valuation x) (trace_rows (lpt_outcome_row version) tr) (landed x b s)
     \<and> pass_frame s s'
     \<and> (\<forall>(j, res)\<in>set tr. \<exists>u w. cache_le s u \<and> price_job x co p cfg j u = (res, w))
     \<and> (distinct_reads x cfg \<longrightarrow> (\<forall>(j, res)\<in>set tr. \<forall>v. res = Inr v \<longrightarrow>
          (\<forall>co' (q :: 'm provider) t. cache_le s' t \<longrightarrow> price_job x co' q cfg j t = (Inr v, t))))"
  using assms
proof (induction "length running + length waiting" arbitrary: sched running waiting sm b m s rule: less_induct)
  case less
  show ?case
  proof (cases "running = []")
    case True
    then show ?thesis using less.prems by (intro exI [of _ "[]"]) (simp add: lpt_loop.simps)
  next
    case ne: False
    define i where "i = pick sched running"
    have i: "i < length running" using ne pick_less unfolding i_def by blast
    let ?j = "running ! i" and ?rest = "take i running @ drop (Suc i) running"
    obtain res s1 where p: "price_job x co p cfg ?j s = (res, s1)" by fastforce
    obtain sm1 b1 m1 where st: "settle_lpt version ?j res (sm, b, m) = (sm1, b1, m1)"
      by (cases "settle_lpt version ?j res (sm, b, m)")
    obtain b2 s2 where fl: "maybe_flush x b1 s1 = (b2, s2)" by fastforce
    obtain r2 w2 sm2 where sp: "try_spawn ?rest waiting sm1 = (r2, w2, sm2)"
      by (cases "try_spawn ?rest waiting sm1")
    have run: "lpt_loop x co p cfg version (tl sched) r2 w2 (sm2, b2, m1) s2 = ((sm', b', m'), s')"
      using less.prems(1) ne p st fl sp
      by (subst (asm) lpt_loop.simps) (simp add: i_def [symmetric] Let_def)
    have small: "length r2 + length w2 < length running + length waiting"
      using try_spawn_size [OF sp] i by simp
    have inv: "r2 = [] \<longrightarrow> jobs ''LPT'' w2 = []" using try_spawn_jobs(2) [OF sp] by blast
    from less.hyps [OF small run inv] obtain tr where IH:
      "m' = trace_pins (lpt_outcome_row version) tr m1"
      "mset (map fst tr) = mset (r2 @ jobs ''LPT'' w2)"
      "landed x b' s' = fold (put_valuation x) (trace_rows (lpt_outcome_row version) tr) (landed x b2 s2)"
      "pass_frame s2 s'"
      "\<forall>(j, res)\<in>set tr. \<exists>u w. cache_le s2 u \<and> price_job x co p cfg j u = (res, w)"
      "distinct_reads x cfg \<longrightarrow> (\<forall>(j, res)\<in>set tr. \<forall>v. res = Inr v \<longrightarrow>
          (\<forall>co' (q :: 'm provider) t. cache_le s' t \<longrightarrow> price_job x co' q cfg j t = (Inr v, t)))"
      by blast
    have "only_reads (price_job x co p cfg ?j)" by (cases ?j) (simp add: price_job_def)
    then have rd: "same_rows s s1" using p only_readsD by blast
    have fr: "pass_frame s s2"
      using pass_frame_trans [OF pass_frame_reads [OF rd] pass_frame_maybe_flush [of s1 x b1]] fl by simp
    have "landed x b2 s2 = landed x b1 s1" using maybe_flush_lands(1) [of x b1 s1] fl by simp
    also have "\<dots> = landed x b1 s" using landed_tables(1) [OF same_rowsD(3) [OF rd]] by blast
    also have "\<dots> = (case lpt_outcome_row version ?j res of
        None \<Rightarrow> landed x b s | Some v \<Rightarrow> put_valuation x v (landed x b s))"
      by (rule settle_lpt_lands(1) [OF st])
    finally have ld: "landed x b2 s2 = \<dots>" .
    have "cache_le s1 s2" using pass_frame_maybe_flush [of s1 x b1] fl by (simp add: pass_frame_def)
    moreover have "cache_le s2 s'" using IH(4) by (simp add: pass_frame_def)
    ultimately have le: "cache_le s1 s'" by (rule cache_le_trans)
    have rp: "price_job x co' q cfg ?j t = (Inr v, t)"
      if "distinct_reads x cfg" "res = Inr v" "cache_le s' t" for v co' and q :: "'m provider" and t
    proof -
      have "replays (price_job x co p cfg ?j) (price_job x co' q cfg ?j)"
        by (cases ?j) (simp add: price_job_def replays_price_lpt [OF that(1)])
      then show ?thesis using p that(2) cache_le_trans [OF le that(3)] unfolding replays_def by blast
    qed
    have ms: "mset (map fst ((?j, res) # tr)) = mset (running @ jobs ''LPT'' waiting)"
      using IH(2) try_spawn_jobs(1) [OF sp] mset_remove_nth [OF i] by simp
    have "cache_le s s2" using fr by (simp add: pass_frame_def)
    then have "\<forall>(j, res)\<in>set tr. \<exists>u w. cache_le s u \<and> price_job x co p cfg j u = (res, w)"
      using IH(5) cache_le_trans by fast
    then have at: "\<forall>(j, res)\<in>set ((?j, res) # tr). \<exists>u w. cache_le s u \<and> price_job x co p cfg j u = (res, w)"
      using p cache_le_refl by fastforce
    show ?thesis
    proof (intro exI [of _ "(?j, res) # tr"] conjI)
      show "\<forall>(j, res)\<in>set ((?j, res) # tr). \<exists>u w. cache_le s u \<and> price_job x co p cfg j u = (res, w)"
        by (rule at)
    qed (use IH(1-4,6) fr ms rp in \<open>auto simp: settle_lpt_lands(2) [OF st] ld split: option.split intro: pass_frame_trans simp del: not_None_eq\<close>)
  qed
qed

lemma lpt_pass_trace:
  assumes "run_onchain_pass_lpt x co p cfg version inc sched s = (r, t)"
  shows "\<exists>sm tr. r = Inr sm
     \<and> mset (map fst tr) = mset (jobs ''LPT'' (fetch_lpt_candidates version inc
          (scan_floor version (pass_key version ''LPT'') DEFAULT_LOOKBACK_SECS inc s) s))
     \<and> pass_did (pass_key version ''LPT'') (in_asset_universe ARBITRUM_CHAIN_ID ''LPT'') inc x (trace_rows (lpt_outcome_row version) tr)
          (trace_pins (lpt_outcome_row version) tr None) s t
     \<and> (\<forall>(j, res)\<in>set tr. \<exists>u w. cache_le s u \<and> price_job x co p cfg j u = (res, w))
     \<and> (distinct_reads x cfg \<longrightarrow> (\<forall>(j, res)\<in>set tr. \<forall>v. res = Inr v \<longrightarrow>
          (\<forall>co' (q :: 'm provider) u. cache_le t u \<longrightarrow> price_job x co' q cfg j u = (Inr v, u))))"
proof -
  let ?c = "fetch_lpt_candidates version inc
    (scan_floor version (pass_key version ''LPT'') DEFAULT_LOOKBACK_SECS inc s) s"
  let ?sm = "\<lparr>ls_considered = length ?c, ls_twap = 0, ls_degraded = 0, ls_sequencer = 0,
      ls_oracle = 0, ls_pool = 0, ls_skipped = 0\<rparr>"
  obtain running waiting sm0 where sp: "spawn_times CONCURRENCY [] ?c ?sm = (running, waiting, sm0)"
    by (cases "spawn_times CONCURRENCY [] ?c ?sm")
  obtain sm b m s1 where l: "lpt_loop x co p cfg version sched running waiting (sm0, new_buffers, None) s = ((sm, b, m), s1)"
    by (metis prod.collapse)
  have "CONCURRENCY = Suc 13" by (simp add: CONCURRENCY_def)
  with sp have js: "running @ jobs ''LPT'' waiting = jobs ''LPT'' ?c" "running = [] \<longrightarrow> jobs ''LPT'' waiting = []"
    using spawn_times_jobs [of 13 "[]" ?c ?sm running waiting sm0] by auto
  from lpt_loop_trace [OF l js(2), where ?'m = 'm] obtain tr where L:
    "m = trace_pins (lpt_outcome_row version) tr None" "mset (map fst tr) = mset (running @ jobs ''LPT'' waiting)"
    "landed x b s1 = fold (put_valuation x) (trace_rows (lpt_outcome_row version) tr) (w_valuations s)"
    "pass_frame s s1" "\<forall>(j, res)\<in>set tr. \<exists>u w. cache_le s u \<and> price_job x co p cfg j u = (res, w)"
    "distinct_reads x cfg \<longrightarrow> (\<forall>(j, res)\<in>set tr. \<forall>v. res = Inr v \<longrightarrow>
          (\<forall>co' (q :: 'm provider) u. cache_le s1 u \<longrightarrow> price_job x co' q cfg j u = (Inr v, u)))"
    by (simp only: landed_new) blast
  have t: "t = advance (pass_key version ''LPT'') m
      (frontier_of (in_asset_universe ARBITRUM_CHAIN_ID ''LPT'') (snd (flush x b s1))) inc (snd (flush x b s1))"
    and r: "r = Inr sm"
    using assms sp l by (auto simp: run_onchain_pass_lpt_def frontiers Let_def split: prod.splits)
  have "w_cache t = w_cache s1" unfolding t by simp
  then have "cache_le s1 t" by (rule cache_le_same)
  then have "distinct_reads x cfg \<longrightarrow> (\<forall>(j, res)\<in>set tr. \<forall>v. res = Inr v \<longrightarrow>
      (\<forall>co' (q :: 'm provider) u. cache_le t u \<longrightarrow> price_job x co' q cfg j u = (Inr v, u)))"
    using L(6) cache_le_trans by fast
  moreover have "pass_did (pass_key version ''LPT'') (in_asset_universe ARBITRUM_CHAIN_ID ''LPT'') inc x (trace_rows (lpt_outcome_row version) tr)
      (trace_pins (lpt_outcome_row version) tr None) s t"
    using pass_finish [OF L(4,3) t] unfolding L(1) .
  moreover have "mset (map fst tr) = mset (jobs ''LPT'' ?c)" using L(2) js(1) by simp
  ultimately show ?thesis using r L(5) by blast
qed

lemma price_twap_version:
  "price_twap x cfg block hash ts amount li twap = Inr (PricedTwap pr u j ver, ps) \<Longrightarrow> ver = TWAP_VERSION"
  "price_twap x cfg block hash ts amount li twap \<noteq> Inr (PricedDegraded pr u j ver, ps)"
  by (auto simp: price_twap_def Let_def split: option.splits prod.splits if_splits sum.splits)

lemma lpt_checks_early:
  "lpt_checks x cfg block ts a b c \<noteq> Inr (Inl (PricedTwap pr u j ver))"
  "lpt_checks x cfg block ts a b c \<noteq> Inr (Inl (PricedDegraded pr u j ver))"
  by (auto simp: lpt_checks_def Let_def split: option.splits if_splits)

text \<open>The three ways a price of an LPT amount can come about.\<close>

lemma price_lpt_cases:
  assumes "price_lpt_amount x co p cfg block hash ts amount s = (Inr (oc, ps), t)"
  obtains (early) a b c where "lpt_checks x cfg block ts a b c = Inr (Inl oc)"
  | (degraded) a b c li where "lpt_checks x cfg block ts a b c = Inr (Inr li)"
      "sl_cardinality (li_slot0 li) < REQUIRED_CARDINALITY"
      "price_degraded x cfg block hash ts amount li = (oc, ps)"
  | (twap) a b c li tw where "lpt_checks x cfg block ts a b c = Inr (Inr li)"
      "\<not> sl_cardinality (li_slot0 li) < REQUIRED_CARDINALITY"
      "price_twap x cfg block hash ts amount li tw = Inr (oc, ps)"
proof -
  from assms obtain a b c checked u where c: "lpt_checks x cfg block ts a b c = Inr checked"
    and k: "(case checked of Inl early \<Rightarrow> ret (early, [])
       | Inr li \<Rightarrow> if sl_cardinality (li_slot0 li) < REQUIRED_CARDINALITY
           then ret (price_degraded x cfg block hash ts amount li)
           else andthen (core (batch_call_cached x co p [observe_call x (pc_pool cfg) block])) (\<lambda>obs.
             andthen (of_result (decode_observe_outcome x (obs ! 0))) (\<lambda>twap.
               of_result (price_twap x cfg block hash ts amount li twap)))) u = (Inr (oc, ps), t)"
    unfolding price_lpt_amount_def andthen_Inr_iff of_result_Inr by blast
  show ?thesis
  proof (cases checked)
    case (Inl e)
    then show ?thesis using k c early [of a b c] by (simp add: ret_def)
  next
    case (Inr li)
    show ?thesis
    proof (cases "sl_cardinality (li_slot0 li) < REQUIRED_CARDINALITY")
      case True
      then have "price_degraded x cfg block hash ts amount li = (oc, ps)"
        using k Inr by (simp add: ret_def)
      with True c Inr show ?thesis using degraded by blast
    next
      case False
      then obtain tw where "price_twap x cfg block hash ts amount li tw = Inr (oc, ps)"
        using k Inr by (auto simp: andthen_Inr_iff of_result_Inr)
      with False c Inr show ?thesis using twap by blast
    qed
  qed
qed

lemma price_lpt_version:
  assumes "price_lpt_amount x co p cfg block hash ts amount s = (Inr (oc, ps), t)"
  shows "oc = PricedTwap pr u j ver \<Longrightarrow> ver = TWAP_VERSION"
    and "oc = PricedDegraded pr u j ver \<Longrightarrow> ver = degraded_version"
  using assms
  by (cases rule: price_lpt_cases, auto simp: price_degraded_def Let_def lpt_checks_early price_twap_version(2)
      dest: price_twap_version(1))+

lemma lpt_row_version:
  assumes "price_job x co p cfg j s = (res, t)" "lpt_outcome_row version j res = Some v"
  shows "v_event v = cd_event (fst j) \<and> v_version v \<in> {version, degraded_version, TWAP_VERSION} \<and> v_asset v = ''LPT''"
proof (cases j)
  case (Pair ev amount)
  show ?thesis
  proof (cases res)
    case (Inl e)
    then show ?thesis using assms(2) Pair by (auto simp: lpt_outcome_row_def lpt_failure_def failed_row_def)
  next
    case (Inr o_ps)
    obtain oc ps where o: "o_ps = (oc, ps)" by (cases o_ps)
    note pv = price_lpt_version [of x co p cfg "as_u64 (cd_block ev)" "cd_hash ev" "cd_ts ev" amount s oc ps t]
    have run: "price_lpt_amount x co p cfg (as_u64 (cd_block ev)) (cd_hash ev) (cd_ts ev) amount s = (Inr (oc, ps), t)"
      using assms(1) Pair Inr o by (simp add: price_job_def)
    show ?thesis
      using assms(2) Pair Inr o pv(1) [OF run] pv(2) [OF run]
      by (cases oc) (auto simp: lpt_outcome_row_def lpt_row_def lpt_failure_def failed_row_def priced_row_def)
  qed
qed

interpretation lpt_pass: incremental_pass
  "\<lambda>s. snd (run_onchain_pass_lpt x co p cfg version False sched s)" version "pass_key version ''LPT''"
  "asset_wants ''LPT''" "lpt_settled version" for x co p cfg version sched
proof
  fix s :: "'a world"
  let ?t = "snd (run_onchain_pass_lpt x co p cfg version False sched s)"
  obtain r' where "run_onchain_pass_lpt x co p cfg version False sched s = (r', ?t)" by (metis prod.collapse)
  from lpt_pass_trace [OF this] obtain tr where
    tr: "mset (map fst tr) = mset (jobs ''LPT'' (fetch_lpt_candidates version False
          (scan_floor version (pass_key version ''LPT'') DEFAULT_LOOKBACK_SECS False s) s))"
    and did: "pass_did (pass_key version ''LPT'') (in_asset_universe ARBITRUM_CHAIN_ID ''LPT'') False x (trace_rows (lpt_outcome_row version) tr)
          (trace_pins (lpt_outcome_row version) tr None) s ?t"
    and pr: "\<forall>(j, res)\<in>set tr. \<exists>u w. cache_le s u \<and> price_job x co p cfg j u = (res, w)" by blast
  show "w_events ?t = w_events s" using did by (simp add: pass_did_def)
  fix r
  show keep: "lpt_settled version ?t r" if "lpt_settled version s r"
    using that pass_did_settled [OF did] by (simp add: lpt_settled_def)
  fix f wm
  assume r: "r \<in> set (w_events s)" "asset_wants ''LPT'' r" "e_finalized_at r = Some f"
    "scan_floor version (pass_key version ''LPT'') DEFAULT_LOOKBACK_SECS False s \<le> f"
    "\<not> lpt_settled version ?t r" "stored_watermark ?t (pass_key version ''LPT'') = Some wm"
  have "unresolved s [version, degraded_version] (e_id r) ''LPT''"
    using keep r(5) unresolved_fewer [of s "[version, degraded_version, TWAP_VERSION]" "e_id r" "''LPT''"
        "[version, degraded_version]"] by (auto simp: lpt_settled_def)
  from asset_candidate_job [OF r(1-4) this] obtain j where
    jm: "j \<in># mset (map fst tr)" "fst j = candidate_of r"
    unfolding tr fetch_lpt_candidates_def by auto
  then obtain res where j: "(j, res) \<in> set tr" "fst j = candidate_of r" by auto
  have ev: "v_event v = e_id r \<and> v_version v \<in> set [version, degraded_version, TWAP_VERSION] \<and> v_asset v = ''LPT''"
    if "lpt_outcome_row version j res = Some v" for v
    using lpt_row_version [OF _ that] pr j by (fastforce simp: candidate_of_def)
  have u: "unresolved ?t [version, degraded_version, TWAP_VERSION] (e_id r) ''LPT''"
    using r(5) by (simp add: lpt_settled_def)
  have uni: "in_asset_universe ARBITRUM_CHAIN_ID ''LPT'' r" using r(2) by (simp add: asset_wants_def)
  have jf: "cd_finalized_at (fst j) = Some f" using j(2) r(3) by (simp add: candidate_of_def)
  show "wm \<le> f" by (rule pass_did_visits [OF did r(1) uni r(3) j(1) jf ev u r(6)])
qed

section \<open>The incremental scan is the full scan\<close>

lemma filter_candidates_amount:
  "filter (\<lambda>c. cd_amount c \<noteq> None) (map candidate_of (asset_candidates asset vs False fl s))
     = map candidate_of (sort_key e_block (sort_key e_log (filter (\<lambda>r. e_amount r \<noteq> None) (filter (\<lambda>r.
        e_chain r = ARBITRUM_CHAIN_ID \<and> e_valuable r \<and> e_canonical r \<and> e_asset r = Some asset
        \<and> passes_floor False fl r \<and> unresolved s vs (e_id r) asset) (w_events s)))))"
proof -
  have c: "(\<lambda>c. cd_amount c \<noteq> None) \<circ> candidate_of = (\<lambda>r. e_amount r \<noteq> None)"
    by (rule ext) (simp add: candidate_of_def)
  show ?thesis unfolding asset_candidates_def filter_map c filter_sort ..
qed

lemma same_candidates:
  assumes "caught_up key (asset_wants asset) resolved s"
    and "\<And>r. unresolved s vs (e_id r) asset \<Longrightarrow> \<not> resolved s r"
    and "fl = scan_floor version key DEFAULT_LOOKBACK_SECS False s"
  shows "filter (\<lambda>c. cd_amount c \<noteq> None) (map candidate_of (asset_candidates asset vs False fl s))
       = filter (\<lambda>c. cd_amount c \<noteq> None) (map candidate_of (asset_candidates asset vs False epoch s))"
proof -
  have "passes_floor False fl r \<longleftrightarrow> passes_floor False epoch r"
    if "r \<in> set (w_events s)" "e_chain r = ARBITRUM_CHAIN_ID" "e_valuable r" "e_canonical r"
      "e_asset r = Some asset" "e_amount r \<noteq> None" "unresolved s vs (e_id r) asset" for r
  proof (cases "e_finality r = Finalized")
    case True
    then have "asset_wants asset r" using that by (simp add: asset_wants_def in_asset_universe_def)
    moreover have "\<not> resolved s r" by (rule assms(2) [OF that(7)])
    ultimately have "\<exists>t\<ge>0. e_finalized_at r = Some t \<and>
        (\<forall>wm. stored_watermark s key = Some wm \<longrightarrow> wm - DEFAULT_LOOKBACK_SECS \<le> t)"
      using assms(1) [unfolded caught_up_def, THEN bspec, OF that(1)] by simp
    then obtain t where t: "0 \<le> t" "e_finalized_at r = Some t"
      "\<forall>wm. stored_watermark s key = Some wm \<longrightarrow> wm - DEFAULT_LOOKBACK_SECS \<le> t"
      by blast
    have "fl \<le> t" unfolding assms(3) scan_floor_def using t(1,3)
      by (simp add: epoch_def split: option.split)
    then show ?thesis using t by (simp add: passes_floor_def epoch_def)
  qed (simp add: passes_floor_def)
  note same = this
  have "filter (\<lambda>r. e_amount r \<noteq> None) (filter (\<lambda>r.
        e_chain r = ARBITRUM_CHAIN_ID \<and> e_valuable r \<and> e_canonical r \<and> e_asset r = Some asset
        \<and> passes_floor False fl r \<and> unresolved s vs (e_id r) asset) (w_events s))
     = filter (\<lambda>r. e_amount r \<noteq> None) (filter (\<lambda>r.
        e_chain r = ARBITRUM_CHAIN_ID \<and> e_valuable r \<and> e_canonical r \<and> e_asset r = Some asset
        \<and> passes_floor False epoch r \<and> unresolved s vs (e_id r) asset) (w_events s))"
    unfolding filter_filter
  proof (rule filter_cong [OF refl])
    fix r assume "r \<in> set (w_events s)"
    from same [OF this] show "(e_chain r = ARBITRUM_CHAIN_ID \<and> e_valuable r \<and> e_canonical r
        \<and> e_asset r = Some asset \<and> passes_floor False fl r \<and> unresolved s vs (e_id r) asset) \<and> e_amount r \<noteq> None
      \<longleftrightarrow> (e_chain r = ARBITRUM_CHAIN_ID \<and> e_valuable r \<and> e_canonical r
        \<and> e_asset r = Some asset \<and> passes_floor False epoch r \<and> unresolved s vs (e_id r) asset) \<and> e_amount r \<noteq> None"
      by (cases "e_amount r \<noteq> None"; cases "unresolved s vs (e_id r) asset") (simp_all cong: conj_cong)
  qed
  then show ?thesis unfolding filter_candidates_amount by (rule arg_cong)
qed

end
