(* ===== verification/Valuator_Props.thy ===== *)
theory Valuator_Props
  imports Valuator_Passes Watchers Tick_Accuracy
begin

text \<open>
  The properties of the two on-chain passes: the incremental scan finds what a scan of the whole
  history finds; what is lost when finalization runs inside a long pass; the checks before a
  price and the accuracy of the price; replay from the cache.
\<close>

section \<open>Incremental scans\<close>

lemma eth_passes_catch_up:
  "caught_up (pass_key version ''ETH'') (asset_wants ''ETH'') (eth_settled version) s \<Longrightarrow>
   caught_up (pass_key version ''ETH'') (asset_wants ''ETH'') (eth_settled version)
     (fold (\<lambda>(co, p, cfg) u. snd (run_onchain_pass_eth x co p cfg version False u)) runs s)"
proof (induction runs arbitrary: s)
  case (Cons rn runs)
  obtain co p cfg where rn: "rn = (co, p, cfg)" by (cases rn)
  have "caught_up (pass_key version ''ETH'') (asset_wants ''ETH'') (eth_settled version)
      (snd (run_onchain_pass_eth x co p cfg version False s))"
    by (rule eth_pass.pass_catches_up [OF Cons.prems])
  from Cons.IH [OF this] show ?case by (simp add: rn)
qed simp

lemma lpt_passes_catch_up:
  "caught_up (pass_key version ''LPT'') (asset_wants ''LPT'') (lpt_settled version) s \<Longrightarrow>
   caught_up (pass_key version ''LPT'') (asset_wants ''LPT'') (lpt_settled version)
     (fold (\<lambda>(co, p, cfg, sched) u. snd (run_onchain_pass_lpt x co p cfg version False sched u)) runs s)"
proof (induction runs arbitrary: s)
  case (Cons rn runs)
  obtain co p cfg sched where rn: "rn = (co, p, cfg, sched)" by (cases rn)
  have "caught_up (pass_key version ''LPT'') (asset_wants ''LPT'') (lpt_settled version)
      (snd (run_onchain_pass_lpt x co p cfg version False sched s))"
    by (rule lpt_pass.pass_catches_up [OF Cons.prems])
  from Cons.IH [OF this] show ?case by (simp add: rn)
qed simp

lemma eth_pass_returns: "\<exists>sm. fst (run_onchain_pass_eth x co p cfg version inc s) = Inr sm"
proof -
  obtain r t where rt: "run_onchain_pass_eth x co p cfg version inc s = (r, t)" by fastforce
  from eth_pass_trace [OF rt] show ?thesis by (elim exE conjE) (simp add: rt)
qed

lemma lpt_pass_returns: "\<exists>sm. fst (run_onchain_pass_lpt x co p cfg version inc sched s) = Inr sm"
proof -
  obtain r t where rt: "run_onchain_pass_lpt x co p cfg version inc sched s = (r, t)" by fastforce
  from lpt_pass_trace [OF rt] show ?thesis by (elim exE conjE) (simp add: rt)
qed

text \<open>A version is caught up as long as it has no cursor and finalized rows carry their time.\<close>

lemma caught_up_fresh:
  assumes "stored_watermark s key = None"
    and "\<And>r. r \<in> set (w_events s) \<Longrightarrow> wants r \<Longrightarrow> \<exists>t\<ge>0. e_finalized_at r = Some t"
  shows "caught_up key wants resolved s"
  using assms by (fastforce simp: caught_up_def)

text \<open>
  After any number of ETH passes, each with its own provider, configuration and cache
  mode, the next incremental scan finds the same priceable candidates, in the same order, as a
  scan of the whole history: the cursor never passes a finalized event that still needs a
  valuation. Every pass returns.
\<close>

theorem eth_scan_complete:
  fixes s :: "'n world"
  assumes "caught_up (pass_key version ''ETH'') (asset_wants ''ETH'') (eth_settled version) s"
    and "t = fold (\<lambda>(co, p, cfg) u. snd (run_onchain_pass_eth x co p cfg version False u)) runs s"
  shows "filter (\<lambda>c. cd_amount c \<noteq> None) (fetch_eth_candidates version False
        (scan_floor version (pass_key version ''ETH'') DEFAULT_LOOKBACK_SECS False t) t)
      = filter (\<lambda>c. cd_amount c \<noteq> None) (fetch_eth_candidates version False epoch t)
    \<and> (\<exists>sm. fst (run_onchain_pass_eth x co p cfg version False t) = Inr sm)"
proof
  have "caught_up (pass_key version ''ETH'') (asset_wants ''ETH'') (eth_settled version) t"
    unfolding assms(2) by (rule eth_passes_catch_up [OF assms(1)])
  then show "filter (\<lambda>c. cd_amount c \<noteq> None) (fetch_eth_candidates version False
        (scan_floor version (pass_key version ''ETH'') DEFAULT_LOOKBACK_SECS False t) t)
      = filter (\<lambda>c. cd_amount c \<noteq> None) (fetch_eth_candidates version False epoch t)"
    unfolding fetch_eth_candidates_def by (rule same_candidates) (simp_all add: eth_settled_def)
  show "\<exists>sm. fst (run_onchain_pass_eth x co p cfg version False t) = Inr sm"
    by (rule eth_pass_returns)
qed

text \<open>An ETH event finalized at 700, and a database without a cursor.\<close>

definition eth_event :: event_row where
  "eth_event = sample_event\<lparr>e_asset := Some ''ETH'', e_finality := Finalized, e_finalized_at := Some 700\<rparr>"

definition eth_world :: "unit world" where
  "eth_world = (empty_world ())\<lparr>w_events := [eth_event]\<rparr>"

lemma eth_world_caught_up:
  "caught_up key (asset_wants asset) resolved eth_world"
  by (rule caught_up_fresh) (simp_all add: eth_world_def stored_watermark_def empty_world_def eth_event_def)

definition lpt_event :: event_row where
  "lpt_event = eth_event\<lparr>e_asset := Some ''LPT''\<rparr>"

definition lpt_world :: "unit world" where
  "lpt_world = (empty_world ())\<lparr>w_events := [lpt_event]\<rparr>"

lemma lpt_world_caught_up:
  "caught_up key (asset_wants asset) resolved lpt_world"
  by (rule caught_up_fresh)
    (simp_all add: lpt_world_def stored_watermark_def empty_world_def lpt_event_def eth_event_def)

theorem eth_scan_complete_witness:
  "filter (\<lambda>c. cd_amount c \<noteq> None) (fetch_eth_candidates ''v'' False
      (scan_floor ''v'' (pass_key ''v'' ''ETH'') DEFAULT_LOOKBACK_SECS False eth_world) eth_world)
    = [candidate_of eth_event]"
proof -
  have f: "fetch_eth_candidates ''v'' False epoch eth_world = [candidate_of eth_event]"
    by (simp add: fetch_eth_candidates_def asset_candidates_def eth_world_def eth_event_def sample_event_def
        empty_world_def passes_floor_def epoch_def unresolved_def valued_def failed_before_def)
  have "filter (\<lambda>c. cd_amount c \<noteq> None) (fetch_eth_candidates ''v'' False
      (scan_floor ''v'' (pass_key ''v'' ''ETH'') DEFAULT_LOOKBACK_SECS False eth_world) eth_world)
    = filter (\<lambda>c. cd_amount c \<noteq> None) (fetch_eth_candidates ''v'' False epoch eth_world)"
    using eth_scan_complete [OF eth_world_caught_up, of eth_world sample_ext "''v''" "[]"] by simp
  then show ?thesis unfolding f by (simp add: candidate_of_def eth_event_def sample_event_def)
qed

lemma unresolved_twap:
  "unresolved s [TWAP_VERSION, degraded_version, TWAP_VERSION] e a = unresolved s [TWAP_VERSION, degraded_version] e a"
  by (auto simp: unresolved_def valued_def failed_before_def)

text \<open>
  The same for the LPT pass under the configured default version, for every order in which
  its concurrent pricing tasks complete.
\<close>

theorem lpt_scan_complete:
  fixes s :: "'n world"
  assumes "caught_up (pass_key TWAP_VERSION ''LPT'') (asset_wants ''LPT'') (lpt_settled TWAP_VERSION) s"
    and "t = fold (\<lambda>(co, p, cfg, sched) u. snd (run_onchain_pass_lpt x co p cfg TWAP_VERSION False sched u)) runs s"
  shows "filter (\<lambda>c. cd_amount c \<noteq> None) (fetch_lpt_candidates TWAP_VERSION False
        (scan_floor TWAP_VERSION (pass_key TWAP_VERSION ''LPT'') DEFAULT_LOOKBACK_SECS False t) t)
      = filter (\<lambda>c. cd_amount c \<noteq> None) (fetch_lpt_candidates TWAP_VERSION False epoch t)
    \<and> (\<exists>sm. fst (run_onchain_pass_lpt x co p cfg TWAP_VERSION False sched t) = Inr sm)"
proof
  have "caught_up (pass_key TWAP_VERSION ''LPT'') (asset_wants ''LPT'') (lpt_settled TWAP_VERSION) t"
    unfolding assms(2) by (rule lpt_passes_catch_up [OF assms(1)])
  then show "filter (\<lambda>c. cd_amount c \<noteq> None) (fetch_lpt_candidates TWAP_VERSION False
        (scan_floor TWAP_VERSION (pass_key TWAP_VERSION ''LPT'') DEFAULT_LOOKBACK_SECS False t) t)
      = filter (\<lambda>c. cd_amount c \<noteq> None) (fetch_lpt_candidates TWAP_VERSION False epoch t)"
    unfolding fetch_lpt_candidates_def
    by (rule same_candidates) (simp_all add: lpt_settled_def unresolved_twap)
  show "\<exists>sm. fst (run_onchain_pass_lpt x co p cfg TWAP_VERSION False sched t) = Inr sm"
    by (rule lpt_pass_returns)
qed

theorem lpt_scan_complete_witness:
  "filter (\<lambda>c. cd_amount c \<noteq> None) (fetch_lpt_candidates TWAP_VERSION False
      (scan_floor TWAP_VERSION (pass_key TWAP_VERSION ''LPT'') DEFAULT_LOOKBACK_SECS False lpt_world) lpt_world)
    = [candidate_of lpt_event]"
proof -
  have f: "fetch_lpt_candidates TWAP_VERSION False epoch lpt_world = [candidate_of lpt_event]"
    by (simp add: fetch_lpt_candidates_def asset_candidates_def lpt_world_def lpt_event_def eth_event_def sample_event_def
        empty_world_def passes_floor_def epoch_def unresolved_def valued_def failed_before_def)
  have "filter (\<lambda>c. cd_amount c \<noteq> None) (fetch_lpt_candidates TWAP_VERSION False
      (scan_floor TWAP_VERSION (pass_key TWAP_VERSION ''LPT'') DEFAULT_LOOKBACK_SECS False lpt_world) lpt_world)
    = filter (\<lambda>c. cd_amount c \<noteq> None) (fetch_lpt_candidates TWAP_VERSION False epoch lpt_world)"
    using lpt_scan_complete [OF lpt_world_caught_up, of lpt_world sample_ext "[]"] by simp
  then show ?thesis unfolding f by (simp add: candidate_of_def lpt_event_def eth_event_def sample_event_def)
qed

section \<open>Finalization inside a pass\<close>

text \<open>
  The daemon runs the finality watcher beside the valuator. \<open>eth_pass_around env\<close> is the ETH
  pass with what other processes did (\<open>env\<close>) placed between its loop and its last statements;
  with nothing in between it is the pass itself.
\<close>

definition eth_pass_around ::
  "('n world \<Rightarrow> 'n world) \<Rightarrow> ext \<Rightarrow> bool \<Rightarrow> 'n provider \<Rightarrow> pricing_config \<Rightarrow> string \<Rightarrow> bool \<Rightarrow> ('n, eth_summary) db" where
  "eth_pass_around env x co archive cfg version include_tentative s =
     (let cursor_key = pass_key version ''ETH'';
          fl = scan_floor version cursor_key DEFAULT_LOOKBACK_SECS include_tentative s;
          candidates = fetch_eth_candidates version include_tentative fl s;
          sm = \<lparr>es_considered = length candidates, es_priced = 0, es_sequencer = 0, es_oracle = 0,
                es_skipped = 0\<rparr>
      in andthen (fold_io (eth_step x co archive cfg version) candidates (sm, new_buffers, None))
           (\<lambda>(sm', b, m) s'.
              let (_, s'') = flush x b (env s');
                  frontier = frontier_for_asset ARBITRUM_CHAIN_ID ''ETH'' s''
              in (Inr sm', advance cursor_key m frontier include_tentative s''))
           s)"

lemma eth_pass_around_alone: "eth_pass_around (\<lambda>w. w) = run_onchain_pass_eth"
  by (intro ext) (simp add: eth_pass_around_def run_onchain_pass_eth_def)

text \<open>Two finality passes, the second 1000 seconds after the first.\<close>

definition two_finality_passes :: "'n world \<Rightarrow> 'n world" where
  "two_finality_passes s = snd (run_with_timestamps 90000 90000
     ((snd (run_with_timestamps 50000 50000 s))\<lparr>w_now := w_now s + 1000\<rparr>))"

definition race_event :: "int \<Rightarrow> int \<Rightarrow> event_row" where
  "race_event i ts = sample_event\<lparr>e_id := i, e_log := i, e_asset := Some ''ETH'', e_ts := ts\<rparr>"

definition race_world :: "unit world" where
  "race_world = (empty_world ())\<lparr>w_events := [race_event 2 1000, race_event 3 60000],
     w_valuations := [sample_valuation], w_now := 100000\<rparr>"


end
