(* ===== verification/Valuator_Replay.thy ===== *)
theory Valuator_Replay
  imports Valuator_Props
begin

text \<open>
  Replay of the ETH pass (\<open>docs/design-docs/DETERMINISM.md\<close>): with the derived tables emptied and
  the raw events and the call cache kept, a cache-only run writes every valuation again. And the
  exact conditions under which an ETH amount is priced.
\<close>

section \<open>Rows with distinct keys\<close>

lemma distinct_head_differs:
  assumes "distinct (map f (v # vs))" and "w \<in> set vs"
  shows "f w \<noteq> f v"
proof
  assume "f w = f v"
  moreover have "f w \<in> f ` set vs" using assms(2) by (rule imageI)
  ultimately show False using assms(1) by simp
qed

lemma key_stored [simp]: "valuation_key (stored_valuation x v) = valuation_key v"
  by (simp add: stored_valuation_def valuation_key_def)

lemma fold_put_distinct:
  assumes "distinct (map valuation_key rows)"
    and "\<And>v. v \<in> set rows \<Longrightarrow> find_row valuation_key t (valuation_key v) = None"
  shows "fold (put_valuation x) rows t = t @ map (stored_valuation x) rows"
  using assms
proof (induction rows arbitrary: t)
  case (Cons v rows)
  have v: "find_row valuation_key t (valuation_key v) = None" using Cons.prems(2) by simp
  have "valuation_key w \<noteq> valuation_key v" if "w \<in> set rows" for w
    using Cons.prems(1) that by (rule distinct_head_differs)
  then have "fold (put_valuation x) rows (t @ [stored_valuation x v])
      = (t @ [stored_valuation x v]) @ map (stored_valuation x) rows"
    using Cons by (intro Cons.IH) (auto simp: find_row_append find_row_Cons)
  moreover have "put_valuation x v t = t @ [stored_valuation x v]"
    by (simp add: put_valuation_def ins_nothing_def v)
  ultimately show ?case by simp
qed simp

lemma stored_first:
  assumes "v \<in> set rows" "distinct (map valuation_key rows)"
  shows "find_row valuation_key (map (stored_valuation x) rows) (valuation_key v) = Some (stored_valuation x v)"
  using assms
proof (induction rows)
  case (Cons w rows)
  show ?case
  proof (cases "v = w")
    case False
    then have "v \<in> set rows" using Cons.prems(1) by simp
    moreover have "valuation_key v \<noteq> valuation_key w" by (rule distinct_head_differs [OF Cons.prems(2)]) fact
    ultimately show ?thesis using Cons by (simp add: find_row_Cons)
  qed (simp add: find_row_Cons)
qed simp

lemma trace_rows_mem: "v \<in> set (trace_rows row tr) \<longleftrightarrow> (\<exists>e\<in>set tr. row (fst e) (snd e) = Some v)"
proof (induction tr)
  case (Cons e tr)
  obtain j res where e: "e = (j, res)" by (cases e)
  show ?case by (cases "row j res") (auto simp: e Cons.IH)
qed simp

lemma eth_row_event:
  "eth_outcome_row version j res = Some v \<Longrightarrow> v_event v = cd_event (fst j) \<and> v_version v = version \<and> v_asset v = ''ETH''"
  by (auto simp: eth_outcome_row_def eth_row_def priced_row_def failed_row_def
      split: sum.splits prod.splits pricing_outcome.splits)

lemma trace_rows_distinct:
  assumes "distinct (map (\<lambda>e. cd_event (fst (fst e))) tr)"
  shows "distinct (map valuation_key (trace_rows (eth_outcome_row version) tr))"
  using assms
proof (induction tr)
  case (Cons e tr)
  obtain j res where e: "e = (j, res)" by (cases e)
  show ?case
  proof (cases "eth_outcome_row version j res")
    case (Some v)
    have ne: "valuation_key w \<noteq> valuation_key v" if w: "w \<in> set (trace_rows (eth_outcome_row version) tr)" for w
    proof -
      obtain f where m: "f \<in> set tr" "eth_outcome_row version (fst f) (snd f) = Some w"
        using w unfolding trace_rows_mem by (rule bexE)
      have "cd_event (fst (fst f)) \<noteq> cd_event (fst (fst e))"
        by (rule distinct_head_differs [OF Cons.prems m(1)])
      then have "v_event w \<noteq> v_event v"
        using eth_row_event [OF m(2)] eth_row_event [OF Some] by (simp add: e)
      then show ?thesis by (simp add: valuation_key_def)
    qed
    have "valuation_key v \<notin> valuation_key ` set (trace_rows (eth_outcome_row version) tr)"
    proof
      assume "valuation_key v \<in> valuation_key ` set (trace_rows (eth_outcome_row version) tr)"
      then obtain w where "valuation_key v = valuation_key w" "w \<in> set (trace_rows (eth_outcome_row version) tr)"
        by (rule imageE)
      with ne [of w] show False by simp
    qed
    moreover have "distinct (map valuation_key (trace_rows (eth_outcome_row version) tr))"
      using Cons.prems by (intro Cons.IH) simp
    ultimately show ?thesis by (simp add: e Some)
  next
    case None
    then show ?thesis using Cons.IH Cons.prems by (simp add: e)
  qed
qed simp

lemma jobs_distinct:
  "distinct (map cd_event cs) \<Longrightarrow> distinct (map (\<lambda>j. cd_event (fst j)) (jobs ''ETH'' cs))"
proof (induction cs)
  case (Cons c cs)
  have m: "cd_event (fst j) \<in> cd_event ` set cs" if "j \<in> set (jobs ''ETH'' cs)" for j
    using that by (auto simp: jobs_def List.map_filter_def job_of_def split: if_splits option.splits)
  have c: "fst j = c" if "job_of ''ETH'' c = Some j" for j
    using that by (auto simp: job_of_def split: if_splits)
  show ?case
  proof (cases "job_of ''ETH'' c")
    case (Some j)
    have "cd_event (fst j) \<notin> (\<lambda>j. cd_event (fst j)) ` set (jobs ''ETH'' cs)"
      using Cons.prems m c [OF Some] by auto
    with Some Cons show ?thesis by simp
  qed (use Cons in simp)
qed simp

lemma candidates_distinct:
  assumes "distinct (map e_id (w_events s))"
  shows "distinct (map cd_event (fetch_eth_candidates version inc fl s))"
proof -
  let ?P = "\<lambda>r. e_chain r = ARBITRUM_CHAIN_ID \<and> e_valuable r \<and> e_canonical r \<and> e_asset r = Some ''ETH''
        \<and> passes_floor inc fl r \<and> unresolved s [version] (e_id r) ''ETH''"
  have "map cd_event (fetch_eth_candidates version inc fl s)
      = map e_id (sort_key e_block (sort_key e_log (filter ?P (w_events s))))"
    unfolding fetch_eth_candidates_def asset_candidates_def map_map by (simp add: comp_def candidate_of_def)
  then have "mset (map cd_event (fetch_eth_candidates version inc fl s)) = mset (map e_id (filter ?P (w_events s)))"
    by (simp only: mset_map mset_sort)
  moreover have "distinct (map e_id (filter ?P (w_events s)))" using assms by (rule distinct_map_filter)
  ultimately show ?thesis by (rule mset_eq_imp_distinct_iff [THEN iffD2])
qed

section \<open>Replay\<close>

text \<open>The derived tables of the valuator are empty: no valuation, no attempt, no cursor.\<close>

definition derived_empty :: "'n world \<Rightarrow> bool" where
  "derived_empty s \<longleftrightarrow> w_valuations s = [] \<and> w_attempts s = [] \<and> w_cursors s = []"

lemma fresh_scan:
  assumes "derived_empty s"
  shows "scan_floor version key secs inc s = epoch"
    and "unresolved s vs e a"
  using assms by (simp_all add: derived_empty_def scan_floor_def stored_watermark_def unresolved_def
      valued_def failed_before_def)

lemma fresh_candidates:
  assumes "derived_empty s" "derived_empty u" "w_events u = w_events s"
  shows "fetch_eth_candidates version inc epoch u = fetch_eth_candidates version inc epoch s"
  using fresh_scan(2) [OF assms(1)] fresh_scan(2) [OF assms(2)] assms(3)
  by (simp add: fetch_eth_candidates_def asset_candidates_def)

text \<open>
  C38. The ETH pass is replayed from the cache: after a run over a database without derived rows,
  a cache-only run with any provider, over the same events, emptied derived tables and the
  cache of the first run (or a larger one), returns and stores every valuation row of the first
  run again, equal in every column, the provenance included.
\<close>

theorem eth_pass_replayed:
  fixes p :: "'n provider" and q :: "'m provider" and s :: "'n world" and u :: "'m world"
  assumes run: "run_onchain_pass_eth x co p cfg version inc s = (r, t)"
    and hashes: "distinct_reads x cfg" and ids: "distinct (map e_id (w_events s))"
    and fresh: "derived_empty s" "derived_empty u"
    and kept: "w_events u = w_events s" "cache_le t u"
  shows "\<exists>sm. fst (run_onchain_pass_eth x True q cfg version inc u) = Inr sm
    \<and> (\<forall>v\<in>set (w_valuations t). find_row valuation_key
         (w_valuations (snd (run_onchain_pass_eth x True q cfg version inc u))) (valuation_key v) = Some v)"
proof -
  let ?row = "eth_outcome_row version" and ?cs = "fetch_eth_candidates version inc epoch s"
  obtain r' t' where run': "run_onchain_pass_eth x True q cfg version inc u = (r', t')" by fastforce
  from eth_pass_trace [OF run, where ?'m = 'm] obtain sm0 tr where
      J: "map fst tr = jobs ''ETH'' ?cs"
    and D: "pass_did (pass_key version ''ETH'') (in_asset_universe ARBITRUM_CHAIN_ID ''ETH'') inc x (trace_rows ?row tr) (trace_pins ?row tr None) s t"
    and R: "\<forall>(j, res)\<in>set tr. \<forall>v. res = Inr v \<longrightarrow>
          (\<forall>co' (q :: 'm provider) u. cache_le t u \<longrightarrow> price_eth_job x co' q cfg j u = (Inr v, u))"
    unfolding fresh_scan(1) [OF fresh(1)] using hashes by (elim exE conjE) (drule (1) mp, rule that)
  from eth_pass_trace [OF run'] obtain sm tr' where
      r': "r' = Inr sm" and J': "map fst tr' = jobs ''ETH'' ?cs"
    and D': "pass_did (pass_key version ''ETH'') (in_asset_universe ARBITRUM_CHAIN_ID ''ETH'') inc x (trace_rows ?row tr') (trace_pins ?row tr' None) u t'"
    and R': "\<forall>(j, res)\<in>set tr'. \<exists>u' w. cache_le u u' \<and> price_eth_job x True q cfg j u' = (res, w)"
    unfolding fresh_scan(1) [OF fresh(2)] fresh_candidates [OF fresh kept(1)] by (elim exE conjE) (rule that)
  have jd: "distinct (map (\<lambda>j. cd_event (fst j)) (jobs ''ETH'' ?cs))"
    by (rule jobs_distinct [OF candidates_distinct [OF ids]])
  have e: "map (\<lambda>e. cd_event (fst (fst e))) T = map (\<lambda>j. cd_event (fst j)) (map fst T)"
    for T :: "pricing_outcome trace"
    by simp
  have td: "distinct (map (\<lambda>e. cd_event (fst (fst e))) tr)" "distinct (map (\<lambda>e. cd_event (fst (fst e))) tr')"
    unfolding e J J' using jd by simp_all
  note kd = trace_rows_distinct [OF td(1), of version] and kd' = trace_rows_distinct [OF td(2), of version]
  have V: "w_valuations t = map (stored_valuation x) (trace_rows ?row tr)"
    using D fresh(1) fold_put_distinct [OF kd, of "[]" x] by (simp add: pass_did_def derived_empty_def)
  have V': "w_valuations t' = map (stored_valuation x) (trace_rows ?row tr')"
    using D' fresh(2) fold_put_distinct [OF kd', of "[]" x] by (simp add: pass_did_def derived_empty_def)
  have again: "v \<in> set (trace_rows ?row tr')" if v: "v \<in> set (trace_rows ?row tr)" for v
  proof -
    obtain f where f: "f \<in> set tr" "?row (fst f) (snd f) = Some v"
      using v unfolding trace_rows_mem by (rule bexE)
    obtain j res where jr: "f = (j, res)" by (cases f)
    note m = f [unfolded jr fst_conv snd_conv]
    obtain oc ps where w: "res = Inr (oc, ps)"
      using m(2) by (cases res) (auto simp: eth_outcome_row_def)
    have "j \<in> set (map fst tr)" using m(1) by force
    then obtain res' where m': "(j, res') \<in> set tr'" unfolding J J' [symmetric] by auto
    obtain u' z where u': "cache_le u u'" "price_eth_job x True q cfg j u' = (res', z)"
      using bspec [OF R' m'] by auto
    have "price_eth_job x True q cfg j u' = (Inr (oc, ps), u')"
      using bspec [OF R m(1)] w cache_le_trans [OF kept(2) u'(1)] by simp
    with u'(2) w have "res' = res" by simp
    then have "?row (fst (j, res')) (snd (j, res')) = Some v" using m(2) by simp
    then show ?thesis unfolding trace_rows_mem using m' by (rule bexI)
  qed
  have "find_row valuation_key (w_valuations t') (valuation_key v) = Some v" if "v \<in> set (w_valuations t)" for v
  proof -
    obtain w where w: "w \<in> set (trace_rows ?row tr)" "v = stored_valuation x w" using \<open>v \<in> set (w_valuations t)\<close> V by auto
    show ?thesis unfolding V' using stored_first [OF again [OF w(1)] kd', of x] w(2) by simp
  qed
  with r' run' show ?thesis by simp
qed

section \<open>A run to replay\<close>

text \<open>
  A database with one ETH event and the cached answers of both feeds at its block: the sequencer
  is up, the Chainlink round answers 2.
\<close>

definition warm_cfg :: pricing_config where
  "warm_cfg = \<lparr>pc_sequencer = ''0x5'', pc_chainlink = ''0xc'', pc_pool = ''0xp''\<rparr>"

definition link_round :: decoded_round where
  "link_round = sample_round\<lparr>rd_answer := ''2'', rd_updated_at := ''1000''\<rparr>"

definition feed_ext :: ext where
  "feed_ext = sample_ext\<lparr>abi_round := (\<lambda>raw. Some (if raw = ''a'' then sample_round else link_round))\<rparr>"

lemma feed_ext_simps:
  "sha256_hex feed_ext b = b" "numeric18 feed_ext q = q" "hex_decode feed_ext h = Some h" "bd_exact feed_ext"
  "abi_round feed_ext raw = Some (if raw = ''a'' then sample_round else link_round)"
  by (simp_all add: feed_ext_def sample_ext_def bd_exact_def)

lemma warm_reads: "distinct_reads feed_ext warm_cfg"
  by (simp add: distinct_reads_def warm_cfg_def request_hash_def round_call_def slot0_call_def compute_call_hash_def
      call_preimage_def feed_ext_def sample_ext_def)

definition feed_bytes :: "char \<Rightarrow> string" where
  "feed_bytes c = [CHR 0x22, CHR ''0'', CHR ''x'', c, CHR 0x22]"

definition feed_row :: "string \<Rightarrow> char \<Rightarrow> cache_row" where
  "feed_row a c = (let r = round_call feed_ext a 9 in
     make_cache_row feed_ext (request_hash feed_ext r) (fst r) (fst (snd r)) (snd (snd r)) (feed_bytes c) ''chainstack'' None)"

definition warm_world :: "unit world" where
  "warm_world = eth_world\<lparr>w_cache := [feed_row (pc_sequencer warm_cfg) (CHR ''a''), feed_row (pc_chainlink warm_cfg) (CHR ''b'')]\<rparr>"

definition idle_provider :: "unit provider" where
  "idle_provider = \<lparr>pr_name = ''chainstack'', pr_post = (\<lambda>req n. (Body [], n))\<rparr>"

definition feed_outcome :: "string \<Rightarrow> char \<Rightarrow> outcome" where
  "feed_outcome a c = \<lparr>oc_hash = request_hash feed_ext (round_call feed_ext a 9), oc_bytes = feed_bytes c,
     oc_resp_hash = feed_bytes c\<rparr>"

lemma warm_hits:
  "cached_outcome warm_world (request_hash feed_ext (round_call feed_ext (pc_sequencer warm_cfg) 9))
     = Some (feed_outcome (pc_sequencer warm_cfg) (CHR ''a''))"
  "cached_outcome warm_world (request_hash feed_ext (round_call feed_ext (pc_chainlink warm_cfg) 9))
     = Some (feed_outcome (pc_chainlink warm_cfg) (CHR ''b''))"
proof -
  have "request_hash feed_ext (round_call feed_ext (pc_sequencer warm_cfg) 9)
      \<noteq> request_hash feed_ext (round_call feed_ext (pc_chainlink warm_cfg) 9)"
    using warm_reads unfolding distinct_reads_def by simp
  then show "cached_outcome warm_world (request_hash feed_ext (round_call feed_ext (pc_sequencer warm_cfg) 9))
     = Some (feed_outcome (pc_sequencer warm_cfg) (CHR ''a''))"
  "cached_outcome warm_world (request_hash feed_ext (round_call feed_ext (pc_chainlink warm_cfg) 9))
     = Some (feed_outcome (pc_chainlink warm_cfg) (CHR ''b''))"
    by (simp_all add: warm_world_def feed_row_def Let_def cached_outcome_def cache_get_def make_cache_row_def
        find_row_Cons hash_response_bytes_def feed_ext_simps cache_row_at_def feed_outcome_def)
qed

definition warm_price :: rat where "warm_price = 2 / 10 ^ 8"

definition warm_provenance :: json where
  "warm_provenance = eth_provenance feed_ext warm_cfg 9 5 warm_price (5 * warm_price) 0 link_round"

lemma warm_priced:
  "price_eth_amount feed_ext co q warm_cfg 9 h 1000 5 warm_world
   = (Inr (Priced warm_price (5 * warm_price) warm_provenance, [eth_price_row warm_cfg 9 h 1000 warm_price link_round]), warm_world)"
proof -
  let ?reqs = "[round_call feed_ext (pc_sequencer warm_cfg) 9, round_call feed_ext (pc_chainlink warm_cfg) 9]"
  have b: "batch_call_cached feed_ext co q ?reqs warm_world = (Inr [Inr (feed_outcome (pc_sequencer warm_cfg) (CHR ''a'')),
      Inr (feed_outcome (pc_chainlink warm_cfg) (CHR ''b''))], warm_world)"
    by (simp add: batch_call_cached_def warm_hits unwrap_all_def ret_def nth_Cons upt_rec)
  have hex: "trim_0x (trim_char (CHR 0x22) (from_utf8_or_empty (feed_bytes (CHR ''a'')))) = ''a''"
      "trim_0x (trim_char (CHR 0x22) (from_utf8_or_empty (feed_bytes (CHR ''b'')))) = ''b''"
    by (simp_all add: feed_bytes_def from_utf8_or_empty_def trim_char_def in_rng_def)
  have d: "decode_round_outcome feed_ext (Inr (feed_outcome a (CHR ''a''))) = Inr (Some sample_round)"
      "decode_round_outcome feed_ext (Inr (feed_outcome a (CHR ''b''))) = Inr (Some link_round)" for a
    by (simp_all add: decode_round_outcome_def outcome_hex_def feed_outcome_def hex feed_ext_simps)
  have "parse_digits 10 ''2'' = Some 2" "parse_digits 10 ''7'' = Some 7" "parse_digits 10 ''1000'' = Some 1000"
    by (simp_all add: parse_digits_def digit_val_def)
  then have digits: "parse_signed 10 128 ''2'' = Some 2" "u128_or_0 ''7'' = 7" "i64_or_0 ''1000'' = 1000"
    by (simp_all add: parse_signed_def u128_or_0_def i64_or_0_def parse_unsigned_def)
  have c: "chainlink_price feed_ext 2 = warm_price"
    by (simp add: chainlink_price_def warm_price_def feed_ext_def sample_ext_def CHAINLINK_DECIMALS_def)
  have j: "judge_eth feed_ext warm_cfg 9 h 1000 5 (Some sample_round) (Some link_round)
      = Inr (Priced warm_price (5 * warm_price) warm_provenance, [eth_price_row warm_cfg 9 h 1000 warm_price link_round])"
    by (simp add: judge_eth_def Let_def link_round_def [THEN arg_cong [of _ _ rd_answer]]
        link_round_def [THEN arg_cong [of _ _ rd_updated_at]] link_round_def [THEN arg_cong [of _ _ rd_round_id]]
        link_round_def [THEN arg_cong [of _ _ rd_answered_in]] sample_round_def digits c STALENESS_FAIL_SECS_def
        warm_provenance_def)
  show ?thesis
    unfolding price_eth_amount_def
    by (simp add: andthen_def core_def map_err_def b d of_result_def j)
qed

lemma warm_run:
  "w_valuations (snd (run_onchain_pass_eth feed_ext co q warm_cfg ''v'' False warm_world)) =
     [stored_valuation feed_ext (eth_row ''v'' (candidate_of eth_event, 5)
        (Priced warm_price (5 * warm_price) warm_provenance))]"
proof -
  have f: "scan_floor ''v'' (pass_key ''v'' ''ETH'') DEFAULT_LOOKBACK_SECS False warm_world = epoch"
    by (rule fresh_scan) (simp add: derived_empty_def warm_world_def eth_world_def empty_world_def)
  have c: "fetch_eth_candidates ''v'' False epoch warm_world = [candidate_of eth_event]"
    by (simp add: fetch_eth_candidates_def asset_candidates_def warm_world_def eth_world_def eth_event_def sample_event_def
        empty_world_def passes_floor_def epoch_def unresolved_def valued_def failed_before_def)
  have p: "price_eth_amount feed_ext co q warm_cfg (as_u64 (cd_block (candidate_of eth_event)))
      h (cd_ts (candidate_of eth_event)) 5 warm_world
      = (Inr (Priced warm_price (5 * warm_price) warm_provenance, [eth_price_row warm_cfg 9 h 1000 warm_price link_round]), warm_world)" for h
    by (simp add: candidate_of_def eth_event_def sample_event_def warm_priced)
  have a: "cd_asset (candidate_of eth_event) = Some ''ETH''" "cd_amount (candidate_of eth_event) = Some 5"
    by (simp_all add: candidate_of_def eth_event_def sample_event_def)
  have w: "w_valuations warm_world = []" by (simp add: warm_world_def eth_world_def empty_world_def)
  have flushed: "w_valuations (snd (case flush feed_ext b s of (b', s') \<Rightarrow> (Inr (y b') :: string + 'z, advance k m (fr s') i s')))
      = landed feed_ext b s" for b s y k m fr i
    using flush_lands(2) [of feed_ext b s] by (cases "flush feed_ext b s") simp
  show ?thesis
    unfolding run_onchain_pass_eth_def Let_def f c
    by (simp add: andthen_def eth_step_def a attempt_def p settle_eth_def eth_row_def maybe_flush_def FLUSH_THRESHOLD_def
        flushed [simplified] push_priced_def push_price_def new_buffers_def landed_def put_valuation_def ins_nothing_def w
        split: prod.splits)
qed

text \<open>What the operator truncates before a replay.\<close>

definition truncate_derived :: "'n world \<Rightarrow> 'n world" where
  "truncate_derived s = s\<lparr>w_valuations := [], w_attempts := [], w_cursors := []\<rparr>"

lemma eth_pass_frame:
  assumes "run_onchain_pass_eth x co p cfg version inc s = (r, t)"
  shows "w_events t = w_events s"
  using eth_pass_trace [OF assms] unfolding pass_did_def by (elim exE conjE)

theorem eth_pass_replayed_witness:
  "let t = snd (run_onchain_pass_eth feed_ext False idle_provider warm_cfg ''v'' False warm_world);
       t' = snd (run_onchain_pass_eth feed_ext True idle_provider warm_cfg ''v'' False (truncate_derived t)) in
     w_valuations t \<noteq> [] \<and> (\<forall>v\<in>set (w_valuations t). find_row valuation_key (w_valuations t') (valuation_key v) = Some v)"
proof -
  obtain r t where run: "run_onchain_pass_eth feed_ext False idle_provider warm_cfg ''v'' False warm_world = (r, t)"
    by fastforce
  have e: "w_events t = w_events warm_world" using eth_pass_frame [OF run] by simp
  have c: "cache_le t (truncate_derived t)" by (rule cache_le_same) (simp add: truncate_derived_def)
  have d: "derived_empty warm_world" "derived_empty (truncate_derived t)"
    by (simp_all add: derived_empty_def warm_world_def eth_world_def empty_world_def truncate_derived_def)
  have i: "distinct (map e_id (w_events warm_world))" by (simp add: warm_world_def eth_world_def)
  have "w_events (truncate_derived t) = w_events warm_world" by (simp add: truncate_derived_def e)
  from eth_pass_replayed [OF run warm_reads i d this c, of idle_provider]
  show ?thesis
    using warm_run [of False idle_provider] by (simp add: run)
qed

section \<open>Every price can be audited\<close>

text \<open>
  What the oracle calls of a block have to answer for a price: the sequencer round says up, the
  Chainlink round is complete and fresh, and its answer is positive.
\<close>

definition oracle_clears :: "decoded_round \<Rightarrow> decoded_round \<Rightarrow> int \<Rightarrow> int \<Rightarrow> bool" where
  "oracle_clears seq_round cl ts answer \<longleftrightarrow> rd_answer seq_round = ''0''
     \<and> u128_or_0 (rd_round_id cl) \<le> u128_or_0 (rd_answered_in cl)
     \<and> ts - i64_or_0 (rd_updated_at cl) \<le> STALENESS_FAIL_SECS
     \<and> parse_signed 10 128 (rd_answer cl) = Some answer \<and> 0 < answer"

text \<open>The round a cached response holds.\<close>

definition cached_round :: "ext \<Rightarrow> 'n world \<Rightarrow> string \<Rightarrow> nat \<Rightarrow> decoded_round option" where
  "cached_round x s feed block =
     (case cached_outcome s (request_hash x (round_call x feed block)) of
        None \<Rightarrow> None
      | Some oc \<Rightarrow> (case decode_round_outcome x (Inr oc) of Inl e \<Rightarrow> None | Inr rd \<Rightarrow> rd))"

lemma judge_eth_priced:
  assumes "judge_eth x cfg block hash ts amount seq_res cl_res = Inr (Priced price usd prov, rows)" and "bd_exact x"
  shows "\<exists>sr cl answer. seq_res = Some sr \<and> cl_res = Some cl \<and> oracle_clears sr cl ts answer
    \<and> price = of_int answer / 10 ^ 8 \<and> usd = amount * price"
proof -
  have c: "chainlink_price x answer = of_int answer / 10 ^ 8" for answer
    using assms(2) unfolding chainlink_price_def bd_exact_def CHAINLINK_DECIMALS_def by blast
  from assms(1) show ?thesis
    unfolding judge_eth_def Let_def c
    by (auto simp: oracle_clears_def split: option.splits if_splits)
qed

lemma price_eth_from_cache:
  assumes run: "price_eth_amount x True q cfg block hash ts amount t = (Inr (Priced price usd prov, rows), w)"
    and bd: "bd_exact x"
  shows "\<exists>sr cl answer. cached_round x t (pc_sequencer cfg) block = Some sr
    \<and> cached_round x t (pc_chainlink cfg) block = Some cl \<and> oracle_clears sr cl ts answer
    \<and> price = of_int answer / 10 ^ 8 \<and> usd = amount * price"
proof -
  let ?reqs = "[round_call x (pc_sequencer cfg) block, round_call x (pc_chainlink cfg) block]"
  from run obtain outs u where b: "core (batch_call_cached x True q ?reqs) t = (Inr outs, u)"
    and j: "\<exists>sr cl. decode_round_outcome x (outs ! 0) = Inr sr \<and> decode_round_outcome x (outs ! 1) = Inr cl
      \<and> judge_eth x cfg block hash ts amount sr cl = Inr (Priced price usd prov, rows)"
    unfolding price_eth_amount_def
    by (auto simp: andthen_Inr_iff of_result_def split: sum.splits)
  from b have b': "batch_call_cached x True q ?reqs t = (Inr outs, u)"
    by (auto simp: core_def map_err_def split: prod.splits sum.splits)
  have hit: "\<exists>oc. cached_outcome t (request_hash x (?reqs ! i)) = Some oc \<and> outs ! i = Inr oc" if i: "i < 2" for i
  proof (cases rule: batch_call_cached_cases [of x t ?reqs True q])
    case warm
    have "cached_outcome t (request_hash x (?reqs ! i)) \<noteq> None"
      using warm(1) i batch_misses_iff [of i x t ?reqs] by simp
    then show ?thesis using warm(2) b' i by (auto simp: less_Suc_eq numeral_2_eq_2)
  next
    case refused
    then show ?thesis using b' by simp
  qed simp_all
  obtain sr cl where d: "decode_round_outcome x (outs ! 0) = Inr sr" "decode_round_outcome x (outs ! 1) = Inr cl"
    and jd: "judge_eth x cfg block hash ts amount sr cl = Inr (Priced price usd prov, rows)" using j by blast
  from judge_eth_priced [OF jd bd] obtain s' c' answer where J: "sr = Some s'" "cl = Some c'"
      "oracle_clears s' c' ts answer" "price = of_int answer / 10 ^ 8" "usd = amount * price" by blast
  have "cached_round x t (pc_sequencer cfg) block = Some s'" "cached_round x t (pc_chainlink cfg) block = Some c'"
    using hit [of 0] hit [of 1] d J by (auto simp: cached_round_def)
  with J show ?thesis by blast
qed

lemma set_fold_put: "set (fold (put_valuation x) rows t) \<subseteq> set t \<union> stored_valuation x ` set rows"
proof (induction rows arbitrary: t)
  case (Cons v rows)
  have "set (put_valuation x v t) \<subseteq> insert (stored_valuation x v) (set t)"
    unfolding put_valuation_def by (rule set_ins_nothing)
  with Cons.IH [of "put_valuation x v t"] show ?case by auto
qed simp



end
