(* ===== verification/Multi_Asset.thy ===== *)
theory Multi_Asset
  imports Onchain
begin

text \<open>
  \<open>crates/livepeer-valuator/src/multi_asset.rs\<close>: an \<open>EarningsClaimed\<close> event carries an LPT and
  an ETH portion in its decoded payload and gets one valuation for each. The two portions are
  priced by the same functions as the single-asset events; the \<open>match\<close> on either result is
  \<open>settle_multi_lpt\<close> and \<open>settle_multi_eth\<close>.
\<close>

section \<open>Candidates\<close>

text \<open>\<open>LPT_DECIMALS\<close> and \<open>ETH_DECIMALS\<close> of this file; the indexer has its own.\<close>

definition REWARD_DECIMALS :: nat where "REWARD_DECIMALS = 18"
definition FEE_DECIMALS :: nat where "FEE_DECIMALS = 18"

record multi_summary =
  ms_considered :: nat
  ms_lpt_priced :: nat
  ms_eth_priced :: nat
  ms_lpt_zero :: nat
  ms_eth_zero :: nat
  ms_failures :: nat

record multi_candidate =
  mc_event :: int
  mc_block :: int
  mc_hash :: string
  mc_ts :: int
  mc_rewards_wei :: string
  mc_fees_wei :: string
  mc_finalized_at :: "int option"

text \<open>\<open>COALESCE(raw_event -> 'decoded' ->> field, '0')\<close>.\<close>

definition decoded_text :: "ext \<Rightarrow> string \<Rightarrow> event_row \<Rightarrow> string" where
  "decoded_text x field r =
     (case decoded_field x field r of
        None \<Rightarrow> ''0''
      | Some t \<Rightarrow> t)"

definition multi_candidate_of :: "ext \<Rightarrow> event_row \<Rightarrow> multi_candidate" where
  "multi_candidate_of x r =
     \<lparr>mc_event = e_id r, mc_block = e_block r, mc_hash = e_hash r, mc_ts = e_ts r,
      mc_rewards_wei = decoded_text x ''rewards'' r, mc_fees_wei = decoded_text x ''fees'' r,
      mc_finalized_at = e_finalized_at r\<rparr>"

definition multi_unresolved :: "'n world \<Rightarrow> string list \<Rightarrow> int \<Rightarrow> bool" where
  "multi_unresolved s versions event \<longleftrightarrow>
     unresolved s versions event ''LPT'' \<or> unresolved s versions event ''ETH''"

definition multi_rows :: "string list \<Rightarrow> bool \<Rightarrow> int \<Rightarrow> 'n world \<Rightarrow> event_row list" where
  "multi_rows versions include_tentative fl s =
     sort_key e_block (sort_key e_log (filter (\<lambda>r.
        e_chain r = ARBITRUM_CHAIN_ID \<and> e_valuable r \<and> e_canonical r \<and> e_name r = ''EarningsClaimed''
        \<and> e_asset r = None \<and> passes_floor include_tentative fl r
        \<and> multi_unresolved s versions (e_id r)) (w_events s)))"

definition fetch_multi_candidates :: "ext \<Rightarrow> string \<Rightarrow> bool \<Rightarrow> int \<Rightarrow> 'n world \<Rightarrow> multi_candidate list" where
  "fetch_multi_candidates x version include_tentative fl s =
     map (multi_candidate_of x) (multi_rows [version, degraded_version] include_tentative fl s)"

section \<open>One event\<close>

text \<open>The summary, the buffers and whether the event has hit a transient failure so far.\<close>

type_synonym half_state = "multi_summary \<times> buffers \<times> bool"

definition zero_row :: "multi_candidate \<Rightarrow> string \<Rightarrow> string \<Rightarrow> string \<Rightarrow> valuation_row" where
  "zero_row ev version asset reason =
     priced_row ARBITRUM_CHAIN_ID (mc_event ev) version asset ''no_amount'' ''no_amount'' (mc_block ev)
       0 0 0 (JObj [(''reason'', JStr reason)]) STATUS_PRICED"

definition push_zero_row :: "multi_candidate \<Rightarrow> string \<Rightarrow> string \<Rightarrow> string \<Rightarrow> buffers \<Rightarrow> buffers" where
  "push_zero_row ev version asset reason = push_priced (zero_row ev version asset reason)"

definition multi_lpt_row :: "multi_candidate \<Rightarrow> rat \<Rightarrow> string \<Rightarrow> string \<Rightarrow> rat \<Rightarrow> rat \<Rightarrow> json \<Rightarrow> valuation_row" where
  "multi_lpt_row ev amount version pmethod price usd provenance =
     priced_row ARBITRUM_CHAIN_ID (mc_event ev) version ''LPT'' pmethod SOURCE_LPT (mc_block ev)
       amount price usd provenance STATUS_PRICED"

definition multi_lpt_failure :: "multi_candidate \<Rightarrow> rat \<Rightarrow> string \<Rightarrow> string \<Rightarrow> json \<Rightarrow> valuation_row" where
  "multi_lpt_failure ev amount version status detail =
     failed_row ARBITRUM_CHAIN_ID (mc_event ev) version ''LPT'' PRICING_METHOD_LPT_TWAP SOURCE_LPT
       (mc_block ev) amount status detail"

definition settle_multi_lpt ::
  "string \<Rightarrow> multi_candidate \<Rightarrow> rat \<Rightarrow> string + lpt_outcome \<times> price_row list \<Rightarrow> half_state \<Rightarrow> half_state" where
  "settle_multi_lpt version ev amount res st =
     (case st of (sm, b, transient) \<Rightarrow>
      case res of
        Inr (PricedTwap price usd provenance ver, prices) \<Rightarrow>
          (sm\<lparr>ms_lpt_priced := ms_lpt_priced sm + 1\<rparr>,
           push_priced (multi_lpt_row ev amount ver PRICING_METHOD_LPT_TWAP price usd provenance)
             (fold push_price prices b), transient)
      | Inr (PricedDegraded price usd provenance ver, prices) \<Rightarrow>
          (sm\<lparr>ms_lpt_priced := ms_lpt_priced sm + 1\<rparr>,
           push_priced (multi_lpt_row ev amount ver PRICING_METHOD_LPT_SPOT price usd provenance)
             (fold push_price prices b), transient)
      | Inr (LptSequencerOutage detail, _) \<Rightarrow>
          (sm\<lparr>ms_failures := ms_failures sm + 1\<rparr>,
           push_failed_outcome (multi_lpt_failure ev amount version STATUS_FAILED_SEQUENCER_OUTAGE detail) b,
           transient)
      | Inr (LptMissingOracle detail, _) \<Rightarrow>
          (sm\<lparr>ms_failures := ms_failures sm + 1\<rparr>,
           push_failed_outcome (multi_lpt_failure ev amount version STATUS_FAILED_MISSING_ORACLE detail) b,
           transient)
      | Inr (MissingPool detail, _) \<Rightarrow>
          (sm\<lparr>ms_failures := ms_failures sm + 1\<rparr>,
           push_failed_outcome (multi_lpt_failure ev amount version STATUS_FAILED_MISSING_POOL detail) b,
           transient)
      | Inl e \<Rightarrow>
          (case permanent_lpt_failure_detail e of
             Some detail \<Rightarrow>
               (sm\<lparr>ms_failures := ms_failures sm + 1\<rparr>,
                push_failed_outcome (multi_lpt_failure ev amount version STATUS_FAILED_MISSING_POOL detail) b,
                transient)
           | None \<Rightarrow> (sm\<lparr>ms_failures := ms_failures sm + 1\<rparr>, b, True)))"

definition multi_eth_row ::
  "string \<Rightarrow> multi_candidate \<Rightarrow> rat \<Rightarrow> rat \<Rightarrow> rat \<Rightarrow> json \<Rightarrow> valuation_row" where
  "multi_eth_row version ev amount price usd provenance =
     priced_row ARBITRUM_CHAIN_ID (mc_event ev) version ''ETH'' PRICING_METHOD_ETH SOURCE_ETH
       (mc_block ev) amount price usd provenance STATUS_PRICED"

definition multi_eth_failure :: "string \<Rightarrow> multi_candidate \<Rightarrow> rat \<Rightarrow> string \<Rightarrow> json \<Rightarrow> valuation_row" where
  "multi_eth_failure version ev amount status detail =
     failed_row ARBITRUM_CHAIN_ID (mc_event ev) version ''ETH'' PRICING_METHOD_ETH SOURCE_ETH
       (mc_block ev) amount status detail"

definition settle_multi_eth ::
  "string \<Rightarrow> multi_candidate \<Rightarrow> rat \<Rightarrow> string + pricing_outcome \<times> price_row list \<Rightarrow> half_state \<Rightarrow> half_state" where
  "settle_multi_eth version ev amount res st =
     (case st of (sm, b, transient) \<Rightarrow>
      case res of
        Inr (Priced price usd provenance, prices) \<Rightarrow>
          (sm\<lparr>ms_eth_priced := ms_eth_priced sm + 1\<rparr>,
           push_priced (multi_eth_row version ev amount price usd provenance) (fold push_price prices b),
           transient)
      | Inr (SequencerOutage detail, _) \<Rightarrow>
          (sm\<lparr>ms_failures := ms_failures sm + 1\<rparr>,
           push_failed_outcome (multi_eth_failure version ev amount STATUS_FAILED_SEQUENCER_OUTAGE detail) b,
           transient)
      | Inr (MissingOracle detail, _) \<Rightarrow>
          (sm\<lparr>ms_failures := ms_failures sm + 1\<rparr>,
           push_failed_outcome (multi_eth_failure version ev amount STATUS_FAILED_MISSING_ORACLE detail) b,
           transient)
      | Inl e \<Rightarrow> (sm\<lparr>ms_failures := ms_failures sm + 1\<rparr>, b, True))"

text \<open>\<open>BigDecimal::from_str(wei).unwrap_or_default() / 10^decimals\<close>.\<close>

definition wei_amount :: "ext \<Rightarrow> nat \<Rightarrow> string \<Rightarrow> rat" where
  "wei_amount x decimals t =
     bd_div x (case bd_parse x t of None \<Rightarrow> 0 | Some q \<Rightarrow> q) (of_nat (10 ^ decimals))"

definition rewards_lpt :: "ext \<Rightarrow> multi_candidate \<Rightarrow> rat" where
  "rewards_lpt x ev = wei_amount x REWARD_DECIMALS (mc_rewards_wei ev)"

definition fees_eth :: "ext \<Rightarrow> multi_candidate \<Rightarrow> rat" where
  "fees_eth x ev = wei_amount x FEE_DECIMALS (mc_fees_wei ev)"

definition lpt_half ::
  "ext \<Rightarrow> bool \<Rightarrow> 'n provider \<Rightarrow> pricing_config \<Rightarrow> string \<Rightarrow> multi_candidate \<Rightarrow> half_state \<Rightarrow> ('n, half_state) db" where
  "lpt_half x co archive cfg version ev st =
     (case st of (sm, b, transient) \<Rightarrow>
      if rewards_lpt x ev = 0 then
        ret (sm\<lparr>ms_lpt_zero := ms_lpt_zero sm + 1\<rparr>,
             push_zero_row ev version ''LPT'' ''EarningsClaimed.rewards == 0'' b, transient)
      else andthen (attempt (price_lpt_amount x co archive cfg (as_u64 (mc_block ev)) (mc_hash ev)
             (mc_ts ev) (rewards_lpt x ev)))
           (\<lambda>res. ret (settle_multi_lpt version ev (rewards_lpt x ev) res st)))"

definition eth_half ::
  "ext \<Rightarrow> bool \<Rightarrow> 'n provider \<Rightarrow> pricing_config \<Rightarrow> string \<Rightarrow> multi_candidate \<Rightarrow> half_state \<Rightarrow> ('n, half_state) db" where
  "eth_half x co archive cfg version ev st =
     (case st of (sm, b, transient) \<Rightarrow>
      if fees_eth x ev = 0 then
        ret (sm\<lparr>ms_eth_zero := ms_eth_zero sm + 1\<rparr>,
             push_zero_row ev version ''ETH'' ''EarningsClaimed.fees == 0'' b, transient)
      else andthen (attempt (price_eth_amount x co archive cfg (as_u64 (mc_block ev)) (mc_hash ev)
             (mc_ts ev) (fees_eth x ev)))
           (\<lambda>res. ret (settle_multi_eth version ev (fees_eth x ev) res st)))"

section \<open>The pass\<close>

type_synonym multi_state = "multi_summary \<times> buffers \<times> int option"

definition multi_step ::
  "ext \<Rightarrow> bool \<Rightarrow> 'n provider \<Rightarrow> pricing_config \<Rightarrow> string \<Rightarrow> multi_candidate \<Rightarrow> multi_state \<Rightarrow> ('n, multi_state) db" where
  "multi_step x co archive cfg version ev st =
     (case st of (sm, b, m) \<Rightarrow>
      andthen (lpt_half x co archive cfg version ev (sm, b, False)) (\<lambda>st1.
      andthen (eth_half x co archive cfg version ev st1) (\<lambda>(sm2, b2, transient) s.
        let m' = (if transient then pin (mc_finalized_at ev) m else m);
            (b3, s') = maybe_flush x b2 s
        in (Inr (sm2, b3, m'), s'))))"

definition run_multi_asset_pass ::
  "ext \<Rightarrow> bool \<Rightarrow> 'n provider \<Rightarrow> pricing_config \<Rightarrow> string \<Rightarrow> bool \<Rightarrow> ('n, multi_summary) db" where
  "run_multi_asset_pass x co archive cfg version include_tentative s =
     (let cursor_key = pass_key version ''MULTI'';
          fl = scan_floor version cursor_key DEFAULT_LOOKBACK_SECS include_tentative s;
          candidates = fetch_multi_candidates x version include_tentative fl s;
          sm = \<lparr>ms_considered = length candidates, ms_lpt_priced = 0, ms_eth_priced = 0, ms_lpt_zero = 0,
                ms_eth_zero = 0, ms_failures = 0\<rparr>
      in andthen (fold_io (multi_step x co archive cfg version) candidates (sm, new_buffers, None))
           (\<lambda>(sm', b, m) s'.
              let (_, s'') = flush x b s';
                  frontier = frontier_multi ARBITRUM_CHAIN_ID s''
              in (Inr sm', advance cursor_key m frontier include_tentative s''))
           s)"

end
