(* ===== verification/Multi_Asset_Props.thy ===== *)
theory Multi_Asset_Props
  imports Multi_Asset Valuator_Passes Watchers
begin

text \<open>
  The multi-asset pass, the third instance of the incremental pass: each event is two half
  jobs, and an event with a half that is still open is never behind the cursor.
\<close>

section \<open>Half jobs\<close>

definition half_job :: "string \<Rightarrow> rat \<Rightarrow> multi_candidate \<Rightarrow> job" where
  "half_job asset amount ev =
     (\<lparr>cd_event = mc_event ev, cd_block = mc_block ev, cd_hash = mc_hash ev, cd_ts = mc_ts ev,
       cd_asset = Some asset, cd_amount = Some amount, cd_finalized_at = mc_finalized_at ev\<rparr>, amount)"

definition half_jobs :: "ext \<Rightarrow> multi_candidate \<Rightarrow> job list" where
  "half_jobs x ev = [half_job ''LPT'' (rewards_lpt x ev) ev, half_job ''ETH'' (fees_eth x ev) ev]"

text \<open>The result of a half job is the valuation it pushes, if it pushes one.\<close>

definition pushed :: "job \<Rightarrow> string + valuation_row \<times> price_row list \<Rightarrow> valuation_row option" where
  "pushed j res = (case res of Inl e \<Rightarrow> None | Inr (v, _) \<Rightarrow> Some v)"

definition row_fits :: "string \<Rightarrow> job \<Rightarrow> valuation_row \<Rightarrow> bool" where
  "row_fits version j v \<longleftrightarrow> v_event v = cd_event (fst j)
     \<and> v_version v \<in> {version, degraded_version, TWAP_VERSION} \<and> cd_asset (fst j) = Some (v_asset v)"

lemma half_job_simps [simp]:
  "fst (half_job a q ev) = \<lparr>cd_event = mc_event ev, cd_block = mc_block ev, cd_hash = mc_hash ev,
     cd_ts = mc_ts ev, cd_asset = Some a, cd_amount = Some q, cd_finalized_at = mc_finalized_at ev\<rparr>"
  "snd (half_job a q ev) = q"
  by (simp_all add: half_job_def)

lemma row_fits_rows:
  "row_fits version (half_job ''LPT'' q ev) (zero_row ev version ''LPT'' reason)"
  "row_fits version (half_job ''ETH'' q ev) (zero_row ev version ''ETH'' reason)"
  "row_fits version (half_job ''LPT'' q ev) (multi_lpt_failure ev q version st d)"
  "row_fits version (half_job ''ETH'' q ev) (multi_eth_row version ev q price usd prov)"
  "row_fits version (half_job ''ETH'' q ev) (multi_eth_failure version ev q st d)"
  by (simp_all add: row_fits_def zero_row_def priced_row_def failed_row_def multi_lpt_failure_def
      multi_eth_row_def multi_eth_failure_def)

lemma row_fits_lpt:
  "ver \<in> {degraded_version, TWAP_VERSION} \<Longrightarrow>
     row_fits version (half_job ''LPT'' q ev) (multi_lpt_row ev q ver pm price usd prov)"
  by (auto simp: row_fits_def multi_lpt_row_def priced_row_def)

text \<open>What one half does to the buffers: it pushes a fitting row, or marks the event transient.\<close>

definition half_did :: "ext \<Rightarrow> string \<Rightarrow> job \<Rightarrow> half_state \<Rightarrow> 'n world \<Rightarrow> string + half_state \<Rightarrow> 'n world \<Rightarrow> bool" where
  "half_did x version j st s r s' \<longleftrightarrow>
     (\<exists>sm' b' res. r = Inr (sm', b', snd (snd st) \<or> pushed j res = None)
       \<and> landed x b' s' = (case pushed j res of None \<Rightarrow> landed x (fst (snd st)) s
            | Some v \<Rightarrow> put_valuation x v (landed x (fst (snd st)) s))
       \<and> same_rows s s' \<and> (\<forall>v. pushed j res = Some v \<longrightarrow> row_fits version j v))"

lemma half_did_push:
  assumes "r = Inr (sm', b', tr)" "landed x b' s' = put_valuation x v (landed x b s)" "same_rows s s'"
    "row_fits version j v"
  shows "half_did x version j (sm, b, tr) s r s'"
  unfolding half_did_def
  by (rule exI [of _ sm'], rule exI [of _ b'], rule exI [of _ "Inr (v, [])"])
    (use assms in \<open>simp add: pushed_def\<close>)

lemma half_did_skip:
  assumes "r = Inr (sm', b, True)" "same_rows s s'"
  shows "half_did x version j (sm, b, tr) s r s'"
  unfolding half_did_def
  by (rule exI [of _ sm'], rule exI [of _ b], rule exI [of _ "Inl []"])
    (use assms landed_tables(1) [OF same_rowsD(3) [OF assms(2)]] in \<open>simp add: pushed_def\<close>)

lemma landed_push_zero:
  "landed x (push_zero_row ev version a reason b) s = put_valuation x (zero_row ev version a reason) (landed x b s)"
  by (simp add: push_zero_row_def)

lemma lpt_half_did:
  assumes "lpt_half x co p cfg version ev (sm, b, tr) s = (r, s')"
  shows "half_did x version (half_job ''LPT'' (rewards_lpt x ev) ev) (sm, b, tr) s r s'"
proof (cases "rewards_lpt x ev = 0")
  case True
  then show ?thesis using assms
    by (intro half_did_push [where v = "zero_row ev version ''LPT'' ''EarningsClaimed.rewards == 0''"])
      (auto simp: lpt_half_def ret_def landed_push_zero row_fits_rows)
next
  case False
  obtain res s1 where p: "price_lpt_amount x co p cfg (as_u64 (mc_block ev)) (mc_hash ev) (mc_ts ev)
      (rewards_lpt x ev) s = (res, s1)" by fastforce
  have rd: "same_rows s s1" using p only_readsD only_reads_price_lpt by blast
  have ld: "landed x b s1 = landed x b s" by (rule landed_tables(1) [OF same_rowsD(3) [OF rd]])
  have r: "r = Inr (settle_multi_lpt version ev (rewards_lpt x ev) res (sm, b, tr))" and s': "s' = s1"
    using assms p False by (auto simp: lpt_half_def andthen_def attempt_def ret_def)
  show ?thesis
  proof (cases res)
    case (Inl e)
    show ?thesis
    proof (cases "permanent_lpt_failure_detail e")
      case None
      then show ?thesis using r s' rd Inl by (intro half_did_skip) (auto simp: settle_multi_lpt_def)
    next
      case (Some d)
      then show ?thesis using r s' rd Inl ld
        by (intro half_did_push [where v = "multi_lpt_failure ev (rewards_lpt x ev) version STATUS_FAILED_MISSING_POOL d"])
          (auto simp: settle_multi_lpt_def row_fits_rows)
    qed
  next
    case (Inr o_ps)
    obtain oc ps where o: "o_ps = (oc, ps)" by (cases o_ps)
    note pv = price_lpt_version [OF p [unfolded Inr o]]
    show ?thesis
    proof (cases oc)
      case (PricedTwap price usd prov ver)
      then show ?thesis using r s' rd Inr o ld pv(1) [OF PricedTwap]
        by (intro half_did_push [where v = "multi_lpt_row ev (rewards_lpt x ev) ver PRICING_METHOD_LPT_TWAP price usd prov"])
          (auto simp: settle_multi_lpt_def row_fits_lpt)
    next
      case (PricedDegraded price usd prov ver)
      then show ?thesis using r s' rd Inr o ld pv(2) [OF PricedDegraded]
        by (intro half_did_push [where v = "multi_lpt_row ev (rewards_lpt x ev) ver PRICING_METHOD_LPT_SPOT price usd prov"])
          (auto simp: settle_multi_lpt_def row_fits_lpt)
    next
      case (LptSequencerOutage d)
      then show ?thesis using r s' rd Inr o ld
        by (intro half_did_push [where v = "multi_lpt_failure ev (rewards_lpt x ev) version STATUS_FAILED_SEQUENCER_OUTAGE d"])
          (auto simp: settle_multi_lpt_def row_fits_rows)
    next
      case (LptMissingOracle d)
      then show ?thesis using r s' rd Inr o ld
        by (intro half_did_push [where v = "multi_lpt_failure ev (rewards_lpt x ev) version STATUS_FAILED_MISSING_ORACLE d"])
          (auto simp: settle_multi_lpt_def row_fits_rows)
    next
      case (MissingPool d)
      then show ?thesis using r s' rd Inr o ld
        by (intro half_did_push [where v = "multi_lpt_failure ev (rewards_lpt x ev) version STATUS_FAILED_MISSING_POOL d"])
          (auto simp: settle_multi_lpt_def row_fits_rows)
    qed
  qed
qed

lemma eth_half_did:
  assumes "eth_half x co p cfg version ev (sm, b, tr) s = (r, s')"
  shows "half_did x version (half_job ''ETH'' (fees_eth x ev) ev) (sm, b, tr) s r s'"
proof (cases "fees_eth x ev = 0")
  case True
  then show ?thesis using assms
    by (intro half_did_push [where v = "zero_row ev version ''ETH'' ''EarningsClaimed.fees == 0''"])
      (auto simp: eth_half_def ret_def landed_push_zero row_fits_rows)
next
  case False
  obtain res s1 where p: "price_eth_amount x co p cfg (as_u64 (mc_block ev)) (mc_hash ev) (mc_ts ev)
      (fees_eth x ev) s = (res, s1)" by fastforce
  have rd: "same_rows s s1" using p only_readsD only_reads_price_eth by blast
  have ld: "landed x b s1 = landed x b s" by (rule landed_tables(1) [OF same_rowsD(3) [OF rd]])
  have r: "r = Inr (settle_multi_eth version ev (fees_eth x ev) res (sm, b, tr))" and s': "s' = s1"
    using assms p False by (auto simp: eth_half_def andthen_def attempt_def ret_def)
  show ?thesis
  proof (cases res)
    case (Inl e)
    then show ?thesis using r s' rd by (intro half_did_skip) (auto simp: settle_multi_eth_def)
  next
    case (Inr o_ps)
    obtain oc ps where o: "o_ps = (oc, ps)" by (cases o_ps)
    show ?thesis
    proof (cases oc)
      case (Priced price usd prov)
      then show ?thesis using r s' rd Inr o ld
        by (intro half_did_push [where v = "multi_eth_row version ev (fees_eth x ev) price usd prov"])
          (auto simp: settle_multi_eth_def row_fits_rows)
    next
      case (SequencerOutage d)
      then show ?thesis using r s' rd Inr o ld
        by (intro half_did_push [where v = "multi_eth_failure version ev (fees_eth x ev) STATUS_FAILED_SEQUENCER_OUTAGE d"])
          (auto simp: settle_multi_eth_def row_fits_rows)
    next
      case (MissingOracle d)
      then show ?thesis using r s' rd Inr o ld
        by (intro half_did_push [where v = "multi_eth_failure version ev (fees_eth x ev) STATUS_FAILED_MISSING_ORACLE d"])
          (auto simp: settle_multi_eth_def row_fits_rows)
    qed
  qed
qed

section \<open>The loop\<close>

text \<open>Pinning the cursor once for an event is pinning it for each of its open halves.\<close>

lemma pin_again: "pin f (pin f m) = pin f m"
  by (auto simp: pin_def min_opt_def split: option.splits)

lemma multi_step_did:
  assumes "multi_step x co p cfg version ev (sm, b, m) s = (r, s')"
  shows "\<exists>sm' b' tr. r = Inr (sm', b', trace_pins pushed tr m) \<and> map fst tr = half_jobs x ev
     \<and> landed x b' s' = fold (put_valuation x) (trace_rows pushed tr) (landed x b s)
     \<and> pass_frame s s' \<and> (\<forall>e\<in>set tr. \<forall>v. pushed (fst e) (snd e) = Some v \<longrightarrow> row_fits version (fst e) v)"
proof -
  let ?j = "half_job ''LPT'' (rewards_lpt x ev) ev" and ?k = "half_job ''ETH'' (fees_eth x ev) ev"
  obtain r1 s1 where l: "lpt_half x co p cfg version ev (sm, b, False) s = (r1, s1)" by fastforce
  from lpt_half_did [OF l] obtain sm1 b1 v1 where L: "r1 = Inr (sm1, b1, pushed ?j v1 = None)"
      "landed x b1 s1 = (case pushed ?j v1 of None \<Rightarrow> landed x b s | Some v \<Rightarrow> put_valuation x v (landed x b s))"
      "same_rows s s1" "\<forall>v. pushed ?j v1 = Some v \<longrightarrow> row_fits version ?j v"
    unfolding half_did_def fst_conv snd_conv simp_thms by (elim exE conjE) (rule that)
  obtain r2 s2 where e: "eth_half x co p cfg version ev (sm1, b1, pushed ?j v1 = None) s1 = (r2, s2)" by fastforce
  from eth_half_did [OF e] obtain sm2 b2 v2 where E: "r2 = Inr (sm2, b2, pushed ?j v1 = None \<or> pushed ?k v2 = None)"
      "landed x b2 s2 = (case pushed ?k v2 of None \<Rightarrow> landed x b1 s1 | Some v \<Rightarrow> put_valuation x v (landed x b1 s1))"
      "same_rows s1 s2" "\<forall>v. pushed ?k v2 = Some v \<longrightarrow> row_fits version ?k v"
    unfolding half_did_def fst_conv snd_conv simp_thms by (elim exE conjE) (rule that)
  obtain b3 s3 where f: "maybe_flush x b2 s2 = (b3, s3)" by fastforce
  have fr: "pass_frame s s3"
    using pass_frame_trans [OF pass_frame_trans [OF pass_frame_reads [OF L(3)] pass_frame_reads [OF E(3)]]
        pass_frame_maybe_flush [of s2 x b2]] f by simp
  have ld: "landed x b3 s3 = landed x b2 s2" using maybe_flush_lands(1) [of x b2 s2] f by simp
  let ?tr = "[(?j, v1), (?k, v2)]"
  have pins: "(if pushed ?j v1 = None \<or> pushed ?k v2 = None then pin (mc_finalized_at ev) m else m)
      = trace_pins pushed ?tr m"
    by (simp add: pin_again)
  have run: "r = Inr (sm2, b3, trace_pins pushed ?tr m)" "s' = s3"
    using assms l L(1) e E(1) f pins by (auto simp: multi_step_def andthen_def)
  have "landed x b3 s3 = fold (put_valuation x) (trace_rows pushed ?tr) (landed x b s)"
    unfolding ld E(2) L(2) by (simp split: option.split)
  moreover have "map fst ?tr = half_jobs x ev" by (simp add: half_jobs_def)
  ultimately show ?thesis using run fr L(4) E(4)
    by (intro exI [of _ sm2] exI [of _ b3] exI [of _ ?tr] conjI) simp_all
qed

lemma trace_append:
  "trace_rows row (tr @ tr') = trace_rows row tr @ trace_rows row tr'"
  "trace_pins row (tr @ tr') m = trace_pins row tr' (trace_pins row tr m)"
  by (simp_all add: trace_rows_def trace_pins_def List.map_filter_def)

lemma multi_loop:
  assumes "fold_io (multi_step x co p cfg version) cds (sm, b, m) s = (r, s')"
  shows "\<exists>sm' b' tr. r = Inr (sm', b', trace_pins pushed tr m) \<and> map fst tr = concat (map (half_jobs x) cds)
     \<and> landed x b' s' = fold (put_valuation x) (trace_rows pushed tr) (landed x b s)
     \<and> pass_frame s s' \<and> (\<forall>e\<in>set tr. \<forall>v. pushed (fst e) (snd e) = Some v \<longrightarrow> row_fits version (fst e) v)"
  using assms
proof (induction cds arbitrary: sm b m s)
  case Nil
  then show ?case by (intro exI [of _ sm] exI [of _ b] exI [of _ "[]"]) simp
next
  case (Cons ev cds)
  obtain r1 s1 where st: "multi_step x co p cfg version ev (sm, b, m) s = (r1, s1)" by fastforce
  from multi_step_did [OF st] obtain sm1 b1 tr where S:
      "r1 = Inr (sm1, b1, trace_pins pushed tr m)" "map fst tr = half_jobs x ev"
      "landed x b1 s1 = fold (put_valuation x) (trace_rows pushed tr) (landed x b s)" "pass_frame s s1"
      "\<forall>e\<in>set tr. \<forall>v. pushed (fst e) (snd e) = Some v \<longrightarrow> row_fits version (fst e) v" by (elim exE conjE) (rule that)
  have "fold_io (multi_step x co p cfg version) cds (sm1, b1, trace_pins pushed tr m) s1 = (r, s')"
    using Cons.prems st S(1) by simp
  from Cons.IH [OF this] obtain sm2 b2 tr2 where T:
      "r = Inr (sm2, b2, trace_pins pushed tr2 (trace_pins pushed tr m))"
      "map fst tr2 = concat (map (half_jobs x) cds)"
      "landed x b2 s' = fold (put_valuation x) (trace_rows pushed tr2) (landed x b1 s1)" "pass_frame s1 s'"
      "\<forall>e\<in>set tr2. \<forall>v. pushed (fst e) (snd e) = Some v \<longrightarrow> row_fits version (fst e) v" by (elim exE conjE) (rule that)
  show ?case
    by (intro exI [of _ sm2] exI [of _ b2] exI [of _ "tr @ tr2"] conjI)
      (use S T pass_frame_trans [OF S(4) T(4)] in \<open>auto simp: trace_append\<close>)
qed

lemma multi_pass_trace:
  assumes "run_multi_asset_pass x co p cfg version inc s = (r, t)"
  shows "\<exists>sm tr. r = Inr sm
     \<and> map fst tr = concat (map (half_jobs x) (fetch_multi_candidates x version inc
          (scan_floor version (pass_key version ''MULTI'') DEFAULT_LOOKBACK_SECS inc s) s))
     \<and> pass_did (pass_key version ''MULTI'') (in_multi_universe ARBITRUM_CHAIN_ID) inc x
          (trace_rows pushed tr) (trace_pins pushed tr None) s t
     \<and> (\<forall>e\<in>set tr. \<forall>v. pushed (fst e) (snd e) = Some v \<longrightarrow> row_fits version (fst e) v)"
proof -
  let ?c = "fetch_multi_candidates x version inc
    (scan_floor version (pass_key version ''MULTI'') DEFAULT_LOOKBACK_SECS inc s) s"
  let ?sm = "\<lparr>ms_considered = length ?c, ms_lpt_priced = 0, ms_eth_priced = 0, ms_lpt_zero = 0,
      ms_eth_zero = 0, ms_failures = 0\<rparr>"
  obtain r1 s1 where l: "fold_io (multi_step x co p cfg version) ?c (?sm, new_buffers, None) s = (r1, s1)"
    by fastforce
  from multi_loop [OF l] obtain sm b tr where L:
      "r1 = Inr (sm, b, trace_pins pushed tr None)" "map fst tr = concat (map (half_jobs x) ?c)"
      "landed x b s1 = fold (put_valuation x) (trace_rows pushed tr) (landed x new_buffers s)" "pass_frame s s1"
      "\<forall>e\<in>set tr. \<forall>v. pushed (fst e) (snd e) = Some v \<longrightarrow> row_fits version (fst e) v" by (elim exE conjE) (rule that)
  have t: "t = advance (pass_key version ''MULTI'') (trace_pins pushed tr None)
      (frontier_of (in_multi_universe ARBITRUM_CHAIN_ID) (snd (flush x b s1))) inc (snd (flush x b s1))"
    and r: "r = Inr sm"
    using assms l L(1) by (auto simp: run_multi_asset_pass_def frontiers Let_def andthen_def split: prod.splits)
  from pass_finish [OF L(4) L(3) [unfolded landed_new] t] r L(2,5) show ?thesis
    by (intro exI [of _ sm] exI [of _ tr] conjI)
qed

section \<open>No event with an open half is lost behind the cursor\<close>

definition multi_settled :: "string \<Rightarrow> 'n world \<Rightarrow> event_row \<Rightarrow> bool" where
  "multi_settled version s r \<longleftrightarrow>
     \<not> multi_unresolved s [version, degraded_version, TWAP_VERSION] (e_id r)"

lemma multi_half_visited:
  assumes "r \<in> set (w_events s)" "in_multi_universe ARBITRUM_CHAIN_ID r" "e_finalized_at r = Some f" "fl \<le> f"
    "unresolved s [version, degraded_version] (e_id r) a" "a \<in> {''LPT'', ''ETH''}"
  shows "\<exists>j\<in>set (concat (map (half_jobs x) (fetch_multi_candidates x version False fl s))).
    cd_event (fst j) = e_id r \<and> cd_asset (fst j) = Some a \<and> cd_finalized_at (fst j) = Some f"
proof -
  have "r \<in> set (multi_rows [version, degraded_version] False fl s)"
    using assms by (auto simp: multi_rows_def in_multi_universe_def passes_floor_def multi_unresolved_def)
  then have m: "multi_candidate_of x r \<in> set (fetch_multi_candidates x version False fl s)"
    by (simp add: fetch_multi_candidates_def)
  have f: "mc_event (multi_candidate_of x r) = e_id r" "mc_finalized_at (multi_candidate_of x r) = Some f"
    using assms(3) by (simp_all add: multi_candidate_of_def)
  have "\<exists>j\<in>set (half_jobs x (multi_candidate_of x r)).
      cd_event (fst j) = e_id r \<and> cd_asset (fst j) = Some a \<and> cd_finalized_at (fst j) = Some f"
    using assms(6) f by (auto simp: half_jobs_def)
  with m show ?thesis by auto
qed

interpretation multi_pass: incremental_pass
  "\<lambda>s. snd (run_multi_asset_pass x co p cfg version False s)" version "pass_key version ''MULTI''"
  "in_multi_universe ARBITRUM_CHAIN_ID" "multi_settled version" for x co p cfg version
proof
  fix s :: "'a world"
  let ?t = "snd (run_multi_asset_pass x co p cfg version False s)"
  let ?vs = "[version, degraded_version, TWAP_VERSION]"
  obtain r' where "run_multi_asset_pass x co p cfg version False s = (r', ?t)" by (metis prod.collapse)
  from multi_pass_trace [OF this] obtain tr where
    tr: "map fst tr = concat (map (half_jobs x) (fetch_multi_candidates x version False
          (scan_floor version (pass_key version ''MULTI'') DEFAULT_LOOKBACK_SECS False s) s))"
    and did: "pass_did (pass_key version ''MULTI'') (in_multi_universe ARBITRUM_CHAIN_ID) False x
          (trace_rows pushed tr) (trace_pins pushed tr None) s ?t"
    and fits: "\<forall>e\<in>set tr. \<forall>v. pushed (fst e) (snd e) = Some v \<longrightarrow> row_fits version (fst e) v"
    by (elim exE conjE) (rule that)
  show "w_events ?t = w_events s" using did by (simp add: pass_did_def)
  fix r
  show "multi_settled version ?t r" if "multi_settled version s r"
    using that pass_did_settled [OF did] by (simp add: multi_settled_def multi_unresolved_def)
  fix f wm
  assume r: "r \<in> set (w_events s)" "in_multi_universe ARBITRUM_CHAIN_ID r" "e_finalized_at r = Some f"
    "scan_floor version (pass_key version ''MULTI'') DEFAULT_LOOKBACK_SECS False s \<le> f"
    "\<not> multi_settled version ?t r" "stored_watermark ?t (pass_key version ''MULTI'') = Some wm"
  obtain a where a: "a \<in> {''LPT'', ''ETH''}" and u: "unresolved ?t ?vs (e_id r) a"
    using r(5) unfolding multi_settled_def multi_unresolved_def by blast
  have "unresolved s ?vs (e_id r) a" using pass_did_settled [OF did] u by blast
  then have "unresolved s [version, degraded_version] (e_id r) a" by (rule unresolved_fewer) auto
  then have "\<exists>j\<in>set (map fst tr). cd_event (fst j) = e_id r \<and> cd_asset (fst j) = Some a \<and> cd_finalized_at (fst j) = Some f"
    unfolding tr by (rule multi_half_visited [OF r(1-4) _ a])
  then obtain j where
    j: "j \<in> set (map fst tr)" "cd_event (fst j) = e_id r" "cd_asset (fst j) = Some a" "cd_finalized_at (fst j) = Some f"
    by (elim bexE conjE) (rule that)
  then obtain res where jr: "(j, res) \<in> set tr" by auto
  have ev: "v_event v = e_id r \<and> v_version v \<in> set ?vs \<and> v_asset v = a" if "pushed j res = Some v" for v
    using fits [THEN bspec, OF jr] that j(2,3) by (simp add: row_fits_def)
  show "wm \<le> f" by (rule pass_did_visits [OF did r(1,2,3) jr j(4) ev u r(6)])
qed

lemma multi_passes_catch_up:
  "caught_up (pass_key version ''MULTI'') (in_multi_universe ARBITRUM_CHAIN_ID) (multi_settled version) s \<Longrightarrow>
   caught_up (pass_key version ''MULTI'') (in_multi_universe ARBITRUM_CHAIN_ID) (multi_settled version)
     (fold (\<lambda>(co, p, cfg) u. snd (run_multi_asset_pass x co p cfg version False u)) runs s)"
proof (induction runs arbitrary: s)
  case (Cons rn runs)
  obtain co p cfg where rn: "rn = (co, p, cfg)" by (cases rn)
  from Cons.IH [OF multi_pass.pass_catches_up [OF Cons.prems, of x co p cfg]] show ?case by (simp add: rn)
qed simp

lemma multi_pass_returns: "\<exists>sm. fst (run_multi_asset_pass x co p cfg version inc s) = Inr sm"
proof -
  obtain r t where rt: "run_multi_asset_pass x co p cfg version inc s = (r, t)" by fastforce
  from multi_pass_trace [OF rt] show ?thesis by (elim exE conjE) (simp add: rt)
qed

lemma multi_unresolved_twap:
  "multi_unresolved s [TWAP_VERSION, degraded_version, TWAP_VERSION] e = multi_unresolved s [TWAP_VERSION, degraded_version] e"
  by (auto simp: multi_unresolved_def unresolved_def valued_def failed_before_def)

lemma same_multi_candidates:
  assumes "caught_up (pass_key TWAP_VERSION ''MULTI'') (in_multi_universe ARBITRUM_CHAIN_ID) (multi_settled TWAP_VERSION) s"
    and "fl = scan_floor TWAP_VERSION (pass_key TWAP_VERSION ''MULTI'') DEFAULT_LOOKBACK_SECS False s"
  shows "fetch_multi_candidates x TWAP_VERSION False fl s = fetch_multi_candidates x TWAP_VERSION False epoch s"
proof -
  have "passes_floor False fl r \<longleftrightarrow> passes_floor False epoch r"
    if m: "r \<in> set (w_events s)" "e_chain r = ARBITRUM_CHAIN_ID" "e_valuable r" "e_canonical r"
      "e_name r = ''EarningsClaimed''" "e_asset r = None"
      "multi_unresolved s [TWAP_VERSION, degraded_version] (e_id r)" for r
  proof (cases "e_finality r = Finalized")
    case True
    then have "in_multi_universe ARBITRUM_CHAIN_ID r" using m by (simp add: in_multi_universe_def)
    moreover have "\<not> multi_settled TWAP_VERSION s r" using m(7) by (simp add: multi_settled_def multi_unresolved_twap)
    ultimately obtain t where t: "0 \<le> t" "e_finalized_at r = Some t"
      "\<forall>wm. stored_watermark s (pass_key TWAP_VERSION ''MULTI'') = Some wm \<longrightarrow> wm - DEFAULT_LOOKBACK_SECS \<le> t"
      using assms(1) [unfolded caught_up_def, THEN bspec, OF m(1)] by blast
    have "fl \<le> t" unfolding assms(2) scan_floor_def using t(1,3) by (simp add: epoch_def split: option.split)
    then show ?thesis using t by (simp add: passes_floor_def epoch_def)
  qed (simp add: passes_floor_def)
  note same = this
  have "filter (\<lambda>r. e_chain r = ARBITRUM_CHAIN_ID \<and> e_valuable r \<and> e_canonical r \<and> e_name r = ''EarningsClaimed''
        \<and> e_asset r = None \<and> passes_floor False fl r
        \<and> multi_unresolved s [TWAP_VERSION, degraded_version] (e_id r)) (w_events s)
      = filter (\<lambda>r. e_chain r = ARBITRUM_CHAIN_ID \<and> e_valuable r \<and> e_canonical r \<and> e_name r = ''EarningsClaimed''
        \<and> e_asset r = None \<and> passes_floor False epoch r
        \<and> multi_unresolved s [TWAP_VERSION, degraded_version] (e_id r)) (w_events s)"
  proof (rule filter_cong [OF refl])
    fix r assume "r \<in> set (w_events s)"
    from same [OF this] show "(e_chain r = ARBITRUM_CHAIN_ID \<and> e_valuable r \<and> e_canonical r
        \<and> e_name r = ''EarningsClaimed'' \<and> e_asset r = None \<and> passes_floor False fl r
        \<and> multi_unresolved s [TWAP_VERSION, degraded_version] (e_id r))
      \<longleftrightarrow> (e_chain r = ARBITRUM_CHAIN_ID \<and> e_valuable r \<and> e_canonical r
        \<and> e_name r = ''EarningsClaimed'' \<and> e_asset r = None \<and> passes_floor False epoch r
        \<and> multi_unresolved s [TWAP_VERSION, degraded_version] (e_id r))"
      by (cases "multi_unresolved s [TWAP_VERSION, degraded_version] (e_id r)") (simp_all cong: conj_cong)
  qed
  then show ?thesis unfolding fetch_multi_candidates_def multi_rows_def by (simp only:)
qed

text \<open>
  After any number of multi-asset passes, each with its own provider, configuration and
  cache mode, the next incremental scan finds the same \<open>EarningsClaimed\<close> events, in the same
  order, as a scan of the whole history: an event with one half priced and the other half
  failing transiently stays in reach until both are resolved. Every pass returns.
\<close>

theorem multi_scan_complete:
  fixes s :: "'n world"
  assumes "caught_up (pass_key TWAP_VERSION ''MULTI'') (in_multi_universe ARBITRUM_CHAIN_ID) (multi_settled TWAP_VERSION) s"
    and "t = fold (\<lambda>(co, p, cfg) u. snd (run_multi_asset_pass x co p cfg TWAP_VERSION False u)) runs s"
  shows "fetch_multi_candidates x TWAP_VERSION False
        (scan_floor TWAP_VERSION (pass_key TWAP_VERSION ''MULTI'') DEFAULT_LOOKBACK_SECS False t) t
      = fetch_multi_candidates x TWAP_VERSION False epoch t
    \<and> (\<exists>sm. fst (run_multi_asset_pass x co p cfg TWAP_VERSION False t) = Inr sm)"
proof
  have "caught_up (pass_key TWAP_VERSION ''MULTI'') (in_multi_universe ARBITRUM_CHAIN_ID) (multi_settled TWAP_VERSION) t"
    unfolding assms(2) by (rule multi_passes_catch_up [OF assms(1)])
  then show "fetch_multi_candidates x TWAP_VERSION False
        (scan_floor TWAP_VERSION (pass_key TWAP_VERSION ''MULTI'') DEFAULT_LOOKBACK_SECS False t) t
      = fetch_multi_candidates x TWAP_VERSION False epoch t"
    by (rule same_multi_candidates [OF _ refl])
  show "\<exists>sm. fst (run_multi_asset_pass x co p cfg TWAP_VERSION False t) = Inr sm"
    by (rule multi_pass_returns)
qed

definition earnings_event :: event_row where
  "earnings_event = sample_event\<lparr>e_name := ''EarningsClaimed'', e_asset := None, e_finality := Finalized,
     e_finalized_at := Some 700, e_raw := JObj [(''decoded'', JObj [(''rewards'', JStr ''5''), (''fees'', JStr ''0'')])]\<rparr>"

definition earnings_world :: "unit world" where
  "earnings_world = (empty_world ())\<lparr>w_events := [earnings_event]\<rparr>"

theorem multi_scan_complete_witness:
  "fetch_multi_candidates sample_ext TWAP_VERSION False
      (scan_floor TWAP_VERSION (pass_key TWAP_VERSION ''MULTI'') DEFAULT_LOOKBACK_SECS False earnings_world) earnings_world
    = [multi_candidate_of sample_ext earnings_event]"
proof -
  have c: "caught_up key (in_multi_universe ARBITRUM_CHAIN_ID) resolved earnings_world" for key resolved
    by (simp add: caught_up_def earnings_world_def earnings_event_def stored_watermark_def empty_world_def)
  have f: "fetch_multi_candidates sample_ext TWAP_VERSION False epoch earnings_world
      = [multi_candidate_of sample_ext earnings_event]"
    by (simp add: fetch_multi_candidates_def multi_rows_def earnings_world_def earnings_event_def sample_event_def
        empty_world_def passes_floor_def epoch_def multi_unresolved_def unresolved_def valued_def failed_before_def)
  show ?thesis using multi_scan_complete [OF c, of earnings_world sample_ext "[]"] by (simp add: f)
qed

end
