(* ===== verification/Seed_Pass.thy ===== *)
theory Seed_Pass
  imports Valuator_Store
begin

text \<open>
  \<open>crates/livepeer-valuator/src/seed.rs\<close>: events are valued from imported historical prices
  with one batched \<open>INSERT ... SELECT\<close>, repeated until a batch inserts nothing, behind a
  change detector that compares the number of seed rows with the one the last run stored.
  Two seeds of one event have the same place in the order of the batch; the model takes them
  in the order in which they were imported.
\<close>

definition SEED_PRICING_METHOD :: string where "SEED_PRICING_METHOD = ''seed_lookup''"
definition SEED_SOURCE :: string where "SEED_SOURCE = ''trusted_historical_seed_v1''"
definition SEED_BATCH_SIZE :: nat where "SEED_BATCH_SIZE = 100000"

record seed_summary =
  ss_considered :: nat
  ss_hits :: nat
  ss_misses :: nat
  ss_priced :: nat
  ss_multi_skipped :: nat

definition default_seed_summary :: seed_summary where
  "default_seed_summary =
     \<lparr>ss_considered = 0, ss_hits = 0, ss_misses = 0, ss_priced = 0, ss_multi_skipped = 0\<rparr>"

section \<open>Candidates\<close>

text \<open>The \<open>WHERE\<close> clause on the event, and the anti-join with the valuations of the version.\<close>

definition seedable :: "bool \<Rightarrow> event_row \<Rightarrow> bool" where
  "seedable include_tentative r \<longleftrightarrow>
     e_chain r = ARBITRUM_CHAIN_ID \<and> e_valuable r \<and> e_canonical r \<and> e_asset r \<noteq> None
     \<and> e_amount r \<noteq> None \<and> (include_tentative \<or> e_finality r = Finalized)"

definition seed_matches :: "event_row \<Rightarrow> seed_row \<Rightarrow> bool" where
  "seed_matches r sd \<longleftrightarrow> s_chain sd = e_chain r \<and> s_tx sd = e_tx r \<and> e_asset r = Some (s_asset sd)"

definition not_valued_as :: "valuation_row list \<Rightarrow> string \<Rightarrow> event_row \<Rightarrow> bool" where
  "not_valued_as vs version r \<longleftrightarrow>
     (\<forall>v\<in>set vs. \<not> (v_event v = e_id r \<and> v_version v = version \<and> e_asset r = Some (v_asset v)))"

definition has_seed_candidates :: "string \<Rightarrow> bool \<Rightarrow> 'n world \<Rightarrow> bool" where
  "has_seed_candidates version include_tentative s \<longleftrightarrow>
     (\<exists>r\<in>set (w_events s). seedable include_tentative r \<and> (\<exists>sd\<in>set (w_seeds s). seed_matches r sd)
        \<and> not_valued_as (w_valuations s) version r)"

definition joined_seeds :: "bool \<Rightarrow> event_row list \<Rightarrow> seed_row list \<Rightarrow> (event_row \<times> seed_row) list" where
  "joined_seeds include_tentative events seeds =
     concat (map (\<lambda>r. map (\<lambda>sd. (r, sd)) (filter (seed_matches r) seeds))
       (sort_key e_block (sort_key e_log (sort_key e_id (filter (seedable include_tentative) events)))))"

definition seed_candidates :: "string \<Rightarrow> bool \<Rightarrow> 'n world \<Rightarrow> (event_row \<times> seed_row) list" where
  "seed_candidates version include_tentative s =
     filter (\<lambda>c. not_valued_as (w_valuations s) version (fst c))
       (joined_seeds include_tentative (w_events s) (w_seeds s))"

section \<open>One batch\<close>

definition seed_provenance :: "ext \<Rightarrow> event_row \<Rightarrow> seed_row \<Rightarrow> rat \<Rightarrow> json" where
  "seed_provenance x r sd amount =
     JObj [(''steps'', JArr [JObj [(''asset'', JStr (s_asset sd)), (''quote'', JStr ''USD''),
              (''price'', JStr (numeric_text x 18 (s_price sd))), (''source'', JStr SEED_SOURCE),
              (''block_number'', JNum (e_block r)), (''raw_seed'', s_raw sd),
              (''note'', JStr (''amount_native re-derived from chain per SPEC '' @ SECTION_SIGN
                 @ ''8.7 / Q-OD-1; price + amount_usd_authoritative_for_seed_only fields from SQLite seed''))]]),
           (''result'', JObj [(''asset'', JStr (s_asset sd)), (''quote'', JStr ''USD''),
              (''price'', JStr (numeric_text x 18 (s_price sd))),
              (''amount_native'', JStr (numeric_text x 18 amount)),
              (''amount_usd'', JStr (numeric_text x 36 (amount * s_price sd)))]),
           (''_seed_amount_usd_for_audit'', JStr (numeric_text x 18 (s_usd sd)))]"

definition seed_valuation :: "ext \<Rightarrow> string \<Rightarrow> event_row \<times> seed_row \<Rightarrow> valuation_row" where
  "seed_valuation x version c =
     (case c of (r, sd) \<Rightarrow>
      let amount = (case e_amount r of Some a \<Rightarrow> a | None \<Rightarrow> 0) in
      priced_row (e_chain r) (e_id r) version (s_asset sd) SEED_PRICING_METHOD SEED_SOURCE (e_block r)
        amount (s_price sd) (amount * s_price sd) (seed_provenance x r sd amount) STATUS_PRICED)"

text \<open>\<open>INSERT ... ON CONFLICT DO NOTHING RETURNING\<close>: the rows stored, and the table with them.\<close>

definition insert_returning ::
  "ext \<Rightarrow> valuation_row \<Rightarrow> valuation_row list \<times> valuation_row list \<Rightarrow> valuation_row list \<times> valuation_row list" where
  "insert_returning x v st =
     (case st of (new, t) \<Rightarrow>
      if find_row valuation_key t (valuation_key v) = None then (new @ [v], put_valuation x v t) else (new, t))"

text \<open>The attempts of the inserted rows are numbered from the table before the statement.\<close>

definition seed_attempt :: "attempt_row list \<Rightarrow> valuation_row \<Rightarrow> attempt_row" where
  "seed_attempt t v =
     (let i = attempt_for v STATUS_PRICED None in numbered i (max_attempt t (input_key i) + 1))"

definition seed_batch :: "ext \<Rightarrow> string \<Rightarrow> bool \<Rightarrow> 'n world \<Rightarrow> nat \<times> 'n world" where
  "seed_batch x version include_tentative s =
     (let candidates = take SEED_BATCH_SIZE (seed_candidates version include_tentative s);
          (new, vals) = fold (insert_returning x) (map (seed_valuation x version) candidates)
             ([], w_valuations s);
          attempts = fold (ins_nothing attempt_key) (map (seed_attempt (w_attempts s)) new) (w_attempts s)
      in (length new, s\<lparr>w_valuations := vals, w_attempts := attempts\<rparr>))"

section \<open>The loop ends\<close>

lemma insert_returning_fold:
  "fold (insert_returning x) vs (new, t) = (fst (fold (insert_returning x) vs (new, t)), fold (put_valuation x) vs t)"
proof (induction vs arbitrary: new t)
  case (Cons v vs)
  have "insert_returning x v (new, t) = (fst (insert_returning x v (new, t)), put_valuation x v t)"
    by (auto simp: insert_returning_def put_valuation_def ins_nothing_def stored_valuation_def valuation_key_def)
  then show ?case using Cons by (metis fold_simps(2))
qed simp

lemma seed_batch_tables:
  "w_events (snd (seed_batch x version inc s)) = w_events s"
  "w_seeds (snd (seed_batch x version inc s)) = w_seeds s"
  "w_cursors (snd (seed_batch x version inc s)) = w_cursors s"
  "w_valuations (snd (seed_batch x version inc s)) = fold (put_valuation x)
     (map (seed_valuation x version) (take SEED_BATCH_SIZE (seed_candidates version inc s))) (w_valuations s)"
  using insert_returning_fold [of x "map (seed_valuation x version) (take SEED_BATCH_SIZE (seed_candidates version inc s))"
      "[]" "w_valuations s"]
  by (auto simp: seed_batch_def Let_def split: prod.splits)

lemma seed_valuation_key [simp]:
  "valuation_key (seed_valuation x version c) = (e_id (fst c), version, s_asset (snd c))"
  by (cases c) (simp add: seed_valuation_def valuation_key_def priced_row_def Let_def)

lemma joined_seeds_match: "c \<in> set (joined_seeds inc events seeds) \<Longrightarrow> e_asset (fst c) = Some (s_asset (snd c))"
  by (auto simp: joined_seeds_def seed_matches_def)

lemma not_valued_key:
  "e_asset r = Some a \<Longrightarrow> not_valued_as vs version r \<longleftrightarrow> find_row valuation_key vs (e_id r, version, a) = None"
  by (auto simp: not_valued_as_def find_row_None_iff valuation_key_def image_iff)

lemma fold_put_find:
  "find_row valuation_key (fold (put_valuation x) vs t) k = None \<longleftrightarrow>
     find_row valuation_key t k = None \<and> k \<notin> valuation_key ` set vs"
  by (induction vs arbitrary: t) (auto simp: put_valuation_find split: if_splits)

text \<open>The candidates behind a batch are those of its candidates that it did not value.\<close>

lemma seed_candidates_after:
  "seed_candidates version inc (snd (seed_batch x version inc s)) =
     filter (\<lambda>c. (e_id (fst c), version, s_asset (snd c)) \<notin> valuation_key `
       set (map (seed_valuation x version) (take SEED_BATCH_SIZE (seed_candidates version inc s))))
       (seed_candidates version inc s)"
  unfolding seed_candidates_def [of version inc s] seed_candidates_def [of _ _ "snd (seed_batch x version inc s)"]
    seed_batch_tables filter_filter
  by (rule filter_cong [OF refl]) (auto simp: not_valued_key [OF joined_seeds_match] fold_put_find)

lemma seed_batch_shrinks:
  assumes "seed_candidates version inc s \<noteq> []"
  shows "length (seed_candidates version inc (snd (seed_batch x version inc s))) < length (seed_candidates version inc s)"
proof -
  obtain c cs where c: "seed_candidates version inc s = c # cs" using assms by (cases "seed_candidates version inc s") auto
  have "c \<in> set (take SEED_BATCH_SIZE (seed_candidates version inc s))" unfolding c by (simp add: SEED_BATCH_SIZE_def)
  then show ?thesis unfolding seed_candidates_after
    by (intro length_filter_less [of c]) (auto simp: c image_image)
qed

lemma seed_batch_none: "seed_candidates version inc s = [] \<Longrightarrow> fst (seed_batch x version inc s) = 0"
  by (simp add: seed_batch_def Let_def)

function seed_loop :: "ext \<Rightarrow> string \<Rightarrow> bool \<Rightarrow> nat \<Rightarrow> 'n world \<Rightarrow> nat \<times> 'n world" where
  "seed_loop x version include_tentative priced_this_run s =
     (let (inserted, s') = seed_batch x version include_tentative s in
      if inserted = 0 then (priced_this_run, s')
      else seed_loop x version include_tentative (priced_this_run + inserted) s')"
  by pat_completeness auto
termination
proof (relation "measure (\<lambda>(x, version, inc, n, s). length (seed_candidates version inc s))", goal_cases)
  case 1
  then show ?case by simp
next
  case (2 x version inc n s b k s')
  have "seed_candidates version inc s \<noteq> []"
    using 2 seed_batch_none [of version inc s x] by (cases "seed_batch x version inc s") auto
  moreover have "s' = snd (seed_batch x version inc s)" using 2 by (cases "seed_batch x version inc s") simp
  ultimately show ?case using seed_batch_shrinks [of version inc s x] by simp
qed

declare seed_loop.simps [simp del]

section \<open>The pass\<close>

definition stored_seed_count :: "'n world \<Rightarrow> string \<Rightarrow> int option" where
  "stored_seed_count s key = Option.bind (find_row u_key (w_cursors s) key) u_seed"

definition record_seed_marker :: "string \<Rightarrow> int \<Rightarrow> 'n world \<Rightarrow> 'n world" where
  "record_seed_marker key seeds s =
     s\<lparr>w_cursors := upsert u_key (\<lambda>old new. old\<lparr>u_watermark := u_watermark new, u_seed := u_seed new\<rparr>)
        \<lparr>u_key = key, u_watermark = w_now s, u_seed = Some seeds\<rparr> (w_cursors s)\<rparr>"

definition run_seed_pass :: "ext \<Rightarrow> string \<Rightarrow> bool \<Rightarrow> 'n world \<Rightarrow> seed_summary \<times> 'n world" where
  "run_seed_pass x version include_tentative s =
     (let key = pass_key version ''SEED'';
          seeds = int (length (w_seeds s));
          marked = (\<lambda>s. if include_tentative then s else record_seed_marker key seeds s)
      in if \<not> include_tentative \<and> has_valuations s version \<and> stored_seed_count s key = Some seeds
         then (default_seed_summary, s)
         else if \<not> has_seed_candidates version include_tentative s then (default_seed_summary, marked s)
         else let (priced, s') = seed_loop x version include_tentative 0 s in
              (default_seed_summary\<lparr>ss_priced := priced\<rparr>, marked s'))"

end
