(* ===== verification/Seed_Props.thy ===== *)
theory Seed_Props
  imports Seed_Pass Valuator_Facts
begin

text \<open>
  The seed pass: its chunked loop does what one statement over all candidates would do, and
  what its change detector overlooks.
\<close>

section \<open>One batch appends\<close>

lemma insert_returning_appends:
  assumes "distinct (map valuation_key new)" "\<forall>v\<in>set new. find_row valuation_key t (valuation_key v) = None"
  shows "\<exists>new'. fold (insert_returning x) vs (new, t @ map (stored_valuation x) new)
        = (new', t @ map (stored_valuation x) new')
      \<and> distinct (map valuation_key new') \<and> (\<forall>v\<in>set new'. find_row valuation_key t (valuation_key v) = None)
      \<and> set new' \<subseteq> set new \<union> set vs"
  using assms
proof (induction vs arbitrary: new)
  case Nil
  then show ?case by auto
next
  case (Cons v vs)
  let ?t = "t @ map (stored_valuation x) new"
  show ?case
  proof (cases "find_row valuation_key ?t (valuation_key v) = None")
    case False
    then show ?thesis using Cons.IH [OF Cons.prems] by (auto simp: insert_returning_def)
  next
    case True
    then have "valuation_key v \<notin> valuation_key ` set new" "find_row valuation_key t (valuation_key v) = None"
      by (simp_all add: find_row_None_iff image_Un image_image)
    then have "distinct (map valuation_key (new @ [v]))"
        "\<forall>w\<in>set (new @ [v]). find_row valuation_key t (valuation_key w) = None"
      using Cons.prems by simp_all
    from Cons.IH [OF this] obtain new' where n: "fold (insert_returning x) vs (new @ [v], t @ map (stored_valuation x) (new @ [v]))
        = (new', t @ map (stored_valuation x) new')" "distinct (map valuation_key new')"
        "\<forall>v\<in>set new'. find_row valuation_key t (valuation_key v) = None" "set new' \<subseteq> set (new @ [v]) \<union> set vs"
      by (elim exE conjE) (rule that)
    have "insert_returning x v (new, ?t) = (new @ [v], t @ map (stored_valuation x) (new @ [v]))"
      using True by (simp add: insert_returning_def put_valuation_def ins_nothing_def)
    then show ?thesis using n by (intro exI [of _ new']) auto
  qed
qed

lemma fold_ins_nothing_fresh:
  "distinct (map key rs) \<Longrightarrow> (\<forall>r\<in>set rs. find_row key t (key r) = None) \<Longrightarrow> fold (ins_nothing key) rs t = t @ rs"
proof (induction rs arbitrary: t)
  case (Cons r rs)
  then have "\<forall>q\<in>set rs. find_row key (t @ [r]) (key q) = None"
    by (auto simp: find_row_None_iff) (metis image_eqI)
  then show ?case using Cons by (simp add: ins_nothing_def)
qed simp

lemma seed_attempt_key:
  "attempt_group (seed_attempt t v) = valuation_key v" "a_status (seed_attempt t v) = STATUS_PRICED"
  "a_number (seed_attempt t v) = max_attempt t (valuation_key v) + 1"
  by (simp_all add: seed_attempt_def Let_def input_key_def attempt_for_def valuation_key_def)
    (simp_all add: numbered_def)

lemma seed_attempts_appended:
  assumes "distinct (map valuation_key new)"
  shows "fold (ins_nothing attempt_key) (map (seed_attempt t) new) t = t @ map (seed_attempt t) new"
proof (rule fold_ins_nothing_fresh)
  have "inj_on (\<lambda>v. attempt_key (seed_attempt t v)) (set new)"
    using assms by (auto simp: inj_on_def attempt_key_split seed_attempt_key distinct_map)
  then show "distinct (map attempt_key (map (seed_attempt t) new))"
    using assms by (simp add: distinct_map comp_def)
  show "\<forall>r\<in>set (map (seed_attempt t) new). find_row attempt_key t (attempt_key r) = None"
    by (auto simp: find_row_None_iff attempt_key_split seed_attempt_key dest!: max_attempt_ge)
qed

lemma seed_batch_appends:
  "\<exists>new. fst (seed_batch x version inc s) = length new
     \<and> w_valuations (snd (seed_batch x version inc s)) = w_valuations s @ map (stored_valuation x) new
     \<and> w_attempts (snd (seed_batch x version inc s)) = w_attempts s @ map (seed_attempt (w_attempts s)) new"
proof -
  let ?vs = "map (seed_valuation x version) (take SEED_BATCH_SIZE (seed_candidates version inc s))"
  obtain new where n: "fold (insert_returning x) ?vs ([], w_valuations s)
        = (new, w_valuations s @ map (stored_valuation x) new)" "distinct (map valuation_key new)"
    using insert_returning_appends [of "[]" "w_valuations s" x ?vs] by auto
  show ?thesis
    by (rule exI [of _ new]) (simp add: seed_batch_def Let_def n(1) seed_attempts_appended [OF n(2)])
qed

section \<open>The loop is one insert\<close>

lemma put_valuation_present: "find_row valuation_key t (valuation_key v) \<noteq> None \<Longrightarrow> put_valuation x v t = t"
  by (simp add: put_valuation_def ins_nothing_def)

lemma fold_put_skip:
  assumes "\<forall>c\<in>set cs. \<not> P c \<longrightarrow> find_row valuation_key t (valuation_key (f c)) \<noteq> None"
  shows "fold (put_valuation x) (map f (filter P cs)) t = fold (put_valuation x) (map f cs) t"
  using assms
proof (induction cs arbitrary: t)
  case (Cons c cs)
  have "\<forall>d\<in>set cs. \<not> P d \<longrightarrow> find_row valuation_key (put_valuation x (f c) t) (valuation_key (f d)) \<noteq> None"
    using Cons.prems by (auto simp: put_valuation_find)
  with Cons show ?case by (cases "P c") (auto simp: put_valuation_present)
qed simp

lemma fold_split:
  "fold g (map f cs) t = fold g (map f (drop n cs)) (fold g (map f (take n cs)) t)"
proof -
  have "fold g (map f (take n cs @ drop n cs)) t = fold g (map f (drop n cs)) (fold g (map f (take n cs)) t)"
    by (simp only: map_append fold_append comp_apply)
  then show ?thesis by (simp only: append_take_drop_id)
qed

text \<open>What a run of the loop leaves: the valuations of one statement, an attempt for each new one.\<close>

definition seeded :: "ext \<Rightarrow> string \<Rightarrow> bool \<Rightarrow> 'n world \<Rightarrow> nat \<Rightarrow> 'n world \<Rightarrow> bool" where
  "seeded x version inc s n t \<longleftrightarrow>
     w_valuations t = fold (put_valuation x) (map (seed_valuation x version) (seed_candidates version inc s)) (w_valuations s)
     \<and> seed_candidates version inc t = []
     \<and> (\<exists>new attempts. w_valuations t = w_valuations s @ new \<and> w_attempts t = w_attempts s @ attempts
          \<and> length new = n \<and> map attempt_group attempts = map valuation_key new
          \<and> (\<forall>a\<in>set attempts. a_status a = STATUS_PRICED))"

lemma seed_batch_zero:
  assumes "fst (seed_batch x version inc s) = 0"
  shows "seed_candidates version inc s = []" "snd (seed_batch x version inc s) = s"
proof -
  obtain new where new: "fst (seed_batch x version inc s) = length new"
    "w_valuations (snd (seed_batch x version inc s)) = w_valuations s @ map (stored_valuation x) new"
    using seed_batch_appends [of x version inc s] by blast
  then have v: "w_valuations (snd (seed_batch x version inc s)) = w_valuations s" using assms by simp
  then have "seed_candidates version inc (snd (seed_batch x version inc s)) = seed_candidates version inc s"
    by (simp add: seed_candidates_def seed_batch_tables(1,2))
  then show e: "seed_candidates version inc s = []"
    using seed_batch_shrinks [of version inc s x] by fastforce
  then show "snd (seed_batch x version inc s) = s" by (simp add: seed_batch_def Let_def)
qed

lemma seed_loop_frame:
  "seed_loop x version inc n s = (m, t) \<Longrightarrow>
     w_events t = w_events s \<and> w_seeds t = w_seeds s \<and> w_cursors t = w_cursors s"
proof (induction x version inc n s rule: seed_loop.induct)
  case (1 x version inc n s)
  obtain k s' where b: "seed_batch x version inc s = (k, s')" by (cases "seed_batch x version inc s")
  have f: "w_events s' = w_events s" "w_seeds s' = w_seeds s" "w_cursors s' = w_cursors s"
    using seed_batch_tables(1-3) [of x version inc s] b by simp_all
  from 1 b f show ?case by (auto simp: seed_loop.simps [of x version inc n s] split: if_splits)
qed

lemma seed_loop_seeded:
  "seed_loop x version inc n s = (m, t) \<Longrightarrow> n \<le> m \<and> seeded x version inc s (m - n) t"
proof (induction x version inc n s rule: seed_loop.induct)
  case (1 x version inc n s)
  obtain k s' where b: "seed_batch x version inc s = (k, s')" by (cases "seed_batch x version inc s")
  show ?case
  proof (cases "k = 0")
    case True
    then have "seed_candidates version inc s = []" "s' = s"
      using seed_batch_zero [of x version inc s] b by simp_all
    with 1(2) b True show ?thesis by (simp add: seed_loop.simps [of x version inc n s] seeded_def)
  next
    case False
    let ?f = "seed_valuation x version" and ?cs = "seed_candidates version inc s"
    have run: "seed_loop x version inc (n + k) s' = (m, t)"
      using 1(2) b False by (simp add: seed_loop.simps [of x version inc n s])
    from 1(1) [OF b [symmetric] refl False run] have le: "n + k \<le> m" and IH: "seeded x version inc s' (m - (n + k)) t"
      by simp_all
    obtain new where new: "k = length new" "w_valuations s' = w_valuations s @ map (stored_valuation x) new"
        "w_attempts s' = w_attempts s @ map (seed_attempt (w_attempts s)) new"
      using seed_batch_appends [of x version inc s] b by auto
    have v: "w_valuations s' = fold (put_valuation x) (map ?f (take SEED_BATCH_SIZE ?cs)) (w_valuations s)"
      using seed_batch_tables(4) [of x version inc s] b by simp
    let ?P = "\<lambda>c. (e_id (fst c), version, s_asset (snd c)) \<notin> valuation_key ` set (map ?f (take SEED_BATCH_SIZE ?cs))"
    have cs': "seed_candidates version inc s' = filter ?P ?cs" using seed_candidates_after [of version inc x s] b by simp
    have hit: "\<forall>c\<in>set ?cs. \<not> ?P c \<longrightarrow> find_row valuation_key (w_valuations s') (valuation_key (?f c)) \<noteq> None"
      unfolding v by (simp only: fold_put_find seed_valuation_key) blast
    have "w_valuations t = fold (put_valuation x) (map ?f (filter ?P ?cs)) (w_valuations s')"
      using IH cs' by (simp add: seeded_def)
    also have "\<dots> = fold (put_valuation x) (map ?f ?cs) (w_valuations s')" by (rule fold_put_skip [OF hit])
    also have "\<dots> = fold (put_valuation x) (map ?f (drop SEED_BATCH_SIZE ?cs))
        (fold (put_valuation x) (map ?f (take SEED_BATCH_SIZE ?cs)) (w_valuations s'))"
      by (rule fold_split)
    also have "fold (put_valuation x) (map ?f (take SEED_BATCH_SIZE ?cs)) (w_valuations s') = w_valuations s'"
    proof -
      have "fold (put_valuation x) (map ?f (filter (\<lambda>c. False) (take SEED_BATCH_SIZE ?cs))) (w_valuations s')
          = fold (put_valuation x) (map ?f (take SEED_BATCH_SIZE ?cs)) (w_valuations s')"
        by (rule fold_put_skip) (simp add: v fold_put_find del: seed_valuation_key)
      then show ?thesis by simp
    qed
    also have "fold (put_valuation x) (map ?f (drop SEED_BATCH_SIZE ?cs)) (w_valuations s')
        = fold (put_valuation x) (map ?f ?cs) (w_valuations s)"
      unfolding v by (rule fold_split [symmetric])
    finally have one: "w_valuations t = fold (put_valuation x) (map ?f ?cs) (w_valuations s)" .
    obtain new2 att2 where IH2: "w_valuations t = w_valuations s' @ new2" "w_attempts t = w_attempts s' @ att2"
        "length new2 = m - (n + k)" "map attempt_group att2 = map valuation_key new2"
        "\<forall>a\<in>set att2. a_status a = STATUS_PRICED"
      using IH unfolding seeded_def by (elim exE conjE) (rule that)
    have "w_valuations t = w_valuations s @ (map (stored_valuation x) new @ new2)
        \<and> w_attempts t = w_attempts s @ (map (seed_attempt (w_attempts s)) new @ att2)
        \<and> length (map (stored_valuation x) new @ new2) = m - n
        \<and> map attempt_group (map (seed_attempt (w_attempts s)) new @ att2)
            = map valuation_key (map (stored_valuation x) new @ new2)
        \<and> (\<forall>a\<in>set (map (seed_attempt (w_attempts s)) new @ att2). a_status a = STATUS_PRICED)"
      using IH2 new le by (auto simp: seed_attempt_key)
    with one IH le show ?thesis unfolding seeded_def
      by (intro conjI exI [of _ "map (stored_valuation x) new @ new2"]
          exI [of _ "map (seed_attempt (w_attempts s)) new @ att2"]) simp_all
  qed
qed

section \<open>The pass\<close>

lemma has_seed_candidates_iff: "has_seed_candidates version inc s \<longleftrightarrow> seed_candidates version inc s \<noteq> []"
  unfolding has_seed_candidates_def seed_candidates_def joined_seeds_def filter_empty_conv by auto

lemma seed_candidates_cong:
  "w_events t = w_events s \<Longrightarrow> w_seeds t = w_seeds s \<Longrightarrow> w_valuations t = w_valuations s \<Longrightarrow>
     seed_candidates version inc t = seed_candidates version inc s"
  by (simp add: seed_candidates_def)

lemma record_seed_marker_tables [simp]:
  "w_events (record_seed_marker k n s) = w_events s" "w_seeds (record_seed_marker k n s) = w_seeds s"
  "w_valuations (record_seed_marker k n s) = w_valuations s" "w_attempts (record_seed_marker k n s) = w_attempts s"
  by (simp_all add: record_seed_marker_def)

lemma stored_seed_count_marked: "stored_seed_count (record_seed_marker k n s) k = Some n"
  by (simp add: stored_seed_count_def record_seed_marker_def find_row_upsert split: option.split)

lemma seeded_marked: "seeded x version inc s n t \<Longrightarrow> seeded x version inc s n (record_seed_marker k m t)"
  unfolding seeded_def record_seed_marker_tables
    seed_candidates_cong [of "record_seed_marker k m t" t, unfolded record_seed_marker_tables, OF refl refl refl] .

lemma seed_pass_seeded:
  assumes "run_seed_pass x version inc s = (sm, t)"
    and "inc \<or> \<not> has_valuations s version
      \<or> stored_seed_count s (pass_key version ''SEED'') \<noteq> Some (int (length (w_seeds s)))"
  shows "seeded x version inc s (ss_priced sm) t
    \<and> (\<not> inc \<longrightarrow> stored_seed_count t (pass_key version ''SEED'') = Some (int (length (w_seeds s))))
    \<and> w_seeds t = w_seeds s"
proof -
  let ?k = "pass_key version ''SEED''" and ?n = "int (length (w_seeds s))"
  let ?mark = "\<lambda>u. if inc then u else record_seed_marker ?k ?n u"
  have open_gate: "\<not> (\<not> inc \<and> has_valuations s version \<and> stored_seed_count s ?k = Some ?n)" using assms(2) by blast
  obtain u where u: "seeded x version inc s (ss_priced sm) u" "t = ?mark u" "w_seeds u = w_seeds s"
  proof (cases "has_seed_candidates version inc s")
    case False
    then have "sm = default_seed_summary" "t = ?mark s"
      using assms(1) open_gate unfolding run_seed_pass_def Let_def by (simp_all only: if_False simp_thms if_True prod.inject)
    moreover have "seeded x version inc s 0 s" using False by (simp add: seeded_def has_seed_candidates_iff)
    ultimately show ?thesis using that by (simp add: default_seed_summary_def)
  next
    case True
    obtain m v where l: "seed_loop x version inc 0 s = (m, v)" by (cases "seed_loop x version inc 0 s")
    then have "sm = default_seed_summary\<lparr>ss_priced := m\<rparr>" "t = ?mark v"
      using assms(1) open_gate True unfolding run_seed_pass_def Let_def
      by (simp_all only: if_False simp_thms if_True prod.inject prod.case)
    then show ?thesis using that seed_loop_seeded [OF l] seed_loop_frame [OF l] by simp
  qed
  then have "seeded x version inc s (ss_priced sm) t" using seeded_marked by (cases inc) simp_all
  moreover have "\<not> inc \<longrightarrow> stored_seed_count t ?k = Some ?n" using u(2) by (simp add: stored_seed_count_marked)
  moreover have "w_seeds t = w_seeds s" using u(2,3) by simp
  ultimately show ?thesis by blast
qed

text \<open>
  C6. A seed pass whose change detector does not stop it stores exactly the valuations that one
  insert over all candidates in block order would store, although it works in chunks; it leaves
  no candidate, reports the number of new rows, pairs each of them in order with one attempt
  numbered by the table, and remembers the number of seeds it has seen.
\<close>

theorem seed_pass_is_one_insert:
  assumes "run_seed_pass x version inc s = (sm, t)"
    and "inc \<or> \<not> has_valuations s version
      \<or> stored_seed_count s (pass_key version ''SEED'') \<noteq> Some (int (length (w_seeds s)))"
  shows "w_valuations t = fold (put_valuation x)
        (map (seed_valuation x version) (seed_candidates version inc s)) (w_valuations s)
    \<and> seed_candidates version inc t = []
    \<and> (\<exists>new attempts. w_valuations t = w_valuations s @ new \<and> w_attempts t = w_attempts s @ attempts
        \<and> length new = ss_priced sm \<and> map attempt_group attempts = map valuation_key new
        \<and> (\<forall>a\<in>set attempts. a_status a = STATUS_PRICED))
    \<and> (\<not> inc \<longrightarrow> stored_seed_count t (pass_key version ''SEED'') = Some (int (length (w_seeds s))))"
  using seed_pass_seeded [OF assms] unfolding seeded_def by (elim conjE) (intro conjI)

text \<open>Two events of one transaction, of which a seed gives the price; the second is not final yet.\<close>

definition seeded_event :: "int \<Rightarrow> finality \<Rightarrow> event_row" where
  "seeded_event i f = \<lparr>e_id = i, e_chain = ARBITRUM_CHAIN_ID, e_tx = ''0x1'', e_log = i, e_block = 10, e_hash = ''0xb'',
     e_ts = 1000, e_address = ''0xc'', e_contract = ''TicketBroker'', e_name = ''WinningTicketRedeemed'',
     e_signature = ''s'', e_asset = Some ''ETH'', e_amount_raw = None, e_amount = Some 2, e_valuable = True,
     e_from = None, e_to = None, e_finality = f, e_canonical = True, e_finalized_at = None, e_raw = JNull, e_abi = ''h''\<rparr>"

definition sample_seed :: seed_row where
  "sample_seed = \<lparr>s_chain = ARBITRUM_CHAIN_ID, s_tx = ''0x1'', s_asset = ''ETH'', s_price = 3, s_usd = 6, s_raw = JNull\<rparr>"

definition seed_world :: "unit world" where
  "seed_world = (empty_world ())\<lparr>w_events := [seeded_event 1 Finalized, seeded_event 2 Tentative],
     w_seeds := [sample_seed]\<rparr>"

definition seed_world_later :: "unit world" where
  "seed_world_later = (snd (run_seed_pass sample_ext ''v'' False seed_world))
     \<lparr>w_events := [seeded_event 1 Finalized, seeded_event 2 Finalized]\<rparr>"

lemma seed_world_candidates:
  "seed_candidates ''v'' False seed_world = [(seeded_event 1 Finalized, sample_seed)]"
  by (simp add: seed_candidates_def joined_seeds_def seed_world_def empty_world_def seeded_event_def seedable_def
      seed_matches_def sample_seed_def not_valued_as_def)

lemma seed_world_open: "\<not> has_valuations seed_world ''v''"
  by (simp add: has_valuations_def seed_world_def empty_world_def)

theorem seed_pass_is_one_insert_witness:
  "w_valuations (snd (run_seed_pass sample_ext ''v'' False seed_world))
     = [stored_valuation sample_ext (seed_valuation sample_ext ''v'' (seeded_event 1 Finalized, sample_seed))]"
proof -
  obtain sm t where run: "run_seed_pass sample_ext ''v'' False seed_world = (sm, t)" by fastforce
  have v: "w_valuations seed_world = []" by (simp add: seed_world_def empty_world_def)
  show ?thesis
    using seed_pass_is_one_insert [OF run disjI2 [OF disjI1 [OF seed_world_open]]]
    unfolding run seed_world_candidates v by (simp add: put_valuation_def ins_nothing_def)
qed



end
