(* ===== verification/Valuator_Runner.thy ===== *)
theory Valuator_Runner
  imports Multi_Asset Seed_Pass
begin

text \<open>
  \<open>crates/livepeer-valuator/src/backfill_eth_prices.rs\<close>, which fills in the ETH price of blocks
  with an LPT valuation, and \<open>runner.rs\<close>, which runs the passes in their order.
\<close>

section \<open>backfill_eth_prices.rs\<close>

record backfill_summary =
  bp_considered :: nat
  bp_priced :: nat
  bp_sequencer :: nat
  bp_oracle :: nat

record missing_block =
  mb_block :: int
  mb_hash :: string
  mb_ts :: int

text \<open>
  \<open>SELECT DISTINCT ... ORDER BY block_number\<close>; rows of one block that differ in hash or time
  come in an order the query leaves open, here that of the events.
\<close>

definition has_eth_price :: "price_row list \<Rightarrow> event_row \<Rightarrow> bool" where
  "has_eth_price prices r \<longleftrightarrow>
     (\<exists>tp\<in>set prices. p_chain tp = e_chain r \<and> p_asset tp = ''ETH'' \<and> p_quote tp = ''USD''
        \<and> p_block tp = e_block r)"

definition fetch_missing_blocks :: "'n world \<Rightarrow> missing_block list" where
  "fetch_missing_blocks s =
     sort_key mb_block (remdups (map
       (\<lambda>r. \<lparr>mb_block = e_block r, mb_hash = e_hash r, mb_ts = e_ts r\<rparr>)
       (filter (\<lambda>r. e_chain r = ARBITRUM_CHAIN_ID
          \<and> (\<exists>v\<in>set (w_valuations s). v_event v = e_id r \<and> v_asset v = ''LPT'')
          \<and> \<not> has_eth_price (w_prices s) r) (w_events s))))"

datatype block_outcome = BlockPriced rat json | BlockSequencerOutage | BlockMissingOracle

definition judge_block ::
  "ext \<Rightarrow> int \<Rightarrow> decoded_round option \<Rightarrow> decoded_round option \<Rightarrow> string + block_outcome" where
  "judge_block x ts seq_res cl_res =
     (case seq_res of
        None \<Rightarrow> Inr BlockMissingOracle
      | Some seq_round \<Rightarrow>
     if rd_answer seq_round \<noteq> ''0'' then Inr BlockSequencerOutage
     else
     (case cl_res of
        None \<Rightarrow> Inr BlockMissingOracle
      | Some cl \<Rightarrow>
     if u128_or_0 (rd_answered_in cl) < u128_or_0 (rd_round_id cl) then Inr BlockMissingOracle
     else if STALENESS_FAIL_SECS < ts - i64_or_0 (rd_updated_at cl) then Inr BlockMissingOracle
     else
     (case parse_signed 10 128 (rd_answer cl) of
        None \<Rightarrow> Inl ''decoding chainlink answer''
      | Some answer \<Rightarrow>
          if answer \<le> 0 then Inr BlockMissingOracle
          else Inr (BlockPriced (chainlink_price x answer) (chainlink_audit cl)))))"

text \<open>A call that errored is a missing oracle; a malformed answer is an error of the run.\<close>

definition price_eth_at_block ::
  "ext \<Rightarrow> bool \<Rightarrow> 'n provider \<Rightarrow> pricing_config \<Rightarrow> missing_block \<Rightarrow> ('n, block_outcome) db" where
  "price_eth_at_block x co archive cfg blk =
     andthen (core (batch_call_cached x co archive
        [round_call x (pc_sequencer cfg) (as_u64 (mb_block blk)),
         round_call x (pc_chainlink cfg) (as_u64 (mb_block blk))])) (\<lambda>outcomes.
       case (outcomes ! 0, outcomes ! 1) of
         (Inl _, _) \<Rightarrow> ret BlockMissingOracle
       | (Inr _, Inl _) \<Rightarrow> ret BlockMissingOracle
       | (Inr _, Inr _) \<Rightarrow>
           andthen (of_result (decode_round_outcome x (outcomes ! 0))) (\<lambda>seq_res.
           andthen (of_result (decode_round_outcome x (outcomes ! 1))) (\<lambda>cl_res.
             of_result (judge_block x (mb_ts blk) seq_res cl_res))))"

definition backfilled_price :: "pricing_config \<Rightarrow> missing_block \<Rightarrow> rat \<Rightarrow> json \<Rightarrow> price_row" where
  "backfilled_price cfg blk price audit =
     \<lparr>p_chain = ARBITRUM_CHAIN_ID, p_asset = ''ETH'', p_quote = ''USD'', p_block = mb_block blk,
      p_hash = mb_hash blk, p_ts = mb_ts blk, p_price = price, p_source = ''chainlink_eth_usd'',
      p_pool = None, p_oracle = Some (pc_chainlink cfg), p_raw = Some audit\<rparr>"

definition insert_price :: "ext \<Rightarrow> pricing_config \<Rightarrow> missing_block \<Rightarrow> rat \<Rightarrow> json \<Rightarrow> 'n world \<Rightarrow> 'n world" where
  "insert_price x cfg blk price audit s =
     s\<lparr>w_prices := put_price x (backfilled_price cfg blk price audit) (w_prices s)\<rparr>"

definition backfill_block ::
  "ext \<Rightarrow> bool \<Rightarrow> 'n provider \<Rightarrow> pricing_config \<Rightarrow> missing_block \<Rightarrow> backfill_summary \<Rightarrow> ('n, backfill_summary) db" where
  "backfill_block x co archive cfg blk sm =
     andthen (price_eth_at_block x co archive cfg blk) (\<lambda>oc.
       case oc of
         BlockPriced price audit \<Rightarrow>
           andthen (modifying (insert_price x cfg blk price audit))
             (\<lambda>_. ret (sm\<lparr>bp_priced := bp_priced sm + 1\<rparr>))
       | BlockSequencerOutage \<Rightarrow> ret (sm\<lparr>bp_sequencer := bp_sequencer sm + 1\<rparr>)
       | BlockMissingOracle \<Rightarrow> ret (sm\<lparr>bp_oracle := bp_oracle sm + 1\<rparr>))"

definition run_backfill_eth_prices ::
  "ext \<Rightarrow> bool \<Rightarrow> 'n provider \<Rightarrow> pricing_config \<Rightarrow> ('n, backfill_summary) db" where
  "run_backfill_eth_prices x co archive cfg s =
     (let missing = fetch_missing_blocks s in
      fold_io (backfill_block x co archive cfg) missing
        \<lparr>bp_considered = length missing, bp_priced = 0, bp_sequencer = 0, bp_oracle = 0\<rparr> s)"

section \<open>runner.rs\<close>

record backfill_all_summary =
  ba_seed :: seed_summary
  ba_eth :: eth_summary
  ba_lpt :: lpt_summary
  ba_multi :: multi_summary

definition run_seed :: "ext \<Rightarrow> string \<Rightarrow> bool \<Rightarrow> ('n, seed_summary) db" where
  "run_seed x version include_tentative s =
     (case run_seed_pass x version include_tentative s of (sm, s') \<Rightarrow> (Inr sm, s'))"

definition run_all ::
  "ext \<Rightarrow> bool \<Rightarrow> 'n provider \<Rightarrow> pricing_config \<Rightarrow> string \<Rightarrow> bool \<Rightarrow> nat list \<Rightarrow> ('n, backfill_all_summary) db" where
  "run_all x co archive cfg version include_tentative sched =
     andthen (run_seed x version include_tentative) (\<lambda>seed.
     andthen (run_onchain_pass_eth x co archive cfg version include_tentative) (\<lambda>eth.
     andthen (run_onchain_pass_lpt x co archive cfg version include_tentative sched) (\<lambda>lpt.
     andthen (run_multi_asset_pass x co archive cfg version include_tentative) (\<lambda>multi.
       ret \<lparr>ba_seed = seed, ba_eth = eth, ba_lpt = lpt, ba_multi = multi\<rparr>))))"

end
