(* ===== verification/Stake_Flow.thy ===== *)
theory Stake_Flow
  imports World
begin

text \<open>
  The stake-flow backfill of \<open>crates/livepeer-staker/src/flow.rs\<close>: each run reads the stake
  events behind its checkpoint, replays the event stream of the delegators they touch and
  writes one row per delegator and block, and the delegator's registry row.
\<close>

section \<open>Data\<close>

definition SOURCE_FLOW :: string where
  "SOURCE_FLOW = ''flow_derived''"

definition SOURCE_EARNINGS_BOOTSTRAP :: string where
  "SOURCE_EARNINGS_BOOTSTRAP = ''earnings_claimed_bootstrap''"

definition FLOW_CHECKPOINT :: string where
  "FLOW_CHECKPOINT = ''staker_flow_backfill_v2''"

definition FLOW_BATCH_SIZE :: nat where
  "FLOW_BATCH_SIZE = 5000"

definition ZERO_ADDRESS :: string where
  "ZERO_ADDRESS = ''0x0000000000000000000000000000000000000000''"

record flow_summary =
  fs_events_seen :: nat
  fs_delegators_replayed :: nat
  fs_stake_rows_written :: nat
  fs_delegators_registered :: nat
  fs_skipped :: nat
  fs_checkpoint :: "int option"

record stake_event =
  se_id :: int
  se_name :: string
  se_block :: int
  se_ts :: int
  se_hash :: string
  se_from :: "string option"
  se_to :: "string option"
  se_amount :: "rat option"
  se_raw :: json

record row_write =
  rw_block :: int
  rw_ts :: int
  rw_hash :: string
  rw_delegate :: string
  rw_principal :: rat
  rw_source :: string
  rw_trigger :: int

record registry_write =
  gw_first_block :: int
  gw_first_event :: int
  gw_last_block :: int
  gw_last_event :: int
  gw_active :: bool

record replay_outcome =
  ro_rows :: "row_write list"
  ro_registry :: "registry_write option"
  ro_skipped :: nat

section \<open>The replay of one delegator\<close>

text \<open>A \<open>BTreeMap\<close> is a list of entries in the order of their keys.\<close>

fun btree_insert :: "'k::linorder \<Rightarrow> 'v \<Rightarrow> ('k \<times> 'v) list \<Rightarrow> ('k \<times> 'v) list" where
  "btree_insert k v [] = [(k, v)]"
| "btree_insert k v ((k', v') # t) =
     (if k < k' then (k, v) # (k', v') # t
      else if k = k' then (k, v) # t
      else (k', v') # btree_insert k v t)"

definition earnings_rewards_lpt :: "ext \<Rightarrow> json \<Rightarrow> rat" where
  "earnings_rewards_lpt x raw_event =
     (case Option.bind (Option.bind (Option.bind (jget ''decoded'' raw_event) (jget ''rewards'')) jstr)
             (bd_parse x) of
        Some wei \<Rightarrow> bd_div x wei (10 ^ 18)
      | None \<Rightarrow> 0)"

record walk =
  wk_balance :: rat
  wk_delegate :: "string option"
  wk_registered :: bool
  wk_first_bond :: "(int \<times> int) option"
  wk_last_seen :: "(int \<times> int) option"
  wk_rows :: "(int \<times> row_write) list"
  wk_skipped :: nat

definition new_walk :: walk where
  "new_walk = \<lparr>wk_balance = 0, wk_delegate = None, wk_registered = False, wk_first_bond = None,
     wk_last_seen = None, wk_rows = [], wk_skipped = 0\<rparr>"

definition write_row :: "stake_event \<Rightarrow> string \<Rightarrow> walk \<Rightarrow> walk" where
  "write_row ev source w = w\<lparr>wk_rows := btree_insert (se_block ev)
     \<lparr>rw_block = se_block ev, rw_ts = se_ts ev, rw_hash = se_hash ev,
      rw_delegate = (case wk_delegate w of Some d \<Rightarrow> d | None \<Rightarrow> ZERO_ADDRESS),
      rw_principal = wk_balance w, rw_source = source, rw_trigger = se_id ev\<rparr> (wk_rows w)\<rparr>"

definition register :: "stake_event \<Rightarrow> walk \<Rightarrow> walk" where
  "register ev w =
     (if wk_registered w then w
      else w\<lparr>wk_registered := True,
             wk_first_bond := (case wk_first_bond w of
                None \<Rightarrow> Some (se_block ev, se_id ev) | Some f \<Rightarrow> Some f)\<rparr>)"

definition add_balance :: "rat \<Rightarrow> walk \<Rightarrow> walk" where
  "add_balance q w = w\<lparr>wk_balance := wk_balance w + q\<rparr>"

definition move_to :: "string option \<Rightarrow> walk \<Rightarrow> walk" where
  "move_to t w = (case t of Some d \<Rightarrow> w\<lparr>wk_delegate := Some d\<rparr> | None \<Rightarrow> w)"

definition saw :: "stake_event \<Rightarrow> walk \<Rightarrow> walk" where
  "saw ev w = w\<lparr>wk_last_seen := Some (se_block ev, se_id ev)\<rparr>"

definition skip_unregistered :: "walk \<Rightarrow> walk" where
  "skip_unregistered w = w\<lparr>wk_skipped := wk_skipped w + 1\<rparr>"

definition amount_of :: "stake_event \<Rightarrow> rat" where
  "amount_of ev = (case se_amount ev of Some q \<Rightarrow> q | None \<Rightarrow> 0)"

text \<open>One iteration of the loop; a \<open>continue\<close> leaves \<open>last_seen\<close> alone.\<close>

definition replay_event :: "ext \<Rightarrow> string \<Rightarrow> stake_event \<Rightarrow> walk \<Rightarrow> walk" where
  "replay_event x delegator ev w =
     (let is_from = (se_from ev = Some delegator); is_to = (se_to ev = Some delegator) in
      if se_name ev = ''Bond'' \<and> is_from then
        saw ev (write_row ev SOURCE_FLOW (move_to (se_to ev) (add_balance (amount_of ev) (register ev w))))
      else if se_name ev = ''Unbond'' \<and> is_from then
        if \<not> wk_registered w then skip_unregistered w
        else saw ev (write_row ev SOURCE_FLOW (move_to (se_to ev) (add_balance (- amount_of ev) w)))
      else if se_name ev = ''WithdrawStake'' \<and> is_from then
        if \<not> wk_registered w then skip_unregistered w
        else saw ev (write_row ev SOURCE_FLOW w)
      else if se_name ev = ''Rebond'' \<and> is_from then
        if \<not> wk_registered w then skip_unregistered w
        else saw ev (write_row ev SOURCE_FLOW (move_to (se_to ev) (add_balance (amount_of ev) w)))
      else if se_name ev = ''EarningsClaimed'' \<and> is_from then
        saw ev (write_row ev (if wk_registered w then SOURCE_FLOW else SOURCE_EARNINGS_BOOTSTRAP)
          (move_to (se_to ev) (add_balance (earnings_rewards_lpt x (se_raw ev)) w)))
      else if se_name ev = ''TransferBond'' then
        if is_from \<and> \<not> is_to then
          if \<not> wk_registered w then skip_unregistered w
          else saw ev (write_row ev SOURCE_FLOW w)
        else if is_to then saw ev (write_row ev SOURCE_FLOW (register ev w))
        else saw ev w
      else w)"

definition registry_of :: "walk \<Rightarrow> registry_write option" where
  "registry_of w =
     (case (wk_registered w, wk_first_bond w, wk_last_seen w) of
        (True, Some (fb_block, fb_id), Some (ls_block, ls_id)) \<Rightarrow>
          Some \<lparr>gw_first_block = fb_block, gw_first_event = fb_id, gw_last_block = ls_block,
                gw_last_event = ls_id, gw_active = (wk_balance w > 0)\<rparr>
      | _ \<Rightarrow> None)"

definition replay_delegator :: "ext \<Rightarrow> string \<Rightarrow> stake_event list \<Rightarrow> replay_outcome" where
  "replay_delegator x delegator events =
     (let w = fold (replay_event x delegator) events new_walk
      in \<lparr>ro_rows = map snd (wk_rows w), ro_registry = registry_of w, ro_skipped = wk_skipped w\<rparr>)"

section \<open>Reading the events\<close>

definition STAKE_EVENT_NAMES :: "string list" where
  "STAKE_EVENT_NAMES = [''Bond'', ''Unbond'', ''Rebond'', ''WithdrawStake'', ''EarningsClaimed'', ''TransferBond'']"

definition delegators_of :: "stake_event \<Rightarrow> string list" where
  "delegators_of ev =
     (if se_name ev = ''TransferBond'' then
        (case se_from ev of Some f \<Rightarrow> [f] | None \<Rightarrow> [])
        @ (case se_to ev of Some t \<Rightarrow> if Some t \<noteq> se_from ev then [t] else [] | None \<Rightarrow> [])
      else (case se_from ev of Some f \<Rightarrow> [f] | None \<Rightarrow> []))"

definition affected_delegators :: "stake_event list \<Rightarrow> string list" where
  "affected_delegators events = remdups (concat (map delegators_of events))"

definition stake_event_from_row :: "event_row \<Rightarrow> stake_event" where
  "stake_event_from_row r =
     \<lparr>se_id = e_id r, se_name = e_name r, se_block = e_block r, se_ts = e_ts r, se_hash = e_hash r,
      se_from = e_from r, se_to = e_to r, se_amount = e_amount r, se_raw = e_raw r\<rparr>"

text \<open>The conditions both queries share.\<close>

definition stake_visible :: "bool \<Rightarrow> event_row \<Rightarrow> bool" where
  "stake_visible include_tentative r \<longleftrightarrow> e_chain r = ARBITRUM_CHAIN_ID \<and> e_canonical r
     \<and> e_name r \<in> set STAKE_EVENT_NAMES \<and> (include_tentative \<or> e_finality r = Finalized)"

definition fetch_new_event_heads :: "bool \<Rightarrow> int option \<Rightarrow> nat \<Rightarrow> 'n world \<Rightarrow> stake_event list" where
  "fetch_new_event_heads include_tentative resume_from limit s =
     map stake_event_from_row (take limit (sort_key e_id (filter (\<lambda>r.
        stake_visible include_tentative r
        \<and> (case resume_from of None \<Rightarrow> True | Some c \<Rightarrow> e_id r > c)) (w_events s))))"

definition fetch_full_history :: "bool \<Rightarrow> string list \<Rightarrow> 'n world \<Rightarrow> stake_event list" where
  "fetch_full_history include_tentative delegators s =
     map stake_event_from_row (sort_key e_block (sort_key e_log (filter (\<lambda>r.
        stake_visible include_tentative r
        \<and> ((\<exists>d\<in>set delegators. e_from r = Some d) \<or> (\<exists>d\<in>set delegators. e_to r = Some d)))
        (w_events s))))"

definition load_registered :: "string list \<Rightarrow> 'n world \<Rightarrow> string list" where
  "load_registered delegators s =
     map q_delegator (filter (\<lambda>q. q_chain q = ARBITRUM_CHAIN_ID \<and> q_delegator q \<in> set delegators)
       (w_registry s))"

definition load_flow_checkpoint :: "'n world \<Rightarrow> int option" where
  "load_flow_checkpoint s = checkpoint (w_checkpoints s) FLOW_CHECKPOINT"

definition advance_flow_checkpoint :: "int \<Rightarrow> 'n world \<Rightarrow> 'n world" where
  "advance_flow_checkpoint event_id s =
     s\<lparr>w_checkpoints := advance_greatest FLOW_CHECKPOINT event_id (w_checkpoints s)\<rparr>"

section \<open>Writing the rows\<close>

definition stake_key :: "stake_row \<Rightarrow> int \<times> string \<times> int" where
  "stake_key r = (t_chain r, t_delegator r, t_block r)"

definition registry_key :: "registry_row \<Rightarrow> int \<times> string" where
  "registry_key r = (q_chain r, q_delegator r)"

definition flow_stake_row :: "ext \<Rightarrow> string \<Rightarrow> row_write \<Rightarrow> stake_row" where
  "flow_stake_row x delegator row =
     \<lparr>t_chain = ARBITRUM_CHAIN_ID, t_delegator = delegator, t_delegate = rw_delegate row,
      t_block = rw_block row, t_ts = rw_ts row, t_hash = rw_hash row,
      t_principal = numeric18 x (rw_principal row), t_pending_stake = None, t_pending_fees = None,
      t_pending_round = None, t_source = rw_source row, t_raw = None, t_trigger = rw_trigger row\<rparr>"

definition set_flow_columns :: "stake_row \<Rightarrow> stake_row \<Rightarrow> stake_row" where
  "set_flow_columns old excluded =
     old\<lparr>t_delegate := t_delegate excluded, t_ts := t_ts excluded, t_hash := t_hash excluded,
         t_principal := t_principal excluded, t_source := t_source excluded,
         t_trigger := t_trigger excluded\<rparr>"

definition upsert_stake_row :: "ext \<Rightarrow> string \<Rightarrow> row_write \<Rightarrow> stake_row list \<Rightarrow> stake_row list" where
  "upsert_stake_row x delegator row t = upsert stake_key set_flow_columns (flow_stake_row x delegator row) t"

definition flow_registry_row :: "string \<Rightarrow> registry_write \<Rightarrow> registry_row" where
  "flow_registry_row delegator reg =
     \<lparr>q_chain = ARBITRUM_CHAIN_ID, q_delegator = delegator, q_first_block = gw_first_block reg,
      q_first_event = gw_first_event reg, q_last_block = gw_last_block reg,
      q_last_event = gw_last_event reg, q_active = gw_active reg\<rparr>"

definition upsert_registry :: "string \<Rightarrow> registry_write \<Rightarrow> registry_row list \<Rightarrow> registry_row list" where
  "upsert_registry delegator reg t =
     upsert registry_key (\<lambda>old excluded. excluded) (flow_registry_row delegator reg) t"

section \<open>One run\<close>

text \<open>
  The hash map of the run: \<open>per_delegator.entry(d).or_default().push(ev)\<close>. The order in which
  its entries are visited is the argument \<open>order\<close>.
\<close>

fun entry_push :: "stake_event \<Rightarrow> string \<Rightarrow> (string \<times> stake_event list) list \<Rightarrow> (string \<times> stake_event list) list" where
  "entry_push ev d [] = [(d, [ev])]"
| "entry_push ev d ((d', evs) # m) =
     (if d = d' then (d', evs @ [ev]) # m else (d', evs) # entry_push ev d m)"

definition per_delegator :: "stake_event list \<Rightarrow> (string \<times> stake_event list) list" where
  "per_delegator history = fold (\<lambda>ev. fold (entry_push ev) (delegators_of ev)) history []"

definition write_delegator ::
  "ext \<Rightarrow> string list \<Rightarrow> string \<times> stake_event list \<Rightarrow> flow_summary \<times> 'n world \<Rightarrow> flow_summary \<times> 'n world" where
  "write_delegator x registered entry ms =
     (case entry of (delegator, events) \<Rightarrow> case ms of (sm, s) \<Rightarrow>
      let oc = replay_delegator x delegator events;
          s1 = s\<lparr>w_stakes := fold (upsert_stake_row x delegator) (ro_rows oc) (w_stakes s)\<rparr>;
          sm1 = sm\<lparr>fs_skipped := fs_skipped sm + ro_skipped oc,
                   fs_stake_rows_written := fs_stake_rows_written sm + length (ro_rows oc),
                   fs_delegators_replayed := fs_delegators_replayed sm + 1\<rparr>
      in case ro_registry oc of
           None \<Rightarrow> (sm1, s1)
         | Some reg \<Rightarrow>
             (if delegator \<notin> set registered
              then sm1\<lparr>fs_delegators_registered := fs_delegators_registered sm1 + 1\<rparr> else sm1,
              s1\<lparr>w_registry := upsert_registry delegator reg (w_registry s1)\<rparr>))"

definition run_flow_backfill ::
  "ext \<Rightarrow> ((string \<times> stake_event list) list \<Rightarrow> (string \<times> stake_event list) list) \<Rightarrow> bool
     \<Rightarrow> 'n world \<Rightarrow> flow_summary \<times> 'n world" where
  "run_flow_backfill x order include_tentative s =
     (let cp = load_flow_checkpoint s;
          new_events = fetch_new_event_heads include_tentative cp FLOW_BATCH_SIZE s;
          sm = \<lparr>fs_events_seen = length new_events, fs_delegators_replayed = 0, fs_stake_rows_written = 0,
                fs_delegators_registered = 0, fs_skipped = 0, fs_checkpoint = cp\<rparr>
      in if new_events = [] then
           (sm, advance_flow_checkpoint (case cp of Some c \<Rightarrow> c | None \<Rightarrow> 0) s)
         else
           let affected = affected_delegators new_events;
               max_event_id = Max (set (map se_id new_events));
               history = fetch_full_history include_tentative affected s;
               registered = load_registered affected s;
               (sm', s') = fold (write_delegator x registered) (order (per_delegator history)) (sm, s)
           in (sm'\<lparr>fs_checkpoint := Some max_event_id\<rparr>, advance_flow_checkpoint max_event_id s'))"

end
