(* ===== verification/Lifecycle.thy ===== *)
theory Lifecycle
  imports Valuator_Props Multi_Asset_Props Seed_Props Valuator_Runner Indexer_Props Stake_Flow
begin

text \<open>
  The processes that share the database, composed: a step of \<open>lifecycle\<close> is one transaction of
  the indexer, a pass of a watcher, of the valuator or of the staker, an import of seeds, the
  clock or the network. The invariant over every sequence of steps is what the incremental
  scans of the valuator need.
\<close>

section \<open>Steps\<close>

inductive lifecycle :: "ext \<Rightarrow> 'n world \<Rightarrow> 'n world \<Rightarrow> bool" for x where
  clock: "w_now s \<le> n \<Longrightarrow> lifecycle x s (s\<lparr>w_now := n\<rparr>)"
| network: "lifecycle x s (s\<lparr>w_net := n\<rparr>)"
| import_seeds: "lifecycle x s (s\<lparr>w_seeds := w_seeds s @ rows\<rparr>)"
| index_chunk: "backfill_chunk x co ab jb a b s = (ch, t) \<Longrightarrow> lifecycle x s t"
| reorg_pass: "reorg_run_once x p s = (ro, t) \<Longrightarrow> lifecycle x s t"
| finality_pass: "finality_run_once x p s = (fi, t) \<Longrightarrow> lifecycle x s t"
| finality_replay_pass: "finality_run_once_replay s = (fi, t) \<Longrightarrow> lifecycle x s t"
| seed_pass: "run_seed_pass x version inc s = (ss, t) \<Longrightarrow> lifecycle x s t"
| eth_pass: "run_onchain_pass_eth x co p cfg version inc s = (es, t) \<Longrightarrow> lifecycle x s t"
| lpt_pass: "run_onchain_pass_lpt x co p cfg version inc sched s = (ls, t) \<Longrightarrow> lifecycle x s t"
| multi_pass: "run_multi_asset_pass x co p cfg version inc s = (ms, t) \<Longrightarrow> lifecycle x s t"
| eth_prices: "run_backfill_eth_prices x co p cfg s = (bs, t) \<Longrightarrow> lifecycle x s t"
| stake_flow: "run_flow_backfill x order inc s = (fs, t) \<Longrightarrow> lifecycle x s t"

text \<open>A database the valuator has not run on yet.\<close>

definition rows_timed :: "'n world \<Rightarrow> bool" where
  "rows_timed s \<longleftrightarrow> 0 \<le> w_now s \<and> (\<forall>r\<in>set (w_events s). e_finality r = Finalized \<longrightarrow>
     (\<exists>t. e_finalized_at r = Some t \<and> 0 \<le> t \<and> t \<le> w_now s))"

definition unpriced_start :: "'n world \<Rightarrow> bool" where
  "unpriced_start s \<longleftrightarrow> w_cursors s = [] \<and> rows_timed s"

section \<open>Steps that do not price\<close>

definition work :: "'n world \<Rightarrow> valuation_row list \<times> attempt_row list \<times> cursor_row list \<times> int" where
  "work s = (w_valuations s, w_attempts s, w_cursors s, w_now s)"

text \<open>Finalized rows were so before, or are stamped with the clock; canonical ones are untouched.\<close>

definition row_from :: "event_row set \<Rightarrow> int \<Rightarrow> event_row \<Rightarrow> bool" where
  "row_from E now r' \<longleftrightarrow> (e_finality r' = Finalized \<longrightarrow> e_finalized_at r' = Some now
     \<or> (\<exists>r\<in>E. e_finality r = Finalized \<and> e_finalized_at r = e_finalized_at r' \<and> (e_canonical r' \<longrightarrow> r' = r)))"

definition frame_of :: "'n world \<Rightarrow> 'm world \<Rightarrow> bool" where
  "frame_of s u \<longleftrightarrow> work u = work s \<and> (\<forall>r\<in>set (w_events u). row_from (set (w_events s)) (w_now s) r)"

lemma frame_of_refl [simp]: "frame_of s s"
  by (auto simp: frame_of_def row_from_def)

lemma frame_of_cong:
  "w_events t = w_events u \<Longrightarrow> work t = work u \<Longrightarrow> frame_of s u \<Longrightarrow> frame_of s t"
  by (simp add: frame_of_def)

lemma row_from_kept:
  assumes "row_from E now r"
    and "e_finality r' = Finalized \<longrightarrow> e_finalized_at r' = Some now \<or>
      e_finality r = Finalized \<and> e_finalized_at r' = e_finalized_at r \<and> (e_canonical r' \<longrightarrow> r' = r)"
  shows "row_from E now r'"
  using assms unfolding row_from_def by metis

lemma frame_of_map:
  assumes "frame_of s u" "work t = work u" "w_events t = map g (w_events u)"
    and "\<And>r. e_finality (g r) = Finalized \<longrightarrow> e_finalized_at (g r) = Some (w_now s) \<or>
      e_finality r = Finalized \<and> e_finalized_at (g r) = e_finalized_at r \<and> (e_canonical (g r) \<longrightarrow> g r = r)"
  shows "frame_of s t"
  using assms(1,2) unfolding frame_of_def assms(3) by (auto intro: row_from_kept [OF _ assms(4)])

lemma keeps_frame_reads:
  fixes m :: "('n world, 'e, 'a) io"
  assumes "only_reads m"
  shows "keeps (frame_of s) m"
proof (rule keepsI)
  fix u :: "'n world" assume f: "frame_of s u"
  have "same_rows u (snd (m u))" using assms by (simp add: only_reads_def)
  from same_rowsD [OF this] show "frame_of s (snd (m u))"
    by (intro frame_of_cong [OF _ _ f]) (simp_all add: work_def)
qed

lemma keeps_frame_modifying:
  "(\<And>u. frame_of s u \<Longrightarrow> frame_of s (g u)) \<Longrightarrow> keeps (frame_of s) (modifying g)"
  by (rule keeps_modifying)

lemma keeps_frame_net:
  fixes m :: "('n world, 'e, 'a) io"
  assumes "\<And>u r t. m u = (r, t) \<Longrightarrow> t = u\<lparr>w_net := w_net t\<rparr>"
  shows "keeps (frame_of s) m"
proof (rule keepsI)
  fix u :: "'n world" assume f: "frame_of s u"
  obtain r t where m: "m u = (r, t)" by fastforce
  obtain n where "t = u\<lparr>w_net := n\<rparr>" using assms [OF m] by blast
  then show "frame_of s (snd (m u))" by (intro frame_of_cong [OF _ _ f]) (simp_all add: work_def m)
qed

lemma keeps_frame_call: "keeps (frame_of s) (core (call_once x p m ps))"
  by (rule keeps_frame_net) (rule core_call_frame)

section \<open>The indexer and the watchers\<close>

lemma insert_events_rows:
  "r \<in> set (insert_events x h ys evs) \<Longrightarrow> r \<in> set evs \<or> e_finality r = Tentative"
  unfolding insert_events_fold
proof (induction ys arbitrary: evs)
  case (Cons y ys)
  then have "r \<in> set (fold (insert_event x h) ys (insert_event x h y evs))" by simp
  from Cons.IH [OF this] show ?case
    by (auto simp: insert_event_def ins_nothing_def event_of_def split: if_splits)
qed simp

lemma frame_of_commit:
  assumes "frame_of s u"
  shows "frame_of s (snd (commit_chunk x jb b logs prepared dead u))"
proof -
  have e: "w_events (snd (commit_chunk x jb b logs prepared dead u)) = insert_events x (jb_abi_hash jb) prepared (w_events u)"
    "work (snd (commit_chunk x jb b logs prepared dead u)) = work u"
    by (simp_all add: commit_chunk_def Let_def advance_checkpoint_def work_def)
  show ?thesis using assms unfolding frame_of_def e
    by (auto dest!: insert_events_rows simp: row_from_def [of _ _ "r" for r])
qed

lemma keeps_frame_chunk: "keeps (frame_of s) (backfill_chunk x co ab jb a b)"
proof -
  have c: "keeps (frame_of s) (commit_chunk x jb b logs prepared dead)" for logs prepared dead
    by (rule keepsI) (rule frame_of_commit)
  have a: "frame_of s (advance_checkpoint c f n u)" if "frame_of s u" for c f n u
    by (rule frame_of_cong [OF _ _ that]) (simp_all add: advance_checkpoint_def work_def)
  have l: "keeps (frame_of s) (eth_get_logs_multi_topic x co ab p c ts i j)" for p c ts i j
    unfolding eth_get_logs_multi_topic_def Let_def
    by (rule keeps_frame_reads) (intro only_reads_andthen only_reads_core only_reads_single only_reads_of_result)
  have t: "keeps (frame_of s) (fetch_block_timestamps x co ab p logs)" for p logs
    unfolding fetch_block_timestamps_def block_timestamp_at_def
    by (intro keeps_andthen keeps_fold_io keeps_core keeps_of_result keeps_some_or keeps_ret
        keeps_frame_reads only_reads_single)
  show ?thesis unfolding backfill_chunk_def
    by (auto intro!: keeps_andthen l t c a keeps_modifying split: prod.splits)
qed

lemma keeps_frame_block: "keeps (frame_of s) (check_block x p bh d)"
proof -
  have "frame_of s (handle_divergence n o1 o2 u)" if "frame_of s u" for n o1 o2 u
    by (rule frame_of_map [OF that, where g = "drop_block (as_i64 (int n))"])
      (auto simp: handle_divergence_def Let_def work_def drop_block_def)
  then show ?thesis unfolding check_block_def Let_def eth_get_block_header_def
    by (auto intro!: keeps_andthen keeps_frame_call keeps_modifying)
qed

lemma keeps_frame_reorg: "keeps (frame_of s) (reorg_run_once x p)"
proof -
  have "keeps (frame_of s) (core (eth_block_number x p))"
    unfolding eth_block_number_def by (rule keeps_frame_net) (rule core_hex_frame)
  then show ?thesis unfolding reorg_run_once_def Let_def
    by (auto intro!: keeps_andthen keeps_fold_io keeps_frame_block)
qed

lemma keeps_frame_stamps: "keeps (frame_of s) (run_with_timestamps latest fin)"
proof (rule keepsI)
  fix u :: "'a world" assume f: "frame_of s u"
  then have n: "w_now u = w_now s" by (simp add: frame_of_def work_def)
  show "frame_of s (snd (run_with_timestamps latest fin u))"
    by (rule frame_of_map [OF f, where g = "settled_row (w_now u) (latest - POSTING_LAG_SECS) (fin - FINALITY_SAFETY_MARGIN_SECS)"])
      (auto simp: run_with_timestamps_eq Let_def work_def settled_row_def n)
qed

lemma keeps_frame_finality: "keeps (frame_of s) (finality_run_once x p)" "keeps (frame_of s) finality_run_once_replay"
proof -
  have p: "frame_of s (persist_replay_inputs a b u)" if "frame_of s u" for a b u
    by (rule frame_of_cong [OF _ _ that]) (simp_all add: persist_replay_inputs_def work_def)
  have t: "keeps (frame_of s) (timestamp_of msg h)" for msg h
    by (auto simp: timestamp_of_def intro!: keeps_andthen)
  show "keeps (frame_of s) (finality_run_once x p)"
    unfolding finality_run_once_def l1_block_timestamp_def l1_block_timestamp_str_def eth_get_block_header_def
    by (auto intro!: keeps_andthen keeps_frame_call keeps_modifying keeps_frame_stamps t p)
  show "keeps (frame_of s) finality_run_once_replay"
    unfolding finality_run_once_replay_def replay_input_def
    by (auto intro!: keeps_andthen keeps_frame_stamps)
qed

section \<open>Prices and stakes\<close>

lemma keeps_frame_prices: "keeps (frame_of s) (run_backfill_eth_prices x co p cfg)"
proof (rule keepsI)
  fix u :: "'a world" assume f: "frame_of s u"
  have i: "frame_of s (insert_price x cfg blk price audit u)" if "frame_of s u" for u :: "'a world" and blk price audit
    by (rule frame_of_cong [OF _ _ that]) (simp_all add: insert_price_def work_def)
  have r: "keeps (frame_of s) (price_eth_at_block x co p cfg blk)" for blk
    unfolding price_eth_at_block_def
    by (intro keeps_frame_reads only_reads_andthen only_reads_core only_reads_batch)
      (auto split: sum.split)
  have b: "keeps (frame_of s) (backfill_block x co p cfg blk sm)" for blk sm
    unfolding backfill_block_def
    by (rule keeps_andthen [OF r]) (auto split: block_outcome.split intro!: keeps_andthen keeps_modifying i)
  have "keeps (frame_of s) (fold_io (backfill_block x co p cfg) blks sm)" for blks sm
    by (rule keeps_fold_io) (rule b)
  then show "frame_of s (snd (run_backfill_eth_prices x co p cfg u))"
    using f unfolding run_backfill_eth_prices_def Let_def by (rule keepsD)
qed

lemma write_delegators_frame:
  "fold (write_delegator x reg) es (sm, s) = (sm', t) \<Longrightarrow> w_events t = w_events s \<and> work t = work s"
proof (induction es arbitrary: sm s)
  case (Cons e es)
  obtain sm1 s1 where w: "write_delegator x reg e (sm, s) = (sm1, s1)" by fastforce
  then have "w_events s1 = w_events s" "work s1 = work s"
    by (auto simp: write_delegator_def Let_def work_def split: prod.splits option.splits)
  with Cons.IH [of sm1 s1] Cons.prems w show ?case by simp
qed simp

lemma flow_frame: "run_flow_backfill x order inc s = (fs, t) \<Longrightarrow> w_events t = w_events s \<and> work t = work s"
  by (auto simp: run_flow_backfill_def Let_def advance_flow_checkpoint_def work_def
      dest!: write_delegators_frame split: if_splits prod.splits)

section \<open>The invariant\<close>

definition watermarks_past :: "'n world \<Rightarrow> bool" where
  "watermarks_past s \<longleftrightarrow> (\<forall>k wm. stored_watermark s k = Some wm \<longrightarrow> wm \<le> w_now s)"

definition scans_complete :: "'n world \<Rightarrow> bool" where
  "scans_complete s \<longleftrightarrow> (\<forall>v. caught_up (pass_key v ''ETH'') (asset_wants ''ETH'') (eth_settled v) s
     \<and> caught_up (pass_key v ''LPT'') (asset_wants ''LPT'') (lpt_settled v) s
     \<and> caught_up (pass_key v ''MULTI'') (in_multi_universe ARBITRUM_CHAIN_ID) (multi_settled v) s)"

definition lifecycle_ok :: "'n world \<Rightarrow> bool" where
  "lifecycle_ok s \<longleftrightarrow> rows_timed s \<and> watermarks_past s \<and> scans_complete s"

lemma start_ok:
  assumes "unpriced_start s"
  shows "lifecycle_ok s"
proof -
  have w: "stored_watermark s k = None" for k using assms by (simp add: unpriced_start_def stored_watermark_def)
  have t: "\<exists>t\<ge>0. e_finalized_at r = Some t" if "r \<in> set (w_events s)" "e_finality r = Finalized" for r
    using assms that by (fastforce simp: unpriced_start_def rows_timed_def)
  have c: "caught_up key wants resolved s" if "\<And>r. wants r \<Longrightarrow> e_finality r = Finalized" for key wants resolved
    by (rule caught_up_fresh [OF w]) (use t that in blast)
  have "scans_complete s" unfolding scans_complete_def
    by (intro allI conjI c) (auto simp: asset_wants_def in_asset_universe_def in_multi_universe_def)
  then show ?thesis using assms by (simp add: lifecycle_ok_def unpriced_start_def watermarks_past_def w)
qed

lemma caught_up_frame:
  assumes "frame_of s t" "rows_timed s" "watermarks_past s" "caught_up key wants resolved s"
    and "\<And>r. wants r \<Longrightarrow> e_finality r = Finalized \<and> e_canonical r"
    and "\<And>r. resolved s r \<Longrightarrow> resolved t r"
  shows "caught_up key wants resolved t"
  unfolding caught_up_def
proof (intro ballI impI)
  fix r assume r: "r \<in> set (w_events t)" "wants r" "\<not> resolved t r"
  have c: "w_cursors t = w_cursors s" "row_from (set (w_events s)) (w_now s) r"
    using assms(1) r(1) by (auto simp: frame_of_def work_def)
  have wm: "stored_watermark t key = stored_watermark s key" using c(1) by (rule stored_watermark_cursors)
  consider "e_finalized_at r = Some (w_now s)" | "r \<in> set (w_events s)"
    using c(2) assms(5) [OF r(2)] by (auto simp: row_from_def)
  then show "\<exists>f\<ge>0. e_finalized_at r = Some f \<and>
      (\<forall>wm. stored_watermark t key = Some wm \<longrightarrow> wm - DEFAULT_LOOKBACK_SECS \<le> f)"
  proof cases
    case 1
    have "wm - DEFAULT_LOOKBACK_SECS \<le> w_now s" if "stored_watermark t key = Some wm" for wm
      using that assms(3) unfolding watermarks_past_def wm by (force simp: DEFAULT_LOOKBACK_SECS_def)
    then show ?thesis using 1 assms(2) by (simp add: rows_timed_def)
  next
    case 2
    with assms(4,6) r(2,3) show ?thesis unfolding caught_up_def wm by blast
  qed
qed

lemma unresolved_work: "work t = work s \<Longrightarrow> unresolved t vs e a = unresolved s vs e a"
  by (simp add: work_def unresolved_def valued_def failed_before_def)

lemmas settled_defs = eth_settled_def lpt_settled_def multi_settled_def multi_unresolved_def
lemmas wants_defs = asset_wants_def in_asset_universe_def in_multi_universe_def

lemma frame_ok:
  fixes s t :: "'n world"
  assumes "frame_of s t" "lifecycle_ok s"
  shows "lifecycle_ok t"
proof -
  have w: "work t = work s" using assms(1) by (simp add: frame_of_def)
  then have n: "w_now t = w_now s" and c: "w_cursors t = w_cursors s" by (simp_all add: work_def)
  have ok: "rows_timed s" "watermarks_past s" "scans_complete s" using assms(2) by (simp_all add: lifecycle_ok_def)
  have "\<exists>f. e_finalized_at r = Some f \<and> 0 \<le> f \<and> f \<le> w_now s"
    if "r \<in> set (w_events t)" "e_finality r = Finalized" for r
  proof -
    have "row_from (set (w_events s)) (w_now s) r" using assms(1) that(1) by (simp add: frame_of_def)
    with ok(1) that(2) show ?thesis unfolding row_from_def rows_timed_def by (metis order_refl)
  qed
  then have "rows_timed t" using ok(1) by (simp add: rows_timed_def n)
  moreover have "watermarks_past t"
    using ok(2) stored_watermark_cursors [OF c] by (simp add: watermarks_past_def n)
  moreover have "scans_complete t"
    using ok(3) unfolding scans_complete_def
    by (intro allI conjI caught_up_frame [OF assms(1) ok(1,2)])
      (auto simp: wants_defs settled_defs unresolved_work [OF w])
  ultimately show ?thesis by (simp add: lifecycle_ok_def)
qed

section \<open>Passes of the valuator\<close>

lemma append_suffix_same: "v @ p = w @ p \<longleftrightarrow> v = (w :: 'a list)"
  by simp

lemma pass_keys:
  "pass_key v ''ETH'' \<noteq> pass_key w ''LPT''" "pass_key v ''ETH'' \<noteq> pass_key w ''MULTI''"
  "pass_key v ''ETH'' \<noteq> pass_key w ''SEED''" "pass_key v ''LPT'' \<noteq> pass_key w ''MULTI''"
  "pass_key v ''LPT'' \<noteq> pass_key w ''SEED''" "pass_key v ''MULTI'' \<noteq> pass_key w ''SEED''"
  "pass_key v p = pass_key w p \<longleftrightarrow> v = w"
proof -
  have l: "last (pass_key v ''ETH'') = CHR ''H''" "last (pass_key v ''LPT'') = CHR ''T''"
    "last (pass_key v ''MULTI'') = CHR ''I''" "last (pass_key v ''SEED'') = CHR ''D''" for v
    by (simp_all add: pass_key_def)
  have d: "a \<noteq> b" if "last a \<noteq> last b" for a b :: string using that by blast
  show "pass_key v ''ETH'' \<noteq> pass_key w ''LPT''" "pass_key v ''ETH'' \<noteq> pass_key w ''MULTI''"
    "pass_key v ''ETH'' \<noteq> pass_key w ''SEED''" "pass_key v ''LPT'' \<noteq> pass_key w ''MULTI''"
    "pass_key v ''LPT'' \<noteq> pass_key w ''SEED''" "pass_key v ''MULTI'' \<noteq> pass_key w ''SEED''"
    by (rule d, unfold l, simp)+
qed (simp add: pass_key_def)

lemma did_rest:
  assumes did: "pass_did key U inc x rows pins s t" and ok: "lifecycle_ok s"
    and U: "\<And>r. U r \<Longrightarrow> e_finality r = Finalized"
  shows "rows_timed t" "watermarks_past t"
    and "inc \<or> k \<noteq> key \<Longrightarrow> (\<And>r. resolved s r \<Longrightarrow> resolved t r) \<Longrightarrow> caught_up k wants resolved s \<Longrightarrow>
      caught_up k wants resolved t"
proof -
  have r: "rows_timed s" and w: "watermarks_past s" using ok by (simp_all add: lifecycle_ok_def)
  have e: "w_events t = w_events s" "w_now t = w_now s" using did by (simp_all add: pass_did_def)
  have wm: "stored_watermark t k = (if inc \<or> k \<noteq> key then stored_watermark s k
      else case frontier_of U s of None \<Rightarrow> stored_watermark s k | Some f \<Rightarrow> Some (next_watermark pins f))" for k
    using did by (simp add: pass_did_def)
  show "rows_timed t" using r by (simp add: rows_timed_def e)
  have f: "f \<le> w_now s" if fr: "frontier_of U s = Some f" for f
  proof -
    let ?fs = "List.map_filter e_finalized_at (filter U (w_events s))"
    have ne: "?fs \<noteq> []" "f = Max (set ?fs)" using fr by (auto simp: frontier_of_def sql_max_def split: if_splits)
    then have "f \<in> set ?fs" by simp
    then obtain r' where r': "r' \<in> set (w_events s)" "U r'" "e_finalized_at r' = Some f"
      by (auto simp: List.map_filter_def)
    with r U [OF r'(2)] show ?thesis unfolding rows_timed_def by fastforce
  qed
  show "watermarks_past t" unfolding watermarks_past_def wm e
  proof (intro allI impI)
    fix k v assume v: "(if inc \<or> k \<noteq> key then stored_watermark s k
      else case frontier_of U s of None \<Rightarrow> stored_watermark s k | Some f \<Rightarrow> Some (next_watermark pins f)) = Some v"
    show "v \<le> w_now s"
    proof (cases "stored_watermark s k = Some v")
      case True
      then show ?thesis using w by (simp add: watermarks_past_def)
    next
      case False
      then obtain g where "frontier_of U s = Some g" "v = next_watermark pins g"
        using v by (auto split: if_splits option.splits)
      then show ?thesis using f next_watermark_le(1) [of pins g] by fastforce
    qed
  qed
  assume "inc \<or> k \<noteq> key" and mono: "\<And>r. resolved s r \<Longrightarrow> resolved t r" and c: "caught_up k wants resolved s"
  then have "stored_watermark t k = stored_watermark s k" by (simp add: wm)
  then show "caught_up k wants resolved t" using c mono unfolding caught_up_def e by metis
qed

lemma did_settled:
  assumes "pass_did key U inc x rows pins s t"
  shows "eth_settled v s r \<Longrightarrow> eth_settled v t r" "lpt_settled v s r \<Longrightarrow> lpt_settled v t r"
    "multi_settled v s r \<Longrightarrow> multi_settled v t r"
  using pass_did_settled [OF assms] by (auto simp: settled_defs)

text \<open>What a pass leaves to the invariant: its own scan, when it moves its own watermark.\<close>

lemma did_lifecycle_ok:
  fixes s t :: "'n world"
  assumes did: "pass_did key U inc x rows pins s t" and ok: "lifecycle_ok s"
    and U: "\<And>r. U r \<Longrightarrow> e_finality r = Finalized"
    and own: "\<And>v. \<not> inc \<Longrightarrow> pass_key v ''ETH'' = key \<Longrightarrow> caught_up (pass_key v ''ETH'') (asset_wants ''ETH'') (eth_settled v) t"
      "\<And>v. \<not> inc \<Longrightarrow> pass_key v ''LPT'' = key \<Longrightarrow> caught_up (pass_key v ''LPT'') (asset_wants ''LPT'') (lpt_settled v) t"
      "\<And>v. \<not> inc \<Longrightarrow> pass_key v ''MULTI'' = key \<Longrightarrow>
        caught_up (pass_key v ''MULTI'') (in_multi_universe ARBITRUM_CHAIN_ID) (multi_settled v) t"
  shows "lifecycle_ok t"
proof -
  note rest = did_rest [OF did ok, OF U]
  have sc: "caught_up (pass_key v ''ETH'') (asset_wants ''ETH'') (eth_settled v) s"
    "caught_up (pass_key v ''LPT'') (asset_wants ''LPT'') (lpt_settled v) s"
    "caught_up (pass_key v ''MULTI'') (in_multi_universe ARBITRUM_CHAIN_ID) (multi_settled v) s" for v
    using ok by (simp_all add: lifecycle_ok_def scans_complete_def)
  have "caught_up (pass_key v ''ETH'') (asset_wants ''ETH'') (eth_settled v) t" for v
    using own(1) [of v] rest(3) [OF _ _ did_settled(1) [OF did] sc(1) [of v]] by blast
  moreover have "caught_up (pass_key v ''LPT'') (asset_wants ''LPT'') (lpt_settled v) t" for v
    using own(2) [of v] rest(3) [OF _ _ did_settled(2) [OF did] sc(2) [of v]] by blast
  moreover have "caught_up (pass_key v ''MULTI'') (in_multi_universe ARBITRUM_CHAIN_ID) (multi_settled v) t" for v
    using own(3) [of v] rest(3) [OF _ _ did_settled(3) [OF did] sc(3) [of v]] by blast
  ultimately have "scans_complete t" by (simp add: scans_complete_def)
  with rest(1,2) show ?thesis by (simp add: lifecycle_ok_def)
qed

lemma pass_keys_eq:
  "pass_key v ''ETH'' = pass_key w ''LPT'' \<longleftrightarrow> False" "pass_key v ''LPT'' = pass_key w ''ETH'' \<longleftrightarrow> False"
  "pass_key v ''ETH'' = pass_key w ''MULTI'' \<longleftrightarrow> False" "pass_key v ''MULTI'' = pass_key w ''ETH'' \<longleftrightarrow> False"
  "pass_key v ''LPT'' = pass_key w ''MULTI'' \<longleftrightarrow> False" "pass_key v ''MULTI'' = pass_key w ''LPT'' \<longleftrightarrow> False"
  "pass_key v ''ETH'' = pass_key w ''SEED'' \<longleftrightarrow> False" "pass_key v ''LPT'' = pass_key w ''SEED'' \<longleftrightarrow> False"
  "pass_key v ''MULTI'' = pass_key w ''SEED'' \<longleftrightarrow> False"
  using pass_keys(1-6) by metis+

lemma eth_pass_ok:
  assumes run: "run_onchain_pass_eth x co p cfg version inc s = (r, t)" and ok: "lifecycle_ok s"
  shows "lifecycle_ok t"
proof -
  from eth_pass_trace [OF run] obtain rows pins where
    did: "pass_did (pass_key version ''ETH'') (in_asset_universe ARBITRUM_CHAIN_ID ''ETH'') inc x rows pins s t"
    by (elim exE conjE) (rule that)
  have t: "t = snd (run_onchain_pass_eth x co p cfg version inc s)" by (simp add: run)
  have sc: "caught_up (pass_key version ''ETH'') (asset_wants ''ETH'') (eth_settled version) s"
    using ok by (simp add: lifecycle_ok_def scans_complete_def)
  have "caught_up (pass_key version ''ETH'') (asset_wants ''ETH'') (eth_settled version)
      (snd (run_onchain_pass_eth x co p cfg version False s))"
    by (rule eth_pass.pass_catches_up [OF sc])
  then have own: "\<not> inc \<Longrightarrow> caught_up (pass_key version ''ETH'') (asset_wants ''ETH'') (eth_settled version) t"
    unfolding t by simp
  show ?thesis
    by (rule did_lifecycle_ok [OF did ok]) (auto simp: wants_defs pass_keys_eq pass_keys(7) own)
qed

lemma lpt_pass_ok:
  assumes run: "run_onchain_pass_lpt x co p cfg version inc sched s = (r, t)" and ok: "lifecycle_ok s"
  shows "lifecycle_ok t"
proof -
  from lpt_pass_trace [OF run] obtain rows pins where
    did: "pass_did (pass_key version ''LPT'') (in_asset_universe ARBITRUM_CHAIN_ID ''LPT'') inc x rows pins s t"
    by (elim exE conjE) (rule that)
  have t: "t = snd (run_onchain_pass_lpt x co p cfg version inc sched s)" by (simp add: run)
  have sc: "caught_up (pass_key version ''LPT'') (asset_wants ''LPT'') (lpt_settled version) s"
    using ok by (simp add: lifecycle_ok_def scans_complete_def)
  have "caught_up (pass_key version ''LPT'') (asset_wants ''LPT'') (lpt_settled version)
      (snd (run_onchain_pass_lpt x co p cfg version False sched s))"
    by (rule lpt_pass.pass_catches_up [OF sc])
  then have own: "\<not> inc \<Longrightarrow> caught_up (pass_key version ''LPT'') (asset_wants ''LPT'') (lpt_settled version) t"
    unfolding t by simp
  show ?thesis
    by (rule did_lifecycle_ok [OF did ok]) (auto simp: wants_defs pass_keys_eq pass_keys(7) own)
qed

lemma multi_pass_ok:
  assumes run: "run_multi_asset_pass x co p cfg version inc s = (r, t)" and ok: "lifecycle_ok s"
  shows "lifecycle_ok t"
proof -
  from multi_pass_trace [OF run] obtain rows pins where
    did: "pass_did (pass_key version ''MULTI'') (in_multi_universe ARBITRUM_CHAIN_ID) inc x rows pins s t"
    by (elim exE conjE) (rule that)
  have t: "t = snd (run_multi_asset_pass x co p cfg version inc s)" by (simp add: run)
  have sc: "caught_up (pass_key version ''MULTI'') (in_multi_universe ARBITRUM_CHAIN_ID) (multi_settled version) s"
    using ok by (simp add: lifecycle_ok_def scans_complete_def)
  have "caught_up (pass_key version ''MULTI'') (in_multi_universe ARBITRUM_CHAIN_ID) (multi_settled version)
      (snd (run_multi_asset_pass x co p cfg version False s))"
    by (rule multi_pass.pass_catches_up [OF sc])
  then have own: "\<not> inc \<Longrightarrow> caught_up (pass_key version ''MULTI'') (in_multi_universe ARBITRUM_CHAIN_ID) (multi_settled version) t"
    unfolding t by simp
  show ?thesis
    by (rule did_lifecycle_ok [OF did ok]) (auto simp: wants_defs pass_keys_eq pass_keys(7) own)
qed

text \<open>The seed pass adds rows and stamps its own cursor with the clock.\<close>

lemma resolved_grows:
  assumes "\<not> unresolved s vs e a" "set (w_valuations s) \<subseteq> set (w_valuations t)" "set (w_attempts s) \<subseteq> set (w_attempts t)"
  shows "\<not> unresolved t vs e a"
  using assms by (force simp: unresolved_def valued_def failed_before_def find_row_None_iff)

lemma seed_batch_grows:
  assumes "seed_batch x version inc s = (k, t)"
  shows "set (w_valuations s) \<subseteq> set (w_valuations t) \<and> set (w_attempts s) \<subseteq> set (w_attempts t) \<and> w_now t = w_now s"
proof -
  have t: "t = snd (seed_batch x version inc s)" by (simp add: assms)
  have "w_now t = w_now s" unfolding t by (auto simp: seed_batch_def Let_def split: prod.splits)
  then show ?thesis using seed_batch_appends [of x version inc s] unfolding t by fastforce
qed

lemma seed_loop_grows:
  "seed_loop x version inc n s = (m, t) \<Longrightarrow> set (w_valuations s) \<subseteq> set (w_valuations t) \<and>
     set (w_attempts s) \<subseteq> set (w_attempts t) \<and> w_now t = w_now s"
proof (induction x version inc n s rule: seed_loop.induct)
  case (1 x version inc n s)
  obtain k s' where b: "seed_batch x version inc s = (k, s')" by (cases "seed_batch x version inc s")
  note g = seed_batch_grows [OF b]
  show ?case
  proof (cases "k = 0")
    case True
    then show ?thesis using 1(2) b g by (simp add: seed_loop.simps [of x version inc n s])
  next
    case False
    then have "seed_loop x version inc (n + k) s' = (m, t)"
      using 1(2) b by (simp add: seed_loop.simps [of x version inc n s])
    from 1(1) [OF b [symmetric] refl False this] g show ?thesis by auto
  qed
qed

definition grown :: "'n world \<Rightarrow> 'n world \<Rightarrow> bool" where
  "grown s t \<longleftrightarrow> w_events t = w_events s \<and> w_now t = w_now s \<and> set (w_valuations s) \<subseteq> set (w_valuations t)
     \<and> set (w_attempts s) \<subseteq> set (w_attempts t)"

lemma seed_marker_watermark:
  "stored_watermark (record_seed_marker key n u) k = (if k = key then Some (w_now u) else stored_watermark u k)"
  by (auto simp: stored_watermark_def record_seed_marker_def find_row_upsert split: option.split)

definition stamped :: "string \<Rightarrow> 'n world \<Rightarrow> 'n world \<Rightarrow> bool" where
  "stamped key s t \<longleftrightarrow> grown s t \<and> (\<forall>k. stored_watermark t k = stored_watermark s k
     \<or> k = key \<and> stored_watermark t k = Some (w_now s))"

lemma stamped_refl: "stamped key s s"
  by (simp add: stamped_def grown_def)

lemma stamped_loop:
  assumes "seed_loop x version inc 0 s = (k, u)"
  shows "stamped key s u"
proof -
  have "stored_watermark u j = stored_watermark s j" for j
    by (rule stored_watermark_cursors) (simp add: seed_loop_frame [OF assms])
  then show ?thesis using seed_loop_frame [OF assms] seed_loop_grows [OF assms] by (simp add: stamped_def grown_def)
qed

lemma stamped_marker:
  assumes "stamped key s u"
  shows "stamped key s (record_seed_marker key n u)"
proof -
  have g: "grown s u" using assms by (simp add: stamped_def)
  then have "grown s (record_seed_marker key n u)" "w_now u = w_now s"
    by (simp_all add: grown_def record_seed_marker_def)
  then show ?thesis using assms by (auto simp: stamped_def seed_marker_watermark)
qed

lemma seed_pass_stamps:
  assumes "run_seed_pass x version inc s = (ss, t)"
  shows "stamped (pass_key version ''SEED'') s t"
proof -
  obtain k u where l: "seed_loop x version inc 0 s = (k, u)" by fastforce
  have "t = s \<or> t = record_seed_marker (pass_key version ''SEED'') (int (length (w_seeds s))) s \<or> t = u
      \<or> t = record_seed_marker (pass_key version ''SEED'') (int (length (w_seeds s))) u"
    using assms unfolding run_seed_pass_def Let_def l by (simp split: if_splits)
  then show ?thesis
    using stamped_marker [OF stamped_refl] stamped_marker [OF stamped_loop [OF l]] stamped_loop [OF l] stamped_refl
    by (elim disjE) simp_all
qed

lemma seed_pass_ok:
  fixes s t :: "'n world"
  assumes run: "run_seed_pass x version inc s = (ss, t)" and ok: "lifecycle_ok s"
  shows "lifecycle_ok t"
proof -
  have st: "stamped (pass_key version ''SEED'') s t" by (rule seed_pass_stamps [OF run])
  then have e: "w_events t = w_events s" "w_now t = w_now s"
    and g: "set (w_valuations s) \<subseteq> set (w_valuations t)" "set (w_attempts s) \<subseteq> set (w_attempts t)"
    by (simp_all add: stamped_def grown_def)
  have r: "\<And>vs q a. \<not> unresolved s vs q a \<Longrightarrow> \<not> unresolved t vs q a"
    by (rule resolved_grows [OF _ g])
  have w: "stored_watermark t k = stored_watermark s k \<or> k = pass_key version ''SEED''" for k
    using st by (auto simp: stamped_def)
  have c: "caught_up key wants resolved t"
    if "caught_up key wants resolved s" "key \<noteq> pass_key version ''SEED''" "\<And>r. resolved s r \<Longrightarrow> resolved t r"
    for key wants and resolved :: "'n world \<Rightarrow> event_row \<Rightarrow> bool"
    using that w [of key] unfolding caught_up_def e by metis
  have "scans_complete s" using ok by (simp add: lifecycle_ok_def)
  then have "scans_complete t" unfolding scans_complete_def
    by (intro allI conjI c) (auto simp: settled_defs pass_keys_eq dest: r)
  moreover have "rows_timed t" using ok by (simp add: lifecycle_ok_def rows_timed_def e)
  moreover have "watermarks_past t" unfolding watermarks_past_def e
  proof (intro allI impI)
    fix k wm assume "stored_watermark t k = Some wm"
    then have "stored_watermark s k = Some wm \<or> wm = w_now s" using st unfolding stamped_def by (metis option.inject)
    then show "wm \<le> w_now s" using ok by (auto simp: lifecycle_ok_def watermarks_past_def)
  qed
  ultimately show ?thesis by (simp add: lifecycle_ok_def)
qed

section \<open>The surroundings\<close>

lemma scans_tables:
  fixes s t :: "'n world"
  assumes "lifecycle_ok s" "w_events t = w_events s" "w_valuations t = w_valuations s" "w_attempts t = w_attempts s"
    "w_cursors t = w_cursors s" "w_now s \<le> w_now t"
  shows "lifecycle_ok t"
proof -
  have u: "unresolved t vs e a = unresolved s vs e a" for vs e a
    by (simp add: unresolved_def valued_def failed_before_def assms(3,4))
  have "caught_up key wants resolved t = caught_up key wants resolved s"
    if "\<And>r. resolved t r = resolved s r" for key wants and resolved :: "'n world \<Rightarrow> event_row \<Rightarrow> bool"
    unfolding caught_up_def assms(2) that stored_watermark_cursors [OF assms(5)] ..
  then have "scans_complete t" using assms(1)
    by (simp add: lifecycle_ok_def scans_complete_def settled_defs u)
  moreover have "rows_timed t" using assms(1,2,6) unfolding lifecycle_ok_def rows_timed_def by fastforce
  moreover have "watermarks_past t" using assms(1,6) stored_watermark_cursors [OF assms(5)]
    unfolding lifecycle_ok_def watermarks_past_def by fastforce
  ultimately show ?thesis by (simp add: lifecycle_ok_def)
qed

lemma io_frame_ok:
  assumes "keeps (frame_of s) m" "m s = (r, t)" "lifecycle_ok s"
  shows "lifecycle_ok t"
proof -
  have "frame_of s (snd (m s))" by (rule keepsD [OF assms(1) frame_of_refl])
  then show ?thesis using frame_ok assms(2,3) by simp
qed

lemma lifecycle_step_ok: "lifecycle x s t \<Longrightarrow> lifecycle_ok s \<Longrightarrow> lifecycle_ok t"
proof (induction rule: lifecycle.induct)
  case (stake_flow order inc s fs t)
  from flow_frame [OF this(1)] have "w_events t = w_events s" "work t = work s" by simp_all
  then have "frame_of s t" using frame_of_cong [OF _ _ frame_of_refl] by blast
  then show ?case using stake_flow(2) by (rule frame_ok)
qed (auto intro: scans_tables seed_pass_ok eth_pass_ok lpt_pass_ok multi_pass_ok
    io_frame_ok [OF keeps_frame_chunk] io_frame_ok [OF keeps_frame_reorg] io_frame_ok [OF keeps_frame_finality(1)]
    io_frame_ok [OF keeps_frame_finality(2)] io_frame_ok [OF keeps_frame_prices])

theorem lifecycle_invariant:
  assumes "(lifecycle x)\<^sup>*\<^sup>* s t" "unpriced_start s"
  shows "lifecycle_ok t"
  using assms(1)
proof (induction rule: rtranclp_induct)
  case base
  show ?case by (rule start_ok [OF assms(2)])
next
  case (step t u)
  then show ?case by (blast intro: lifecycle_step_ok)
qed

section \<open>The incremental scans read enough\<close>

lemma scans_complete_full:
  assumes "scans_complete t"
  shows "filter (\<lambda>c. cd_amount c \<noteq> None) (fetch_eth_candidates version False
        (scan_floor version (pass_key version ''ETH'') DEFAULT_LOOKBACK_SECS False t) t)
      = filter (\<lambda>c. cd_amount c \<noteq> None) (fetch_eth_candidates version False epoch t)"
    and "filter (\<lambda>c. cd_amount c \<noteq> None) (fetch_lpt_candidates TWAP_VERSION False
        (scan_floor TWAP_VERSION (pass_key TWAP_VERSION ''LPT'') DEFAULT_LOOKBACK_SECS False t) t)
      = filter (\<lambda>c. cd_amount c \<noteq> None) (fetch_lpt_candidates TWAP_VERSION False epoch t)"
    and "fetch_multi_candidates x TWAP_VERSION False
        (scan_floor TWAP_VERSION (pass_key TWAP_VERSION ''MULTI'') DEFAULT_LOOKBACK_SECS False t) t
      = fetch_multi_candidates x TWAP_VERSION False epoch t"
proof -
  have c: "caught_up (pass_key v ''ETH'') (asset_wants ''ETH'') (eth_settled v) t"
    "caught_up (pass_key v ''LPT'') (asset_wants ''LPT'') (lpt_settled v) t"
    "caught_up (pass_key v ''MULTI'') (in_multi_universe ARBITRUM_CHAIN_ID) (multi_settled v) t" for v
    using assms by (simp_all add: scans_complete_def)
  show "filter (\<lambda>c. cd_amount c \<noteq> None) (fetch_eth_candidates version False
        (scan_floor version (pass_key version ''ETH'') DEFAULT_LOOKBACK_SECS False t) t)
      = filter (\<lambda>c. cd_amount c \<noteq> None) (fetch_eth_candidates version False epoch t)"
    using c(1) unfolding fetch_eth_candidates_def by (rule same_candidates) (simp_all add: eth_settled_def)
  show "filter (\<lambda>c. cd_amount c \<noteq> None) (fetch_lpt_candidates TWAP_VERSION False
        (scan_floor TWAP_VERSION (pass_key TWAP_VERSION ''LPT'') DEFAULT_LOOKBACK_SECS False t) t)
      = filter (\<lambda>c. cd_amount c \<noteq> None) (fetch_lpt_candidates TWAP_VERSION False epoch t)"
    using c(2) unfolding fetch_lpt_candidates_def
    by (rule same_candidates) (simp_all add: lpt_settled_def unresolved_twap)
  show "fetch_multi_candidates x TWAP_VERSION False
        (scan_floor TWAP_VERSION (pass_key TWAP_VERSION ''MULTI'') DEFAULT_LOOKBACK_SECS False t) t
      = fetch_multi_candidates x TWAP_VERSION False epoch t"
    by (rule same_multi_candidates [OF c(3) refl])
qed

text \<open>
  C26. Whatever the indexer, the watchers, the staker, the imports, the clock, the network and
  the valuator's own passes did to a database since it was without a cursor, in any order of
  whole passes and with any configuration, the next incremental scan of each on-chain pass
  finds the priceable candidates a scan of the whole history finds, in the same order, and each
  of those passes returns.
\<close>

theorem incremental_scans_complete:
  assumes "(lifecycle x)\<^sup>*\<^sup>* s t" "unpriced_start s"
  shows "filter (\<lambda>c. cd_amount c \<noteq> None) (fetch_eth_candidates version False
        (scan_floor version (pass_key version ''ETH'') DEFAULT_LOOKBACK_SECS False t) t)
      = filter (\<lambda>c. cd_amount c \<noteq> None) (fetch_eth_candidates version False epoch t)
    \<and> filter (\<lambda>c. cd_amount c \<noteq> None) (fetch_lpt_candidates TWAP_VERSION False
        (scan_floor TWAP_VERSION (pass_key TWAP_VERSION ''LPT'') DEFAULT_LOOKBACK_SECS False t) t)
      = filter (\<lambda>c. cd_amount c \<noteq> None) (fetch_lpt_candidates TWAP_VERSION False epoch t)
    \<and> fetch_multi_candidates x TWAP_VERSION False
        (scan_floor TWAP_VERSION (pass_key TWAP_VERSION ''MULTI'') DEFAULT_LOOKBACK_SECS False t) t
      = fetch_multi_candidates x TWAP_VERSION False epoch t
    \<and> (\<exists>sm. fst (run_onchain_pass_eth x co p cfg version False t) = Inr sm)
    \<and> (\<exists>sm. fst (run_onchain_pass_lpt x co p cfg TWAP_VERSION False sched t) = Inr sm)
    \<and> (\<exists>sm. fst (run_multi_asset_pass x co p cfg TWAP_VERSION False t) = Inr sm)"
proof -
  have "scans_complete t" using lifecycle_invariant [OF assms] by (simp add: lifecycle_ok_def)
  note full = scans_complete_full [OF this]
  show ?thesis
    by (intro conjI full eth_pass_returns lpt_pass_returns multi_pass_returns)
qed

text \<open>The ETH event finalized at 700, seen at 900 after an import of seeds.\<close>

definition later_world :: "unit world" where
  "later_world = eth_world\<lparr>w_now := 800, w_seeds := [sample_seed]\<rparr>"

theorem incremental_scans_complete_witness:
  "filter (\<lambda>c. cd_amount c \<noteq> None) (fetch_eth_candidates ''v'' False
      (scan_floor ''v'' (pass_key ''v'' ''ETH'') DEFAULT_LOOKBACK_SECS False later_world) later_world)
    = [candidate_of eth_event]"
proof -
  let ?s = "eth_world\<lparr>w_now := 800\<rparr>"
  have "later_world = ?s\<lparr>w_seeds := w_seeds ?s @ [sample_seed]\<rparr>"
    by (simp add: later_world_def eth_world_def empty_world_def)
  then have run: "(lifecycle sample_ext)\<^sup>*\<^sup>* ?s later_world"
    using lifecycle.import_seeds [of sample_ext ?s "[sample_seed]"] by (simp add: r_into_rtranclp)
  have start: "unpriced_start ?s"
    by (simp add: unpriced_start_def rows_timed_def eth_world_def empty_world_def eth_event_def)
  have f: "fetch_eth_candidates ''v'' False epoch later_world = [candidate_of eth_event]"
    by (simp add: later_world_def fetch_eth_candidates_def asset_candidates_def eth_world_def eth_event_def
        sample_event_def empty_world_def passes_floor_def epoch_def unresolved_def valued_def failed_before_def)
  note incremental_scans_complete [OF run start, of "''v''", THEN conjunct1]
  then show ?thesis unfolding f by (simp add: candidate_of_def eth_event_def sample_event_def)
qed

end
