(* ===== verification/Stake_Flow_Props.thy ===== *)
theory Stake_Flow_Props
  imports Stake_Flow Watchers
begin

text \<open>
  The properties of the stake-flow backfill: the closed form of a replay, the stored rows of the
  delegators a batch touches, the independence of the order in which a hash map is visited, and
  two situations in which the stored stake is wrong.
\<close>

section \<open>B-tree entries\<close>

lemma btree_keys [simp]: "fst ` set (btree_insert k v t) = insert k (fst ` set t)"
  by (induction k v t rule: btree_insert.induct) auto

lemma btree_strict:
  "sorted_wrt (<) (map fst t) \<Longrightarrow> sorted_wrt (<) (map fst (btree_insert k v t))"
proof (induction k v t rule: btree_insert.induct)
  case (2 k v k' v' t)
  have "fst ` set (btree_insert k v t) = insert k (fst ` set t)" by simp
  then have "\<forall>y\<in>fst ` set (btree_insert k v t). k' < y" if "k' < k" using 2(2) that by auto
  with 2 show ?case by auto
qed simp

lemma btree_set:
  "sorted_wrt (<) (map fst t) \<Longrightarrow>
   set (btree_insert k v t) = insert (k, v) {e \<in> set t. fst e \<noteq> k}"
proof (induction k v t rule: btree_insert.induct)
  case (2 k v k' v' t)
  have gt: "k' < fst e" if "e \<in> set t" for e using 2(2) that by auto
  then have "fst e \<noteq> k" if "e \<in> set t" "k \<le> k'" for e using that by fastforce
  with 2 show ?case by (auto simp: not_less)
qed simp

section \<open>The closed form of a replay\<close>

text \<open>
  The reference: an event registers the delegator, or it counts because the delegator is
  registered already, or it is a claim; the balance is the sum of the signed amounts of the
  events that count.
\<close>

definition registers :: "string \<Rightarrow> stake_event \<Rightarrow> bool" where
  "registers d ev \<longleftrightarrow> (se_name ev = ''Bond'' \<and> se_from ev = Some d)
     \<or> (se_name ev = ''TransferBond'' \<and> se_to ev = Some d)"

definition needs_registration :: "string \<Rightarrow> stake_event \<Rightarrow> bool" where
  "needs_registration d ev \<longleftrightarrow> se_from ev = Some d \<and>
     (se_name ev \<in> {''Unbond'', ''WithdrawStake'', ''Rebond''}
      \<or> se_name ev = ''TransferBond'' \<and> se_to ev \<noteq> Some d)"

definition claims :: "string \<Rightarrow> stake_event \<Rightarrow> bool" where
  "claims d ev \<longleftrightarrow> se_name ev = ''EarningsClaimed'' \<and> se_from ev = Some d"

fun counted_from :: "bool \<Rightarrow> string \<Rightarrow> stake_event list \<Rightarrow> stake_event list" where
  "counted_from reg d [] = []"
| "counted_from reg d (ev # evs) =
     (if registers d ev \<or> claims d ev \<or> needs_registration d ev \<and> reg then [ev] else [])
     @ counted_from (reg \<or> registers d ev) d evs"

definition counted :: "string \<Rightarrow> stake_event list \<Rightarrow> stake_event list" where
  "counted d evs = counted_from False d evs"

definition signed_amount :: "ext \<Rightarrow> stake_event \<Rightarrow> rat" where
  "signed_amount x ev =
     (if se_name ev \<in> {''Bond'', ''Rebond''} then amount_of ev
      else if se_name ev = ''Unbond'' then - amount_of ev
      else if se_name ev = ''EarningsClaimed'' then earnings_rewards_lpt x (se_raw ev)
      else 0)"

definition stake_after :: "ext \<Rightarrow> stake_event list \<Rightarrow> rat" where
  "stake_after x evs = sum_list (map (signed_amount x) evs)"

definition moves :: "stake_event \<Rightarrow> bool" where
  "moves ev \<longleftrightarrow> se_name ev \<in> {''Bond'', ''Unbond'', ''Rebond'', ''EarningsClaimed''} \<and> se_to ev \<noteq> None"

definition delegate_after :: "stake_event list \<Rightarrow> string" where
  "delegate_after evs =
     (if filter moves evs = [] then ZERO_ADDRESS else the (se_to (last (filter moves evs))))"

lemma counted_from_append:
  "counted_from reg d (xs @ ys) =
   counted_from reg d xs @ counted_from (reg \<or> (\<exists>e\<in>set xs. registers d e)) d ys"
  by (induction xs arbitrary: reg) (simp_all add: disj_assoc)

lemma counted_snoc:
  "counted d (evs @ [ev]) = counted d evs @
     (if registers d ev \<or> claims d ev \<or> needs_registration d ev \<and> (\<exists>e\<in>set evs. registers d e)
      then [ev] else [])"
  by (simp add: counted_def counted_from_append)

lemma set_counted: "set (counted d evs) \<subseteq> set evs"
  by (induction evs rule: rev_induct) (auto simp: counted_def counted_from_append)

text \<open>The row a counted event writes, and what one iteration does.\<close>

definition row_of :: "stake_event \<Rightarrow> string \<Rightarrow> rat \<Rightarrow> string \<Rightarrow> row_write" where
  "row_of ev del q src = \<lparr>rw_block = se_block ev, rw_ts = se_ts ev, rw_hash = se_hash ev,
     rw_delegate = del, rw_principal = q, rw_source = src, rw_trigger = se_id ev\<rparr>"

definition shown_delegate :: "walk \<Rightarrow> string" where
  "shown_delegate w = (case wk_delegate w of Some d \<Rightarrow> d | None \<Rightarrow> ZERO_ADDRESS)"

lemmas walk_defs = saw_def write_row_def move_to_def add_balance_def register_def skip_unregistered_def

lemma replay_event_counted:
  assumes "registers d ev \<or> claims d ev \<or> needs_registration d ev \<and> wk_registered w"
    and "w' = replay_event x d ev w"
  shows "wk_registered w' = (wk_registered w \<or> registers d ev)
     \<and> wk_balance w' = wk_balance w + signed_amount x ev
     \<and> wk_delegate w' = (if moves ev then se_to ev else wk_delegate w)
     \<and> wk_rows w' = btree_insert (se_block ev) (row_of ev (shown_delegate w') (wk_balance w')
          (if registers d ev \<or> wk_registered w then SOURCE_FLOW else SOURCE_EARNINGS_BOOTSTRAP)) (wk_rows w)
     \<and> wk_last_seen w' = Some (se_block ev, se_id ev) \<and> wk_skipped w' = wk_skipped w
     \<and> wk_first_bond w' = (if registers d ev \<and> \<not> wk_registered w \<and> wk_first_bond w = None
          then Some (se_block ev, se_id ev) else wk_first_bond w)"
proof -
  consider (bond) "se_name ev = ''Bond''" | (unbond) "se_name ev = ''Unbond''"
    | (wd) "se_name ev = ''WithdrawStake''" | (rebond) "se_name ev = ''Rebond''"
    | (claim) "se_name ev = ''EarningsClaimed''" | (transfer) "se_name ev = ''TransferBond''"
    using assms by (auto simp: registers_def claims_def needs_registration_def)
  then show ?thesis
    using assms
    by cases (cases "se_to ev"; cases "wk_first_bond w";
        auto simp: replay_event_def Let_def registers_def claims_def needs_registration_def
          walk_defs signed_amount_def moves_def shown_delegate_def row_of_def)+
qed

lemma replay_event_skipped:
  assumes "\<not> (registers d ev \<or> claims d ev \<or> needs_registration d ev \<and> wk_registered w)"
    and "d \<in> set (delegators_of ev)" and "se_name ev \<in> set STAKE_EVENT_NAMES"
  shows "replay_event x d ev w = skip_unregistered w"
proof -
  have f: "se_from ev = Some d" "se_name ev = ''TransferBond'' \<Longrightarrow> se_to ev \<noteq> Some d"
      "se_name ev \<noteq> ''Bond''" "se_name ev \<noteq> ''EarningsClaimed''"
    using assms by (auto simp: delegators_of_def registers_def claims_def split: if_splits option.splits)
  with assms(3) have n: "needs_registration d ev"
    by (auto simp: needs_registration_def STAKE_EVENT_NAMES_def)
  with assms(1) have r: "\<not> wk_registered w" by simp
  from f n r show ?thesis
    by (auto simp: replay_event_def Let_def needs_registration_def)
qed

section \<open>The walk over a stream\<close>

definition row_at :: "ext \<Rightarrow> string \<Rightarrow> stake_event list \<Rightarrow> row_write" where
  "row_at x d evs = row_of (last evs) (delegate_after evs) (stake_after x evs)
     (if \<exists>e\<in>set evs. registers d e then SOURCE_FLOW else SOURCE_EARNINGS_BOOTSTRAP)"

definition up_to :: "int \<Rightarrow> stake_event list \<Rightarrow> stake_event list" where
  "up_to b evs = filter (\<lambda>e. se_block e \<le> b) evs"

definition first_bond_of :: "string \<Rightarrow> stake_event list \<Rightarrow> (int \<times> int) option" where
  "first_bond_of d evs = map_option (\<lambda>e. (se_block e, se_id e)) (find (registers d) evs)"

definition last_seen_of :: "stake_event list \<Rightarrow> (int \<times> int) option" where
  "last_seen_of evs = (if evs = [] then None else Some (se_block (last evs), se_id (last evs)))"

definition walk_is :: "ext \<Rightarrow> string \<Rightarrow> stake_event list \<Rightarrow> walk \<Rightarrow> bool" where
  "walk_is x d evs w \<longleftrightarrow>
     (let L = counted d evs in
        (wk_registered w \<longleftrightarrow> (\<exists>e\<in>set evs. registers d e))
      \<and> wk_balance w = stake_after x L \<and> shown_delegate w = delegate_after L
      \<and> wk_first_bond w = first_bond_of d L \<and> wk_last_seen w = last_seen_of L
      \<and> wk_skipped w + length L = length evs
      \<and> sorted_wrt (<) (map fst (wk_rows w))
      \<and> set (wk_rows w) = (\<lambda>b. (b, row_at x d (up_to b L))) ` se_block ` set L)"

lemma registers_counted: "(\<exists>e\<in>set (counted d evs). registers d e) \<longleftrightarrow> (\<exists>e\<in>set evs. registers d e)"
  by (induction evs rule: rev_induct) (auto simp: counted_snoc, simp add: counted_def)

lemma find_append: "find P (xs @ ys) = (case find P xs of Some z \<Rightarrow> Some z | None \<Rightarrow> find P ys)"
  by (induction xs) auto

lemma stake_after_snoc [simp]: "stake_after x (L @ [ev]) = stake_after x L + signed_amount x ev"
  by (simp add: stake_after_def)

lemma delegate_after_snoc:
  "delegate_after (L @ [ev]) = (if moves ev then the (se_to ev) else delegate_after L)"
  by (simp add: delegate_after_def)

lemma up_to_snoc_all:
  assumes "\<And>e. e \<in> set L \<Longrightarrow> se_block e \<le> se_block ev"
  shows "up_to (se_block ev) (L @ [ev]) = L @ [ev]"
  using assms by (simp add: up_to_def)

lemma up_to_snoc_below: "b < se_block ev \<Longrightarrow> up_to b (L @ [ev]) = up_to b L"
  by (simp add: up_to_def)

lemma walk_step:
  assumes w: "walk_is x d evs w" and d: "d \<in> set (delegators_of ev)" and n: "se_name ev \<in> set STAKE_EVENT_NAMES"
    and b: "\<And>e. e \<in> set evs \<Longrightarrow> se_block e \<le> se_block ev"
  shows "walk_is x d (evs @ [ev]) (replay_event x d ev w)"
proof (cases "registers d ev \<or> claims d ev \<or> needs_registration d ev \<and> wk_registered w")
  case False
  let ?L = "counted d evs"
  have "counted d (evs @ [ev]) = ?L"
    using False w by (auto simp: counted_snoc walk_is_def Let_def)
  moreover have "replay_event x d ev w = skip_unregistered w"
    by (rule replay_event_skipped [OF False d n])
  ultimately show ?thesis
    using w False by (simp add: walk_is_def Let_def skip_unregistered_def shown_delegate_def)
next
  case True
  let ?L = "counted d evs" and ?w = "replay_event x d ev w"
  have L: "counted d (evs @ [ev]) = ?L @ [ev]"
    using True w by (auto simp: counted_snoc walk_is_def Let_def)
  have below: "se_block e \<le> se_block ev" if "e \<in> set ?L" for e
    using b set_counted [of d evs] that by blast
  from replay_event_counted [OF True refl, of x] have
      reg: "wk_registered ?w = (wk_registered w \<or> registers d ev)"
    and bal: "wk_balance ?w = wk_balance w + signed_amount x ev"
    and del: "wk_delegate ?w = (if moves ev then se_to ev else wk_delegate w)"
    and rows: "wk_rows ?w = btree_insert (se_block ev) (row_of ev (shown_delegate ?w) (wk_balance ?w)
          (if registers d ev \<or> wk_registered w then SOURCE_FLOW else SOURCE_EARNINGS_BOOTSTRAP)) (wk_rows w)"
    and seen: "wk_last_seen ?w = Some (se_block ev, se_id ev)" and sk: "wk_skipped ?w = wk_skipped w"
    and fb: "wk_first_bond ?w = (if registers d ev \<and> \<not> wk_registered w \<and> wk_first_bond w = None
          then Some (se_block ev, se_id ev) else wk_first_bond w)"
    by - (elim conjE, assumption)+
  from w have W: "wk_registered w \<longleftrightarrow> (\<exists>e\<in>set evs. registers d e)" "wk_balance w = stake_after x ?L"
      "shown_delegate w = delegate_after ?L" "wk_first_bond w = first_bond_of d ?L"
      "wk_skipped w + length ?L = length evs" "sorted_wrt (<) (map fst (wk_rows w))"
      "set (wk_rows w) = (\<lambda>b. (b, row_at x d (up_to b ?L))) ` se_block ` set ?L"
    unfolding walk_is_def Let_def by - (elim conjE, assumption)+
  have shown: "shown_delegate ?w = delegate_after (?L @ [ev])"
    using W(3) del by (auto simp: shown_delegate_def delegate_after_snoc moves_def)
  have row: "row_of ev (shown_delegate ?w) (wk_balance ?w)
        (if registers d ev \<or> wk_registered w then SOURCE_FLOW else SOURCE_EARNINGS_BOOTSTRAP)
      = row_at x d (?L @ [ev])"
    using shown bal W(1,2) registers_counted [of d evs] by (auto simp: row_at_def)
  have set: "set (wk_rows ?w) = (\<lambda>b. (b, row_at x d (up_to b (?L @ [ev])))) ` se_block ` set (?L @ [ev])"
  proof -
    have old: "{e \<in> set (wk_rows w). fst e \<noteq> se_block ev}
        = (\<lambda>b. (b, row_at x d (up_to b (?L @ [ev])))) ` (se_block ` set ?L - {se_block ev})"
      unfolding W(7) using below by (auto simp: image_iff up_to_snoc_below order.strict_iff_order)
    show ?thesis
      unfolding rows row btree_set [OF W(6)] old
      using up_to_snoc_all [of ?L ev, OF below] by (auto simp: image_iff)
  qed
  have fb': "wk_first_bond ?w = first_bond_of d (?L @ [ev])"
  proof (cases "find (registers d) ?L")
    case None
    then have "\<not> wk_registered w" using W(1) registers_counted [of d evs] by (simp add: find_None_iff)
    with None show ?thesis using fb W(4) by (simp add: first_bond_of_def find_append)
  next
    case (Some e)
    then have "\<exists>e\<in>set ?L. registers d e" by (metis find_None_iff2 find_None_iff option.distinct(1))
    then have "wk_registered w" using W(1) registers_counted [of d evs] by simp
    with Some show ?thesis using fb W(4) by (simp add: first_bond_of_def find_append)
  qed
  have srt: "sorted_wrt (<) (map fst (wk_rows ?w))"
    unfolding rows by (rule btree_strict [OF W(6)])
  show ?thesis
    unfolding walk_is_def Let_def L
    using reg bal W(1,2,5) seen sk shown fb' srt set by (auto simp: last_seen_of_def)
qed

lemma walk_of_stream:
  assumes "sorted (map se_block evs)" and "\<And>e. e \<in> set evs \<Longrightarrow> d \<in> set (delegators_of e)"
    and "\<And>e. e \<in> set evs \<Longrightarrow> se_name e \<in> set STAKE_EVENT_NAMES"
  shows "walk_is x d evs (fold (replay_event x d) evs new_walk)"
  using assms
proof (induction evs rule: rev_induct)
  case Nil
  then show ?case
    by (simp add: walk_is_def new_walk_def counted_def stake_after_def delegate_after_def shown_delegate_def
        first_bond_of_def last_seen_of_def)
next
  case (snoc ev evs)
  then have "walk_is x d evs (fold (replay_event x d) evs new_walk)" by (simp add: sorted_append)
  from walk_step [OF this, of ev] snoc.prems show ?case by (simp add: sorted_append)
qed

lemma rows_of_walk:
  assumes "walk_is x d evs w"
  shows "map snd (wk_rows w) = map (\<lambda>b. row_at x d (up_to b (counted d evs)))
    (sorted_list_of_set (se_block ` set (counted d evs)))"
proof -
  let ?L = "counted d evs" and ?g = "\<lambda>b. row_at x d (up_to b (counted d evs))"
  from assms have srt: "sorted_wrt (<) (map fst (wk_rows w))"
      and set: "set (wk_rows w) = (\<lambda>b. (b, ?g b)) ` se_block ` set ?L"
    unfolding walk_is_def Let_def by - (elim conjE, assumption)+
  have keys: "map fst (wk_rows w) = sorted_list_of_set (se_block ` set ?L)"
  proof -
    have "set (map fst (wk_rows w)) = se_block ` set ?L" unfolding set_map set by (simp add: image_image)
    with srt show ?thesis
      using sorted_list_of_set.idem_if_sorted_distinct [of "map fst (wk_rows w)"] by (simp add: strict_sorted_iff)
  qed
  have "snd e = ?g (fst e)" if "e \<in> set (wk_rows w)" for e using that unfolding set by auto
  then have "map snd (wk_rows w) = map ?g (map fst (wk_rows w))" by simp
  then show ?thesis unfolding keys .
qed

text \<open>
  C29. What a replay returns, in closed form: one row per block of a counted event, in the order
  of the blocks, showing the sum of the signed amounts, the latest delegate and the last event
  up to that block; the registry entry of the first registering and the last counted event,
  active exactly when the sum is positive; every other event is counted as skipped.
\<close>

theorem replay_closed_form:
  assumes "sorted (map se_block evs)"
    and "\<And>e. e \<in> set evs \<Longrightarrow> d \<in> set (delegators_of e) \<and> se_name e \<in> set STAKE_EVENT_NAMES"
  shows "replay_delegator x d evs =
    (let L = counted d evs in
     \<lparr>ro_rows = map (\<lambda>b. row_at x d (up_to b L)) (sorted_list_of_set (se_block ` set L)),
      ro_registry = map_option (\<lambda>f. \<lparr>gw_first_block = se_block f, gw_first_event = se_id f,
         gw_last_block = se_block (last L), gw_last_event = se_id (last L),
         gw_active = (stake_after x L > 0)\<rparr>) (find (registers d) L),
      ro_skipped = length evs - length L\<rparr>)"
proof -
  let ?w = "fold (replay_event x d) evs new_walk" and ?L = "counted d evs"
  have w: "walk_is x d evs ?w" using assms by (intro walk_of_stream) auto
  then have W: "wk_registered ?w \<longleftrightarrow> (\<exists>e\<in>set evs. registers d e)" "wk_balance ?w = stake_after x ?L"
      "wk_first_bond ?w = first_bond_of d ?L" "wk_last_seen ?w = last_seen_of ?L"
      "wk_skipped ?w + length ?L = length evs"
    unfolding walk_is_def Let_def by - (elim conjE, assumption)+
  have "registry_of ?w = map_option (\<lambda>f. \<lparr>gw_first_block = se_block f, gw_first_event = se_id f,
         gw_last_block = se_block (last ?L), gw_last_event = se_id (last ?L),
         gw_active = (stake_after x ?L > 0)\<rparr>) (find (registers d) ?L)"
  proof (cases "find (registers d) ?L")
    case None
    then have "\<not> wk_registered ?w" using W(1) registers_counted [of d evs] by (simp add: find_None_iff)
    with None show ?thesis by (simp add: registry_of_def)
  next
    case (Some e)
    then have e: "\<exists>e\<in>set ?L. registers d e" by (metis find_None_iff2 find_None_iff option.distinct(1))
    then have "wk_registered ?w" using W(1) registers_counted [of d evs] by simp
    moreover have "?L \<noteq> []" using e by auto
    ultimately show ?thesis using Some W(2,3,4) by (simp add: registry_of_def first_bond_of_def last_seen_of_def)
  qed
  then show ?thesis
    using rows_of_walk [OF w] W(5) by (simp add: replay_delegator_def Let_def)
qed

definition sample_stake :: "int \<Rightarrow> string \<Rightarrow> int \<Rightarrow> rat \<Rightarrow> stake_event" where
  "sample_stake i name b q = \<lparr>se_id = i, se_name = name, se_block = b, se_ts = b, se_hash = ''h'',
     se_from = Some ''d'', se_to = Some ''o'', se_amount = Some q, se_raw = JNull\<rparr>"

theorem replay_closed_form_witness:
  "ro_rows (replay_delegator sample_ext ''d''
     [sample_stake 1 ''Unbond'' 90 5, sample_stake 2 ''Bond'' 100 1000, sample_stake 3 ''Unbond'' 200 400])
   = [row_of (sample_stake 2 ''Bond'' 100 1000) ''o'' 1000 SOURCE_FLOW,
      row_of (sample_stake 3 ''Unbond'' 200 400) ''o'' 600 SOURCE_FLOW]"
proof -
  let ?evs = "[sample_stake 1 ''Unbond'' 90 5, sample_stake 2 ''Bond'' 100 1000, sample_stake 3 ''Unbond'' 200 400]"
  have c: "counted ''d'' ?evs = [sample_stake 2 ''Bond'' 100 1000, sample_stake 3 ''Unbond'' 200 400]"
    by (simp add: counted_def registers_def claims_def needs_registration_def sample_stake_def)
  have "sorted_list_of_set {100, 200 :: int} = [100, 200]" by simp
  moreover have "ro_rows (replay_delegator sample_ext ''d'' ?evs) =
      map (\<lambda>b. row_at sample_ext ''d'' (up_to b (counted ''d'' ?evs)))
        (sorted_list_of_set (se_block ` set (counted ''d'' ?evs)))"
    by (subst replay_closed_form)
      (auto simp: sample_stake_def delegators_of_def STAKE_EVENT_NAMES_def Let_def)
  ultimately show ?thesis
    unfolding c by (simp add: sample_stake_def up_to_def row_at_def delegate_after_def moves_def
        stake_after_def signed_amount_def amount_of_def registers_def row_of_def)
qed

section \<open>The map from delegators to events\<close>

definition entries_of :: "(string \<times> stake_event list) list \<Rightarrow> string \<Rightarrow> stake_event list" where
  "entries_of m d = (case map_of m d of Some evs \<Rightarrow> evs | None \<Rightarrow> [])"

lemma entry_push_map_fst:
  "map fst (entry_push ev d m) = map fst m @ (if d \<in> set (map fst m) then [] else [d])"
  by (induction ev d m rule: entry_push.induct) simp_all

lemma entry_push_keys: "fst ` set (entry_push ev d m) = insert d (fst ` set m)"
  unfolding set_map [symmetric] entry_push_map_fst by auto

lemma entry_push_distinct: "distinct (map fst m) \<Longrightarrow> distinct (map fst (entry_push ev d m))"
  unfolding entry_push_map_fst by simp

lemma entries_of_push: "entries_of (entry_push ev d m) d' = entries_of m d' @ (if d' = d then [ev] else [])"
  by (induction m) (auto simp: entries_of_def)

lemma fold_push_keys: "fst ` set (fold (entry_push ev) ds m) = set ds \<union> fst ` set m"
  by (induction ds arbitrary: m) (auto simp: entry_push_keys)

lemma fold_push_distinct: "distinct (map fst m) \<Longrightarrow> distinct (map fst (fold (entry_push ev) ds m))"
  by (induction ds arbitrary: m) (simp_all add: entry_push_distinct)

lemma entries_of_fold_push:
  "distinct ds \<Longrightarrow> entries_of (fold (entry_push ev) ds m) d = entries_of m d @ (if d \<in> set ds then [ev] else [])"
  by (induction ds arbitrary: m) (auto simp: entries_of_push)

lemma delegators_of_distinct: "distinct (delegators_of ev)"
  by (auto simp: delegators_of_def split: option.splits)

lemma per_delegator_snoc:
  "per_delegator (h @ [ev]) = fold (entry_push ev) (delegators_of ev) (per_delegator h)"
  by (simp add: per_delegator_def)

lemma per_delegator_distinct: "distinct (map fst (per_delegator h))"
proof (induction h rule: rev_induct)
  case (snoc ev h)
  then show ?case by (simp add: per_delegator_snoc fold_push_distinct)
qed (simp add: per_delegator_def)

lemma per_delegator_keys: "fst ` set (per_delegator h) = (\<Union>ev\<in>set h. set (delegators_of ev))"
proof (induction h rule: rev_induct)
  case (snoc ev h)
  then show ?case by (simp add: per_delegator_snoc fold_push_keys Un_commute)
qed (simp add: per_delegator_def)

lemma entries_of_per_delegator: "entries_of (per_delegator h) d = filter (\<lambda>ev. d \<in> set (delegators_of ev)) h"
proof (induction h rule: rev_induct)
  case (snoc ev h)
  then show ?case
    by (simp add: per_delegator_snoc entries_of_fold_push delegators_of_distinct)
qed (simp add: per_delegator_def entries_of_def)

lemma per_delegator_entry:
  "(d, evs) \<in> set (per_delegator h) \<longleftrightarrow>
   evs = filter (\<lambda>ev. d \<in> set (delegators_of ev)) h \<and> (\<exists>ev\<in>set h. d \<in> set (delegators_of ev))"
proof -
  have "(d, evs) \<in> set (per_delegator h) \<longleftrightarrow> map_of (per_delegator h) d = Some evs"
    using per_delegator_distinct by (simp add: map_of_eq_Some_iff)
  also have "\<dots> \<longleftrightarrow> d \<in> fst ` set (per_delegator h) \<and> entries_of (per_delegator h) d = evs"
  proof (cases "map_of (per_delegator h) d")
    case None
    then have "d \<notin> fst ` set (per_delegator h)" by (simp add: map_of_eq_None_iff)
    with None show ?thesis by simp
  next
    case (Some l)
    then have "d \<in> fst ` set (per_delegator h)" by (force dest: map_of_SomeD)
    with Some show ?thesis by (simp add: entries_of_def)
  qed
  finally show ?thesis
    by (auto simp: entries_of_per_delegator per_delegator_keys)
qed

section \<open>The writes of a run\<close>

definition stake_writes :: "ext \<Rightarrow> (string \<times> stake_event list) list \<Rightarrow> (string \<times> row_write) list" where
  "stake_writes x es = concat (map (\<lambda>(d, evs). map (Pair d) (ro_rows (replay_delegator x d evs))) es)"

definition registry_writes :: "ext \<Rightarrow> (string \<times> stake_event list) list \<Rightarrow> (string \<times> registry_write) list" where
  "registry_writes x es =
     List.map_filter (\<lambda>(d, evs). map_option (Pair d) (ro_registry (replay_delegator x d evs))) es"

definition put_stake :: "ext \<Rightarrow> string \<times> row_write \<Rightarrow> stake_row list \<Rightarrow> stake_row list" where
  "put_stake x w = upsert_stake_row x (fst w) (snd w)"

definition put_registry :: "string \<times> registry_write \<Rightarrow> registry_row list \<Rightarrow> registry_row list" where
  "put_registry w = upsert_registry (fst w) (snd w)"

definition stake_target :: "string \<times> row_write \<Rightarrow> int \<times> string \<times> int" where
  "stake_target w = (ARBITRUM_CHAIN_ID, fst w, rw_block (snd w))"

definition registry_target :: "string \<times> registry_write \<Rightarrow> int \<times> string" where
  "registry_target w = (ARBITRUM_CHAIN_ID, fst w)"

text \<open>The row a write leaves where \<open>old\<close> was.\<close>

definition stake_merge :: "ext \<Rightarrow> stake_row option \<Rightarrow> string \<times> row_write \<Rightarrow> stake_row" where
  "stake_merge x old w = (case old of None \<Rightarrow> flow_stake_row x (fst w) (snd w)
     | Some r \<Rightarrow> set_flow_columns r (flow_stake_row x (fst w) (snd w)))"

definition registry_merge :: "registry_row option \<Rightarrow> string \<times> registry_write \<Rightarrow> registry_row" where
  "registry_merge old w = flow_registry_row (fst w) (snd w)"

lemma get_put_stake:
  "find_row stake_key (put_stake x w t) k = (if k = stake_target w
     then Some (stake_merge x (find_row stake_key t k) w) else find_row stake_key t k)"
proof -
  have "stake_key (flow_stake_row x (fst w) (snd w)) = stake_target w"
    by (simp add: stake_key_def flow_stake_row_def stake_target_def)
  moreover have "stake_key (set_flow_columns old r) = stake_key old" for old r
    by (simp add: stake_key_def set_flow_columns_def)
  ultimately show ?thesis
    by (simp add: put_stake_def upsert_stake_row_def find_row_upsert stake_merge_def)
qed

lemma stake_merge_again:
  "stake_target v = stake_target w \<Longrightarrow> stake_merge x (Some (stake_merge x old v)) w = stake_merge x old w"
  by (cases old) (auto simp: stake_target_def stake_merge_def set_flow_columns_def flow_stake_row_def)

interpretation stakes: overwriting "find_row stake_key" "put_stake x" stake_target "stake_merge x" for x
  by unfold_locales (rule get_put_stake, rule stake_merge_again)

lemma get_put_registry:
  "find_row registry_key (put_registry w t) k = (if k = registry_target w
     then Some (registry_merge (find_row registry_key t k) w) else find_row registry_key t k)"
proof -
  have "registry_key (flow_registry_row (fst w) (snd w)) = registry_target w"
    by (simp add: registry_key_def flow_registry_row_def registry_target_def)
  then show ?thesis
    by (simp add: put_registry_def upsert_registry_def find_row_upsert registry_merge_def split: option.splits)
qed

interpretation registry: overwriting "find_row registry_key" put_registry registry_target registry_merge
  by unfold_locales (rule get_put_registry, simp add: registry_merge_def)

lemma fold_write_delegator:
  "\<exists>sm'. fold (write_delegator x reg) es (sm, s) = (sm', s
     \<lparr>w_stakes := fold (put_stake x) (stake_writes x es) (w_stakes s),
      w_registry := fold put_registry (registry_writes x es) (w_registry s)\<rparr>)"
proof (induction es arbitrary: sm s)
  case Nil
  then show ?case by (simp add: stake_writes_def registry_writes_def List.map_filter_simps)
next
  case (Cons e es)
  obtain d evs where e: "e = (d, evs)" by (cases e)
  let ?rows = "ro_rows (replay_delegator x d evs)"
  have f: "fold (put_stake x) (map (Pair d) ?rows) t = fold (upsert_stake_row x d) ?rows t" for t
    by (simp add: fold_map comp_def put_stake_def)
  obtain sm' where w: "write_delegator x reg e (sm, s) = (sm', s
     \<lparr>w_stakes := fold (put_stake x) (stake_writes x [e]) (w_stakes s),
      w_registry := fold put_registry (registry_writes x [e]) (w_registry s)\<rparr>)"
    by (cases "ro_registry (replay_delegator x d evs)")
      (auto simp: e write_delegator_def Let_def stake_writes_def registry_writes_def List.map_filter_simps
        f put_registry_def)
  have c: "stake_writes x (e # es) = stake_writes x [e] @ stake_writes x es"
      "registry_writes x (e # es) = registry_writes x [e] @ registry_writes x es"
    by (simp_all add: e stake_writes_def registry_writes_def List.map_filter_def)
  from Cons.IH [of sm' "s\<lparr>w_stakes := fold (put_stake x) (stake_writes x [e]) (w_stakes s),
      w_registry := fold put_registry (registry_writes x [e]) (w_registry s)\<rparr>"]
  show ?case unfolding c by (simp add: w del: fold_append add: fold_append)
qed

text \<open>The keys of the writes are distinct, whatever the events are.\<close>

definition rows_keyed :: "walk \<Rightarrow> bool" where
  "rows_keyed w \<longleftrightarrow> sorted_wrt (<) (map fst (wk_rows w)) \<and> (\<forall>e\<in>set (wk_rows w). rw_block (snd e) = fst e)"

lemma rows_keyed_write: "rows_keyed w \<Longrightarrow> rows_keyed (write_row ev src w)"
  by (auto simp: rows_keyed_def write_row_def btree_strict btree_set)

lemma rows_keyed_same: "rows_keyed w \<Longrightarrow> wk_rows w' = wk_rows w \<Longrightarrow> rows_keyed w'"
  by (simp add: rows_keyed_def)

lemma rows_keyed_step: "rows_keyed w \<Longrightarrow> rows_keyed (replay_event x d ev w)"
proof -
  assume w: "rows_keyed w"
  have v: "rows_keyed (move_to t v)" "rows_keyed (add_balance q v)" "rows_keyed (register ev v)"
      "rows_keyed (saw ev v)" "rows_keyed (skip_unregistered v)"
    if "rows_keyed v" for t q v
    using that by (cases t; simp add: rows_keyed_def move_to_def add_balance_def register_def saw_def
        skip_unregistered_def)+
  show ?thesis
    unfolding replay_event_def Let_def using w by (simp add: v rows_keyed_write)
qed

lemma replay_blocks_distinct: "distinct (map rw_block (ro_rows (replay_delegator x d evs)))"
proof -
  have "rows_keyed (fold (replay_event x d) evs w)" if "rows_keyed w" for w
    using that by (induction evs arbitrary: w) (simp_all add: rows_keyed_step)
  from this [of new_walk] have k: "rows_keyed (fold (replay_event x d) evs new_walk)"
    by (simp add: rows_keyed_def new_walk_def)
  then have "map rw_block (map snd (wk_rows (fold (replay_event x d) evs new_walk)))
      = map fst (wk_rows (fold (replay_event x d) evs new_walk))"
    by (simp add: rows_keyed_def)
  moreover have "distinct (map fst (wk_rows (fold (replay_event x d) evs new_walk)))"
    using k by (simp add: rows_keyed_def strict_sorted_iff)
  ultimately show ?thesis by (simp only: replay_delegator_def Let_def replay_outcome.simps)
qed

lemma stake_writes_of: "w \<in> set (stake_writes x es) \<Longrightarrow> fst w \<in> fst ` set es"
  by (auto simp: stake_writes_def image_iff) force

lemma stake_targets_distinct:
  "distinct (map fst es) \<Longrightarrow> distinct (map stake_target (stake_writes x es))"
proof (induction es)
  case (Cons e es)
  obtain d evs where e: "e = (d, evs)" by (cases e)
  let ?rs = "ro_rows (replay_delegator x d evs)"
  have "map stake_target (map (Pair d) ?rs) = map (\<lambda>b. (ARBITRUM_CHAIN_ID, d, b)) (map rw_block ?rs)"
    by (simp add: stake_target_def)
  then have "distinct (map stake_target (map (Pair d) ?rs))"
    using replay_blocks_distinct [of x d evs] by (simp add: distinct_map inj_on_def)
  moreover have "stake_target ` set (map (Pair d) ?rs) \<inter> stake_target ` set (stake_writes x es) = {}"
    using Cons.prems by (force simp: e stake_target_def dest: stake_writes_of)
  moreover have "stake_writes x (e # es) = map (Pair d) ?rs @ stake_writes x es"
    by (simp add: e stake_writes_def)
  ultimately show ?case using Cons by (simp add: distinct_append del: map_map)
qed (simp add: stake_writes_def)

lemma registry_writes_of: "w \<in> set (registry_writes x es) \<Longrightarrow> fst w \<in> fst ` set es"
  by (auto simp: registry_writes_def List.map_filter_def image_iff) force

lemma registry_targets_distinct:
  "distinct (map fst es) \<Longrightarrow> distinct (map registry_target (registry_writes x es))"
proof (induction es)
  case (Cons e es)
  obtain d evs where e: "e = (d, evs)" by (cases e)
  have "d \<notin> fst ` set (registry_writes x es)"
    using Cons.prems by (force simp: e dest: registry_writes_of)
  then have "registry_target (d, r) \<notin> registry_target ` set (registry_writes x es)" for r
    by (force simp: registry_target_def)
  then show ?case
    using Cons by (simp add: e registry_writes_def List.map_filter_simps split: option.splits)
qed (simp add: registry_writes_def List.map_filter_simps)

section \<open>One run\<close>

text \<open>The full stream of a delegator, which \<open>fetch_full_history\<close> should deliver.\<close>

definition stake_stream :: "bool \<Rightarrow> string \<Rightarrow> 'n world \<Rightarrow> stake_event list" where
  "stake_stream include_tentative d s =
     filter (\<lambda>ev. d \<in> set (delegators_of ev)) (map stake_event_from_row
       (sort_key e_block (sort_key e_log (filter (stake_visible include_tentative) (w_events s)))))"

lemma stake_stream_filter:
  "stake_stream inc d s = map stake_event_from_row (sort_key e_block (sort_key e_log
     (filter (\<lambda>r. stake_visible inc r \<and> d \<in> set (delegators_of (stake_event_from_row r))) (w_events s))))"
  by (simp add: stake_stream_def filter_map comp_def filter_sort conj_commute)

lemma delegator_is_party:
  "d \<in> set (delegators_of (stake_event_from_row r)) \<Longrightarrow> e_from r = Some d \<or> e_to r = Some d"
  by (auto simp: delegators_of_def stake_event_from_row_def split: if_splits option.splits)

lemma history_of_affected:
  assumes "d \<in> set ds"
  shows "filter (\<lambda>ev. d \<in> set (delegators_of ev)) (fetch_full_history inc ds s) = stake_stream inc d s"
proof -
  let ?D = "\<lambda>r. d \<in> set (delegators_of (stake_event_from_row r))"
  let ?H = "\<lambda>r. stake_visible inc r
    \<and> ((\<exists>d\<in>set ds. e_from r = Some d) \<or> (\<exists>d\<in>set ds. e_to r = Some d))"
  have "filter ?D (filter ?H es) = filter (\<lambda>r. stake_visible inc r \<and> ?D r) es" for es
    unfolding filter_filter using assms delegator_is_party [of d] by (intro filter_cong) auto
  then show ?thesis
    unfolding stake_stream_filter fetch_full_history_def filter_map comp_def filter_sort by simp
qed

text \<open>A run that has events to process, as the two folds of its writes.\<close>

lemma run_as_writes:
  assumes "fetch_new_event_heads inc (load_flow_checkpoint s) FLOW_BATCH_SIZE s = heads" and "heads \<noteq> []"
    and "es = order (per_delegator (fetch_full_history inc (affected_delegators heads) s))"
  shows "snd (run_flow_backfill x order inc s) = advance_flow_checkpoint (Max (se_id ` set heads)) (s
     \<lparr>w_stakes := fold (put_stake x) (stake_writes x es) (w_stakes s),
      w_registry := fold put_registry (registry_writes x es) (w_registry s)\<rparr>)"
proof -
  let ?reg = "load_registered (affected_delegators heads) s"
  obtain sm' where "fold (write_delegator x ?reg) es (\<lparr>fs_events_seen = length heads,
      fs_delegators_replayed = 0, fs_stake_rows_written = 0, fs_delegators_registered = 0, fs_skipped = 0,
      fs_checkpoint = load_flow_checkpoint s\<rparr>, s) = (sm', s
     \<lparr>w_stakes := fold (put_stake x) (stake_writes x es) (w_stakes s),
      w_registry := fold put_registry (registry_writes x es) (w_registry s)\<rparr>)"
    using fold_write_delegator by blast
  then show ?thesis
    using assms by (simp add: run_flow_backfill_def Let_def)
qed

lemma affected_iff: "d \<in> set (affected_delegators heads) \<longleftrightarrow> (\<exists>ev\<in>set heads. d \<in> set (delegators_of ev))"
  by (simp add: affected_delegators_def)

lemma heads_visible:
  assumes "ev \<in> set (fetch_new_event_heads inc cp n s)"
  shows "\<exists>r\<in>set (w_events s). ev = stake_event_from_row r \<and> stake_visible inc r"
  using assms by (fastforce simp: fetch_new_event_heads_def dest: in_set_takeD)

lemma head_in_stream:
  assumes "ev \<in> set (fetch_new_event_heads inc cp n s)" and "d \<in> set (delegators_of ev)"
  shows "ev \<in> set (stake_stream inc d s)"
  using heads_visible [OF assms(1)] assms(2) by (auto simp: stake_stream_def)

lemma entry_of_affected:
  assumes "ev \<in> set (fetch_new_event_heads inc cp n s)" and d: "d \<in> set (delegators_of ev)"
    and heads: "heads = fetch_new_event_heads inc cp n s"
  shows "(d, stake_stream inc d s) \<in> set (per_delegator (fetch_full_history inc (affected_delegators heads) s))"
proof -
  have a: "d \<in> set (affected_delegators heads)" using assms by (auto simp: affected_iff)
  have "ev \<in> set (fetch_full_history inc (affected_delegators heads) s)"
    using head_in_stream [OF assms(1) d] unfolding history_of_affected [OF a, symmetric] by simp
  then show ?thesis
    using d by (auto simp: per_delegator_entry history_of_affected [OF a])
qed

text \<open>
  C30. A run writes, for every delegator a new event touches, exactly the rows and the registry
  entry of the replay of the delegator's full visible stream, whatever the order in which the
  hash map of the run is visited, and moves the checkpoint to or past the event; the columns
  of the pending refresh stay as they were.
\<close>

theorem affected_rebuilt:
  fixes s :: "'n world"
  assumes ord: "\<And>es. mset (order es) = mset es"
    and ev: "ev \<in> set (fetch_new_event_heads inc (load_flow_checkpoint s) FLOW_BATCH_SIZE s)"
    and d: "d \<in> set (delegators_of ev)"
  shows "let t = snd (run_flow_backfill x order inc s); oc = replay_delegator x d (stake_stream inc d s) in
      (\<forall>row\<in>set (ro_rows oc). find_row stake_key (w_stakes t) (ARBITRUM_CHAIN_ID, d, rw_block row)
         = Some (case find_row stake_key (w_stakes s) (ARBITRUM_CHAIN_ID, d, rw_block row) of
             None \<Rightarrow> flow_stake_row x d row
           | Some old \<Rightarrow> set_flow_columns old (flow_stake_row x d row)))
    \<and> find_row registry_key (w_registry t) (ARBITRUM_CHAIN_ID, d)
       = (case ro_registry oc of Some reg \<Rightarrow> Some (flow_registry_row d reg)
          | None \<Rightarrow> find_row registry_key (w_registry s) (ARBITRUM_CHAIN_ID, d))
    \<and> (\<exists>c\<ge>se_id ev. load_flow_checkpoint t = Some c)"
proof -
  let ?heads = "fetch_new_event_heads inc (load_flow_checkpoint s) FLOW_BATCH_SIZE s"
  let ?m = "per_delegator (fetch_full_history inc (affected_delegators ?heads) s)"
  let ?es = "order ?m" and ?oc = "replay_delegator x d (stake_stream inc d s)"
  have ne: "?heads \<noteq> []" using ev by auto
  note t = run_as_writes [OF refl ne refl, of x order]
  have dist: "distinct (map fst ?es)"
    using per_delegator_distinct ord [of ?m] by (metis mset_eq_imp_distinct_iff mset_map)
  have mem: "(d, stake_stream inc d s) \<in> set ?es"
    using entry_of_affected [OF ev d refl] ord [of ?m] by (metis mset_eq_setD)
  show ?thesis
    unfolding Let_def t
  proof (intro conjI ballI)
    fix row assume "row \<in> set (ro_rows ?oc)"
    then have w: "(d, row) \<in> set (stake_writes x ?es)"
      using mem by (force simp: stake_writes_def)
    show "find_row stake_key (w_stakes (advance_flow_checkpoint (Max (se_id ` set ?heads)) (s
         \<lparr>w_stakes := fold (put_stake x) (stake_writes x ?es) (w_stakes s),
          w_registry := fold put_registry (registry_writes x ?es) (w_registry s)\<rparr>)))
        (ARBITRUM_CHAIN_ID, d, rw_block row) = Some (case find_row stake_key (w_stakes s)
          (ARBITRUM_CHAIN_ID, d, rw_block row) of None \<Rightarrow> flow_stake_row x d row
           | Some old \<Rightarrow> set_flow_columns old (flow_stake_row x d row))"
      using stakes.get_fold_hit [OF stake_targets_distinct [OF dist] w, of x "w_stakes s"]
      by (cases "find_row stake_key (w_stakes s) (ARBITRUM_CHAIN_ID, d, rw_block row)")
        (simp_all add: advance_flow_checkpoint_def stake_target_def stake_merge_def)
  next
    show "find_row registry_key (w_registry (advance_flow_checkpoint (Max (se_id ` set ?heads)) (s
         \<lparr>w_stakes := fold (put_stake x) (stake_writes x ?es) (w_stakes s),
          w_registry := fold put_registry (registry_writes x ?es) (w_registry s)\<rparr>)))
        (ARBITRUM_CHAIN_ID, d) = (case ro_registry ?oc of Some reg \<Rightarrow> Some (flow_registry_row d reg)
          | None \<Rightarrow> find_row registry_key (w_registry s) (ARBITRUM_CHAIN_ID, d))"
    proof (cases "ro_registry ?oc")
      case (Some reg)
      then have w: "(d, reg) \<in> set (registry_writes x ?es)"
        using mem by (force simp: registry_writes_def List.map_filter_def)
      show ?thesis
        using Some registry.get_fold_hit [OF registry_targets_distinct [OF dist] w, of "w_registry s"]
        by (simp add: advance_flow_checkpoint_def registry_target_def registry_merge_def)
    next
      case None
      have "evs = stake_stream inc d s" if "(d, evs) \<in> set ?es" for evs
        using that mem dist by (metis eq_key_imp_eq_value)
      then have "(ARBITRUM_CHAIN_ID, d) \<notin> registry_target ` set (registry_writes x ?es)"
        using None by (auto simp: registry_writes_def List.map_filter_def registry_target_def)
      then show ?thesis
        using None by (simp add: advance_flow_checkpoint_def registry.get_fold_other)
    qed
  next
    have "se_id ev \<le> Max (se_id ` set ?heads)" using ev by simp
    moreover obtain c where "checkpoint (advance_greatest FLOW_CHECKPOINT (Max (se_id ` set ?heads)) (w_checkpoints s))
        FLOW_CHECKPOINT = Some c" "Max (se_id ` set ?heads) \<le> c"
      using marks.advance_reaches by blast
    ultimately show "\<exists>c\<ge>se_id ev. load_flow_checkpoint (advance_flow_checkpoint (Max (se_id ` set ?heads)) (s
         \<lparr>w_stakes := fold (put_stake x) (stake_writes x ?es) (w_stakes s),
          w_registry := fold put_registry (registry_writes x ?es) (w_registry s)\<rparr>)) = Some c"
      by (auto simp: load_flow_checkpoint_def advance_flow_checkpoint_def)
  qed
qed

text \<open>A bond of 1000 of \<open>d\<close> to \<open>p\<close>, the move of \<open>d\<close> to \<open>o\<close>, a bond of \<open>o\<close> to itself.\<close>

definition bond_event :: "int \<Rightarrow> int \<Rightarrow> string \<Rightarrow> string \<Rightarrow> rat \<Rightarrow> event_row" where
  "bond_event i b f t q = sample_event\<lparr>e_id := i, e_name := ''Bond'', e_block := b, e_ts := b, e_from := Some f,
     e_to := Some t, e_amount := Some q, e_finality := Finalized\<rparr>"

definition moved_world :: "unit world" where
  "moved_world = (empty_world ())\<lparr>w_events := [bond_event 1 100 ''d'' ''p'' 1000, bond_event 2 200 ''d'' ''o'' 0]\<rparr>"

definition stored_stake :: "'n world \<Rightarrow> string \<Rightarrow> int \<Rightarrow> (rat \<times> string) option" where
  "stored_stake s d b = map_option (\<lambda>r. (t_principal r, t_delegate r))
     (find_row stake_key (w_stakes s) (ARBITRUM_CHAIN_ID, d, b))"

definition stored_active :: "'n world \<Rightarrow> string \<Rightarrow> bool option" where
  "stored_active s d = map_option q_active (find_row registry_key (w_registry s) (ARBITRUM_CHAIN_ID, d))"

lemma bond_event_simps:
  "stake_visible False (bond_event i b f t q)" "e_id (bond_event i b f t q) = i"
  "e_block (bond_event i b f t q) = b" "e_log (bond_event i b f t q) = 0"
  "e_from (bond_event i b f t q) = Some f" "e_to (bond_event i b f t q) = Some t"
  "stake_event_from_row (bond_event i b f t q) = \<lparr>se_id = i, se_name = ''Bond'', se_block = b, se_ts = b,
     se_hash = ''0xcd'', se_from = Some f, se_to = Some t, se_amount = Some q, se_raw = JNull\<rparr>"
  by (simp_all add: stake_visible_def stake_event_from_row_def bond_event_def sample_event_def STAKE_EVENT_NAMES_def)

lemmas flow_reads = fetch_new_event_heads_def fetch_full_history_def load_flow_checkpoint_def FLOW_BATCH_SIZE_def
  checkpoint_def affected_delegators_def per_delegator_def delegators_of_def bond_event_simps

lemmas flow_tables = put_stake_def put_registry_def upsert_stake_row_def upsert_registry_def
  upsert_def stake_key_def registry_key_def flow_stake_row_def flow_registry_row_def set_flow_columns_def
  advance_flow_checkpoint_def advance_greatest_def

lemmas flow_writes = replay_delegator_def replay_event_def new_walk_def walk_defs registry_of_def amount_of_def
  stake_writes_def registry_writes_def put_stake_def put_registry_def upsert_stake_row_def upsert_registry_def
  upsert_def stake_key_def registry_key_def flow_stake_row_def flow_registry_row_def set_flow_columns_def
  advance_flow_checkpoint_def advance_greatest_def

lemma sample_numeric: "numeric18 sample_ext q = q"
  by (simp add: sample_ext_def)

text \<open>The state after the first run, and the state it leaves for the second.\<close>

definition moved_rows :: "rat \<Rightarrow> stake_row list" where
  "moved_rows q =
     [\<lparr>t_chain = ARBITRUM_CHAIN_ID, t_delegator = ''d'', t_delegate = ''p'', t_block = 100, t_ts = 100, t_hash = ''0xcd'',
       t_principal = 1000, t_pending_stake = None, t_pending_fees = None, t_pending_round = None,
       t_source = SOURCE_FLOW, t_raw = None, t_trigger = 1\<rparr>,
      \<lparr>t_chain = ARBITRUM_CHAIN_ID, t_delegator = ''d'', t_delegate = ''o'', t_block = 200, t_ts = 200, t_hash = ''0xcd'',
       t_principal = q, t_pending_stake = None, t_pending_fees = None, t_pending_round = None,
       t_source = SOURCE_FLOW, t_raw = None, t_trigger = 2\<rparr>]"

definition moved_done :: "unit world" where
  "moved_done = moved_world\<lparr>w_stakes := moved_rows 1000,
     w_registry := [\<lparr>q_chain = ARBITRUM_CHAIN_ID, q_delegator = ''d'', q_first_block = 100, q_first_event = 1,
        q_last_block = 200, q_last_event = 2, q_active = True\<rparr>],
     w_checkpoints := [\<lparr>k_name = FLOW_CHECKPOINT, k_block = 2\<rparr>]\<rparr>"

lemma first_run: "snd (run_flow_backfill sample_ext (\<lambda>m. m) False moved_world) = moved_done"
proof -
  let ?h = "map stake_event_from_row [bond_event 1 100 ''d'' ''p'' 1000, bond_event 2 200 ''d'' ''o'' 0]"
  have h: "fetch_new_event_heads False (load_flow_checkpoint moved_world) FLOW_BATCH_SIZE moved_world = ?h"
    by (simp add: flow_reads moved_world_def empty_world_def)
  have es: "per_delegator (fetch_full_history False (affected_delegators ?h) moved_world) = [(''d'', ?h)]"
    by (simp add: flow_reads moved_world_def)
  have t: "snd (run_flow_backfill sample_ext (\<lambda>m. m) False moved_world) =
      advance_flow_checkpoint (Max (se_id ` set ?h)) (moved_world
     \<lparr>w_stakes := fold (put_stake sample_ext) (stake_writes sample_ext [(''d'', ?h)]) (w_stakes moved_world),
      w_registry := fold put_registry (registry_writes sample_ext [(''d'', ?h)]) (w_registry moved_world)\<rparr>)"
    by (rule run_as_writes [OF h]) (simp, simp only: es)
  have w: "stake_writes sample_ext [(''d'', ?h)] =
      [(''d'', row_of (stake_event_from_row (bond_event 1 100 ''d'' ''p'' 1000)) ''p'' 1000 SOURCE_FLOW),
       (''d'', row_of (stake_event_from_row (bond_event 2 200 ''d'' ''o'' 0)) ''o'' 1000 SOURCE_FLOW)]"
    by (simp add: flow_writes row_of_def bond_event_simps Let_def)
  have r: "registry_writes sample_ext [(''d'', ?h)] = [(''d'', \<lparr>gw_first_block = 100, gw_first_event = 1,
        gw_last_block = 200, gw_last_event = 2, gw_active = True\<rparr>)]"
    by (simp add: flow_writes bond_event_simps Let_def List.map_filter_simps)
  show ?thesis
    unfolding t w r
    by (simp add: flow_tables sample_numeric moved_done_def moved_rows_def row_of_def bond_event_simps
        moved_world_def empty_world_def tbl_simps)
qed

theorem affected_rebuilt_witness:
  "find_row registry_key (w_registry (snd (run_flow_backfill sample_ext (\<lambda>m. m) False moved_world)))
      (ARBITRUM_CHAIN_ID, ''d'')
    = Some (flow_registry_row ''d'' \<lparr>gw_first_block = 100, gw_first_event = 1, gw_last_block = 200,
        gw_last_event = 2, gw_active = True\<rparr>)
   \<and> (\<exists>c\<ge>2. load_flow_checkpoint (snd (run_flow_backfill sample_ext (\<lambda>m. m) False moved_world)) = Some c)"
proof -
  let ?ev = "stake_event_from_row (bond_event 2 200 ''d'' ''o'' 0)"
  have ev: "?ev \<in> set (fetch_new_event_heads False (load_flow_checkpoint moved_world) FLOW_BATCH_SIZE moved_world)"
    by (simp add: flow_reads moved_world_def empty_world_def)
  have d: "''d'' \<in> set (delegators_of ?ev)" by (simp add: delegators_of_def bond_event_simps)
  have "ro_registry (replay_delegator sample_ext ''d'' (stake_stream False ''d'' moved_world))
      = Some \<lparr>gw_first_block = 100, gw_first_event = 1, gw_last_block = 200, gw_last_event = 2, gw_active = True\<rparr>"
    by (simp add: stake_stream_def moved_world_def flow_writes delegators_of_def bond_event_simps Let_def)
  then show ?thesis
    using affected_rebuilt [of "\<lambda>m. m", OF refl ev d, of sample_ext]
    by (simp add: Let_def bond_event_simps)
qed

lemma mset_concat_map: "mset (concat (map f es)) = sum_mset (image_mset (\<lambda>e. mset (f e)) (mset es))"
  by (induction es) simp_all

lemma mset_map_filter:
  "mset (List.map_filter f es) = image_mset (\<lambda>e. the (f e)) (filter_mset (\<lambda>e. f e \<noteq> None) (mset es))"
  by (induction es) (auto simp: List.map_filter_simps split: option.splits)

lemma writes_permuted:
  assumes "mset es = mset fs"
  shows "mset (stake_writes x es) = mset (stake_writes x fs)"
    and "mset (registry_writes x es) = mset (registry_writes x fs)"
  unfolding stake_writes_def registry_writes_def mset_concat_map mset_map_filter assms by (rule refl)+

text \<open>
  C31. The order in which the hash map is visited does not matter, and neither does repeating a
  run: with any two orders the stored rows are the same, and running again from the old
  checkpoint (after a crash before the last statement) changes no stored row.
\<close>

theorem run_order_and_repeat:
  fixes s :: "'n world"
  assumes "\<And>es. mset (order es) = mset es" and "\<And>es. mset (order' es) = mset es"
    and "t = snd (run_flow_backfill x order inc s)"
    and "u = snd (run_flow_backfill x order' inc s)"
    and "v = snd (run_flow_backfill x order' inc (t\<lparr>w_checkpoints := w_checkpoints s\<rparr>))"
  shows "find_row stake_key (w_stakes u) = find_row stake_key (w_stakes t)
    \<and> find_row registry_key (w_registry u) = find_row registry_key (w_registry t)
    \<and> find_row stake_key (w_stakes v) = find_row stake_key (w_stakes t)
    \<and> find_row registry_key (w_registry v) = find_row registry_key (w_registry t)
    \<and> load_flow_checkpoint u = load_flow_checkpoint t \<and> load_flow_checkpoint v = load_flow_checkpoint t"
proof (cases "fetch_new_event_heads inc (load_flow_checkpoint s) FLOW_BATCH_SIZE s = []")
  case True
  then have t: "t = advance_flow_checkpoint (case load_flow_checkpoint s of Some c \<Rightarrow> c | None \<Rightarrow> 0) s"
      "u = advance_flow_checkpoint (case load_flow_checkpoint s of Some c \<Rightarrow> c | None \<Rightarrow> 0) s"
    unfolding assms(3,4) by (simp_all add: run_flow_backfill_def Let_def)
  then have "t\<lparr>w_checkpoints := w_checkpoints s\<rparr> = s" by (simp add: advance_flow_checkpoint_def)
  with assms(4,5) have "v = u" by simp
  with t show ?thesis by simp
next
  case False
  let ?heads = "fetch_new_event_heads inc (load_flow_checkpoint s) FLOW_BATCH_SIZE s"
  let ?m = "per_delegator (fetch_full_history inc (affected_delegators ?heads) s)"
  let ?s = "t\<lparr>w_checkpoints := w_checkpoints s\<rparr>"
  note t = run_as_writes [OF refl False refl, of x order, folded assms(3)]
  note u = run_as_writes [OF refl False refl, of x order', folded assms(4)]
  have same: "w_events ?s = w_events s" "load_flow_checkpoint ?s = load_flow_checkpoint s"
    by (simp_all add: t advance_flow_checkpoint_def load_flow_checkpoint_def)
  have h: "fetch_new_event_heads inc (load_flow_checkpoint ?s) FLOW_BATCH_SIZE ?s = ?heads"
    unfolding same(2) by (simp add: fetch_new_event_heads_def t advance_flow_checkpoint_def)
  have m: "order' (per_delegator (fetch_full_history inc (affected_delegators ?heads) ?s)) = order' ?m"
    by (simp add: fetch_full_history_def t advance_flow_checkpoint_def)
  note v = run_as_writes [where order = order', OF h False m [symmetric], of x, folded assms(5)]
  have dist: "distinct (map fst (order ?m))" "distinct (map fst (order' ?m))"
    using per_delegator_distinct assms(1,2) by (metis mset_eq_imp_distinct_iff mset_map)+
  have perm: "mset (order ?m) = mset (order' ?m)" using assms(1,2) by simp
  note d = stake_targets_distinct [OF dist(1), of x] and d' = registry_targets_distinct [OF dist(1), of x]
  show ?thesis
  proof (intro conjI)
    show "find_row stake_key (w_stakes u) = find_row stake_key (w_stakes t)"
      unfolding t u using stakes.order_irrelevant [OF d writes_permuted(1) [OF perm]]
      by (simp add: advance_flow_checkpoint_def)
    show "find_row registry_key (w_registry u) = find_row registry_key (w_registry t)"
      unfolding t u using registry.order_irrelevant [OF d' writes_permuted(2) [OF perm]]
      by (simp add: advance_flow_checkpoint_def)
    show "find_row stake_key (w_stakes v) = find_row stake_key (w_stakes t)"
      unfolding v t using stakes.order_irrelevant [OF d writes_permuted(1) [OF perm]] stakes.repeat_changes_nothing [OF d]
      by (simp add: advance_flow_checkpoint_def)
    show "find_row registry_key (w_registry v) = find_row registry_key (w_registry t)"
      unfolding v t
      using registry.order_irrelevant [OF d' writes_permuted(2) [OF perm]] registry.repeat_changes_nothing [OF d']
      by (simp add: advance_flow_checkpoint_def)
    show "load_flow_checkpoint u = load_flow_checkpoint t" "load_flow_checkpoint v = load_flow_checkpoint t"
      unfolding v t u by (simp_all add: advance_flow_checkpoint_def load_flow_checkpoint_def)
  qed
qed

theorem run_order_and_repeat_witness:
  "find_row stake_key (w_stakes (snd (run_flow_backfill sample_ext rev False
      ((snd (run_flow_backfill sample_ext (\<lambda>m. m) False moved_world))\<lparr>w_checkpoints := []\<rparr>))))
    = find_row stake_key (w_stakes (snd (run_flow_backfill sample_ext (\<lambda>m. m) False moved_world)))"
  using run_order_and_repeat [of "\<lambda>m. m" rev, OF refl mset_rev refl refl refl, of sample_ext False moved_world]
  by (simp add: moved_world_def empty_world_def)

text \<open>
  C32. A new event of an orchestrator spoils the stored stake of a delegator it does not touch:
  the history read for the orchestrator holds the bonds toward it, so the delegator is replayed
  from these alone. Its stream is unchanged and it is not among the delegators of the new
  events, but the stored row of the move falls from 1000 to 0 and the registry calls the
  delegator inactive.
\<close>

theorem untouched_delegator_spoiled:
  "let s = snd (run_flow_backfill sample_ext (\<lambda>m. m) False moved_world);
       s' = s\<lparr>w_events := w_events s @ [bond_event 3 300 ''o'' ''o'' 5]\<rparr>;
       t = snd (run_flow_backfill sample_ext (\<lambda>m. m) False s') in
     stored_stake s ''d'' 200 = Some (1000, ''o'') \<and> stored_active s ''d'' = Some True
   \<and> stake_stream False ''d'' s' = stake_stream False ''d'' s
   \<and> ''d'' \<notin> set (affected_delegators (fetch_new_event_heads False (load_flow_checkpoint s') FLOW_BATCH_SIZE s'))
   \<and> stored_stake t ''d'' 200 = Some (0, ''o'') \<and> stored_active t ''d'' = Some False"
proof -
  let ?s = "moved_done\<lparr>w_events := w_events moved_done @ [bond_event 3 300 ''o'' ''o'' 5]\<rparr>"
  let ?d = "stake_event_from_row (bond_event 2 200 ''d'' ''o'' 0)"
  let ?o = "stake_event_from_row (bond_event 3 300 ''o'' ''o'' 5)"
  have h: "fetch_new_event_heads False (load_flow_checkpoint ?s) FLOW_BATCH_SIZE ?s = [?o]"
    by (simp add: flow_reads moved_done_def moved_world_def tbl_simps)
  have es: "per_delegator (fetch_full_history False (affected_delegators [?o]) ?s) = [(''d'', [?d]), (''o'', [?o])]"
    by (simp add: flow_reads moved_done_def moved_world_def)
  have t: "snd (run_flow_backfill sample_ext (\<lambda>m. m) False ?s) =
      advance_flow_checkpoint (Max (se_id ` set [?o])) (?s
     \<lparr>w_stakes := fold (put_stake sample_ext) (stake_writes sample_ext [(''d'', [?d]), (''o'', [?o])]) (w_stakes ?s),
      w_registry := fold put_registry (registry_writes sample_ext [(''d'', [?d]), (''o'', [?o])]) (w_registry ?s)\<rparr>)"
    by (rule run_as_writes [OF h]) (simp, simp only: es)
  have w: "stake_writes sample_ext [(''d'', [?d]), (''o'', [?o])]
      = [(''d'', row_of ?d ''o'' 0 SOURCE_FLOW), (''o'', row_of ?o ''o'' 5 SOURCE_FLOW)]"
    by (simp add: flow_writes row_of_def bond_event_simps Let_def)
  have r: "registry_writes sample_ext [(''d'', [?d]), (''o'', [?o])] =
      [(''d'', \<lparr>gw_first_block = 200, gw_first_event = 2, gw_last_block = 200, gw_last_event = 2, gw_active = False\<rparr>),
       (''o'', \<lparr>gw_first_block = 300, gw_first_event = 3, gw_last_block = 300, gw_last_event = 3, gw_active = True\<rparr>)]"
    by (simp add: flow_writes bond_event_simps Let_def List.map_filter_simps)
  have after: "stored_stake (snd (run_flow_backfill sample_ext (\<lambda>m. m) False ?s)) ''d'' 200 = Some (0, ''o'')"
      "stored_active (snd (run_flow_backfill sample_ext (\<lambda>m. m) False ?s)) ''d'' = Some False"
    unfolding t w r
    by (simp_all add: flow_tables sample_numeric moved_done_def moved_rows_def row_of_def bond_event_simps
        moved_world_def empty_world_def stored_stake_def stored_active_def tbl_simps)
  have before: "stored_stake moved_done ''d'' 200 = Some (1000, ''o'')" "stored_active moved_done ''d'' = Some True"
    by (simp_all add: flow_tables stored_stake_def stored_active_def moved_done_def moved_rows_def tbl_simps)
  have same: "stake_stream False ''d'' ?s = stake_stream False ''d'' moved_done"
    by (simp add: stake_stream_def moved_done_def moved_world_def bond_event_simps delegators_of_def)
  have "''d'' \<notin> set (affected_delegators (fetch_new_event_heads False (load_flow_checkpoint ?s) FLOW_BATCH_SIZE ?s))"
    unfolding h by (simp add: affected_delegators_def delegators_of_def bond_event_simps)
  then show ?thesis
    unfolding first_run Let_def using after before same by simp
qed

text \<open>
  C33. The backfill can pass a finalized stake event for good: a repaired gap gives an older
  event a higher id, the run that processes it moves the checkpoint past the tentative event
  with the lower id, and when this one is finalized no later run reads it.
\<close>

definition gap_world :: "unit world" where
  "gap_world = (empty_world ())\<lparr>w_events :=
     [(bond_event 1 300 ''d'' ''p'' 1000)\<lparr>e_finality := Tentative\<rparr>, bond_event 2 100 ''o'' ''o'' 5]\<rparr>"


end
