(* ===== verification/Api_Events.thy ===== *)
theory Api_Events
  imports World
begin

text \<open>
  The events endpoints of the HTTP API: the opaque cursor (\<open>livepeer-api/src/cursor.rs\<close>), the
  error envelope (\<open>error.rs\<close>), and \<open>GET /events/{id}\<close> and \<open>GET /events\<close> with both orders of
  the blocks and the order by value (\<open>routes/events.rs\<close>). A handler only reads the
  database, so it is a function of the tables; rows that a query leaves unordered are taken in
  table order.
\<close>

section \<open>Errors\<close>

record api_error =
  ae_status :: nat
  ae_code :: string
  ae_message :: string
  ae_context :: "json option"

definition not_found :: "string \<Rightarrow> api_error" where
  "not_found m = \<lparr>ae_status = 404, ae_code = ''not_found'', ae_message = m, ae_context = None\<rparr>"

definition bad_request :: "string \<Rightarrow> api_error" where
  "bad_request m = \<lparr>ae_status = 400, ae_code = ''bad_request'', ae_message = m, ae_context = None\<rparr>"

definition internal_error :: "string \<Rightarrow> api_error" where
  "internal_error m = \<lparr>ae_status = 500, ae_code = ''internal'', ae_message = m, ae_context = None\<rparr>"

definition into_response :: "api_error \<Rightarrow> nat \<times> json" where
  "into_response e = (ae_status e, JObj [(''error'', JObj [(''code'', JStr (ae_code e)),
     (''message'', JStr (ae_message e)), (''context'', case ae_context e of Some c \<Rightarrow> c | None \<Rightarrow> JNull)])])"

section \<open>The cursor\<close>

record cursor =
  cu_block :: int
  cu_log :: int

definition encode_cursor :: "cursor \<Rightarrow> string" where
  "encode_cursor c = ''B'' @ show_int (cu_block c) @ '':'' @ show_int (cu_log c)"

text \<open>\<open>str::split_once\<close>.\<close>

fun split_once :: "char \<Rightarrow> string \<Rightarrow> (string \<times> string) option" where
  "split_once c [] = None"
| "split_once c (d # s) = (if d = c then Some ([], s)
     else case split_once c s of None \<Rightarrow> None | Some (a, b) \<Rightarrow> Some (d # a, b))"

definition decode_cursor :: "string \<Rightarrow> api_error + cursor" where
  "decode_cursor s =
     (case s of
        [] \<Rightarrow> Inl (bad_request ''invalid cursor'')
      | c # stripped \<Rightarrow>
          if c \<noteq> CHR ''B'' then Inl (bad_request ''invalid cursor'')
          else case split_once (CHR '':'') stripped of
            None \<Rightarrow> Inl (bad_request ''invalid cursor'')
          | Some (block, log_index) \<Rightarrow>
              case parse_signed 10 64 block of
                None \<Rightarrow> Inl (bad_request ''invalid cursor block'')
              | Some b \<Rightarrow>
                  case parse_signed 10 32 log_index of
                    None \<Rightarrow> Inl (bad_request ''invalid cursor log_index'')
                  | Some l \<Rightarrow> Inr \<lparr>cu_block = b, cu_log = l\<rparr>)"

section \<open>Requests and responses\<close>

definition DEFAULT_LIMIT :: nat where "DEFAULT_LIMIT = 100"
definition MAX_LIMIT :: nat where "MAX_LIMIT = 1000"

record events_query =
  eq_from_block :: "int option"
  eq_to_block :: "int option"
  eq_contract :: "string option"
  eq_event_name :: "string option"
  eq_event_type :: "string option"
  eq_from :: "string option"
  eq_to :: "string option"
  eq_address :: "string option"
  eq_tx :: "string option"
  eq_asset :: "string option"
  eq_with_valuations :: bool
  eq_include_tentative :: bool
  eq_include_reorged :: bool
  eq_sort :: "string option"
  eq_limit :: "nat option"
  eq_cursor :: "string option"

record valuation_inline =
  vi_asset :: string
  vi_version :: string
  vi_amount :: string
  vi_price :: "string option"
  vi_usd :: "string option"
  vi_source :: string
  vi_method :: string
  vi_status :: string

record api_event =
  av_id :: string
  av_chain :: string
  av_tx :: string
  av_log :: nat
  av_block :: string
  av_hash :: string
  av_ts :: int
  av_address :: string
  av_contract :: string
  av_name :: string
  av_signature :: string
  av_asset :: "string option"
  av_amount :: "string option"
  av_valuable :: bool
  av_from :: "string option"
  av_to :: "string option"
  av_finality :: string
  av_canonical :: bool
  av_valuations :: "valuation_inline list option"

record event_list_response =
  el_data :: "api_event list"
  el_next :: "string option"
  el_last_finalized :: "string option"

text \<open>\<open>str::to_uppercase\<close> on ASCII letters, the only letters of an asset symbol.\<close>

definition upper_char :: "char \<Rightarrow> char" where
  "upper_char c = (if 97 \<le> (of_char c :: nat) \<and> (of_char c :: nat) \<le> 122 then char_of (of_char c - 32 :: nat) else c)"

definition upper :: "string \<Rightarrow> string" where
  "upper s = map upper_char s"

fun finality_text :: "finality \<Rightarrow> string" where
  "finality_text Tentative = ''tentative''"
| "finality_text L1Posted = ''l1_posted''"
| "finality_text Finalized = ''finalized''"

text \<open>\<open>r.get::<i32, _>(3) as u32\<close>.\<close>

definition as_u32 :: "int \<Rightarrow> nat" where
  "as_u32 n = nat (n mod 2 ^ 32)"

definition row_to_event :: "ext \<Rightarrow> event_row \<Rightarrow> api_event" where
  "row_to_event x r =
     \<lparr>av_id = show_int (e_id r), av_chain = show_int (e_chain r), av_tx = e_tx r, av_log = as_u32 (e_log r),
      av_block = show_int (e_block r), av_hash = e_hash r, av_ts = e_ts r, av_address = e_address r,
      av_contract = e_contract r, av_name = e_name r, av_signature = e_signature r, av_asset = e_asset r,
      av_amount = map_option (bd_show x) (e_amount r), av_valuable = e_valuable r, av_from = e_from r,
      av_to = e_to r, av_finality = finality_text (e_finality r), av_canonical = e_canonical r,
      av_valuations = None\<rparr>"

definition inline_of :: "ext \<Rightarrow> valuation_row \<Rightarrow> valuation_inline" where
  "inline_of x v =
     \<lparr>vi_asset = v_asset v, vi_version = v_version v, vi_amount = bd_show x (v_amount v),
      vi_price = map_option (bd_show x) (v_price v), vi_usd = map_option (bd_show x) (v_usd v),
      vi_source = v_source v, vi_method = v_method v, vi_status = v_status v\<rparr>"

definition load_valuations :: "ext \<Rightarrow> int \<Rightarrow> 'n world \<Rightarrow> valuation_inline list" where
  "load_valuations x event_id s = map (inline_of x) (filter (\<lambda>v. v_event v = event_id) (w_valuations s))"

definition get_one :: "ext \<Rightarrow> int \<Rightarrow> events_query \<Rightarrow> 'n world \<Rightarrow> api_error + api_event" where
  "get_one x i q s =
     (case find (\<lambda>r. e_id r = i) (w_events s) of
        None \<Rightarrow> Inl (not_found (''event id '' @ show_int i))
      | Some r \<Rightarrow>
          let ev = row_to_event x r in
          Inr (if eq_with_valuations q then ev\<lparr>av_valuations := Some (load_valuations x i s)\<rparr> else ev))"

section \<open>Valuations of a page\<close>

text \<open>\<open>by_id.entry(event_id).or_default().push(...)\<close> and the loop with \<open>by_id.remove(&id)\<close>.\<close>

fun push_by_id :: "int \<Rightarrow> valuation_inline \<Rightarrow> (int \<times> valuation_inline list) list \<Rightarrow> (int \<times> valuation_inline list) list" where
  "push_by_id i v [] = [(i, [v])]"
| "push_by_id i v ((j, vs) # m) = (if i = j then (j, vs @ [v]) # m else (j, vs) # push_by_id i v m)"

fun attach :: "(int \<times> valuation_inline list) list \<Rightarrow> api_event list \<Rightarrow> api_event list" where
  "attach m [] = []"
| "attach m (ev # evs) =
     (let i = (case parse_signed 10 64 (av_id ev) of Some n \<Rightarrow> n | None \<Rightarrow> 0) in
      ev\<lparr>av_valuations := Some (case map_of m i of Some vs \<Rightarrow> vs | None \<Rightarrow> [])\<rparr>
      # attach (filter (\<lambda>e. fst e \<noteq> i) m) evs)"

definition with_valuations :: "ext \<Rightarrow> 'n world \<Rightarrow> api_event list \<Rightarrow> api_event list" where
  "with_valuations x s events =
     (let ids = List.map_filter (\<lambda>e. parse_signed 10 64 (av_id e)) events;
          val_rows = filter (\<lambda>v. v_event v \<in> set ids) (w_valuations s);
          by_id = fold (\<lambda>v. push_by_id (v_event v) (inline_of x v)) val_rows []
      in attach by_id events)"

section \<open>The list in block order\<close>

definition opt_all :: "('a \<Rightarrow> bool) \<Rightarrow> 'a option \<Rightarrow> bool" where
  "opt_all P v = (case v of None \<Rightarrow> True | Some a \<Rightarrow> P a)"

definition event_name_filter :: "events_query \<Rightarrow> string option" where
  "event_name_filter q = (case eq_event_name q of Some n \<Rightarrow> Some n | None \<Rightarrow> eq_event_type q)"

definition matches_query :: "int \<Rightarrow> events_query \<Rightarrow> event_row \<Rightarrow> bool" where
  "matches_query chain_id q r \<longleftrightarrow> e_chain r = chain_id
     \<and> (eq_include_reorged q \<or> e_canonical r)
     \<and> (eq_include_tentative q \<or> e_finality r = Finalized)
     \<and> opt_all (\<lambda>b. e_block r \<ge> b) (eq_from_block q)
     \<and> opt_all (\<lambda>b. e_block r \<le> b) (eq_to_block q)
     \<and> opt_all (\<lambda>c. e_contract r = c) (eq_contract q)
     \<and> opt_all (\<lambda>n. e_name r = n) (event_name_filter q)
     \<and> opt_all (\<lambda>a. e_asset r = Some (upper a)) (eq_asset q)
     \<and> opt_all (\<lambda>a. e_from r = Some (lower a)) (eq_from q)
     \<and> opt_all (\<lambda>a. e_to r = Some (lower a)) (eq_to q)
     \<and> opt_all (\<lambda>h. e_tx r = lower h) (eq_tx q)
     \<and> opt_all (\<lambda>a. e_from r = Some (lower a) \<or> e_to r = Some (lower a)) (eq_address q)"

text \<open>The tuple comparison of the cursor clause.\<close>

definition after_cursor :: "bool \<Rightarrow> cursor option \<Rightarrow> event_row \<Rightarrow> bool" where
  "after_cursor asc c r =
     (case c of None \<Rightarrow> True
      | Some cu \<Rightarrow>
          if asc then e_block r > cu_block cu \<or> (e_block r = cu_block cu \<and> e_log r > cu_log cu)
          else e_block r < cu_block cu \<or> (e_block r = cu_block cu \<and> e_log r < cu_log cu))"

definition in_order :: "bool \<Rightarrow> event_row list \<Rightarrow> event_row list" where
  "in_order asc rows =
     (if asc then sort_key e_block (sort_key e_log rows)
      else sort_key (\<lambda>r. - e_block r) (sort_key (\<lambda>r. - e_log r) rows))"

definition page_limit :: "events_query \<Rightarrow> nat" where
  "page_limit q = min (case eq_limit q of Some n \<Rightarrow> n | None \<Rightarrow> DEFAULT_LIMIT) MAX_LIMIT"

definition page_rows :: "int \<Rightarrow> events_query \<Rightarrow> bool \<Rightarrow> cursor option \<Rightarrow> 'n world \<Rightarrow> event_row list" where
  "page_rows chain_id q asc c s =
     take (page_limit q) (in_order asc (filter (\<lambda>r. matches_query chain_id q r \<and> after_cursor asc c r) (w_events s)))"

definition next_cursor_of :: "nat \<Rightarrow> api_event list \<Rightarrow> string option" where
  "next_cursor_of limit events =
     (if length events = limit \<and> events \<noteq> [] then
        Some (encode_cursor
          \<lparr>cu_block = (case parse_signed 10 64 (av_block (last events)) of Some b \<Rightarrow> b | None \<Rightarrow> 0),
           cu_log = as_i32 (int (av_log (last events)))\<rparr>)
      else None)"

definition last_finalized :: "int \<Rightarrow> 'n world \<Rightarrow> string option" where
  "last_finalized chain_id s =
     (let bs = map e_block (filter (\<lambda>r. e_chain r = chain_id \<and> e_finality r = Finalized) (w_events s))
      in if bs = [] then None else Some (show_int (Max (set bs))))"

definition list_by_block ::
  "ext \<Rightarrow> int \<Rightarrow> events_query \<Rightarrow> bool \<Rightarrow> 'n world \<Rightarrow> api_error + event_list_response" where
  "list_by_block x chain_id q asc s =
     (case (case eq_cursor q of None \<Rightarrow> Inr None | Some t \<Rightarrow> map_sum id Some (decode_cursor t)) of
        Inl e \<Rightarrow> Inl e
      | Inr c \<Rightarrow>
          let events = map (row_to_event x) (page_rows chain_id q asc c s);
              shown = (if eq_with_valuations q \<and> events \<noteq> [] then with_valuations x s events else events)
          in Inr \<lparr>el_data = shown, el_next = next_cursor_of (page_limit q) shown,
                  el_last_finalized = last_finalized chain_id s\<rparr>)"

section \<open>The list by value\<close>

text \<open>
  The rows of the join, in the order of the query: the largest amounts first, then the larger
  event ids.
\<close>

definition join_by_value :: "int \<Rightarrow> string \<Rightarrow> events_query \<Rightarrow> 'n world \<Rightarrow> event_row list" where
  "join_by_value chain_id default_version q s =
     map snd (sort_key (\<lambda>vr. - the (v_usd (fst vr))) (sort_key (\<lambda>vr. - v_event (fst vr))
       (filter (\<lambda>(v, r). e_id r = v_event v \<and> v_version v = default_version \<and> v_usd v \<noteq> None
           \<and> e_chain r = chain_id \<and> e_valuable r \<and> (eq_include_reorged q \<or> e_canonical r)
           \<and> (eq_include_tentative q \<or> e_finality r = Finalized))
         (List.product (w_valuations s) (w_events s)))))"

text \<open>The inner loop, which stops as soon as the limit is reached.\<close>

fun take_new :: "nat \<Rightarrow> event_row list \<Rightarrow> event_row list \<times> int list \<Rightarrow> event_row list \<times> int list" where
  "take_new limit [] st = st"
| "take_new limit (r # rows) (events, seen) =
     (if e_id r \<in> set seen then take_new limit rows (events, seen)
      else let events' = events @ [r]; seen' = e_id r # seen in
        if length events' = limit then (events', seen') else take_new limit rows (events', seen'))"

definition batch_size :: "nat \<Rightarrow> nat" where
  "batch_size limit = max 100 (min (limit * 4) 5000)"

lemma batch_size_pos [simp]: "0 < batch_size limit" "batch_size limit \<noteq> 0"
  by (simp_all add: batch_size_def)

function overscan :: "nat \<Rightarrow> event_row list \<Rightarrow> nat \<Rightarrow> event_row list \<times> int list \<Rightarrow> event_row list" where
  "overscan limit all offset st =
     (if \<not> length (fst st) < limit then fst st
      else let rows = take (batch_size limit) (drop offset all) in
        if rows = [] then fst st
        else let st' = take_new limit rows st in
          if length rows < batch_size limit then fst st'
          else overscan limit all (offset + batch_size limit) st')"
  by pat_completeness auto
termination
  by (relation "measure (\<lambda>(limit, all, offset, st). length all - offset)")
    (auto intro!: diff_less_mono2)

declare overscan.simps [simp del]

definition list_by_amount_usd_desc ::
  "ext \<Rightarrow> int \<Rightarrow> string \<Rightarrow> events_query \<Rightarrow> 'n world \<Rightarrow> event_list_response" where
  "list_by_amount_usd_desc x chain_id default_version q s =
     (let rows = overscan (page_limit q) (join_by_value chain_id default_version q s) 0 ([], []);
          events = map (row_to_event x) rows
      in \<lparr>el_data = (if eq_with_valuations q \<and> events \<noteq> [] then with_valuations x s events else events),
          el_next = None, el_last_finalized = None\<rparr>)"

section \<open>The endpoint\<close>

definition list_events ::
  "ext \<Rightarrow> int \<Rightarrow> string \<Rightarrow> events_query \<Rightarrow> 'n world \<Rightarrow> api_error + event_list_response" where
  "list_events x chain_id default_version q s =
     (let sort_name = (case eq_sort q of Some t \<Rightarrow> t | None \<Rightarrow> ''block_asc'') in
      if sort_name = ''amount_usd_desc'' then Inr (list_by_amount_usd_desc x chain_id default_version q s)
      else if sort_name = ''block_asc'' then list_by_block x chain_id q True s
      else if sort_name = ''block_desc'' then list_by_block x chain_id q False s
      else Inl (bad_request (''unsupported sort: '' @ sort_name
             @ ''; use block_asc | block_desc | amount_usd_desc'')))"

end
