(* ===== verification/Api_Events_Props.thy ===== *)
theory Api_Events_Props
  imports Api_Events Watchers
begin

text \<open>
  The properties of the events endpoint: the cursor as a token, the completeness of paging in
  both block orders, what paging loses when two rows share a position, and the list by value.
\<close>

section \<open>The cursor as a token\<close>

lemma split_once_first: "c \<notin> set a \<Longrightarrow> split_once c (a @ c # b) = Some (a, b)"
  by (induction a) auto

lemma show_int_no_colon: "CHR '':'' \<notin> set (show_int n)"
proof -
  have "CHR '':'' \<notin> set (show_nat k)" for k by (rule show_nat_no_char) simp
  then show ?thesis by (simp add: show_int_def)
qed

lemma decode_encoded:
  "decode_cursor (encode_cursor c) = (case parse_signed 10 64 (show_int (cu_block c)) of
     None \<Rightarrow> Inl (bad_request ''invalid cursor block'')
   | Some b \<Rightarrow> case parse_signed 10 32 (show_int (cu_log c)) of
       None \<Rightarrow> Inl (bad_request ''invalid cursor log_index'')
     | Some l \<Rightarrow> Inr \<lparr>cu_block = b, cu_log = l\<rparr>)"
  by (simp add: decode_cursor_def encode_cursor_def split_once_first show_int_no_colon)

lemma parse_signed_range:
  "parse_signed b w s = Some n \<Longrightarrow> - (2 ^ (w - 1)) \<le> n \<and> n < 2 ^ (w - 1)"
proof -
  have "int m \<le> 2 ^ (w - 1)" if "m \<le> 2 ^ (w - 1)" for m :: nat
    using that by (metis of_nat_le_iff of_nat_numeral of_nat_power)
  moreover have "int m < 2 ^ (w - 1)" if "m < 2 ^ (w - 1)" for m :: nat
    using that by (metis of_nat_less_iff of_nat_numeral of_nat_power)
  moreover have "- (2 ^ (w - 1)) \<le> int m" "- int m < 2 ^ (w - 1)" for m
    by (rule order_trans [of _ 0], simp, simp) (rule order_le_less_trans [of _ 0], simp, simp)
  ultimately show "parse_signed b w s = Some n \<Longrightarrow> ?thesis"
    by (auto simp: parse_signed_def split: list.splits if_splits option.splits)
qed

lemma decode_range:
  assumes "decode_cursor t = Inr c"
  shows "- (2 ^ 63) \<le> cu_block c \<and> cu_block c < 2 ^ 63 \<and> - (2 ^ 31) \<le> cu_log c \<and> cu_log c < 2 ^ 31"
  using assms parse_signed_range [of 10 64] parse_signed_range [of 10 32]
  by (fastforce simp: decode_cursor_def split: list.splits if_splits option.splits prod.splits)


section \<open>Rows in order\<close>

definition comes_before :: "bool \<Rightarrow> event_row \<Rightarrow> event_row \<Rightarrow> bool" where
  "comes_before asc a b \<longleftrightarrow> after_cursor asc (Some \<lparr>cu_block = e_block a, cu_log = e_log a\<rparr>) b"

lemma comes_before_simps:
  "comes_before True a b \<longleftrightarrow> e_block a < e_block b \<or> e_block a = e_block b \<and> e_log a < e_log b"
  "comes_before False a b \<longleftrightarrow> e_block b < e_block a \<or> e_block b = e_block a \<and> e_log b < e_log a"
  by (auto simp: comes_before_def after_cursor_def)

lemma comes_before_trans: "comes_before asc a b \<Longrightarrow> comes_before asc b c \<Longrightarrow> comes_before asc a c"
  by (cases asc) (auto simp: comes_before_simps)

lemma not_before_self: "\<not> comes_before asc a a"
  by (cases asc) (auto simp: comes_before_simps)

lemma not_before_back: "comes_before asc a b \<Longrightarrow> \<not> comes_before asc b a"
  using comes_before_trans not_before_self by blast

lemma lex_sorted:
  fixes f :: "'a \<Rightarrow> 'b::linorder" and g :: "'a \<Rightarrow> 'c::linorder"
  shows "sorted_wrt (\<lambda>a b. f a < f b \<or> f a = f b \<and> g a \<le> g b) (sort_key f (sort_key g xs))"
proof -
  have "sorted_wrt (\<lambda>a b. f a < f b \<or> f a = f b \<and> g a \<le> g b) L"
    if "sorted (map f L)" "\<And>k. sorted (map g (filter (\<lambda>y. f y = k) L))" for L
    using that
  proof (induction L)
    case (Cons a L)
    have "sorted (map g (filter (\<lambda>y. f y = k) L))" for k
      using Cons.prems(2) [of k] by (cases "f a = k") simp_all
    moreover have "f a < f b \<or> f a = f b \<and> g a \<le> g b" if "b \<in> set L" for b
    proof (cases "f a = f b")
      case True
      then show ?thesis using Cons.prems(2) [of "f a"] that by auto
    next
      case False
      then show ?thesis using Cons.prems(1) that by (auto simp: order.order_iff_strict)
    qed
    ultimately show ?case using Cons by simp
  qed simp
  moreover have "sorted (map g (filter (\<lambda>y. f y = k) (sort_key f (sort_key g xs))))" for k
    by (simp add: sort_key_stable sorted_filter)
  ultimately show ?thesis by simp
qed

lemma in_order_set [simp]: "set (in_order asc rows) = set rows"
  by (simp add: in_order_def)

lemma in_order_filter: "filter P (in_order asc rows) = in_order asc (filter P rows)"
  by (simp add: in_order_def filter_sort)

definition position :: "event_row \<Rightarrow> int \<times> int" where
  "position r = (e_block r, e_log r)"

lemma distinct_in_order: "distinct (map h (in_order asc rows)) \<longleftrightarrow> distinct (map h rows)"
proof -
  have "mset (map h (in_order asc rows)) = mset (map h rows)" by (simp add: in_order_def)
  then show ?thesis by (rule mset_eq_imp_distinct_iff)
qed

lemma distinct_sorted_wrt: "distinct (map h L) \<longleftrightarrow> sorted_wrt (\<lambda>a b. h a \<noteq> h b) L"
  by (induction L) auto

lemma sorted_wrt_or_not:
  "sorted_wrt (\<lambda>a b. P a b \<or> Q a b) L \<Longrightarrow> sorted_wrt (\<lambda>a b. \<not> Q a b) L \<Longrightarrow> sorted_wrt P L"
  by (induction L) auto

lemma in_order_sorted:
  assumes "distinct (map position rows)"
  shows "sorted_wrt (comes_before asc) (in_order asc rows)"
proof -
  let ?L = "in_order asc rows"
  have d: "sorted_wrt (\<lambda>a b. position a \<noteq> position b) ?L"
    using assms distinct_in_order [of position asc rows] by (simp add: distinct_sorted_wrt)
  have "sorted_wrt (\<lambda>a b. comes_before asc a b \<or> position a = position b) ?L"
    using lex_sorted [of e_block e_log rows] lex_sorted [of "\<lambda>r. - e_block r" "\<lambda>r. - e_log r" rows]
    by (cases asc) (auto simp: in_order_def comes_before_simps position_def elim!: sorted_wrt_mono_rel [rotated])
  then show ?thesis using d by (rule sorted_wrt_or_not)
qed

section \<open>Valuations of a page\<close>

definition valuations_at :: "(int \<times> valuation_inline list) list \<Rightarrow> int \<Rightarrow> valuation_inline list" where
  "valuations_at m i = (case map_of m i of Some vs \<Rightarrow> vs | None \<Rightarrow> [])"

lemma valuations_at_push: "valuations_at (push_by_id i v m) j = valuations_at m j @ (if j = i then [v] else [])"
  by (induction i v m rule: push_by_id.induct) (auto simp: valuations_at_def)

lemma valuations_at_fold:
  "valuations_at (fold (\<lambda>v. push_by_id (v_event v) (inline_of x v)) vs m) i
   = valuations_at m i @ map (inline_of x) (filter (\<lambda>v. v_event v = i) vs)"
  by (induction vs arbitrary: m) (auto simp: valuations_at_push)

lemma valuations_at_remove: "j \<noteq> i \<Longrightarrow> valuations_at (filter (\<lambda>e. fst e \<noteq> i) m) j = valuations_at m j"
  by (induction m) (auto simp: valuations_at_def)

definition fits_i64 :: "int \<Rightarrow> bool" where
  "fits_i64 n \<longleftrightarrow> - (2 ^ 63) \<le> n \<and> n < 2 ^ 63"

lemma parse_shown: "fits_i64 n \<Longrightarrow> parse_signed 10 64 (show_int n) = Some n"
  by (simp add: fits_i64_def parse_signed_show_int)

lemma attach_rows:
  assumes "distinct (map e_id rows)" and "\<And>r. r \<in> set rows \<Longrightarrow> fits_i64 (e_id r)"
  shows "attach m (map (row_to_event x) rows)
    = map (\<lambda>r. (row_to_event x r)\<lparr>av_valuations := Some (valuations_at m (e_id r))\<rparr>) rows"
  using assms
proof (induction rows arbitrary: m)
  case (Cons r rows)
  have id: "parse_signed 10 64 (av_id (row_to_event x r)) = Some (e_id r)"
    using Cons.prems(2) [of r] by (simp add: row_to_event_def parse_shown)
  have "attach (filter (\<lambda>e. fst e \<noteq> e_id r) m) (map (row_to_event x) rows)
      = map (\<lambda>r'. (row_to_event x r')\<lparr>av_valuations := Some (valuations_at (filter (\<lambda>e. fst e \<noteq> e_id r) m) (e_id r'))\<rparr>) rows"
    using Cons by (intro Cons.IH) simp_all
  also have "\<dots> = map (\<lambda>r'. (row_to_event x r')\<lparr>av_valuations := Some (valuations_at m (e_id r'))\<rparr>) rows"
  proof (intro map_cong refl)
    fix r' assume "r' \<in> set rows"
    then have "e_id r' \<in> e_id ` set rows" by (rule imageI)
    with Cons.prems(1) have "e_id r' \<noteq> e_id r" by auto
    then show "(row_to_event x r')\<lparr>av_valuations := Some (valuations_at (filter (\<lambda>e. fst e \<noteq> e_id r) m) (e_id r'))\<rparr>
        = (row_to_event x r')\<lparr>av_valuations := Some (valuations_at m (e_id r'))\<rparr>"
      by (simp add: valuations_at_remove)
  qed
  finally show ?case by (simp add: id valuations_at_def)
qed simp

text \<open>The answer for one row, and for a page of rows with distinct ids.\<close>

definition answer :: "ext \<Rightarrow> events_query \<Rightarrow> 'n world \<Rightarrow> event_row \<Rightarrow> api_event" where
  "answer x q s r = (if eq_with_valuations q
     then (row_to_event x r)\<lparr>av_valuations := Some (load_valuations x (e_id r) s)\<rparr> else row_to_event x r)"

lemma page_answers:
  assumes "distinct (map e_id rows)" and ids: "\<And>r. r \<in> set rows \<Longrightarrow> fits_i64 (e_id r)"
  shows "(if eq_with_valuations q \<and> map (row_to_event x) rows \<noteq> []
      then with_valuations x s (map (row_to_event x) rows) else map (row_to_event x) rows) = map (answer x q s) rows"
proof (cases "eq_with_valuations q")
  case True
  have att: "attach m (map (row_to_event x) rows)
      = map (\<lambda>r. (row_to_event x r)\<lparr>av_valuations := Some (valuations_at m (e_id r))\<rparr>) rows" for m
    using assms by (rule attach_rows)
  let ?ids = "List.map_filter (\<lambda>e. parse_signed 10 64 (av_id e)) (map (row_to_event x) rows)"
  have "?ids = map e_id rows"
    using ids by (induction rows) (simp_all add: List.map_filter_simps row_to_event_def parse_shown)
  then have "valuations_at (fold (\<lambda>v. push_by_id (v_event v) (inline_of x v))
      (filter (\<lambda>v. v_event v \<in> set ?ids) (w_valuations s)) []) (e_id r) = load_valuations x (e_id r) s"
    if "r \<in> set rows" for r
    unfolding valuations_at_fold filter_filter load_valuations_def
    using that by (auto simp: valuations_at_def intro!: arg_cong [where f = "map (inline_of x)"] filter_cong)
  then have "with_valuations x s (map (row_to_event x) rows) = map (answer x q s) rows"
    unfolding with_valuations_def Let_def att using True by (intro map_cong refl) (simp add: answer_def)
  with True show ?thesis by simp
qed (simp add: answer_def)

section \<open>Following the cursors\<close>

text \<open>A client that follows \<open>next_cursor\<close> until there is none; \<open>None\<close> when the steps run out.\<close>

fun follow :: "nat \<Rightarrow> ext \<Rightarrow> int \<Rightarrow> string \<Rightarrow> events_query \<Rightarrow> 'n world \<Rightarrow> api_event list option" where
  "follow 0 x chain_id version q s = None"
| "follow (Suc n) x chain_id version q s =
     (case list_events x chain_id version q s of
        Inl e \<Rightarrow> None
      | Inr resp \<Rightarrow>
          (case el_next resp of
             None \<Rightarrow> Some (el_data resp)
           | Some c \<Rightarrow> map_option ((@) (el_data resp)) (follow n x chain_id version (q\<lparr>eq_cursor := Some c\<rparr>) s)))"

definition all_matching :: "int \<Rightarrow> events_query \<Rightarrow> 'n world \<Rightarrow> event_row list" where
  "all_matching chain_id q s = filter (matches_query chain_id q) (w_events s)"

definition sort_of :: "bool \<Rightarrow> events_query \<Rightarrow> bool" where
  "sort_of asc q \<longleftrightarrow> (if asc then eq_sort q \<in> {None, Some ''block_asc''} else eq_sort q = Some ''block_desc'')"

text \<open>Positions and ids as the columns of the table hold them.\<close>

definition fits_columns :: "event_row \<Rightarrow> bool" where
  "fits_columns r \<longleftrightarrow> fits_i64 (e_id r) \<and> fits_i64 (e_block r) \<and> - (2 ^ 31) \<le> e_log r \<and> e_log r < 2 ^ 31"

lemma log_roundtrip:
  assumes "- (2 ^ 31) \<le> n" "n < 2 ^ 31"
  shows "as_i32 (int (as_u32 n)) = n"
proof -
  have "int (as_u32 n) = n mod 2 ^ 32" by (simp add: as_u32_def)
  then have "as_i32 (int (as_u32 n)) = as_i32 n" by (simp add: as_i32_def mod_add_left_eq)
  with assms show ?thesis by simp
qed

lemma list_events_block: "sort_of asc q \<Longrightarrow> list_events x chain_id version q s = list_by_block x chain_id q asc s"
proof -
  assume "sort_of asc q"
  then consider "asc" "eq_sort q = None" | "asc" "eq_sort q = Some ''block_asc''" | "\<not> asc" "eq_sort q = Some ''block_desc''"
    by (cases asc) (auto simp: sort_of_def)
  then show ?thesis by cases (simp_all add: list_events_def)
qed

lemma matches_cursor [simp]: "matches_query chain_id (q\<lparr>eq_cursor := c\<rparr>) = matches_query chain_id q"
  by (intro ext) (cases "eq_event_name q"; simp add: matches_query_def event_name_filter_def)

lemma page_limit_cursor [simp]: "page_limit (q\<lparr>eq_cursor := c\<rparr>) = page_limit q"
  by (simp add: page_limit_def)

definition cursor_at :: "event_row \<Rightarrow> cursor" where
  "cursor_at r = \<lparr>cu_block = e_block r, cu_log = e_log r\<rparr>"

definition cursor_text :: "event_row list \<Rightarrow> string option" where
  "cursor_text pre = (if pre = [] then None else Some (encode_cursor (cursor_at (last pre))))"

lemma cursor_text_read:
  assumes "\<And>r. r \<in> set pre \<Longrightarrow> fits_columns r"
  shows "(case cursor_text pre of None \<Rightarrow> Inr None | Some t \<Rightarrow> map_sum id Some (decode_cursor t))
    = Inr (if pre = [] then None else Some (cursor_at (last pre)))"
  using assms [of "last pre"]
  by (simp add: cursor_text_def cursor_at_def decode_encoded fits_columns_def fits_i64_def parse_signed_show_int)

lemma rest_after:
  assumes "sorted_wrt (comes_before asc) (pre @ suf)" and "pre \<noteq> []"
  shows "filter (after_cursor asc (Some (cursor_at (last pre)))) (pre @ suf) = suf"
proof -
  have b: "after_cursor asc (Some (cursor_at a)) r \<longleftrightarrow> comes_before asc a r" for a r
    by (simp add: comes_before_def cursor_at_def)
  obtain p l where p: "pre = p @ [l]" using assms(2) by (metis rev_exhaust)
  have "\<not> comes_before asc l r" if "r \<in> set pre" for r
    using assms(1) that not_before_self not_before_back by (auto simp: p sorted_wrt_append)
  moreover have "comes_before asc l r" if "r \<in> set suf" for r
    using assms(1) that by (simp add: p sorted_wrt_append)
  ultimately show ?thesis
    by (simp add: b p filter_empty_conv filter_id_conv)
qed

lemma page_of_suffix:
  assumes "in_order asc (all_matching chain_id q s) = pre @ suf"
    and "sorted_wrt (comes_before asc) (pre @ suf)"
  shows "page_rows chain_id (q\<lparr>eq_cursor := c\<rparr>) asc (if pre = [] then None else Some (cursor_at (last pre))) s
    = take (page_limit q) suf"
proof -
  let ?c = "if pre = [] then None else Some (cursor_at (last pre))"
  have "in_order asc (filter (\<lambda>r. matches_query chain_id q r \<and> after_cursor asc ?c r) (w_events s))
      = filter (after_cursor asc ?c) (pre @ suf)"
    unfolding assms(1) [symmetric] in_order_filter all_matching_def filter_filter ..
  also have "\<dots> = suf"
    using rest_after [OF assms(2)] by (cases "pre = []") (simp_all add: after_cursor_def)
  finally show ?thesis by (simp add: page_rows_def)
qed

lemma follow_suffix:
  assumes so: "sort_of asc q" and lim: "0 < page_limit q"
    and all: "in_order asc (all_matching chain_id q s) = pre @ suf"
    and srt: "sorted_wrt (comes_before asc) (pre @ suf)"
    and ids: "distinct (map e_id (pre @ suf))"
    and fits: "\<And>r. r \<in> set (pre @ suf) \<Longrightarrow> fits_columns r"
    and n: "length suf < n"
  shows "follow n x chain_id version (q\<lparr>eq_cursor := cursor_text pre\<rparr>) s = Some (map (answer x q s) suf)"
  using all srt ids fits n
proof (induction "length suf" arbitrary: pre suf n rule: less_induct)
  case less
  let ?q = "q\<lparr>eq_cursor := cursor_text pre\<rparr>" and ?page = "take (page_limit q) suf"
  obtain k where k: "n = Suc k" using less.prems(5) by (cases n) auto
  have so': "sort_of asc ?q" using so by (cases asc) (simp_all add: sort_of_def)
  have ans: "answer x ?q s = answer x q s" by (rule ext) (simp add: answer_def)
  have pr: "page_rows chain_id ?q asc (if pre = [] then None else Some (cursor_at (last pre))) s = ?page"
    by (rule page_of_suffix [OF less.prems(1,2)])
  have cur: "(case eq_cursor ?q of None \<Rightarrow> Inr None | Some t \<Rightarrow> map_sum id Some (decode_cursor t))
      = Inr (if pre = [] then None else Some (cursor_at (last pre)))"
    using cursor_text_read [of pre] less.prems(4) by simp
  have in_page: "r \<in> set (pre @ suf)" if "r \<in> set ?page" for r using that by (auto dest: in_set_takeD)
  have d: "distinct (map e_id ?page)" using less.prems(3) by (simp add: distinct_take flip: take_map)
  have shown: "(if eq_with_valuations ?q \<and> map (row_to_event x) ?page \<noteq> []
      then with_valuations x s (map (row_to_event x) ?page) else map (row_to_event x) ?page) = map (answer x q s) ?page"
    using page_answers [OF d, of ?q x s] less.prems(4) in_page unfolding ans fits_columns_def by blast
  have resp: "list_events x chain_id version ?q s = Inr \<lparr>el_data = map (answer x q s) ?page,
      el_next = next_cursor_of (page_limit q) (map (answer x q s) ?page), el_last_finalized = last_finalized chain_id s\<rparr>"
    unfolding list_events_block [OF so'] list_by_block_def cur sum.case pr Let_def shown by simp
  show ?case
  proof (cases "page_limit q \<le> length suf \<and> suf \<noteq> []")
    case False
    then have "?page = suf" "next_cursor_of (page_limit q) (map (answer x q s) ?page) = None"
      using lim by (auto simp: next_cursor_of_def)
    then show ?thesis by (simp add: k resp)
  next
    case True
    then have ne: "?page \<noteq> []" using lim by simp
    let ?l = "last ?page"
    have l: "fits_columns ?l" using less.prems(4) in_page ne by simp
    have la: "last (map (answer x q s) ?page) = answer x q s ?l" using ne by (rule last_map)
    have "av_block (answer x q s ?l) = show_int (e_block ?l)" "av_log (answer x q s ?l) = as_u32 (e_log ?l)"
      by (simp_all add: answer_def row_to_event_def)
    then have nx: "next_cursor_of (page_limit q) (map (answer x q s) ?page) = cursor_text (pre @ ?page)"
      using l True ne la
      by (simp add: next_cursor_of_def cursor_text_def cursor_at_def fits_columns_def parse_shown log_roundtrip)
    have split: "pre @ suf = (pre @ ?page) @ drop (page_limit q) suf" by simp
    have "follow k x chain_id version (q\<lparr>eq_cursor := cursor_text (pre @ ?page)\<rparr>) s
        = Some (map (answer x q s) (drop (page_limit q) suf))"
      using less.prems True lim k
      by (intro less.hyps) (simp_all only: split [symmetric] append_assoc append_take_drop_id, auto)
    moreover obtain c where "cursor_text (pre @ ?page) = Some c" using ne by (simp add: cursor_text_def)
    ultimately show ?thesis
      by (simp add: k resp nx flip: map_append)
  qed
qed

text \<open>
  C35. Paging is complete and ends: a client that asks for the events in either block order with
  a limit above zero and follows the cursors gets, after at most one request more than there
  are matching rows, every matching event exactly once and in order, provided that no two
  matching rows share a block number and a log index.
\<close>

theorem paging_complete:
  assumes "sort_of asc q" and "eq_cursor q = None" and "eq_limit q \<noteq> Some 0"
    and "distinct (map position (all_matching chain_id q s))"
    and "distinct (map e_id (all_matching chain_id q s))"
    and "\<And>r. r \<in> set (all_matching chain_id q s) \<Longrightarrow> fits_columns r"
  shows "follow (length (all_matching chain_id q s) + 1) x chain_id version q s
    = Some (map (answer x q s) (in_order asc (all_matching chain_id q s)))"
proof -
  let ?M = "in_order asc (all_matching chain_id q s)"
  have len: "length ?M = length (all_matching chain_id q s)" by (simp add: in_order_def)
  have "0 < page_limit q" using assms(3)
    by (cases "eq_limit q") (simp_all add: page_limit_def DEFAULT_LIMIT_def MAX_LIMIT_def)
  moreover have "distinct (map e_id ?M)" using assms(5) by (simp add: distinct_in_order)
  ultimately have "follow (length (all_matching chain_id q s) + 1) x chain_id version
      (q\<lparr>eq_cursor := cursor_text []\<rparr>) s = Some (map (answer x q s) ?M)"
    using assms(6) len
    by (intro follow_suffix [OF assms(1)]) (simp_all add: in_order_sorted [OF assms(4)])
  moreover have "q\<lparr>eq_cursor := cursor_text []\<rparr> = q" using assms(2) by (simp add: cursor_text_def)
  ultimately show ?thesis by simp
qed

text \<open>A query for one event per page, and two bonds to ask for.\<close>

definition one_per_page :: events_query where
  "one_per_page = \<lparr>eq_from_block = None, eq_to_block = None, eq_contract = None, eq_event_name = None,
     eq_event_type = None, eq_from = None, eq_to = None, eq_address = None, eq_tx = None, eq_asset = None,
     eq_with_valuations = False, eq_include_tentative = False, eq_include_reorged = False, eq_sort = None,
     eq_limit = Some 1, eq_cursor = None\<rparr>"

definition listed_event :: "int \<Rightarrow> int \<Rightarrow> event_row" where
  "listed_event i b = sample_event\<lparr>e_id := i, e_block := b, e_finality := Finalized\<rparr>"

definition listed_world :: "unit world" where
  "listed_world = (empty_world ())\<lparr>w_events := [listed_event 1 200, listed_event 2 100]\<rparr>"

lemma listed_simps:
  "e_id (listed_event i b) = i" "e_block (listed_event i b) = b" "e_log (listed_event i b) = 0"
  "matches_query ARBITRUM_CHAIN_ID one_per_page (listed_event i b)"
  by (simp_all add: listed_event_def sample_event_def matches_query_def one_per_page_def opt_all_def
      event_name_filter_def)

lemma listed_matching:
  "all_matching ARBITRUM_CHAIN_ID one_per_page listed_world = [listed_event 1 200, listed_event 2 100]"
  by (simp add: all_matching_def listed_world_def listed_simps)

theorem paging_complete_witness:
  "follow 3 sample_ext ARBITRUM_CHAIN_ID ''v'' one_per_page listed_world
    = Some [row_to_event sample_ext (listed_event 2 100), row_to_event sample_ext (listed_event 1 200)]"
proof -
  have o: "in_order True [listed_event 1 200, listed_event 2 100] = [listed_event 2 100, listed_event 1 200]"
    by (simp add: in_order_def listed_simps)
  have a: "answer sample_ext one_per_page listed_world = row_to_event sample_ext"
    by (rule ext) (simp add: answer_def one_per_page_def)
  have "follow (length (all_matching ARBITRUM_CHAIN_ID one_per_page listed_world) + 1) sample_ext ARBITRUM_CHAIN_ID
      ''v'' one_per_page listed_world = Some (map (answer sample_ext one_per_page listed_world)
        (in_order True (all_matching ARBITRUM_CHAIN_ID one_per_page listed_world)))"
    by (rule paging_complete)
      (auto simp: listed_matching listed_simps position_def fits_columns_def fits_i64_def,
        simp_all add: sort_of_def one_per_page_def)
  then show ?thesis by (simp add: listed_matching o a numeral_3_eq_3)
qed

text \<open>
  C36. With \<open>include_reorged\<close> the position is no key: a log that was included again after a
  reorg has two rows at the same block and log index, and a client that pages with one row per
  page gets only one of them; following the cursors ends without the other.
\<close>

definition reorged_world :: "unit world" where
  "reorged_world = (empty_world ())\<lparr>w_events :=
     [(listed_event 1 100)\<lparr>e_canonical := False, e_tx := ''0xold''\<rparr>, listed_event 2 100]\<rparr>"

theorem paging_loses_reorged:
  "let q = one_per_page\<lparr>eq_include_reorged := True\<rparr>;
       rows = all_matching ARBITRUM_CHAIN_ID q reorged_world in
     length rows = 2
   \<and> follow (length rows + 1) x ARBITRUM_CHAIN_ID ''v'' q reorged_world = Some [row_to_event x (hd rows)]"
proof -
  let ?q = "one_per_page\<lparr>eq_include_reorged := True\<rparr>"
  let ?a = "(listed_event 1 100)\<lparr>e_canonical := False, e_tx := ''0xold''\<rparr>" and ?b = "listed_event 2 100"
  have m: "matches_query ARBITRUM_CHAIN_ID ?q ?a" "matches_query ARBITRUM_CHAIN_ID ?q ?b"
    by (simp_all add: listed_event_def sample_event_def matches_query_def one_per_page_def opt_all_def
        event_name_filter_def)
  have all: "all_matching ARBITRUM_CHAIN_ID ?q reorged_world = [?a, ?b]"
    by (simp add: all_matching_def reorged_world_def m)
  have p: "page_limit (?q\<lparr>eq_cursor := c\<rparr>) = 1" "page_limit ?q = 1" for c
    by (simp_all add: page_limit_def one_per_page_def MAX_LIMIT_def)
  have dec: "decode_cursor (encode_cursor \<lparr>cu_block = 100, cu_log = 0\<rparr>) = Inr \<lparr>cu_block = 100, cu_log = 0\<rparr>"
    by (simp add: decode_encoded parse_signed_show_int)
  have nv: "\<not> eq_with_valuations (?q\<lparr>eq_cursor := c\<rparr>)" "\<not> eq_with_valuations ?q"
      "eq_cursor ?q = None" for c by (simp_all add: one_per_page_def)
  have so: "sort_of True ?q" "sort_of True (?q\<lparr>eq_cursor := c\<rparr>)" for c
    by (simp_all add: sort_of_def one_per_page_def)
  have io: "in_order True [?a, ?b] = [?a, ?b]" by (simp add: in_order_def listed_event_def sample_event_def)
  have first: "page_rows ARBITRUM_CHAIN_ID ?q True None reorged_world = [?a]"
    unfolding page_rows_def p(2) by (simp add: reorged_world_def m after_cursor_def io)
  have second: "page_rows ARBITRUM_CHAIN_ID (?q\<lparr>eq_cursor := c\<rparr>) True (Some \<lparr>cu_block = 100, cu_log = 0\<rparr>) reorged_world = []" for c
    unfolding page_rows_def
    by (simp add: reorged_world_def after_cursor_def listed_event_def sample_event_def in_order_def)
  have nx: "next_cursor_of 1 [row_to_event x ?a] = Some (encode_cursor \<lparr>cu_block = 100, cu_log = 0\<rparr>)"
    by (simp add: next_cursor_of_def row_to_event_def listed_event_def sample_event_def parse_signed_show_int
        as_u32_def)
  have one: "list_events x ARBITRUM_CHAIN_ID ''v'' ?q reorged_world = Inr \<lparr>el_data = [row_to_event x ?a],
      el_next = Some (encode_cursor \<lparr>cu_block = 100, cu_log = 0\<rparr>),
      el_last_finalized = last_finalized ARBITRUM_CHAIN_ID reorged_world\<rparr>"
    unfolding list_events_block [OF so(1)] list_by_block_def nv(3)
    by (simp add: first nv(2) p(2) nx Let_def del: One_nat_def)
  have two: "list_events x ARBITRUM_CHAIN_ID ''v'' (?q\<lparr>eq_cursor := Some (encode_cursor \<lparr>cu_block = 100, cu_log = 0\<rparr>)\<rparr>)
      reorged_world = Inr \<lparr>el_data = [], el_next = None,
      el_last_finalized = last_finalized ARBITRUM_CHAIN_ID reorged_world\<rparr>"
    unfolding list_events_block [OF so(2)] list_by_block_def
    by (simp add: dec second next_cursor_of_def)
  show ?thesis
    unfolding Let_def all by (simp add: one two numeral_3_eq_3)
qed

section \<open>The list by value\<close>

text \<open>The first row of every event id, in order.\<close>

fun firsts :: "int set \<Rightarrow> event_row list \<Rightarrow> event_row list" where
  "firsts seen [] = []"
| "firsts seen (r # rows) =
     (if e_id r \<in> seen then firsts seen rows else r # firsts (insert (e_id r) seen) rows)"

lemma firsts_append: "firsts seen (xs @ ys) = firsts seen xs @ firsts (seen \<union> e_id ` set xs) ys"
  by (induction xs arbitrary: seen) (auto simp: insert_absorb)

lemma take_new_rows:
  "length events < limit \<Longrightarrow> take_new limit rows (events, seen) = (ev', seen') \<Longrightarrow>
     ev' = take limit (events @ firsts (set seen) rows)
   \<and> (length ev' < limit \<longrightarrow> set seen' = set seen \<union> e_id ` set rows)"
proof (induction rows arbitrary: events seen)
  case (Cons r rows)
  show ?case
  proof (cases "e_id r \<in> set seen")
    case True
    with Cons show ?thesis by (auto simp: insert_absorb)
  next
    case False
    show ?thesis
    proof (cases "Suc (length events) = limit")
      case True
      with False Cons.prems show ?thesis by auto
    next
      case False
      with Cons.prems Cons.IH [of "events @ [r]" "e_id r # seen"] \<open>e_id r \<notin> set seen\<close>
      show ?thesis by auto
    qed
  qed
qed auto

lemma overscan_rows:
  "length events \<le> limit \<Longrightarrow> overscan limit all offset (events, seen)
     = take limit (events @ firsts (set seen) (drop offset all))"
proof (induction "length all - offset" arbitrary: offset events seen rule: less_induct)
  case less
  let ?n = "batch_size limit"
  let ?rows = "take ?n (drop offset all)"
  obtain ev' seen' where tn: "take_new limit ?rows (events, seen) = (ev', seen')" by fastforce
  show ?case
  proof (cases "length events < limit \<and> ?rows \<noteq> []")
    case False
    then show ?thesis
      using less.prems by (subst overscan.simps) auto
  next
    case True
    then have ev': "ev' = take limit (events @ firsts (set seen) ?rows)"
        "length ev' < limit \<longrightarrow> set seen' = set seen \<union> e_id ` set ?rows"
      using take_new_rows [OF _ tn] by simp_all
    show ?thesis
    proof (cases "length ?rows < ?n")
      case True
      then have r: "?rows = drop offset all" by simp
      have "take_new limit (drop offset all) (events, seen) = (ev', seen')" using tn unfolding r .
      with r True \<open>length events < limit \<and> ?rows \<noteq> []\<close> ev' show ?thesis
        by (subst overscan.simps) (simp add: Let_def)
    next
      case False
      have "drop offset all = ?rows @ drop (offset + ?n) all"
        by (metis append_take_drop_id drop_drop add.commute)
      then have split: "firsts (set seen) (drop offset all)
          = firsts (set seen) ?rows @ firsts (set seen \<union> e_id ` set ?rows) (drop (offset + ?n) all)"
        by (metis firsts_append)
      have "overscan limit all offset (events, seen) = overscan limit all (offset + ?n) (ev', seen')"
        using True False by (subst overscan.simps) (simp add: tn Let_def)
      also have "\<dots> = take limit (ev' @ firsts (set seen') (drop (offset + ?n) all))"
        using True ev'(1) by (intro less.hyps) (auto intro!: diff_less_mono2)
      also have "\<dots> = take limit (events @ firsts (set seen) (drop offset all))"
      proof (cases "length (events @ firsts (set seen) ?rows) < limit")
        case True
        then have "ev' = events @ firsts (set seen) ?rows" using ev'(1) by simp
        moreover from this True ev'(2) have "set seen' = set seen \<union> e_id ` set ?rows" by simp
        ultimately show ?thesis unfolding split by simp
      next
        case False
        then have "length ev' = limit" unfolding ev'(1) by simp
        then have "take limit (ev' @ firsts (set seen') (drop (offset + ?n) all)) = ev'" by simp
        with False show ?thesis unfolding split ev'(1) by simp
      qed
      finally show ?thesis .
    qed
  qed
qed

text \<open>
  C37. The list by value reads the join in batches and stops early, and still answers what one
  pass over the whole join would: the first rows of the distinct events in the order of the
  join, at most the limit, whatever the number of valuations an event has.
\<close>

theorem value_list_is_prefix:
  "el_data (list_by_amount_usd_desc x chain_id version q s) =
     (let events = map (row_to_event x)
            (take (page_limit q) (firsts {} (join_by_value chain_id version q s)))
      in if eq_with_valuations q \<and> events \<noteq> [] then with_valuations x s events else events)"
  by (simp add: list_by_amount_usd_desc_def overscan_rows Let_def)

end
