(* ===== verification/Pending.thy ===== *)
theory Pending
  imports Stake_Flow Decode Rpc_Methods
begin

text \<open>
  \<open>crates/livepeer-staker/src/pending.rs\<close>: the stored stake rows are first reconciled with
  \<open>getDelegator\<close> at their block, then the rows of \<open>EarningsClaimed\<close> events get the pending
  stake and fees the contract answers at the event's block. All reads go through the cache.
\<close>

section \<open>The contract's coders and shared helpers\<close>

text \<open>
  The \<open>sol!\<close> generated coders of \<open>BondingManager\<close>: the encoded calls in hexadecimal, and the
  decoders of the returned bytes with the error text of a failed decoding.
\<close>

record bonding_abi =
  get_delegator_hex :: "nat \<Rightarrow> string"
  pending_stake_hex :: "nat \<Rightarrow> nat \<Rightarrow> string"
  pending_fees_hex :: "nat \<Rightarrow> nat \<Rightarrow> string"
  delegator_returns :: "string \<Rightarrow> string + nat \<times> nat"
  pending_stake_returns :: "string \<Rightarrow> string + nat"
  pending_fees_returns :: "string \<Rightarrow> string + nat"

definition STAKE_DECIMALS :: nat where "STAKE_DECIMALS = 18"
definition FEES_DECIMALS :: nat where "FEES_DECIMALS = 18"
definition UPDATE_CHUNK :: nat where "UPDATE_CHUNK = 5000"
definition EXACT_BATCH_SIZE :: nat where "EXACT_BATCH_SIZE = 250"
definition EXACT_LAYER_STALE_RETRIES :: nat where "EXACT_LAYER_STALE_RETRIES = 3"

definition u256_to_decimal :: "ext \<Rightarrow> nat \<Rightarrow> nat \<Rightarrow> rat" where
  "u256_to_decimal x u decimals =
     bd_div x (case bd_parse x (show_nat u) of None \<Rightarrow> 0 | Some q \<Rightarrow> q) (of_nat (10 ^ decimals))"

definition is_layer_stale_error :: "string \<Rightarrow> bool" where
  "is_layer_stale_error t = str_contains ''layer stale'' (lower t)"

text \<open>\<open>bytes\<close> is a JSON string with the hexadecimal answer of an \<open>eth_call\<close>.\<close>

definition answer_hex :: "string \<Rightarrow> string" where
  "answer_hex bytes = trim_0x (trim_char (CHR 0x22) (from_utf8_or_empty bytes))"

definition decode_get_delegator :: "ext \<Rightarrow> bonding_abi \<Rightarrow> string \<Rightarrow> string + nat \<times> nat" where
  "decode_get_delegator x ab bytes =
     (case hex_decode x (answer_hex bytes) of
        None \<Rightarrow> Inl ''decoding getDelegator eth_call return hex''
      | Some raw \<Rightarrow> delegator_returns ab raw)"

datatype pending_kind = PendingStake | PendingFees

definition decode_pending :: "ext \<Rightarrow> bonding_abi \<Rightarrow> pending_kind \<Rightarrow> string \<Rightarrow> string + nat" where
  "decode_pending x ab kind bytes =
     (case hex_decode x (answer_hex bytes) of
        None \<Rightarrow> Inl ''decoding eth_call return hex''
      | Some raw \<Rightarrow>
          (case kind of PendingStake \<Rightarrow> pending_stake_returns ab raw
                      | PendingFees \<Rightarrow> pending_fees_returns ab raw))"

definition eth_call_on :: "string \<Rightarrow> string \<Rightarrow> int \<Rightarrow> json" where
  "eth_call_on bonding_manager hexdata block_number =
     JArr [JObj [(''to'', JStr bonding_manager), (''data'', JStr (''0x'' @ hexdata))],
           JStr (hex_0x (as_u64 block_number))]"

definition call_for ::
  "ext \<Rightarrow> bonding_abi \<Rightarrow> string \<Rightarrow> pending_kind \<Rightarrow> nat \<Rightarrow> nat \<Rightarrow> int \<Rightarrow> json \<times> string" where
  "call_for x ab bonding_manager kind delegator end_round block_number =
     (let calldata = (case kind of PendingStake \<Rightarrow> pending_stake_hex ab delegator end_round
                                 | PendingFees \<Rightarrow> pending_fees_hex ab delegator end_round);
          params = eth_call_on bonding_manager calldata block_number
      in (params, compute_call_hash x ''eth_call'' params (Some block_number)))"

definition call_for_get_delegator ::
  "ext \<Rightarrow> bonding_abi \<Rightarrow> string \<Rightarrow> nat \<Rightarrow> int \<Rightarrow> json \<times> string" where
  "call_for_get_delegator x ab bonding_manager delegator block_number =
     (let params = eth_call_on bonding_manager (get_delegator_hex ab delegator) block_number
      in (params, compute_call_hash x ''eth_call'' params (Some block_number)))"

text \<open>The hash map of the prefetched cache rows.\<close>

definition prefetch_cache :: "string list \<Rightarrow> 'n world \<Rightarrow> string \<Rightarrow> string option" where
  "prefetch_cache hashes s h = (if h \<in> set hashes then map_option fst (cache_get s h) else None)"

text \<open>
  \<open>UPDATE t SET ... FROM unnest(...) v WHERE on\<close>: a row is updated from one of the entries it
  matches; which one, when there are several, Postgres leaves open (the argument \<open>choice\<close>).
\<close>

definition update_from ::
  "(nat \<Rightarrow> nat) \<Rightarrow> ('r \<Rightarrow> 'v \<Rightarrow> bool) \<Rightarrow> ('v \<Rightarrow> 'r \<Rightarrow> 'r) \<Rightarrow> 'v list \<Rightarrow> 'r list \<Rightarrow> 'r list" where
  "update_from choice on put vs t =
     map (\<lambda>r. case filter (on r) vs of
                [] \<Rightarrow> r
              | m # ms \<Rightarrow> put ((m # ms) ! (choice (length (m # ms)) mod length (m # ms))) r) t"

definition rows_affected :: "('r \<Rightarrow> 'v \<Rightarrow> bool) \<Rightarrow> 'v list \<Rightarrow> 'r list \<Rightarrow> nat" where
  "rows_affected on vs t = length (filter (\<lambda>r. \<exists>v\<in>set vs. on r v) t)"

section \<open>Exact reconciliation\<close>

record exact_call =
  xc_delegator :: string
  xc_block :: int
  xc_hash :: string
  xc_params :: json

record exact_update =
  xu_delegator :: string
  xu_block :: int
  xu_principal :: rat
  xu_delegate :: string

definition exact_rows :: "ext \<Rightarrow> 'n world \<Rightarrow> stake_row list" where
  "exact_rows x s = sort_key t_block (sort_key (\<lambda>r. collate x (t_delegator r))
     (filter (\<lambda>r. t_chain r = ARBITRUM_CHAIN_ID) (w_stakes s)))"

definition exact_call_of :: "ext \<Rightarrow> bonding_abi \<Rightarrow> string \<Rightarrow> stake_row \<Rightarrow> exact_call option" where
  "exact_call_of x ab bonding_manager r =
     (case address_of x (t_delegator r) of
        None \<Rightarrow> None
      | Some a \<Rightarrow>
          (let (params, h) = call_for_get_delegator x ab bonding_manager a (t_block r)
           in Some \<lparr>xc_delegator = t_delegator r, xc_block = t_block r, xc_hash = h, xc_params = params\<rparr>))"

definition exact_update_of :: "ext \<Rightarrow> bonding_abi \<Rightarrow> exact_call \<Rightarrow> string \<Rightarrow> string + exact_update" where
  "exact_update_of x ab c bytes =
     (case decode_get_delegator x ab bytes of
        Inl e \<Rightarrow> Inl e
      | Inr (bonded, delegate) \<Rightarrow>
          Inr \<lparr>xu_delegator = xc_delegator c, xu_block = xc_block c,
               xu_principal = u256_to_decimal x bonded STAKE_DECIMALS,
               xu_delegate = addr_lower delegate\<rparr>)"

text \<open>The loop over the calls: cached answers become updates, the others are misses.\<close>

definition exact_from_cache ::
  "ext \<Rightarrow> bonding_abi \<Rightarrow> (string \<Rightarrow> string option) \<Rightarrow> exact_call \<Rightarrow> exact_update list \<times> exact_call list
     \<Rightarrow> ('n, exact_update list \<times> exact_call list) db" where
  "exact_from_cache x ab cache_map c um =
     (case cache_map (xc_hash c) of
        Some bytes \<Rightarrow> andthen (of_result (exact_update_of x ab c bytes)) (\<lambda>u. ret (fst um @ [u], snd um))
      | None \<Rightarrow> ret (fst um, snd um @ [c]))"

text \<open>One result of a batch: an update, a call to retry, or the end of the run.\<close>

definition settle_exact ::
  "ext \<Rightarrow> bonding_abi \<Rightarrow> nat \<Rightarrow> exact_call \<times> (core_error + outcome) \<Rightarrow> exact_update list \<times> exact_call list
     \<Rightarrow> ('n, exact_update list \<times> exact_call list) db" where
  "settle_exact x ab retries_remaining cr um =
     (case cr of (c, result) \<Rightarrow>
        case result of
          Inr oc \<Rightarrow> andthen (of_result (exact_update_of x ab c (oc_bytes oc))) (\<lambda>u. ret (fst um @ [u], snd um))
        | Inl e \<Rightarrow>
            if 0 < retries_remaining \<and> is_layer_stale_error (core_msg e) then ret (fst um, snd um @ [c])
            else throw (core_msg e))"

definition exact_request :: "exact_call \<Rightarrow> request" where
  "exact_request c = (''eth_call'', xc_params c, Some (xc_block c))"

definition exact_chunk ::
  "ext \<Rightarrow> bool \<Rightarrow> 'n provider \<Rightarrow> bonding_abi \<Rightarrow> nat \<Rightarrow> exact_call list \<Rightarrow> exact_update list \<times> exact_call list
     \<Rightarrow> ('n, exact_update list \<times> exact_call list) db" where
  "exact_chunk x co archive ab retries_remaining chunk um =
     andthen (core (batch_call_cached x co archive (map exact_request chunk))) (\<lambda>results.
       fold_io (settle_exact x ab retries_remaining) (zip chunk results) um)"

text \<open>The pause of half a second between two rounds does not reach any stored value.\<close>

fun resolve_exact_misses_batched ::
  "ext \<Rightarrow> bool \<Rightarrow> 'n provider \<Rightarrow> bonding_abi \<Rightarrow> nat \<Rightarrow> exact_call list \<Rightarrow> exact_update list
     \<Rightarrow> ('n, exact_update list) db" where
  "resolve_exact_misses_batched x co archive ab 0 pending updates =
     andthen (fold_io (exact_chunk x co archive ab 0) (chunks EXACT_BATCH_SIZE pending) (updates, []))
       (\<lambda>(updates', retry). if retry = [] then ret updates' else throw ''attempt to subtract with overflow'')"
| "resolve_exact_misses_batched x co archive ab (Suc n) pending updates =
     andthen (fold_io (exact_chunk x co archive ab (Suc n)) (chunks EXACT_BATCH_SIZE pending) (updates, []))
       (\<lambda>(updates', retry). if retry = [] then ret updates'
          else resolve_exact_misses_batched x co archive ab n retry updates')"

definition exact_on :: "stake_row \<Rightarrow> exact_update \<Rightarrow> bool" where
  "exact_on r u \<longleftrightarrow> t_chain r = ARBITRUM_CHAIN_ID \<and> t_delegator r = xu_delegator u \<and> t_block r = xu_block u"

definition set_exact :: "ext \<Rightarrow> exact_update \<Rightarrow> stake_row \<Rightarrow> stake_row" where
  "set_exact x u r = r\<lparr>t_principal := numeric18 x (xu_principal u), t_delegate := xu_delegate u\<rparr>"

definition write_exact :: "ext \<Rightarrow> (nat \<Rightarrow> nat) \<Rightarrow> exact_update list \<Rightarrow> nat \<times> 'n world \<Rightarrow> nat \<times> 'n world" where
  "write_exact x choice chunk ns =
     (case ns of (n, s) \<Rightarrow>
        (n + rows_affected exact_on chunk (w_stakes s),
         s\<lparr>w_stakes := update_from choice exact_on (set_exact x) chunk (w_stakes s)\<rparr>))"

definition reconcile_exact_stake_rows ::
  "ext \<Rightarrow> bool \<Rightarrow> 'n provider \<Rightarrow> bonding_abi \<Rightarrow> (nat \<Rightarrow> nat) \<Rightarrow> string \<Rightarrow> ('n, nat) db" where
  "reconcile_exact_stake_rows x co archive ab choice bonding_manager s =
     (let calls = List.map_filter (exact_call_of x ab bonding_manager) (exact_rows x s);
          cache_map = prefetch_cache (map xc_hash calls) s
      in andthen (fold_io (exact_from_cache x ab cache_map) calls ([], []))
           (\<lambda>(updates, misses).
             andthen (if misses = [] then ret updates
                      else resolve_exact_misses_batched x co archive ab EXACT_LAYER_STALE_RETRIES misses updates)
               (\<lambda>all_updates s'.
                  let (n, s'') = fold (write_exact x choice) (chunks UPDATE_CHUNK all_updates) (0, s')
                  in (Inr n, s'')))
           s)"

section \<open>Pending stake and fees\<close>

record pending_summary =
  ps_reconciled :: nat
  ps_considered :: nat
  ps_refreshed :: nat
  ps_failed_decode :: nat
  ps_no_stake_row :: nat

record pending_event =
  pe_id :: int
  pe_block :: int
  pe_delegator :: string
  pe_round :: nat
  pe_round_text :: string
  pe_stake_hash :: string
  pe_stake_params :: json
  pe_fees_hash :: string
  pe_fees_params :: json

record prepared_update =
  pu_delegator :: string
  pu_block :: int
  pu_stake :: rat
  pu_fees :: rat
  pu_round :: int
  pu_raw :: json

definition claim_rows :: "bool \<Rightarrow> 'n world \<Rightarrow> event_row list" where
  "claim_rows include_tentative s =
     sort_key e_block (sort_key e_log (filter (\<lambda>r. e_chain r = ARBITRUM_CHAIN_ID
        \<and> e_name r = ''EarningsClaimed'' \<and> e_canonical r
        \<and> (include_tentative \<or> e_finality r = Finalized)) (w_events s)))"

definition pending_event_of :: "ext \<Rightarrow> bonding_abi \<Rightarrow> string \<Rightarrow> event_row \<Rightarrow> pending_event option" where
  "pending_event_of x ab bonding_manager r =
     (case (e_from r, decoded_field x ''endRound'' r) of
        (Some delegator, Some end_round_str) \<Rightarrow>
          (case (address_of x (lower delegator), u256_of x end_round_str) of
             (Some a, Some end_round) \<Rightarrow>
               (let (stake_params, stake_hash) = call_for x ab bonding_manager PendingStake a end_round (e_block r);
                    (fees_params, fees_hash) = call_for x ab bonding_manager PendingFees a end_round (e_block r)
                in Some \<lparr>pe_id = e_id r, pe_block = e_block r, pe_delegator = lower delegator,
                         pe_round = end_round, pe_round_text = end_round_str,
                         pe_stake_hash = stake_hash, pe_stake_params = stake_params,
                         pe_fees_hash = fees_hash, pe_fees_params = fees_params\<rparr>)
           | _ \<Rightarrow> None)
      | _ \<Rightarrow> None)"

definition resolve_call ::
  "ext \<Rightarrow> bool \<Rightarrow> 'n provider \<Rightarrow> bonding_abi \<Rightarrow> (string \<Rightarrow> string option) \<Rightarrow> pending_kind \<Rightarrow> string \<Rightarrow> json \<Rightarrow> int
     \<Rightarrow> ('n, nat) db" where
  "resolve_call x co archive ab cache_map kind call_hash params block_number =
     (case cache_map call_hash of
        Some bytes \<Rightarrow> of_result (decode_pending x ab kind bytes)
      | None \<Rightarrow>
          andthen (core (single_call_cached x co archive ''eth_call'' params (Some block_number)))
            (\<lambda>oc. of_result (decode_pending x ab kind (oc_bytes oc))))"

definition prepared_update_of :: "ext \<Rightarrow> pending_event \<Rightarrow> nat \<Rightarrow> nat \<Rightarrow> prepared_update" where
  "prepared_update_of x ev pending_stake pending_fees =
     \<lparr>pu_delegator = pe_delegator ev, pu_block = pe_block ev,
      pu_stake = u256_to_decimal x pending_stake STAKE_DECIMALS,
      pu_fees = u256_to_decimal x pending_fees FEES_DECIMALS,
      pu_round = (case parse_signed 10 64 (pe_round_text ev) of None \<Rightarrow> 0 | Some i \<Rightarrow> i),
      pu_raw = JObj [(''pendingStake_wei'', JStr (show_nat pending_stake)),
                     (''pendingFees_wei'', JStr (show_nat pending_fees)),
                     (''endRound'', JStr (show_nat (pe_round ev)))]\<rparr>"

text \<open>One event: a failed read counts and leaves the loop's other state alone.\<close>

definition pending_step ::
  "ext \<Rightarrow> bool \<Rightarrow> 'n provider \<Rightarrow> bonding_abi \<Rightarrow> (string \<Rightarrow> string option) \<Rightarrow> pending_event
     \<Rightarrow> nat \<times> prepared_update list \<Rightarrow> ('n, nat \<times> prepared_update list) db" where
  "pending_step x co archive ab cache_map ev st =
     (case st of (failed, updates) \<Rightarrow>
        andthen (attempt (resolve_call x co archive ab cache_map PendingStake (pe_stake_hash ev)
                   (pe_stake_params ev) (pe_block ev))) (\<lambda>stake.
          case stake of
            Inl e \<Rightarrow> ret (failed + 1, updates)
          | Inr pending_stake \<Rightarrow>
              andthen (attempt (resolve_call x co archive ab cache_map PendingFees (pe_fees_hash ev)
                         (pe_fees_params ev) (pe_block ev))) (\<lambda>fees.
                case fees of
                  Inl e \<Rightarrow> ret (failed + 1, updates)
                | Inr pending_fees \<Rightarrow>
                    ret (failed, updates @ [prepared_update_of x ev pending_stake pending_fees]))))"

definition pending_on :: "stake_row \<Rightarrow> prepared_update \<Rightarrow> bool" where
  "pending_on r u \<longleftrightarrow> t_chain r = ARBITRUM_CHAIN_ID \<and> t_delegator r = pu_delegator u \<and> t_block r = pu_block u"

definition set_pending :: "ext \<Rightarrow> prepared_update \<Rightarrow> stake_row \<Rightarrow> stake_row" where
  "set_pending x u r = r\<lparr>t_pending_stake := Some (numeric18 x (pu_stake u)),
     t_pending_fees := Some (numeric18 x (pu_fees u)), t_pending_round := Some (pu_round u),
     t_source := ''both'', t_raw := Some (pu_raw u)\<rparr>"

definition write_pending ::
  "ext \<Rightarrow> (nat \<Rightarrow> nat) \<Rightarrow> prepared_update list \<Rightarrow> (nat \<times> nat) \<times> 'n world \<Rightarrow> (nat \<times> nat) \<times> 'n world" where
  "write_pending x choice chunk ns =
     (case ns of ((refreshed, missing), s) \<Rightarrow>
        let n = rows_affected pending_on chunk (w_stakes s) in
        ((refreshed + n, missing + (length chunk - n)),
         s\<lparr>w_stakes := update_from choice pending_on (set_pending x) chunk (w_stakes s)\<rparr>))"

definition refresh_pending ::
  "ext \<Rightarrow> bool \<Rightarrow> 'n provider \<Rightarrow> bonding_abi \<Rightarrow> (nat \<Rightarrow> nat) \<Rightarrow> string \<Rightarrow> bool \<Rightarrow> ('n, pending_summary) db" where
  "refresh_pending x co archive ab choice bonding_manager include_tentative =
     andthen (reconcile_exact_stake_rows x co archive ab choice bonding_manager) (\<lambda>reconciled s.
       let rows = claim_rows include_tentative s;
           events = List.map_filter (pending_event_of x ab bonding_manager) rows;
           hashes = concat (map (\<lambda>ev. [pe_stake_hash ev, pe_fees_hash ev]) events);
           cache_map = prefetch_cache hashes s
       in andthen (fold_io (pending_step x co archive ab cache_map) events (length rows - length events, []))
            (\<lambda>(failed, updates) s'.
               let ((refreshed, missing), s'') =
                     fold (write_pending x choice) (chunks UPDATE_CHUNK updates) ((0, 0), s')
               in (Inr \<lparr>ps_reconciled = reconciled, ps_considered = length rows, ps_refreshed = refreshed,
                        ps_failed_decode = failed, ps_no_stake_row = missing\<rparr>, s''))
            s)"

end
