(* ===== verification/Round_Refresh.thy ===== *)
theory Round_Refresh
  imports Pending
begin

text \<open>
  \<open>crates/livepeer-staker/src/current.rs\<close>: once per protocol round the stake of every delegator
  with a positive latest row is read from the contract at the block of the latest \<open>NewRound\<close>
  event and written as a row of that block.
\<close>

section \<open>Data\<close>

definition SOURCE_ROUND_REFRESH :: string where "SOURCE_ROUND_REFRESH = ''round_refresh''"
definition ROUND_REFRESH_CHECKPOINT :: string where
  "ROUND_REFRESH_CHECKPOINT = ''staker_round_stake_refresh''"
definition RPC_BATCH_SIZE :: nat where "RPC_BATCH_SIZE = 250"
definition LAYER_STALE_RETRIES :: nat where "LAYER_STALE_RETRIES = 3"
definition UPSERT_CHUNK :: nat where "UPSERT_CHUNK = 1000"

record round_summary =
  rr_round :: "int option"
  rr_anchor :: "int option"
  rr_candidates :: nat
  rr_refreshed :: nat
  rr_zeroed :: nat

record new_round_anchor =
  na_event :: int
  na_round :: int
  na_block :: int
  na_ts :: int
  na_hash :: string

record refreshed_state =
  rf_delegator :: string
  rf_principal :: rat
  rf_delegate :: string
  rf_pending :: rat
  rf_raw :: json

section \<open>What is to be read\<close>

text \<open>\<open>ORDER BY block_number DESC, log_index DESC LIMIT 1\<close>.\<close>

definition latest_new_round :: "ext \<Rightarrow> bool \<Rightarrow> 'n world \<Rightarrow> new_round_anchor option" where
  "latest_new_round x include_tentative s =
     (case rev (sort_key e_block (sort_key e_log (filter (\<lambda>r. e_chain r = ARBITRUM_CHAIN_ID
             \<and> e_canonical r \<and> e_name r = ''NewRound''
             \<and> (include_tentative \<or> e_finality r = Finalized)) (w_events s)))) of
        [] \<Rightarrow> None
      | r # _ \<Rightarrow>
          (case Option.bind (decoded_field x ''round'' r) (parse_signed 10 64) of
             None \<Rightarrow> None
           | Some rnd \<Rightarrow> Some \<lparr>na_event = e_id r, na_round = rnd, na_block = e_block r,
                              na_ts = e_ts r, na_hash = e_hash r\<rparr>))"

text \<open>\<open>SELECT DISTINCT ON (delegator_address) ... ORDER BY delegator_address, block_number DESC\<close>.\<close>

definition is_latest_row :: "stake_row list \<Rightarrow> stake_row \<Rightarrow> bool" where
  "is_latest_row t r \<longleftrightarrow> (\<forall>q\<in>set t. t_chain q = ARBITRUM_CHAIN_ID \<and> t_delegator q = t_delegator r
     \<longrightarrow> t_block q \<le> t_block r)"

definition load_candidates :: "ext \<Rightarrow> int \<Rightarrow> 'n world \<Rightarrow> string list" where
  "load_candidates x anchor_block s =
     map t_delegator (sort_key (\<lambda>r. collate x (t_delegator r)) (filter (\<lambda>r.
        t_chain r = ARBITRUM_CHAIN_ID \<and> is_latest_row (w_stakes s) r
        \<and> 0 < t_principal r \<and> t_block r < anchor_block) (w_stakes s)))"

definition load_round_checkpoint :: "'n world \<Rightarrow> int option" where
  "load_round_checkpoint s = checkpoint (w_checkpoints s) ROUND_REFRESH_CHECKPOINT"

definition advance_round_checkpoint :: "int \<Rightarrow> 'n world \<Rightarrow> 'n world" where
  "advance_round_checkpoint rnd s =
     s\<lparr>w_checkpoints := advance_greatest ROUND_REFRESH_CHECKPOINT rnd (w_checkpoints s)\<rparr>"

section \<open>Reading the contract\<close>

definition get_delegator_params :: "bonding_abi \<Rightarrow> string \<Rightarrow> nat \<Rightarrow> int \<Rightarrow> json" where
  "get_delegator_params ab bonding_manager delegator block_number =
     eth_call_on bonding_manager (get_delegator_hex ab delegator) block_number"

definition pending_stake_params :: "bonding_abi \<Rightarrow> string \<Rightarrow> nat \<Rightarrow> int \<Rightarrow> int \<Rightarrow> json" where
  "pending_stake_params ab bonding_manager delegator rnd block_number =
     eth_call_on bonding_manager (pending_stake_hex ab delegator (as_u64 rnd)) block_number"

definition decode_response_hex :: "ext \<Rightarrow> string \<Rightarrow> string + string" where
  "decode_response_hex x bytes =
     (case hex_decode x (answer_hex bytes) of
        None \<Rightarrow> Inl ''decoding eth_call return hex''
      | Some raw \<Rightarrow> Inr raw)"

definition decode_delegator_state :: "ext \<Rightarrow> bonding_abi \<Rightarrow> string \<Rightarrow> string + nat \<times> nat" where
  "decode_delegator_state x ab bytes =
     (case decode_response_hex x bytes of Inl e \<Rightarrow> Inl e | Inr raw \<Rightarrow> delegator_returns ab raw)"

definition decode_pending_stake :: "ext \<Rightarrow> bonding_abi \<Rightarrow> string \<Rightarrow> string + nat" where
  "decode_pending_stake x ab bytes =
     (case decode_response_hex x bytes of Inl e \<Rightarrow> Inl e | Inr raw \<Rightarrow> pending_stake_returns ab raw)"

text \<open>The two calls of a delegator.\<close>

definition delegator_requests :: "bonding_abi \<Rightarrow> string \<Rightarrow> new_round_anchor \<Rightarrow> nat \<Rightarrow> request list" where
  "delegator_requests ab bonding_manager anchor a =
     [(''eth_call'', get_delegator_params ab bonding_manager a (na_block anchor), Some (na_block anchor)),
      (''eth_call'', pending_stake_params ab bonding_manager a (na_round anchor) (na_block anchor),
       Some (na_block anchor))]"

fun parse_addresses :: "ext \<Rightarrow> string list \<Rightarrow> string + (string \<times> nat) list" where
  "parse_addresses x [] = Inr []"
| "parse_addresses x (d # ds) =
     (case address_of x d of
        None \<Rightarrow> Inl (''invalid delegator address '' @ d)
      | Some a \<Rightarrow>
          (case parse_addresses x ds of Inl e \<Rightarrow> Inl e | Inr as \<Rightarrow> Inr ((d, a) # as)))"

text \<open>One round of the retry loop: the slots answered, and those still to ask.\<close>

definition settle_slot ::
  "nat \<times> (core_error + outcome) \<Rightarrow> string option list \<times> nat list \<Rightarrow> ('n, string option list \<times> nat list) db" where
  "settle_slot ir st =
     (case ir of (slot, result) \<Rightarrow> case st of (responses, retry) \<Rightarrow>
        case result of
          Inr oc \<Rightarrow> if slot < length responses then ret (responses[slot := Some (oc_bytes oc)], retry)
                   else throw ''panic: index out of bounds''
        | Inl e \<Rightarrow> if is_layer_stale_error (core_msg e) then ret (responses, retry @ [slot])
                   else throw (core_msg e))"

definition retry_round ::
  "ext \<Rightarrow> bool \<Rightarrow> 'n provider \<Rightarrow> request list \<Rightarrow> nat list \<Rightarrow> string option list
     \<Rightarrow> ('n, string option list \<times> nat list) db" where
  "retry_round x co archive requests pending_idx responses =
     andthen (core (batch_call_cached x co archive (map (\<lambda>i. requests ! i) pending_idx))) (\<lambda>results.
       fold_io settle_slot (zip pending_idx results) (responses, []))"

fun retry_loop ::
  "ext \<Rightarrow> bool \<Rightarrow> 'n provider \<Rightarrow> request list \<Rightarrow> nat \<Rightarrow> nat list \<Rightarrow> string option list
     \<Rightarrow> ('n, string option list) db" where
  "retry_loop x co archive requests 0 pending_idx responses =
     andthen (retry_round x co archive requests pending_idx responses) (\<lambda>(responses', retry).
       if retry = [] then ret responses'
       else throw (''round refresh: '' @ show_nat (length retry) @ '' calls still layer-stale after ''
         @ show_nat LAYER_STALE_RETRIES @ '' retries''))"
| "retry_loop x co archive requests (Suc n) pending_idx responses =
     andthen (retry_round x co archive requests pending_idx responses) (\<lambda>(responses', retry).
       if retry = [] then ret responses' else retry_loop x co archive requests n retry responses')"

definition expect_all :: "string option list \<Rightarrow> ('n, string list) db" where
  "expect_all responses =
     (if list_all (\<lambda>r. r \<noteq> None) responses then ret (map the responses)
      else throw ''panic: all slots resolved or bailed'')"

definition batch_with_retries ::
  "ext \<Rightarrow> bool \<Rightarrow> 'n provider \<Rightarrow> request list \<Rightarrow> ('n, string list) db" where
  "batch_with_retries x co archive requests =
     andthen (retry_loop x co archive requests LAYER_STALE_RETRIES [0..<length requests]
                (replicate (length requests) None)) expect_all"

definition refreshed_state_of ::
  "ext \<Rightarrow> bonding_abi \<Rightarrow> new_round_anchor \<Rightarrow> string \<Rightarrow> string \<Rightarrow> string \<Rightarrow> string + refreshed_state" where
  "refreshed_state_of x ab anchor delegator state_bytes pending_bytes =
     (case decode_delegator_state x ab state_bytes of
        Inl e \<Rightarrow> Inl e
      | Inr (bonded, delegate) \<Rightarrow>
          (case decode_pending_stake x ab pending_bytes of
             Inl e \<Rightarrow> Inl e
           | Inr pending \<Rightarrow>
               Inr \<lparr>rf_delegator = delegator, rf_principal = u256_to_decimal x bonded STAKE_DECIMALS,
                    rf_delegate = addr_lower delegate,
                    rf_pending = u256_to_decimal x pending STAKE_DECIMALS,
                    rf_raw = JObj [(''bondedAmount_wei'', JStr (show_nat bonded)),
                                   (''pendingStake_wei'', JStr (show_nat pending)),
                                   (''round'', JStr (show_int (na_round anchor)))]\<rparr>))"

definition decode_state ::
  "ext \<Rightarrow> bonding_abi \<Rightarrow> new_round_anchor \<Rightarrow> string list \<Rightarrow> nat \<times> string \<Rightarrow> refreshed_state list
     \<Rightarrow> ('n, refreshed_state list) db" where
  "decode_state x ab anchor outcomes pos states =
     (case pos of (i, delegator) \<Rightarrow>
        andthen (of_result (refreshed_state_of x ab anchor delegator (outcomes ! (i * 2)) (outcomes ! (i * 2 + 1))))
          (\<lambda>st. ret (states @ [st])))"

definition read_chunk ::
  "ext \<Rightarrow> bool \<Rightarrow> 'n provider \<Rightarrow> bonding_abi \<Rightarrow> string \<Rightarrow> new_round_anchor \<Rightarrow> string list \<Rightarrow> refreshed_state list
     \<Rightarrow> ('n, refreshed_state list) db" where
  "read_chunk x co archive ab bonding_manager anchor chunk states =
     andthen (of_result (parse_addresses x chunk)) (\<lambda>addrs.
     andthen (batch_with_retries x co archive
                (concat (map (\<lambda>da. delegator_requests ab bonding_manager anchor (snd da)) addrs))) (\<lambda>outcomes.
       fold_io (decode_state x ab anchor outcomes) (enumerate 0 (map fst addrs)) states))"

definition read_states_batched ::
  "ext \<Rightarrow> bool \<Rightarrow> 'n provider \<Rightarrow> bonding_abi \<Rightarrow> string \<Rightarrow> new_round_anchor \<Rightarrow> string list
     \<Rightarrow> ('n, refreshed_state list) db" where
  "read_states_batched x co archive ab bonding_manager anchor candidates =
     fold_io (read_chunk x co archive ab bonding_manager anchor) (chunks (RPC_BATCH_SIZE div 2) candidates) []"

section \<open>Writing the rows\<close>

definition round_row :: "ext \<Rightarrow> new_round_anchor \<Rightarrow> refreshed_state \<Rightarrow> stake_row" where
  "round_row x anchor st =
     \<lparr>t_chain = ARBITRUM_CHAIN_ID, t_delegator = rf_delegator st, t_delegate = rf_delegate st,
      t_block = na_block anchor, t_ts = na_ts anchor, t_hash = na_hash anchor,
      t_principal = numeric18 x (rf_principal st), t_pending_stake = Some (numeric18 x (rf_pending st)),
      t_pending_fees = None, t_pending_round = Some (na_round anchor), t_source = SOURCE_ROUND_REFRESH,
      t_raw = Some (rf_raw st), t_trigger = na_event anchor\<rparr>"

definition set_round_columns :: "stake_row \<Rightarrow> stake_row \<Rightarrow> stake_row" where
  "set_round_columns old excluded =
     old\<lparr>t_delegate := t_delegate excluded, t_principal := t_principal excluded,
         t_pending_stake := t_pending_stake excluded, t_pending_round := t_pending_round excluded,
         t_source := t_source excluded, t_raw := t_raw excluded\<rparr>"

definition upsert_round_row :: "ext \<Rightarrow> new_round_anchor \<Rightarrow> refreshed_state \<Rightarrow> stake_row list \<Rightarrow> stake_row list" where
  "upsert_round_row x anchor st t = upsert stake_key set_round_columns (round_row x anchor st) t"

definition activity_on :: "registry_row \<Rightarrow> refreshed_state \<Rightarrow> bool" where
  "activity_on q st \<longleftrightarrow> q_chain q = ARBITRUM_CHAIN_ID \<and> q_delegator q = rf_delegator st"

definition set_activity :: "refreshed_state \<Rightarrow> registry_row \<Rightarrow> registry_row" where
  "set_activity st q = q\<lparr>q_active := (0 < rf_principal st)\<rparr>"

definition write_states ::
  "ext \<Rightarrow> (nat \<Rightarrow> nat) \<Rightarrow> new_round_anchor \<Rightarrow> refreshed_state list \<Rightarrow> nat \<times> 'n world \<Rightarrow> nat \<times> 'n world" where
  "write_states x choice anchor chunk ns =
     (case ns of (n, s) \<Rightarrow>
        (n + length chunk,
         s\<lparr>w_stakes := fold (upsert_round_row x anchor) chunk (w_stakes s),
           w_registry := update_from choice activity_on set_activity chunk (w_registry s)\<rparr>))"

section \<open>The refresh\<close>

definition refresh_current_stake ::
  "ext \<Rightarrow> bool \<Rightarrow> 'n provider \<Rightarrow> bonding_abi \<Rightarrow> (nat \<Rightarrow> nat) \<Rightarrow> string \<Rightarrow> bool \<Rightarrow> ('n, round_summary) db" where
  "refresh_current_stake x co archive ab choice bonding_manager include_tentative s =
     (case latest_new_round x include_tentative s of
        None \<Rightarrow> (Inr \<lparr>rr_round = None, rr_anchor = None, rr_candidates = 0, rr_refreshed = 0, rr_zeroed = 0\<rparr>, s)
      | Some anchor \<Rightarrow>
          (let sm = \<lparr>rr_round = Some (na_round anchor), rr_anchor = Some (na_block anchor), rr_candidates = 0,
                     rr_refreshed = 0, rr_zeroed = 0\<rparr>;
               cp = load_round_checkpoint s
           in if (case cp of None \<Rightarrow> False | Some fin \<Rightarrow> na_round anchor \<le> fin) then
                (Inr sm, advance_round_checkpoint (min (na_round anchor) (case cp of None \<Rightarrow> 0 | Some fin \<Rightarrow> fin)) s)
              else
                let candidates = load_candidates x (na_block anchor) s in
                andthen (read_states_batched x co archive ab bonding_manager anchor candidates) (\<lambda>states s1.
                  let (n, s2) = fold (write_states x choice anchor) (chunks UPSERT_CHUNK states) (0, s1)
                  in (Inr (sm\<lparr>rr_candidates := length candidates, rr_refreshed := n,
                               rr_zeroed := length (filter (\<lambda>st. rf_principal st = 0) states)\<rparr>),
                      advance_round_checkpoint (na_round anchor) s2)) s))"

end
