(* ===== verification/Contract_Stake_Props.thy ===== *)
theory Contract_Stake_Props
  imports Round_Refresh Cache_Replay Watchers
begin

text \<open>
  The staker's reads of the contract: what the reconciliation of \<open>pending.rs\<close> and the round
  refresh of \<open>current.rs\<close> leave in the tables is what the cached answers say.
\<close>

section \<open>Updates from a list of entries\<close>

definition update_one :: "('r \<Rightarrow> 'v \<Rightarrow> bool) \<Rightarrow> ('v \<Rightarrow> 'r \<Rightarrow> 'r) \<Rightarrow> 'v list \<Rightarrow> 'r \<Rightarrow> 'r" where
  "update_one on put vs r = (case List.find (on r) vs of None \<Rightarrow> r | Some v \<Rightarrow> put v r)"

text \<open>Entries for different rows: it does not matter which match is taken, nor how they are chunked.\<close>

lemma filter_unique:
  assumes "distinct (map g vs)" "\<And>v. on v \<longleftrightarrow> P \<and> k = g v"
  shows "filter on vs = (case List.find on vs of None \<Rightarrow> [] | Some v \<Rightarrow> [v])"
  using assms(1)
proof (induction vs)
  case (Cons v vs)
  show ?case
  proof (cases "on v")
    case True
    then have "\<not> on w" if "w \<in> set vs" for w using that Cons.prems assms(2) by auto
    then have "filter on vs = []" by (simp add: filter_empty_conv)
    with True show ?thesis by simp
  qed (use Cons in simp)
qed simp

lemma find_unique:
  assumes "distinct (map g vs)" "\<And>v. on v \<longleftrightarrow> P \<and> k = g v" "v \<in> set vs" "on v"
  shows "List.find on vs = Some v"
proof -
  have "v \<in> set (filter on vs)" using assms(3,4) by simp
  then show ?thesis unfolding filter_unique [OF assms(1,2)] by (auto split: option.splits)
qed

lemma update_from_unique:
  assumes "distinct (map g vs)" "\<And>r v. on r v \<longleftrightarrow> P r \<and> f r = g v"
  shows "update_from choice on put vs t = map (update_one on put vs) t"
  unfolding update_from_def update_one_def
  by (rule map_cong [OF refl]) (simp add: filter_unique [OF assms] split: option.split)

lemma update_one_append:
  assumes "distinct (map g (us @ vs))" "\<And>r v. on r v \<longleftrightarrow> P r \<and> f r = g v"
    and "\<And>v r. P (put v r) = P r" "\<And>v r. f (put v r) = f r"
  shows "update_one on put vs (update_one on put us r) = update_one on put (us @ vs) r"
proof -
  have on: "on (put v r) = on r" for v by (rule ext) (simp add: assms(2-4))
  show ?thesis
  proof (cases "List.find (on r) us")
    case None
    then have "List.find (on r) (us @ vs) = List.find (on r) vs" by (induction us) (auto split: if_splits)
    with None show ?thesis by (simp add: update_one_def)
  next
    case (Some v)
    then have v: "v \<in> set us" "on r v" by (auto simp: find_Some_iff)
    have "List.find (on r) vs = None"
      using v assms(1,2) by (fastforce simp: find_None_iff)
    moreover have "List.find (on r) (us @ vs) = Some v" using Some by (induction us) (auto split: if_splits)
    ultimately show ?thesis using Some by (simp add: update_one_def on)
  qed
qed

lemma update_chunks:
  assumes "\<And>r v. on r v \<longleftrightarrow> P r \<and> f r = g v" "\<And>v r. P (put v r) = P r" "\<And>v r. f (put v r) = f r"
  shows "distinct (map g (concat cs)) \<Longrightarrow>
    fold (update_from choice on put) cs t = map (update_one on put (concat cs)) t"
proof (induction cs rule: rev_induct)
  case Nil
  then show ?case by (simp add: update_one_def map_idI)
next
  case (snoc c cs)
  then have d: "distinct (map g (concat cs))" "distinct (map g c)" "distinct (map g (concat cs @ c))" by simp_all
  show ?case
    by (simp add: snoc.IH [OF d(1)] update_from_unique [OF d(2) assms(1)]
        update_one_append [where on = on and put = put and P = P and f = f and g = g, OF d(3) assms])
qed

section \<open>Cached answers\<close>

text \<open>\<open>answers x u req bytes\<close>: the cache of \<open>u\<close> holds \<open>bytes\<close> for the request.\<close>

definition answers :: "ext \<Rightarrow> 'n world \<Rightarrow> request \<Rightarrow> string \<Rightarrow> bool" where
  "answers x u req bytes \<longleftrightarrow> (\<exists>oc. cached_outcome u (request_hash x req) = Some oc \<and> oc_bytes oc = bytes)"

lemma answers_le: "answers x u req b \<Longrightarrow> cache_le u t \<Longrightarrow> answers x t req b"
  by (auto simp: answers_def cache_le_def)

lemma answers_unique: "answers x u req b \<Longrightarrow> answers x u req b' \<Longrightarrow> b' = b"
  by (auto simp: answers_def)

lemma core_Inr: "core m s = (Inr v, t) \<longleftrightarrow> m s = (Inr v, t)"
  by (auto simp: core_def map_err_def split: prod.splits sum.splits)

lemma batch_answers:
  assumes "distinct (map (request_hash x) reqs)" "core (batch_call_cached x co p reqs) s = (Inr results, t)"
  shows "length results = length reqs" "same_rows s t"
    and "i < length reqs \<Longrightarrow> results ! i = Inr oc \<Longrightarrow> answers x t (reqs ! i) (oc_bytes oc)"
proof -
  have run: "batch_call_cached x co p reqs s = (Inr results, t)" using assms(2) by (simp add: core_Inr)
  show "length results = length reqs"
    by (cases rule: batch_call_cached_cases [of x s reqs co p]) (use run in auto)
  show "same_rows s t" using only_readsD [OF only_reads_batch run] .
  show "i < length reqs \<Longrightarrow> results ! i = Inr oc \<Longrightarrow> answers x t (reqs ! i) (oc_bytes oc)"
    using batch_success_cached [OF assms(1) run] by (auto simp: answers_def)
qed

section \<open>The retry loop of the round refresh\<close>

definition answered :: "ext \<Rightarrow> request list \<Rightarrow> 'n world \<Rightarrow> string option list \<Rightarrow> bool" where
  "answered x reqs u resp \<longleftrightarrow> length resp = length reqs
     \<and> (\<forall>i<length reqs. \<forall>b. resp ! i = Some b \<longrightarrow> answers x u (reqs ! i) b)"

lemma answered_le: "answered x reqs u resp \<Longrightarrow> cache_le u t \<Longrightarrow> answered x reqs t resp"
  by (auto simp: answered_def intro: answers_le)

lemma settle_slot_simps:
  "settle_slot (i, Inl e) (resp, retry) s =
     (if is_layer_stale_error (core_msg e) then (Inr (resp, retry @ [i]), s) else (Inl (core_msg e), s))"
  "i < length resp \<Longrightarrow> settle_slot (i, Inr oc) (resp, retry) s = (Inr (resp[i := Some (oc_bytes oc)], retry), s)"
  by (simp_all add: settle_slot_def ret_def throw_def)

lemma settle_slots:
  assumes "fold_io settle_slot irs (resp, retry) s = (Inr (resp', retry'), t)"
    and "\<forall>(i, r)\<in>set irs. i < length reqs \<and> (\<forall>oc. r = Inr oc \<longrightarrow> answers x s (reqs ! i) (oc_bytes oc))"
    and "answered x reqs s resp" "\<forall>i<length reqs. resp ! i = None \<longrightarrow> i \<in> set (retry @ map fst irs)"
  shows "t = s \<and> answered x reqs s resp' \<and> (\<forall>i<length reqs. resp' ! i = None \<longrightarrow> i \<in> set retry')
    \<and> retry' = retry @ map fst (filter (\<lambda>ir. isl (snd ir)) irs)"
  using assms
proof (induction irs arbitrary: resp retry)
  case Nil
  then show ?case by simp
next
  case (Cons ir irs)
  obtain i r where ir: "ir = (i, r)" by fastforce
  have i: "i < length reqs" using Cons.prems(2) ir by simp
  show ?case
  proof (cases r)
    case (Inl e)
    then have "fold_io settle_slot irs (resp, retry @ [i]) s = (Inr (resp', retry'), t)"
      using Cons.prems(1) by (auto simp: ir settle_slot_simps split: if_splits)
    from Cons.IH [OF this] Cons.prems(2-4) show ?thesis by (auto simp: ir Inl)
  next
    case (Inr oc)
    have a: "answers x s (reqs ! i) (oc_bytes oc)" using Cons.prems(2) ir Inr by simp
    have len: "length resp = length reqs" using Cons.prems(3) by (simp add: answered_def)
    then have run: "fold_io settle_slot irs (resp[i := Some (oc_bytes oc)], retry) s = (Inr (resp', retry'), t)"
      using Cons.prems(1) i by (simp add: ir Inr settle_slot_simps)
    have "answered x reqs s (resp[i := Some (oc_bytes oc)])"
      using Cons.prems(3) a i len by (auto simp: answered_def nth_list_update)
    moreover have "\<forall>j<length reqs. resp[i := Some (oc_bytes oc)] ! j = None \<longrightarrow> j \<in> set (retry @ map fst irs)"
    proof (intro allI impI)
      fix j assume j: "j < length reqs" "resp[i := Some (oc_bytes oc)] ! j = None"
      then have "j \<noteq> i" using len by auto
      then have "resp ! j = None" using j len by simp
      then show "j \<in> set (retry @ map fst irs)" using Cons.prems(4) j(1) \<open>j \<noteq> i\<close> by (auto simp: ir)
    qed
    ultimately show ?thesis using Cons.IH [OF run] Cons.prems(2) by (auto simp: ir Inr)
  qed
qed

lemma retry_round_reads:
  assumes d: "distinct (map (request_hash x) reqs)" and idx: "distinct idx" "set idx \<subseteq> {..<length reqs}"
    and a: "answered x reqs s resp" "\<forall>i<length reqs. resp ! i = None \<longrightarrow> i \<in> set idx"
    and run: "retry_round x co p reqs idx resp s = (Inr (resp', retry), t)"
  shows "same_rows s t \<and> answered x reqs t resp' \<and> (\<forall>i<length reqs. resp' ! i = None \<longrightarrow> i \<in> set retry)
    \<and> distinct retry \<and> set retry \<subseteq> {..<length reqs}"
proof -
  let ?rq = "map (\<lambda>i. reqs ! i) idx"
  obtain results u where b: "core (batch_call_cached x co p ?rq) s = (Inr results, u)"
    and f: "fold_io settle_slot (zip idx results) (resp, []) u = (Inr (resp', retry), t)"
    using run by (auto simp: retry_round_def andthen_Inr_iff)
  have "inj_on (\<lambda>i. map (request_hash x) reqs ! i) (set idx)"
    using d idx(2) by (intro inj_on_nth) auto
  then have "distinct (map (\<lambda>i. map (request_hash x) reqs ! i) idx)" using idx(1) by (simp add: distinct_map)
  moreover have "map (\<lambda>i. map (request_hash x) reqs ! i) idx = map (request_hash x) ?rq"
    using idx(2) by auto
  ultimately have dr: "distinct (map (request_hash x) ?rq)" by simp
  note br = batch_answers [OF dr b]
  have "i < length reqs \<and> (\<forall>oc. r = Inr oc \<longrightarrow> answers x u (reqs ! i) (oc_bytes oc))"
    if m: "(i, r) \<in> set (zip idx results)" for i r
  proof -
    obtain k where k: "k < length idx" "i = idx ! k" "r = results ! k"
      using m by (auto simp: set_zip)
    moreover have "idx ! k < length reqs" using idx(2) nth_mem [OF k(1)] by blast
    ultimately show ?thesis using br(3) [of k] by auto
  qed
  then have s: "\<forall>(i, r)\<in>set (zip idx results). i < length reqs \<and> (\<forall>oc. r = Inr oc \<longrightarrow> answers x u (reqs ! i) (oc_bytes oc))"
    by blast
  have m: "map fst (zip idx results) = idx" using br(1) by simp
  have "answered x reqs u resp" using a(1) br(2) by (rule answered_le [OF _ same_rowsD(14)])
  moreover have "\<forall>i<length reqs. resp ! i = None \<longrightarrow> i \<in> set ([] @ map fst (zip idx results))"
    using a(2) m by simp
  ultimately have r: "t = u" "answered x reqs u resp'" "\<forall>i<length reqs. resp' ! i = None \<longrightarrow> i \<in> set retry"
    "retry = map fst (filter (\<lambda>ir. isl (snd ir)) (zip idx results))"
    using settle_slots [OF f s] by blast+
  have "distinct (map fst (zip idx results))" using m idx(1) by simp
  then have "distinct retry" unfolding r(4) by (rule distinct_map_filter)
  moreover have "set retry \<subseteq> set idx" unfolding r(4) using m by (metis filter_is_subset image_mono list.set_map)
  ultimately show ?thesis using r br(2) idx(2) by auto
qed

lemma retry_loop_reads:
  assumes "distinct (map (request_hash x) reqs)" "distinct idx" "set idx \<subseteq> {..<length reqs}"
    and "answered x reqs s resp" "\<forall>i<length reqs. resp ! i = None \<longrightarrow> i \<in> set idx"
    and "retry_loop x co p reqs n idx resp s = (Inr resp', t)"
  shows "same_rows s t \<and> answered x reqs t resp' \<and> (\<forall>i<length reqs. resp' ! i \<noteq> None)"
  using assms(2-)
proof (induction n arbitrary: idx resp s)
  case 0
  then obtain r retry u where "retry_round x co p reqs idx resp s = (Inr (r, retry), u)"
    "(if retry = [] then ret r
       else throw (''round refresh: '' @ show_nat (length retry) @ '' calls still layer-stale after ''
         @ show_nat LAYER_STALE_RETRIES @ '' retries'')) u = (Inr resp', t)"
    by (auto simp: andthen_Inr_iff)
  then show ?case using retry_round_reads [OF assms(1) 0(1-4), of co p r retry u]
    by (auto simp: ret_def throw_def split: if_splits)
next
  case (Suc n)
  then obtain r retry u where 1: "retry_round x co p reqs idx resp s = (Inr (r, retry), u)"
    and 2: "(if retry = [] then ret r else retry_loop x co p reqs n retry r) u = (Inr resp', t)"
    by (auto simp: andthen_Inr_iff)
  note rr = retry_round_reads [OF assms(1) Suc.prems(1-4) 1]
  show ?case
  proof (cases "retry = []")
    case True
    then show ?thesis using 2 rr by (auto simp: ret_def)
  next
    case False
    then have "retry_loop x co p reqs n retry r u = (Inr resp', t)" using 2 by simp
    from Suc.IH [OF _ _ _ _ this] rr same_rows_trans show ?thesis by blast
  qed
qed

lemma batch_with_retries_reads:
  assumes d: "distinct (map (request_hash x) reqs)"
    and run: "batch_with_retries x co p reqs s = (Inr outs, t)"
  shows "same_rows s t \<and> length outs = length reqs \<and> (\<forall>i<length reqs. answers x t (reqs ! i) (outs ! i))"
proof -
  obtain resp u where 1: "retry_loop x co p reqs LAYER_STALE_RETRIES [0..<length reqs] (replicate (length reqs) None) s
      = (Inr resp, u)" and 2: "expect_all resp u = (Inr outs, t)"
    using run by (auto simp: batch_with_retries_def andthen_Inr_iff)
  have "answered x reqs s (replicate (length reqs) None)" by (simp add: answered_def)
  moreover have "\<forall>i<length reqs. replicate (length reqs) None ! i = None \<longrightarrow> i \<in> set [0..<length reqs]" by simp
  moreover have "distinct [0..<length reqs]" "set [0..<length reqs] \<subseteq> {..<length reqs}" by auto
  ultimately have r: "same_rows s u" "answered x reqs u resp" "\<forall>i<length reqs. resp ! i \<noteq> None"
    using retry_loop_reads [OF d _ _ _ _ 1] by blast+
  from 2 have "outs = map the resp" "t = u"
    by (simp_all add: expect_all_def ret_def throw_def split: if_splits)
  with r show ?thesis by (auto simp: answered_def)
qed


section \<open>A round refresh reads the contract\<close>

text \<open>What a refreshed state says, by the cached answers for its delegator.\<close>

definition read_from_cache ::
  "ext \<Rightarrow> bonding_abi \<Rightarrow> string \<Rightarrow> new_round_anchor \<Rightarrow> 'n world \<Rightarrow> string \<Rightarrow> refreshed_state \<Rightarrow> bool" where
  "read_from_cache x ab bm anchor u d st \<longleftrightarrow> (\<exists>a b1 b2. address_of x d = Some a
     \<and> answers x u (delegator_requests ab bm anchor a ! 0) b1
     \<and> answers x u (delegator_requests ab bm anchor a ! 1) b2
     \<and> refreshed_state_of x ab anchor d b1 b2 = Inr st)"

lemma read_from_cache_le:
  "read_from_cache x ab bm anchor u d st \<Longrightarrow> cache_le u t \<Longrightarrow> read_from_cache x ab bm anchor t d st"
  unfolding read_from_cache_def by (elim exE conjE) (intro exI conjI, (assumption | erule answers_le)+)

lemma refreshed_delegator: "refreshed_state_of x ab anchor d b1 b2 = Inr st \<Longrightarrow> rf_delegator st = d"
  by (auto simp: refreshed_state_of_def split: sum.splits prod.splits)

lemma parse_addresses_Inr:
  "parse_addresses x ds = Inr as \<Longrightarrow> map fst as = ds \<and> (\<forall>(d, a)\<in>set as. address_of x d = Some a)"
  by (induction ds arbitrary: as) (auto split: option.splits sum.splits)

text \<open>The requests of the delegators whose address parses.\<close>

definition round_requests :: "ext \<Rightarrow> bonding_abi \<Rightarrow> string \<Rightarrow> new_round_anchor \<Rightarrow> string list \<Rightarrow> request list" where
  "round_requests x ab bm anchor ds =
     concat (map (\<lambda>d. case address_of x d of None \<Rightarrow> [] | Some a \<Rightarrow> delegator_requests ab bm anchor a) ds)"

lemma round_requests_parsed:
  "parse_addresses x ds = Inr as \<Longrightarrow>
     concat (map (\<lambda>da. delegator_requests ab bm anchor (snd da)) as) = round_requests x ab bm anchor ds"
  by (induction ds arbitrary: as) (auto simp: round_requests_def split: option.splits sum.splits)

lemma pairs_nth:
  "i < length as \<Longrightarrow> concat (map (\<lambda>da. delegator_requests ab bm anchor (snd da)) as) ! (i * 2)
       = delegator_requests ab bm anchor (snd (as ! i)) ! 0
     \<and> concat (map (\<lambda>da. delegator_requests ab bm anchor (snd da)) as) ! (i * 2 + 1)
       = delegator_requests ab bm anchor (snd (as ! i)) ! 1
     \<and> i * 2 + 1 < length (concat (map (\<lambda>da. delegator_requests ab bm anchor (snd da)) as))"
proof (induction as arbitrary: i)
  case (Cons d as)
  have l: "length (delegator_requests ab bm anchor (snd d)) = 2" by (simp add: delegator_requests_def)
  show ?case
  proof (cases i)
    case 0
    then show ?thesis using l by (simp add: nth_append)
  next
    case (Suc j)
    then show ?thesis using Cons l by (simp add: nth_append)
  qed
qed simp

lemma decode_state_simp:
  "decode_state x ab anchor outs (i, d) states s =
     (case refreshed_state_of x ab anchor d (outs ! (i * 2)) (outs ! (i * 2 + 1)) of
        Inl e \<Rightarrow> (Inl e, s) | Inr st \<Rightarrow> (Inr (states @ [st]), s))"
  by (simp add: decode_state_def andthen_def of_result_def ret_def split: sum.splits)

lemma decode_states:
  "fold_io (decode_state x ab anchor outcomes) ids states s = (Inr states', t) \<Longrightarrow>
     t = s \<and> (\<exists>new. states' = states @ new \<and> list_all2 (\<lambda>(i, d) st.
       refreshed_state_of x ab anchor d (outcomes ! (i * 2)) (outcomes ! (i * 2 + 1)) = Inr st) ids new)"
proof (induction ids arbitrary: states)
  case (Cons id ids)
  obtain i d where id: "id = (i, d)" by fastforce
  obtain st where st: "refreshed_state_of x ab anchor d (outcomes ! (i * 2)) (outcomes ! (i * 2 + 1)) = Inr st"
    and f: "fold_io (decode_state x ab anchor outcomes) ids (states @ [st]) s = (Inr states', t)"
    using Cons.prems by (auto simp: id decode_state_simp split: sum.splits)
  from Cons.IH [OF f] obtain new where "t = s" "states' = states @ st # new" "list_all2 (\<lambda>(i, d) st.
       refreshed_state_of x ab anchor d (outcomes ! (i * 2)) (outcomes ! (i * 2 + 1)) = Inr st) ids new"
    by auto
  then show ?case using st by (auto simp: id)
qed simp

lemma read_chunk_reads:
  assumes d: "distinct (map (request_hash x) (round_requests x ab bm anchor ds))"
    and run: "read_chunk x co p ab bm anchor ds states s = (Inr states', t)"
  shows "same_rows s t \<and> (\<exists>new. states' = states @ new \<and> list_all2 (read_from_cache x ab bm anchor t) ds new)"
proof -
  obtain as outs u where as: "parse_addresses x ds = Inr as"
    and b: "batch_with_retries x co p (concat (map (\<lambda>da. delegator_requests ab bm anchor (snd da)) as)) s = (Inr outs, u)"
    and f: "fold_io (decode_state x ab anchor outs) (enumerate 0 (map fst as)) states u = (Inr states', t)"
    using run by (auto simp: read_chunk_def andthen_Inr_iff of_result_def)
  let ?rq = "concat (map (\<lambda>da. delegator_requests ab bm anchor (snd da)) as)"
  have "distinct (map (request_hash x) ?rq)" using d round_requests_parsed [OF as] by metis
  note rd = batch_with_retries_reads [OF this b]
  from decode_states [OF f] obtain new where n: "t = u" "states' = states @ new"
    and l: "list_all2 (\<lambda>(i, d) st. refreshed_state_of x ab anchor d (outs ! (i * 2)) (outs ! (i * 2 + 1)) = Inr st)
      (enumerate 0 (map fst as)) new" by blast
  have ds: "ds = map fst as" "\<forall>(d, a)\<in>set as. address_of x d = Some a" using parse_addresses_Inr [OF as] by simp_all
  have "list_all2 (read_from_cache x ab bm anchor u) ds new"
    unfolding list_all2_conv_all_nth
  proof (intro conjI allI impI)
    show len: "length ds = length new" using list_all2_lengthD [OF l] ds(1) by simp
    fix i assume i: "i < length ds"
    then have ia: "i < length as" using ds(1) by simp
    have "refreshed_state_of x ab anchor (ds ! i) (outs ! (i * 2)) (outs ! (i * 2 + 1)) = Inr (new ! i)"
      using list_all2_nthD [OF l, of i] i ds(1) by (simp add: nth_enumerate_eq)
    moreover have "address_of x (ds ! i) = Some (snd (as ! i))"
      using ds nth_mem [OF ia] ia by (metis (mono_tags, lifting) case_prod_beta nth_map)
    ultimately show "read_from_cache x ab bm anchor u (ds ! i) (new ! i)"
      using pairs_nth [OF ia, of ab bm anchor] rd unfolding read_from_cache_def
      by (metis add_lessD1)
  qed
  with n rd show ?thesis by blast
qed

lemma read_chunks_read:
  assumes "distinct (map (request_hash x) (round_requests x ab bm anchor (concat cs)))"
    and "fold_io (read_chunk x co p ab bm anchor) cs states s = (Inr states', t)"
  shows "same_rows s t \<and> (\<exists>new. states' = states @ new \<and> list_all2 (read_from_cache x ab bm anchor t) (concat cs) new)"
  using assms
proof (induction cs arbitrary: states s)
  case (Cons c cs)
  obtain st u where 1: "read_chunk x co p ab bm anchor c states s = (Inr st, u)"
    and 2: "fold_io (read_chunk x co p ab bm anchor) cs st u = (Inr states', t)"
    using Cons.prems(2) by (auto split: prod.splits sum.splits)
  have d: "distinct (map (request_hash x) (round_requests x ab bm anchor c))"
    "distinct (map (request_hash x) (round_requests x ab bm anchor (concat cs)))"
    using Cons.prems(1) by (simp_all add: round_requests_def)
  from read_chunk_reads [OF d(1) 1] obtain n1 where n1: "same_rows s u" "st = states @ n1"
    "list_all2 (read_from_cache x ab bm anchor u) c n1" by blast
  from Cons.IH [OF d(2) 2] obtain n2 where n2: "same_rows u t" "states' = st @ n2"
    "list_all2 (read_from_cache x ab bm anchor t) (concat cs) n2" by blast
  have "list_all2 (read_from_cache x ab bm anchor t) c n1"
    using n1(3) read_from_cache_le [OF _ same_rowsD(14) [OF n2(1)]] by (rule list_all2_mono)
  then have "list_all2 (read_from_cache x ab bm anchor t) (concat (c # cs)) (n1 @ n2)"
    using n2(3) by (simp add: list_all2_appendI)
  with n1 n2 show ?case using same_rows_trans by auto
qed simp


section \<open>What a round refresh writes\<close>

lemma round_key [simp]: "stake_key (round_row x anchor st) = (ARBITRUM_CHAIN_ID, rf_delegator st, na_block anchor)"
  by (simp add: stake_key_def round_row_def)

lemma stake_key_set_round [simp]: "stake_key (set_round_columns old r) = stake_key old"
  by (simp add: stake_key_def set_round_columns_def)

text \<open>The row a state leaves, over the row that was there.\<close>

definition round_merge :: "ext \<Rightarrow> new_round_anchor \<Rightarrow> stake_row option \<Rightarrow> refreshed_state \<Rightarrow> stake_row" where
  "round_merge x anchor old st =
     (case old of None \<Rightarrow> round_row x anchor st | Some r \<Rightarrow> set_round_columns r (round_row x anchor st))"

lemma find_upsert_round:
  "find_row stake_key (upsert_round_row x anchor st t) k =
     (if k = (ARBITRUM_CHAIN_ID, rf_delegator st, na_block anchor)
      then Some (round_merge x anchor (find_row stake_key t k) st) else find_row stake_key t k)"
  by (simp add: upsert_round_row_def find_row_upsert round_merge_def split: option.splits)

interpretation rounds: overwriting "find_row stake_key" "upsert_round_row x anchor"
  "\<lambda>st. (ARBITRUM_CHAIN_ID, rf_delegator st, na_block anchor)" "round_merge x anchor" for x anchor
proof unfold_locales
  fix st t k
  show "find_row stake_key (upsert_round_row x anchor st t) k =
      (if k = (ARBITRUM_CHAIN_ID, rf_delegator st, na_block anchor)
       then Some (round_merge x anchor (find_row stake_key t k) st) else find_row stake_key t k)"
    by (rule find_upsert_round)
next
  fix st' st :: refreshed_state and old
  assume "(ARBITRUM_CHAIN_ID, rf_delegator st', na_block anchor) = (ARBITRUM_CHAIN_ID, rf_delegator st, na_block anchor)"
  then show "round_merge x anchor (Some (round_merge x anchor old st')) st = round_merge x anchor old st"
    by (cases old) (simp_all add: round_merge_def round_row_def set_round_columns_def)
qed

lemma keys_upsert_round: "keys_distinct stake_key t \<Longrightarrow> keys_distinct stake_key (fold (upsert_round_row x anchor) sts t)"
  by (induction sts arbitrary: t) (simp_all add: upsert_round_row_def keys_distinct_upsert)

lemma write_states_tables:
  "fold (write_states x choice anchor) cs (n, s) =
     (n + length (concat cs),
      s\<lparr>w_stakes := fold (upsert_round_row x anchor) (concat cs) (w_stakes s),
        w_registry := fold (update_from choice activity_on set_activity) cs (w_registry s)\<rparr>)"
  by (induction cs arbitrary: n s) (simp_all add: write_states_def)

lemma registry_written:
  "distinct (map rf_delegator (concat cs)) \<Longrightarrow>
     fold (update_from choice activity_on set_activity) cs t = map (update_one activity_on set_activity (concat cs)) t"
  by (rule update_chunks [where P = "\<lambda>q. q_chain q = ARBITRUM_CHAIN_ID" and f = q_delegator])
    (simp_all add: activity_on_def set_activity_def)

section \<open>Candidates\<close>

lemma stake_row_key: "stake_key r = k \<longleftrightarrow> t_chain r = fst k \<and> t_delegator r = fst (snd k) \<and> t_block r = snd (snd k)"
  by (cases k) (simp add: stake_key_def)

lemma candidate_iff:
  "d \<in> set (load_candidates x b s) \<longleftrightarrow> (\<exists>r\<in>set (w_stakes s). t_delegator r = d \<and> t_chain r = ARBITRUM_CHAIN_ID
     \<and> is_latest_row (w_stakes s) r \<and> 0 < t_principal r \<and> t_block r < b)"
  by (auto simp: load_candidates_def)

lemma round_candidates_distinct:
  assumes "keys_distinct stake_key (w_stakes s)"
  shows "distinct (load_candidates x b s)"
proof -
  let ?P = "\<lambda>r. t_chain r = ARBITRUM_CHAIN_ID \<and> is_latest_row (w_stakes s) r \<and> 0 < t_principal r \<and> t_block r < b"
  have d: "distinct (map stake_key (w_stakes s))" using assms by (simp add: keys_distinct_def)
  then have "distinct (sort_key (\<lambda>r. collate x (t_delegator r)) (filter ?P (w_stakes s)))"
    by (simp add: distinct_map)
  moreover have "inj_on t_delegator (set (filter ?P (w_stakes s)))"
  proof (rule inj_onI)
    fix q r assume m: "q \<in> set (filter ?P (w_stakes s))" "r \<in> set (filter ?P (w_stakes s))" "t_delegator q = t_delegator r"
    then have "t_block q \<le> t_block r" "t_block r \<le> t_block q" unfolding is_latest_row_def by simp_all
    then have "stake_key q = stake_key r" using m by (simp add: stake_key_def)
    then show "q = r" using d m by (auto simp: distinct_map inj_on_def)
  qed
  ultimately show ?thesis by (simp add: load_candidates_def distinct_map)
qed

lemma row_in_table:
  "keys_distinct stake_key t \<Longrightarrow> r \<in> set t \<longleftrightarrow> find_row stake_key t (stake_key r) = Some r"
  using keys_distinct_find find_row_SomeD by fastforce

text \<open>After the rows of the anchor block are there, no delegator is due any more.\<close>

lemma no_candidates_left:
  assumes kd: "keys_distinct stake_key (w_stakes s)" "keys_distinct stake_key (w_stakes t)"
    and new: "\<And>d. d \<in> set (load_candidates x b s) \<Longrightarrow> find_row stake_key (w_stakes t) (ARBITRUM_CHAIN_ID, d, b) \<noteq> None"
    and old: "\<And>k. k \<notin> (\<lambda>d. (ARBITRUM_CHAIN_ID, d, b)) ` set (load_candidates x b s) \<Longrightarrow>
      find_row stake_key (w_stakes t) k = find_row stake_key (w_stakes s) k"
  shows "load_candidates x b t = []"
proof -
  have none: "d \<notin> set (load_candidates x b t)" for d
  proof
    assume "d \<in> set (load_candidates x b t)"
    then obtain r where r: "r \<in> set (w_stakes t)" "t_delegator r = d" "t_chain r = ARBITRUM_CHAIN_ID"
      "is_latest_row (w_stakes t) r" "0 < t_principal r" "t_block r < b"
      unfolding candidate_iff by blast
    have same: "find_row stake_key (w_stakes t) k = find_row stake_key (w_stakes s) k" if "snd (snd k) < b" for k
      using that by (intro old) auto
    show False
    proof (cases "d \<in> set (load_candidates x b s)")
      case True
      then obtain q where "find_row stake_key (w_stakes t) (ARBITRUM_CHAIN_ID, d, b) = Some q" using new by blast
      from find_row_SomeD [OF this] have "q \<in> set (w_stakes t)" "t_chain q = ARBITRUM_CHAIN_ID" "t_delegator q = d" "t_block q = b"
        by (simp_all add: stake_key_def)
      with r(2,4,6) show False unfolding is_latest_row_def by force
    next
      case False
      have "r \<in> set (w_stakes s)"
        using r(1,6) same [of "stake_key r"] unfolding row_in_table [OF kd(1)] row_in_table [OF kd(2)]
        by (simp add: stake_key_def)
      moreover have "is_latest_row (w_stakes s) r" unfolding is_latest_row_def
      proof (intro ballI impI)
        fix q assume q: "q \<in> set (w_stakes s)" "t_chain q = ARBITRUM_CHAIN_ID \<and> t_delegator q = t_delegator r"
        have "stake_key q \<notin> (\<lambda>d. (ARBITRUM_CHAIN_ID, d, b)) ` set (load_candidates x b s)"
          using q(2) r(2) False by (auto simp: stake_key_def)
        then have "q \<in> set (w_stakes t)"
          using q(1) old unfolding row_in_table [OF kd(1)] row_in_table [OF kd(2)] by simp
        with q(2) r(4) show "t_block q \<le> t_block r" unfolding is_latest_row_def by blast
      qed
      ultimately show False using r(2,3,5,6) False unfolding candidate_iff by blast
    qed
  qed
  show ?thesis
  proof (cases "load_candidates x b t")
    case (Cons d ds)
    then show ?thesis using none [of d] by simp
  qed
qed


section \<open>The refresh\<close>

lemma read_states_frame: "only_reads (read_states_batched x co p ab bm anchor ds)"
proof -
  have slot: "only_reads (settle_slot ir st)" for ir st
    by (auto simp: settle_slot_def only_reads_keeps split: prod.splits sum.splits)
  have fold: "only_reads (fold_io f ys b)" if "\<And>y c. only_reads (f y c)" for f ys b
    using that by (simp add: only_reads_keeps keeps_fold_io)
  have rnd: "only_reads (retry_round x co p reqs idx resp)" for reqs idx resp
    unfolding retry_round_def by (intro only_reads_andthen only_reads_core only_reads_batch fold slot)
  have throw: "only_reads (throw e)" for e by (simp add: only_reads_keeps)
  have loop: "only_reads (retry_loop x co p reqs n idx resp)" for reqs n idx resp
    by (induction n arbitrary: idx resp)
      (auto intro!: only_reads_andthen rnd throw split: prod.splits)
  have batch: "only_reads (batch_with_retries x co p reqs)" for reqs
    unfolding batch_with_retries_def expect_all_def by (intro only_reads_andthen loop) (simp add: throw)
  show ?thesis unfolding read_states_batched_def read_chunk_def decode_state_def
    by (intro fold only_reads_andthen batch only_reads_of_result) (auto intro!: only_reads_andthen split: prod.splits)
qed

lemma read_names: "list_all2 (read_from_cache x ab bm anchor u) ds sts \<Longrightarrow> map rf_delegator sts = ds"
  by (induction rule: list_all2_induct) (auto simp: read_from_cache_def dest: refreshed_delegator)

lemma round_refresh_runs:
  assumes due: "latest_new_round x inc s = Some anchor"
      "\<forall>c. load_round_checkpoint s = Some c \<longrightarrow> c < na_round anchor"
    and run: "refresh_current_stake x co p ab choice bm inc s = (r, t)"
  obtains (failed) e where "r = Inl e" "same_rows s t"
  | (written) sm states u where "r = Inr sm"
      "read_states_batched x co p ab bm anchor (load_candidates x (na_block anchor) s) s = (Inr states, u)"
      "t = advance_round_checkpoint (na_round anchor) (snd (fold (write_states x choice anchor)
         (chunks UPSERT_CHUNK states) (0, u)))"
proof -
  have nd: "\<not> (case load_round_checkpoint s of None \<Rightarrow> False | Some fin \<Rightarrow> na_round anchor \<le> fin)"
    using due(2) by (auto split: option.splits)
  obtain q u where rd: "read_states_batched x co p ab bm anchor (load_candidates x (na_block anchor) s) s = (q, u)"
    by fastforce
  show ?thesis
  proof (cases q)
    case (Inl e)
    then show ?thesis using run nd rd only_readsD [OF read_states_frame rd]
      by (intro failed [of e]) (simp_all add: refresh_current_stake_def due(1) Let_def andthen_def)
  next
    case (Inr states)
    then show ?thesis using run nd rd
      by (intro written [of "projr r" states u]) (auto simp: refresh_current_stake_def due(1) Let_def andthen_def split: prod.splits)
  qed
qed

lemma round_refresh_written:
  assumes kd: "keys_distinct stake_key (w_stakes s)" and ds: "ds = load_candidates x (na_block anchor) s"
    and d: "distinct (map (request_hash x) (round_requests x ab bm anchor ds))"
    and rd: "read_states_batched x co p ab bm anchor ds s = (Inr states, u)"
    and t: "t = advance_round_checkpoint (na_round anchor)
      (snd (fold (write_states x choice anchor) (chunks UPSERT_CHUNK states) (0, u)))"
  shows "list_all2 (read_from_cache x ab bm anchor t) ds states"
    and "w_stakes t = fold (upsert_round_row x anchor) states (w_stakes s)"
    and "w_registry t = map (update_one activity_on set_activity states) (w_registry s)"
    and "w_checkpoints t = advance_greatest ROUND_REFRESH_CHECKPOINT (na_round anchor) (w_checkpoints s)"
proof -
  have cc: "concat (chunks (RPC_BATCH_SIZE div 2) ds) = ds" "concat (chunks UPSERT_CHUNK states) = states"
    by (simp_all add: RPC_BATCH_SIZE_def UPSERT_CHUNK_def)
  have f: "same_rows s u" and l: "list_all2 (read_from_cache x ab bm anchor u) ds states"
    using read_chunks_read [of x ab bm anchor "chunks (RPC_BATCH_SIZE div 2) ds" co p "[]" s states u] d rd
    unfolding cc read_states_batched_def by auto
  have dd: "distinct (map rf_delegator states)"
    unfolding read_names [OF l] ds by (rule round_candidates_distinct [OF kd])
  show st: "w_stakes t = fold (upsert_round_row x anchor) states (w_stakes s)"
    "w_registry t = map (update_one activity_on set_activity states) (w_registry s)"
    "w_checkpoints t = advance_greatest ROUND_REFRESH_CHECKPOINT (na_round anchor) (w_checkpoints s)"
    using registry_written [of "chunks UPSERT_CHUNK states" choice] dd same_rowsD [OF f]
    unfolding t write_states_tables cc by (simp_all add: advance_round_checkpoint_def)
  have "w_cache t = w_cache u" unfolding t write_states_tables by (simp add: advance_round_checkpoint_def)
  then have le: "cache_le u t" by (simp add: cache_le_def cached_outcome_def cache_get_def cache_row_at_def)
  show "list_all2 (read_from_cache x ab bm anchor t) ds states"
    using l read_from_cache_le [OF _ le] by (rule list_all2_mono)
qed

lemma activity_written:
  assumes ds: "distinct (map rf_delegator states)" and t: "t = map (update_one activity_on set_activity states) t0"
    and q: "q \<in> set t" "q_chain q = ARBITRUM_CHAIN_ID" "q_delegator q = rf_delegator st" and st: "st \<in> set states"
  shows "q_active q = (0 < rf_principal st)"
proof -
  obtain q0 where q0: "q = update_one activity_on set_activity states q0" using q(1) t by auto
  have "activity_on q0 st" using q(2,3) q0
    by (auto simp: update_one_def activity_on_def set_activity_def split: option.splits)
  then have "List.find (activity_on q0) states = Some st"
    by (rule find_unique [OF ds _ st, where P = "q_chain q0 = ARBITRUM_CHAIN_ID" and k = "q_delegator q0", rotated])
      (simp add: activity_on_def)
  then show ?thesis using q0 by (simp add: update_one_def set_activity_def)
qed

text \<open>
  C40. A round refresh that is due either fails and changes nothing but the cache, or leaves for
  every candidate a row of the anchor block with exactly what the cached answers of the
  contract say, and its registry entries active exactly when stake is left; then no delegator
  is due at that block any more, every other stake row is as before and the round is done.
\<close>

theorem round_refresh_complete:
  assumes "latest_new_round x inc s = Some anchor"
    and "\<forall>c. load_round_checkpoint s = Some c \<longrightarrow> c < na_round anchor"
    and "keys_distinct stake_key (w_stakes s)"
    and "distinct (map (request_hash x) (round_requests x ab bm anchor (load_candidates x (na_block anchor) s)))"
    and "refresh_current_stake x co p ab choice bm inc s = (r, t)"
  shows "case r of
      Inl _ \<Rightarrow> same_rows s t
    | Inr sm \<Rightarrow> load_round_checkpoint t = Some (na_round anchor)
        \<and> load_candidates x (na_block anchor) t = []
        \<and> (\<forall>d\<in>set (load_candidates x (na_block anchor) s). \<exists>st. read_from_cache x ab bm anchor t d st
             \<and> find_row stake_key (w_stakes t) (ARBITRUM_CHAIN_ID, d, na_block anchor)
                 = Some (round_merge x anchor (find_row stake_key (w_stakes s) (ARBITRUM_CHAIN_ID, d, na_block anchor)) st)
             \<and> (\<forall>q\<in>set (w_registry t). q_chain q = ARBITRUM_CHAIN_ID \<longrightarrow> q_delegator q = d \<longrightarrow>
                  q_active q = (0 < rf_principal st)))
        \<and> (\<forall>k. k \<notin> (\<lambda>d. (ARBITRUM_CHAIN_ID, d, na_block anchor)) ` set (load_candidates x (na_block anchor) s) \<longrightarrow>
             find_row stake_key (w_stakes t) k = find_row stake_key (w_stakes s) k)"
  using assms(1,2,5)
proof (cases rule: round_refresh_runs)
  case (failed e)
  then show ?thesis by simp
next
  case (written sm states u)
  define c where "c = load_candidates x (na_block anchor) s"
  let ?key = "\<lambda>d. (ARBITRUM_CHAIN_ID, d, na_block anchor)"
  let ?row = "\<lambda>d st. Some (round_merge x anchor (find_row stake_key (w_stakes s) (?key d)) st)"
  note w = round_refresh_written [OF assms(3) c_def assms(4) [folded c_def] written(2) [folded c_def] written(3)]
  have names: "map rf_delegator states = c" by (rule read_names [OF w(1)])
  then have ds: "distinct (map rf_delegator states)" using round_candidates_distinct [OF assms(3)] by (simp add: c_def)
  then have "distinct (map ?key (map rf_delegator states))" by (simp add: distinct_map inj_on_def)
  then have dk: "distinct (map (\<lambda>st. ?key (rf_delegator st)) states)" by (simp add: comp_def)
  have hit: "\<exists>st. read_from_cache x ab bm anchor t d st \<and> find_row stake_key (w_stakes t) (?key d) = ?row d st
      \<and> (\<forall>q\<in>set (w_registry t). q_chain q = ARBITRUM_CHAIN_ID \<longrightarrow> q_delegator q = d \<longrightarrow> q_active q = (0 < rf_principal st))"
    if d: "d \<in> set c" for d
  proof -
    obtain i where i: "i < length c" "d = c ! i" using d by (auto simp: in_set_conv_nth)
    define st where "st = states ! i"
    have st: "read_from_cache x ab bm anchor t d st" "st \<in> set states"
      using list_all2_nthD [OF w(1) i(1)] i list_all2_lengthD [OF w(1)] by (simp_all add: st_def)
    then have nm: "rf_delegator st = d" by (auto simp: read_from_cache_def dest: refreshed_delegator)
    have "find_row stake_key (w_stakes t) (?key d) = ?row d st"
      using rounds.get_fold_hit [OF dk st(2)] by (simp add: w(2) nm)
    then show ?thesis using st activity_written [OF ds w(3) _ _ _ st(2)] nm by blast
  qed
  have others: "find_row stake_key (w_stakes t) k = find_row stake_key (w_stakes s) k" if "k \<notin> ?key ` set c" for k
    unfolding w(2) by (rule rounds.get_fold_other) (use that in \<open>simp add: names [symmetric] image_image\<close>)
  have "keys_distinct stake_key (w_stakes t)" unfolding w(2) by (rule keys_upsert_round [OF assms(3)])
  then have "load_candidates x (na_block anchor) t = []"
    by (rule no_candidates_left [OF assms(3)]) (use hit others c_def in fastforce)+
  moreover have "load_round_checkpoint t = Some (na_round anchor)"
    using assms(2) marks.mark_advance by (force simp: load_round_checkpoint_def w(4) split: option.splits)
  ultimately show ?thesis using hit others unfolding written(1) sum.case c_def [symmetric] by blast
qed

section \<open>A concrete refresh\<close>

text \<open>One delegator with stake, a \<open>NewRound\<close> event, and a cache with both answers.\<close>

definition sample_bonding :: bonding_abi where
  "sample_bonding = \<lparr>get_delegator_hex = (\<lambda>_. ''d''), pending_stake_hex = (\<lambda>_ _. ''s''),
     pending_fees_hex = (\<lambda>_ _. ''f''), delegator_returns = (\<lambda>_. Inr (9, 1)),
     pending_stake_returns = (\<lambda>_. Inr 11), pending_fees_returns = (\<lambda>_. Inr 2)\<rparr>"

definition round_event :: event_row where
  "round_event = sample_event\<lparr>e_name := ''NewRound'', e_block := 10, e_finality := Finalized,
     e_raw := JObj [(''decoded'', JObj [(''round'', JStr (show_int 5))])]\<rparr>"

definition round_anchor :: new_round_anchor where
  "round_anchor = \<lparr>na_event = 1, na_round = 5, na_block = 10, na_ts = 1000, na_hash = ''0xcd''\<rparr>"

definition bonded_row :: stake_row where
  "bonded_row = \<lparr>t_chain = ARBITRUM_CHAIN_ID, t_delegator = ''1'', t_delegate = ''0xo'', t_block = 3, t_ts = 1,
     t_hash = ''h'', t_principal = 7, t_pending_stake = None, t_pending_fees = None, t_pending_round = None,
     t_source = ''flow_derived'', t_raw = None, t_trigger = 1\<rparr>"

definition answer_row :: "request \<Rightarrow> cache_row" where
  "answer_row req = make_cache_row sample_ext (request_hash sample_ext req) (fst req) (fst (snd req)) (snd (snd req)) ''00'' ''n'' None"

definition round_world :: "unit world" where
  "round_world = (empty_world ())\<lparr>w_events := [round_event], w_stakes := [bonded_row],
     w_cache := map answer_row (delegator_requests sample_bonding ''b'' round_anchor 1)\<rparr>"

definition quiet_provider :: "unit provider" where
  "quiet_provider = \<lparr>pr_name = ''n'', pr_post = (\<lambda>_ n. (Body [], n))\<rparr>"

lemma round_anchor_found: "latest_new_round sample_ext False round_world = Some round_anchor"
  by (simp add: latest_new_round_def round_world_def empty_world_def round_event_def sample_event_def
      decoded_field_def parse_signed_show_int round_anchor_def)

lemma round_due: "load_candidates sample_ext 10 round_world = [''1'']" "load_round_checkpoint round_world = None"
  by (simp_all add: load_candidates_def round_world_def empty_world_def bonded_row_def is_latest_row_def
      load_round_checkpoint_def checkpoint_def)

lemma address_one: "address_of sample_ext ''1'' = Some 1"
  by (simp add: sample_ext_def parse_digits_def digit_val_def)

lemma round_requests_one:
  "round_requests sample_ext sample_bonding ''b'' round_anchor [''1''] = delegator_requests sample_bonding ''b'' round_anchor 1"
  by (simp add: round_requests_def address_one)

lemma round_hashes:
  "request_hash sample_ext (delegator_requests sample_bonding ''b'' round_anchor 1 ! 0)
     \<noteq> request_hash sample_ext (delegator_requests sample_bonding ''b'' round_anchor 1 ! 1)"
  by (simp add: delegator_requests_def request_hash_def compute_call_hash_def call_preimage_def sample_ext_def
      get_delegator_params_def pending_stake_params_def eth_call_on_def sample_bonding_def round_anchor_def)

lemma delegator_requests_pair:
  "delegator_requests ab bm anchor a = [delegator_requests ab bm anchor a ! 0, delegator_requests ab bm anchor a ! 1]"
  by (simp add: delegator_requests_def)

lemma round_distinct: "distinct (map (request_hash sample_ext)
    (round_requests sample_ext sample_bonding ''b'' round_anchor (load_candidates sample_ext (na_block round_anchor) round_world)))"
proof -
  have b: "na_block round_anchor = 10" by (simp add: round_anchor_def)
  show ?thesis using round_hashes
    unfolding b round_due(1) round_requests_one by (subst delegator_requests_pair) simp
qed

definition round_state :: refreshed_state where
  "round_state = \<lparr>rf_delegator = ''1'', rf_principal = 9 / 10 ^ 18, rf_delegate = addr_lower 1,
     rf_pending = 11 / 10 ^ 18, rf_raw = JObj [(''bondedAmount_wei'', JStr (show_nat 9)),
       (''pendingStake_wei'', JStr (show_nat 11)), (''round'', JStr (show_int 5))]\<rparr>"

lemma answer_hash: "c_hash (answer_row req) = request_hash sample_ext req" "c_bytes (answer_row req) = ''00''"
  by (simp_all add: answer_row_def make_cache_row_def)

lemma round_cached:
  assumes "i < 2"
  shows "\<exists>h. cached_outcome round_world (request_hash sample_ext (delegator_requests sample_bonding ''b'' round_anchor 1 ! i))
    = Some \<lparr>oc_hash = request_hash sample_ext (delegator_requests sample_bonding ''b'' round_anchor 1 ! i),
            oc_bytes = ''00'', oc_resp_hash = h\<rparr>"
proof -
  have "w_cache round_world = [answer_row (delegator_requests sample_bonding ''b'' round_anchor 1 ! 0),
      answer_row (delegator_requests sample_bonding ''b'' round_anchor 1 ! 1)]"
    by (simp add: round_world_def delegator_requests_def)
  then show ?thesis using assms round_hashes
    by (auto simp: less_2_cases_iff cached_outcome_def cache_get_def cache_row_at_def find_row_Cons answer_hash)
qed

lemma warm_batch:
  assumes "\<And>r. r \<in> set reqs \<Longrightarrow> cached_outcome s (request_hash x r) = Some (oc r)"
  shows "batch_call_cached x co p reqs s = (Inr (map (\<lambda>r. Inr (oc r)) reqs), s)"
proof -
  have "batch_misses x s reqs = []" using assms by (auto simp: batch_misses_def batch_outs_def filter_empty_conv)
  then show ?thesis
    by (cases rule: batch_call_cached_cases [of x s reqs co p]) (use assms in auto)
qed

lemma round_state_decoded: "refreshed_state_of sample_ext sample_bonding round_anchor ''1'' ''00'' ''00'' = Inr round_state"
  by (simp add: refreshed_state_of_def decode_delegator_state_def decode_pending_stake_def decode_response_hex_def
      sample_ext_def sample_bonding_def u256_to_decimal_def STAKE_DECIMALS_def show_nat_def parse_digits_show_base
      round_state_def round_anchor_def)

lemma round_batch:
  "batch_with_retries sample_ext True quiet_provider (delegator_requests sample_bonding ''b'' round_anchor 1) round_world
     = (Inr [''00'', ''00''], round_world)"
proof -
  let ?r = "delegator_requests sample_bonding ''b'' round_anchor 1"
  have l: "length ?r = 2" by (simp add: delegator_requests_def)
  obtain h0 h1 where h:
    "cached_outcome round_world (request_hash sample_ext (?r ! 0)) = Some \<lparr>oc_hash = request_hash sample_ext (?r ! 0), oc_bytes = ''00'', oc_resp_hash = h0\<rparr>"
    "cached_outcome round_world (request_hash sample_ext (?r ! 1)) = Some \<lparr>oc_hash = request_hash sample_ext (?r ! 1), oc_bytes = ''00'', oc_resp_hash = h1\<rparr>"
    using round_cached [of 0] round_cached [of 1] by auto
  have "batch_call_cached sample_ext True quiet_provider [?r ! 0, ?r ! 1] round_world
      = (Inr (map (\<lambda>r. Inr (the (cached_outcome round_world (request_hash sample_ext r)))) [?r ! 0, ?r ! 1]), round_world)"
    by (rule warm_batch) (use h in auto)
  then show ?thesis using h l
    by (simp add: batch_with_retries_def LAYER_STALE_RETRIES_def numeral_eq_Suc retry_round_def core_def map_err_def
        andthen_def settle_slot_simps upt_rec expect_all_def ret_def)
qed

lemma round_read:
  "read_states_batched sample_ext True quiet_provider sample_bonding ''b'' round_anchor [''1''] round_world
     = (Inr [round_state], round_world)"
proof -
  have c: "chunks (RPC_BATCH_SIZE div 2) [''1''] = [[''1'']]"
    by (simp add: RPC_BATCH_SIZE_def chunks.simps)
  show ?thesis
    unfolding read_states_batched_def c
    by (simp add: read_chunk_def address_one of_result_def andthen_def round_batch [unfolded One_nat_def] decode_state_simp round_state_decoded)
qed

lemma round_runs:
  "\<exists>sm. fst (refresh_current_stake sample_ext True quiet_provider sample_bonding (\<lambda>n. 0) ''b'' False round_world) = Inr sm"
proof -
  have b: "na_block round_anchor = 10" by (simp add: round_anchor_def)
  show ?thesis
    by (simp add: refresh_current_stake_def round_anchor_found round_due b round_read Let_def andthen_def split: prod.split)
qed

theorem round_refresh_complete_witness:
  "load_candidates sample_ext 10 round_world = [''1'']
   \<and> load_candidates sample_ext 10
       (snd (refresh_current_stake sample_ext True quiet_provider sample_bonding (\<lambda>n. 0) ''b'' False round_world)) = []"
proof -
  obtain r t where run: "refresh_current_stake sample_ext True quiet_provider sample_bonding (\<lambda>n. 0) ''b'' False round_world = (r, t)"
    by fastforce
  obtain sm where r: "r = Inr sm" using round_runs run by auto
  have b: "na_block round_anchor = 10" by (simp add: round_anchor_def)
  have k: "keys_distinct stake_key (w_stakes round_world)"
    by (simp add: keys_distinct_def round_world_def)
  have n: "\<forall>c. load_round_checkpoint round_world = Some c \<longrightarrow> c < na_round round_anchor" by (simp add: round_due)
  from round_refresh_complete [OF round_anchor_found n k round_distinct run]
  have "load_candidates sample_ext 10 t = []" by (simp add: r b)
  then show ?thesis by (simp add: run round_due)
qed

end
