(* ===== verification/Pending_Props.thy ===== *)
theory Pending_Props
  imports Contract_Stake_Props
begin

text \<open>
  The reconciliation of \<open>pending.rs\<close> as a function of the cache it leaves, and the choice its
  second stage leaves to the database.
\<close>

section \<open>The calls of a reconciliation\<close>

definition exact_calls :: "ext \<Rightarrow> bonding_abi \<Rightarrow> string \<Rightarrow> 'n world \<Rightarrow> exact_call list" where
  "exact_calls x ab bm s = List.map_filter (exact_call_of x ab bm) (exact_rows x s)"

lemma exact_call_hash: "exact_call_of x ab bm r = Some c \<Longrightarrow> request_hash x (exact_request c) = xc_hash c
    \<and> xc_delegator c = t_delegator r \<and> xc_block c = t_block r"
  by (auto simp: exact_call_of_def call_for_get_delegator_def Let_def exact_request_def request_hash_def
      split: option.splits)

lemma exact_calls_hash: "c \<in> set (exact_calls x ab bm s) \<Longrightarrow> request_hash x (exact_request c) = xc_hash c"
  using exact_call_hash by (fastforce simp: exact_calls_def List.map_filter_def)

text \<open>An update that says what the cached answer of its call says.\<close>

definition exact_true :: "ext \<Rightarrow> bonding_abi \<Rightarrow> 'n world \<Rightarrow> exact_call \<Rightarrow> exact_update \<Rightarrow> bool" where
  "exact_true x ab u c up \<longleftrightarrow> (\<exists>b. answers x u (exact_request c) b \<and> exact_update_of x ab c b = Inr up)"

lemma exact_true_le: "exact_true x ab u c up \<Longrightarrow> cache_le u t \<Longrightarrow> exact_true x ab t c up"
  by (auto simp: exact_true_def intro: answers_le)

lemma exact_true_unique: "exact_true x ab u c up \<Longrightarrow> exact_true x ab u c up' \<Longrightarrow> up' = up"
  by (auto simp: exact_true_def dest: answers_unique)

lemma exact_true_key: "exact_true x ab u c up \<Longrightarrow> xu_delegator up = xc_delegator c \<and> xu_block up = xc_block c"
  unfolding exact_true_def exact_update_of_def by (elim exE conjE) (auto split: sum.split_asm)

text \<open>A batch of true updates: those of the calls \<open>cs\<close>, in some order.\<close>

definition true_updates :: "ext \<Rightarrow> bonding_abi \<Rightarrow> 'n world \<Rightarrow> exact_call multiset \<Rightarrow> exact_update list \<Rightarrow> bool" where
  "true_updates x ab u cs ups \<longleftrightarrow> (\<exists>ds. mset ds = cs \<and> list_all2 (exact_true x ab u) ds ups)"

lemma true_updates_le: "true_updates x ab u cs ups \<Longrightarrow> cache_le u t \<Longrightarrow> true_updates x ab t cs ups"
  unfolding true_updates_def by (blast intro: list_all2_mono exact_true_le)

lemma true_updates_snoc:
  assumes "true_updates x ab u cs ups" "exact_true x ab u c up"
  shows "true_updates x ab u (add_mset c cs) (ups @ [up])"
proof -
  obtain ds where "mset ds = cs" "list_all2 (exact_true x ab u) ds ups" using assms(1) by (auto simp: true_updates_def)
  then have "mset (ds @ [c]) = add_mset c cs" "list_all2 (exact_true x ab u) (ds @ [c]) (ups @ [up])"
    using assms(2) by (simp_all add: list_all2_appendI)
  then show ?thesis unfolding true_updates_def by blast
qed

section \<open>Hits and misses\<close>

lemma exact_from_cache_simps:
  "cm (xc_hash c) = None \<Longrightarrow> exact_from_cache x ab cm c (us, ms) s = (Inr (us, ms @ [c]), s)"
  "cm (xc_hash c) = Some b \<Longrightarrow> exact_from_cache x ab cm c (us, ms) s =
     (case exact_update_of x ab c b of Inl e \<Rightarrow> (Inl e, s) | Inr u \<Rightarrow> (Inr (us @ [u], ms), s))"
  by (simp_all add: exact_from_cache_def ret_def andthen_def of_result_def split: sum.split)

lemma sort_calls:
  assumes "fold_io (exact_from_cache x ab cm) cs (us, ms) s = (Inr (us', ms'), t)"
    and "\<forall>c\<in>set cs. \<forall>b. cm (xc_hash c) = Some b \<longrightarrow> answers x s (exact_request c) b"
    and "true_updates x ab s as us"
  shows "t = s \<and> ms' = ms @ filter (\<lambda>c. cm (xc_hash c) = None) cs
    \<and> true_updates x ab s (as + mset (filter (\<lambda>c. cm (xc_hash c) \<noteq> None) cs)) us'"
  using assms
proof (induction cs arbitrary: us ms as)
  case (Cons c cs)
  show ?case
  proof (cases "cm (xc_hash c)")
    case None
    then have "fold_io (exact_from_cache x ab cm) cs (us, ms @ [c]) s = (Inr (us', ms'), t)"
      using Cons.prems(1) by (simp add: exact_from_cache_simps)
    from Cons.IH [OF this _ Cons.prems(3)] Cons.prems(2) show ?thesis by (simp add: None)
  next
    case (Some b)
    then obtain u where u: "exact_update_of x ab c b = Inr u"
      and f: "fold_io (exact_from_cache x ab cm) cs (us @ [u], ms) s = (Inr (us', ms'), t)"
      using Cons.prems(1) by (auto simp: exact_from_cache_simps split: sum.splits)
    have "exact_true x ab s c u" using Cons.prems(2) Some u by (auto simp: exact_true_def)
    from Cons.IH [OF f _ true_updates_snoc [OF Cons.prems(3) this]] Cons.prems(2) show ?thesis
      by (simp add: Some)
  qed
qed simp

lemma settle_exact_simps:
  "settle_exact x ab n (c, Inr oc) (us, ms) s =
     (case exact_update_of x ab c (oc_bytes oc) of Inl e \<Rightarrow> (Inl e, s) | Inr u \<Rightarrow> (Inr (us @ [u], ms), s))"
  "settle_exact x ab n (c, Inl e) (us, ms) s =
     (if 0 < n \<and> is_layer_stale_error (core_msg e) then (Inr (us, ms @ [c]), s) else (Inl (core_msg e), s))"
  by (simp_all add: settle_exact_def ret_def throw_def andthen_def of_result_def split: sum.split)

lemma settle_calls:
  assumes "fold_io (settle_exact x ab n) crs (us, ms) s = (Inr (us', ms'), t)"
    and "\<forall>(c, r)\<in>set crs. \<forall>oc. r = Inr oc \<longrightarrow> answers x s (exact_request c) (oc_bytes oc)"
    and "true_updates x ab s as us"
  shows "t = s \<and> (\<exists>fin more. ms' = ms @ more \<and> (n = 0 \<longrightarrow> more = [])
      \<and> mset fin + mset more = mset (map fst crs) \<and> true_updates x ab s (as + mset fin) us')"
  using assms
proof (induction crs arbitrary: us ms as)
  case Nil
  then show ?case by (intro conjI exI [of _ "[]"]) simp_all
next
  case (Cons cr crs)
  obtain c r where cr: "cr = (c, r)" by fastforce
  show ?case
  proof (cases r)
    case (Inl e)
    then have n: "0 < n" and f: "fold_io (settle_exact x ab n) crs (us, ms @ [c]) s = (Inr (us', ms'), t)"
      using Cons.prems(1) by (auto simp: cr settle_exact_simps split: if_splits)
    have "\<forall>(c, r)\<in>set crs. \<forall>oc. r = Inr oc \<longrightarrow> answers x s (exact_request c) (oc_bytes oc)"
      using Cons.prems(2) by simp
    from Cons.IH [OF f this Cons.prems(3)] obtain fin more where
      "t = s" "ms' = (ms @ [c]) @ more" "mset fin + mset more = mset (map fst crs)"
      "true_updates x ab s (as + mset fin) us'" by (elim exE conjE) (rule that)
    then show ?thesis using n by (intro conjI exI [of _ fin] exI [of _ "c # more"]) (simp_all add: cr)
  next
    case (Inr oc)
    then obtain u where u: "exact_update_of x ab c (oc_bytes oc) = Inr u"
      and f: "fold_io (settle_exact x ab n) crs (us @ [u], ms) s = (Inr (us', ms'), t)"
      using Cons.prems(1) by (auto simp: cr settle_exact_simps split: sum.splits)
    have "exact_true x ab s c u" using Cons.prems(2) u by (auto simp: cr Inr exact_true_def)
    note up = true_updates_snoc [OF Cons.prems(3) this]
    have "\<forall>(c, r)\<in>set crs. \<forall>oc. r = Inr oc \<longrightarrow> answers x s (exact_request c) (oc_bytes oc)"
      using Cons.prems(2) by simp
    from Cons.IH [OF f this up] obtain fin more where
      m: "t = s" "ms' = ms @ more" "n = 0 \<longrightarrow> more = []" "mset fin + mset more = mset (map fst crs)"
      "true_updates x ab s (add_mset c as + mset fin) us'" by (elim exE conjE) (rule that)
    then show ?thesis by (intro conjI exI [of _ "c # fin"] exI [of _ more]) (simp_all add: cr)
  qed
qed

section \<open>The rounds of the misses\<close>

lemma exact_chunk_reads:
  assumes d: "distinct (map (request_hash x) (map exact_request ch))"
    and run: "exact_chunk x co p ab n ch (us, ms) s = (Inr (us', ms'), t)"
    and as: "true_updates x ab s as us"
  shows "same_rows s t \<and> (\<exists>fin more. ms' = ms @ more \<and> (n = 0 \<longrightarrow> more = [])
      \<and> mset fin + mset more = mset ch \<and> true_updates x ab t (as + mset fin) us')"
proof -
  obtain results u where b: "core (batch_call_cached x co p (map exact_request ch)) s = (Inr results, u)"
    and f: "fold_io (settle_exact x ab n) (zip ch results) (us, ms) u = (Inr (us', ms'), t)"
    using run by (auto simp: exact_chunk_def andthen_Inr_iff)
  note br = batch_answers [OF d b]
  have ans: "\<forall>(c, r)\<in>set (zip ch results). \<forall>oc. r = Inr oc \<longrightarrow> answers x u (exact_request c) (oc_bytes oc)"
  proof (intro ballI, clarify)
    fix c oc assume "(c, Inr oc) \<in> set (zip ch results)"
    then obtain k where "k < length ch" "c = ch ! k" "results ! k = Inr oc" by (auto simp: set_zip)
    then show "answers x u (exact_request c) (oc_bytes oc)" using br(3) [of k oc] by simp
  qed
  have "map fst (zip ch results) = ch" using br(1) by simp
  with settle_calls [OF f ans true_updates_le [OF as same_rowsD(14) [OF br(2)]]] br(2)
  show ?thesis by (simp only:)
qed

lemma exact_chunks_read:
  assumes "distinct (map (request_hash x) (map exact_request (concat cs)))"
    and "fold_io (exact_chunk x co p ab n) cs (us, ms) s = (Inr (us', ms'), t)"
    and "true_updates x ab s as us"
  shows "same_rows s t \<and> (\<exists>fin more. ms' = ms @ more \<and> (n = 0 \<longrightarrow> more = [])
      \<and> mset fin + mset more = mset (concat cs) \<and> true_updates x ab t (as + mset fin) us')"
  using assms
proof (induction cs arbitrary: us ms s as)
  case Nil
  then show ?case by (intro conjI exI [of _ "[]"]) simp_all
next
  case (Cons c cs)
  obtain us1 ms1 u where 1: "exact_chunk x co p ab n c (us, ms) s = (Inr (us1, ms1), u)"
    and 2: "fold_io (exact_chunk x co p ab n) cs (us1, ms1) u = (Inr (us', ms'), t)"
    using Cons.prems(2) by (auto split: prod.splits sum.splits)
  have d: "distinct (map (request_hash x) (map exact_request c))"
    "distinct (map (request_hash x) (map exact_request (concat cs)))" using Cons.prems(1) by simp_all
  from exact_chunk_reads [OF d(1) 1 Cons.prems(3)] obtain f1 m1 where
    a: "same_rows s u" "ms1 = ms @ m1" "n = 0 \<longrightarrow> m1 = []" "mset f1 + mset m1 = mset c"
    "true_updates x ab u (as + mset f1) us1" by (elim exE conjE) (rule that)
  from Cons.IH [OF d(2) 2 a(5)] obtain f2 m2 where
    b: "same_rows u t" "ms' = ms1 @ m2" "n = 0 \<longrightarrow> m2 = []" "mset f2 + mset m2 = mset (concat cs)"
    "true_updates x ab t (as + mset f1 + mset f2) us'" by (elim exE conjE) (rule that)
  have "mset (f1 @ f2) + mset (m1 @ m2) = mset (concat (c # cs))"
    using a(4) b(4) by (simp add: union_ac)
  with a b same_rows_trans [OF a(1) b(1)] show ?case
    by (intro conjI exI [of _ "f1 @ f2"] exI [of _ "m1 @ m2"]) (simp_all add: union_assoc)
qed

lemma resolve_reads:
  assumes "distinct (map (request_hash x) (map exact_request pend))"
    and "resolve_exact_misses_batched x co p ab n pend us s = (Inr us', t)"
    and "true_updates x ab s as us"
  shows "same_rows s t \<and> true_updates x ab t (as + mset pend) us'"
  using assms
proof (induction n arbitrary: pend us s as)
  case 0
  have cc: "concat (chunks EXACT_BATCH_SIZE pend) = pend" by (simp add: EXACT_BATCH_SIZE_def)
  obtain us1 ms1 u where 1: "fold_io (exact_chunk x co p ab 0) (chunks EXACT_BATCH_SIZE pend) (us, []) s = (Inr (us1, ms1), u)"
    and 2: "(if ms1 = [] then ret us1 else throw ''attempt to subtract with overflow'') u = (Inr us', t)"
    using 0(2) by (auto simp: andthen_Inr_iff)
  from exact_chunks_read [OF _ 1 0(3), unfolded cc, OF 0(1)] obtain fin where
    "same_rows s u" "ms1 = []" "mset fin = mset pend" "true_updates x ab u (as + mset fin) us1" by auto
  with 2 show ?case by (simp add: ret_def)
next
  case (Suc n)
  have cc: "concat (chunks EXACT_BATCH_SIZE pend) = pend" by (simp add: EXACT_BATCH_SIZE_def)
  obtain us1 ms1 u where 1: "fold_io (exact_chunk x co p ab (Suc n)) (chunks EXACT_BATCH_SIZE pend) (us, []) s = (Inr (us1, ms1), u)"
    and 2: "(if ms1 = [] then ret us1 else resolve_exact_misses_batched x co p ab n ms1 us1) u = (Inr us', t)"
    using Suc.prems(2) by (auto simp: andthen_Inr_iff)
  from exact_chunks_read [OF _ 1 Suc.prems(3), unfolded cc, OF Suc.prems(1)] obtain fin where
    a: "same_rows s u" "mset fin + mset ms1 = mset pend" "true_updates x ab u (as + mset fin) us1" by auto
  show ?case
  proof (cases "ms1 = []")
    case True
    with a 2 show ?thesis by (simp add: ret_def)
  next
    case False
    have "mset (fin @ ms1) = mset pend" using a(2) by simp
    then have "mset (map (request_hash x) (map exact_request (fin @ ms1))) = mset (map (request_hash x) (map exact_request pend))"
      by (simp only: mset_map)
    then have "distinct (map (request_hash x) (map exact_request (fin @ ms1)))"
      using Suc.prems(1) mset_eq_imp_distinct_iff by blast
    then have d: "distinct (map (request_hash x) (map exact_request ms1))" by simp
    have "resolve_exact_misses_batched x co p ab n ms1 us1 u = (Inr us', t)" using 2 False by simp
    from Suc.IH [OF d this a(3)] a(1,2) show ?thesis
      by (auto simp: add.assoc intro: same_rows_trans)
  qed
qed


section \<open>The reconciliation\<close>

text \<open>What the cache says of a row: an update, when it has an address and a decodable answer.\<close>

definition correction :: "ext \<Rightarrow> bonding_abi \<Rightarrow> string \<Rightarrow> 'n world \<Rightarrow> stake_row \<Rightarrow> exact_update option" where
  "correction x ab bm t r =
     (if t_chain r \<noteq> ARBITRUM_CHAIN_ID then None
      else case exact_call_of x ab bm r of
        None \<Rightarrow> None
      | Some c \<Rightarrow>
          (case cached_outcome t (xc_hash c) of
             None \<Rightarrow> None
           | Some oc \<Rightarrow>
               (case exact_update_of x ab c (oc_bytes oc) of Inl e \<Rightarrow> None | Inr up \<Rightarrow> Some up)))"

definition corrected :: "ext \<Rightarrow> bonding_abi \<Rightarrow> string \<Rightarrow> 'n world \<Rightarrow> stake_row \<Rightarrow> stake_row" where
  "corrected x ab bm t r = (case correction x ab bm t r of None \<Rightarrow> r | Some up \<Rightarrow> set_exact x up r)"

lemma correction_true:
  assumes "t_chain r = ARBITRUM_CHAIN_ID" "exact_call_of x ab bm r = Some c" "exact_true x ab t c up"
  shows "correction x ab bm t r = Some up"
  using assms exact_call_hash [OF assms(2)] by (auto simp: correction_def exact_true_def answers_def)

lemma write_exact_tables:
  "snd (fold (write_exact x choice) cs (n, s)) =
     s\<lparr>w_stakes := fold (update_from choice exact_on (set_exact x)) cs (w_stakes s)\<rparr>"
  by (induction cs arbitrary: n s) (simp_all add: write_exact_def)

lemma set_exact_rows:
  "distinct (map (\<lambda>u. (xu_delegator u, xu_block u)) (concat cs)) \<Longrightarrow>
     fold (update_from choice exact_on (set_exact x)) cs t = map (update_one exact_on (set_exact x) (concat cs)) t"
  by (rule update_chunks [where P = "\<lambda>r. t_chain r = ARBITRUM_CHAIN_ID" and f = "\<lambda>r. (t_delegator r, t_block r)"])
    (auto simp: exact_on_def set_exact_def)

lemma set_exact_calls:
  "set (exact_calls x ab bm s) = {c. \<exists>r\<in>set (w_stakes s). t_chain r = ARBITRUM_CHAIN_ID \<and> exact_call_of x ab bm r = Some c}"
  by (force simp: exact_calls_def exact_rows_def List.map_filter_def)

lemma exact_calls_distinct:
  assumes "keys_distinct stake_key (w_stakes s)"
  shows "distinct (map (\<lambda>c. (xc_delegator c, xc_block c)) (exact_calls x ab bm s))"
proof -
  let ?rows = "filter (\<lambda>r. exact_call_of x ab bm r \<noteq> None) (exact_rows x s)"
  have "distinct (map stake_key (w_stakes s))" using assms by (simp add: keys_distinct_def)
  then have "distinct (map stake_key (exact_rows x s))"
    by (simp add: exact_rows_def distinct_map inj_on_def)
  then have "distinct (map stake_key ?rows)" by (rule distinct_map_filter)
  moreover have "\<forall>r\<in>set ?rows. t_chain r = ARBITRUM_CHAIN_ID" by (simp add: exact_rows_def)
  ultimately have "distinct (map (\<lambda>r. (t_delegator r, t_block r)) ?rows)"
    by (auto simp: distinct_map inj_on_def stake_key_def)
  moreover have "map (\<lambda>c. (xc_delegator c, xc_block c)) (exact_calls x ab bm s) = map (\<lambda>r. (t_delegator r, t_block r)) ?rows"
    unfolding exact_calls_def List.map_filter_def using exact_call_hash
    by (auto simp: comp_def)
  ultimately show ?thesis by simp
qed

text \<open>True updates for all calls are about all rows with an address, and about nothing else.\<close>

lemma updates_from_rows:
  assumes "true_updates x ab t (mset (exact_calls x ab bm s)) ups" "up \<in> set ups"
  shows "\<exists>q\<in>set (w_stakes s). \<exists>c. t_chain q = ARBITRUM_CHAIN_ID \<and> exact_call_of x ab bm q = Some c \<and> exact_true x ab t c up"
proof -
  obtain ds where ds: "mset ds = mset (exact_calls x ab bm s)" "list_all2 (exact_true x ab t) ds ups"
    using assms(1) by (auto simp: true_updates_def)
  obtain i where i: "i < length ups" "up = ups ! i" using assms(2) by (auto simp: in_set_conv_nth)
  then have "exact_true x ab t (ds ! i) up" "ds ! i \<in> set ds"
    using list_all2_nthD [OF ds(2)] list_all2_lengthD [OF ds(2)] by auto
  then show ?thesis using set_exact_calls [of x ab bm s] mset_eq_setD [OF ds(1)] by auto
qed

lemma updates_for_rows:
  assumes "true_updates x ab t (mset (exact_calls x ab bm s)) ups"
    and "r \<in> set (w_stakes s)" "t_chain r = ARBITRUM_CHAIN_ID" "exact_call_of x ab bm r = Some c"
  shows "\<exists>up\<in>set ups. exact_true x ab t c up"
proof -
  obtain ds where ds: "mset ds = mset (exact_calls x ab bm s)" "list_all2 (exact_true x ab t) ds ups"
    using assms(1) by (auto simp: true_updates_def)
  have "c \<in> set ds" using assms(2-4) set_exact_calls [of x ab bm s] mset_eq_setD [OF ds(1)] by auto
  then obtain i where "i < length ds" "c = ds ! i" by (auto simp: in_set_conv_nth)
  then have "exact_true x ab t c (ups ! i)" "ups ! i \<in> set ups"
    using list_all2_nthD [OF ds(2)] list_all2_lengthD [OF ds(2)] by auto
  then show ?thesis by blast
qed

lemma updates_keys:
  assumes "keys_distinct stake_key (w_stakes s)" "true_updates x ab t (mset (exact_calls x ab bm s)) ups"
  shows "distinct (map (\<lambda>u. (xu_delegator u, xu_block u)) ups)"
proof -
  obtain ds where ds: "mset ds = mset (exact_calls x ab bm s)" "list_all2 (exact_true x ab t) ds ups"
    using assms(2) by (auto simp: true_updates_def)
  have "mset (map (\<lambda>c. (xc_delegator c, xc_block c)) ds) = mset (map (\<lambda>c. (xc_delegator c, xc_block c)) (exact_calls x ab bm s))"
    using ds(1) by (simp only: mset_map)
  then have "distinct (map (\<lambda>c. (xc_delegator c, xc_block c)) ds)"
    using exact_calls_distinct [OF assms(1)] mset_eq_imp_distinct_iff by blast
  moreover have "map (\<lambda>u. (xu_delegator u, xu_block u)) ups = map (\<lambda>c. (xc_delegator c, xc_block c)) ds"
    using ds(2) by (induction rule: list_all2_induct) (auto dest: exact_true_key)
  ultimately show ?thesis by simp
qed

lemma updates_correct:
  assumes kd: "keys_distinct stake_key (w_stakes s)"
    and tu: "true_updates x ab t (mset (exact_calls x ab bm s)) ups" and r: "r \<in> set (w_stakes s)"
  shows "update_one exact_on (set_exact x) ups r = corrected x ab bm t r"
proof (cases "t_chain r = ARBITRUM_CHAIN_ID \<and> exact_call_of x ab bm r \<noteq> None")
  case True
  then obtain c where c: "exact_call_of x ab bm r = Some c" by blast
  obtain up where up: "up \<in> set ups" "exact_true x ab t c up"
    using updates_for_rows [OF tu r _ c] True by blast
  have "exact_on r up" using exact_true_key [OF up(2)] exact_call_hash [OF c] True by (simp add: exact_on_def)
  with up(1) have "List.find (exact_on r) ups = Some up"
    by (rule find_unique [where P = "t_chain r = ARBITRUM_CHAIN_ID" and k = "(t_delegator r, t_block r)"
        and g = "\<lambda>u. (xu_delegator u, xu_block u)", rotated 2])
      (use updates_keys [OF kd tu] in \<open>auto simp: exact_on_def\<close>)
  then show ?thesis using correction_true [OF _ c up(2)] True by (simp add: update_one_def corrected_def)
next
  case False
  have "\<not> exact_on r up" if up: "up \<in> set ups" for up
  proof
    assume on: "exact_on r up"
    obtain q c where q: "q \<in> set (w_stakes s)" "t_chain q = ARBITRUM_CHAIN_ID" "exact_call_of x ab bm q = Some c" "exact_true x ab t c up"
      using updates_from_rows [OF tu up] by blast
    then have "stake_key q = stake_key r"
      using on exact_true_key [OF q(4)] exact_call_hash [OF q(3)] by (simp add: exact_on_def stake_key_def)
    then have "q = r" using kd r q(1) by (auto simp: keys_distinct_def distinct_map inj_on_def)
    with q(2,3) False show False by simp
  qed
  then have "List.find (exact_on r) ups = None" by (simp add: find_None_iff)
  moreover have "correction x ab bm t r = None" using False by (auto simp: correction_def)
  ultimately show ?thesis by (simp add: update_one_def corrected_def)
qed

lemma reconcile_reads:
  assumes kd: "keys_distinct stake_key (w_stakes s)"
    and d: "distinct (map xc_hash (exact_calls x ab bm s))"
    and run: "reconcile_exact_stake_rows x co p ab choice bm s = (Inr n, t)"
  obtains u ups where "same_rows s u" "true_updates x ab u (mset (exact_calls x ab bm s)) ups"
    "t = u\<lparr>w_stakes := map (corrected x ab bm u) (w_stakes s)\<rparr>"
    "n = fst (fold (write_exact x choice) (chunks UPDATE_CHUNK ups) (0, u))"
proof -
  let ?calls = "exact_calls x ab bm s" and ?cm = "prefetch_cache (map xc_hash (exact_calls x ab bm s)) s"
  obtain us ms u0 where 1: "fold_io (exact_from_cache x ab ?cm) ?calls ([], []) s = (Inr (us, ms), u0)"
    and 2: "(andthen (if ms = [] then ret us else resolve_exact_misses_batched x co p ab EXACT_LAYER_STALE_RETRIES ms us)
       (\<lambda>ups s'. let (n, s'') = fold (write_exact x choice) (chunks UPDATE_CHUNK ups) (0, s') in (Inr n, s''))) u0 = (Inr n, t)"
    using run by (auto simp: reconcile_exact_stake_rows_def exact_calls_def Let_def andthen_Inr_iff)
  have hits: "\<forall>c\<in>set ?calls. \<forall>b. ?cm (xc_hash c) = Some b \<longrightarrow> answers x s (exact_request c) b"
  proof (intro ballI allI impI)
    fix c b assume c: "c \<in> set ?calls" "?cm (xc_hash c) = Some b"
    then show "answers x s (exact_request c) b"
      by (auto simp: answers_def exact_calls_hash [OF c(1)] prefetch_cache_def cached_outcome_def split: if_splits)
  qed
  have z: "true_updates x ab s {#} []" by (auto simp: true_updates_def)
  from sort_calls [OF 1 hits z] have s: "u0 = s" "ms = filter (\<lambda>c. ?cm (xc_hash c) = None) ?calls"
    "true_updates x ab s (mset (filter (\<lambda>c. ?cm (xc_hash c) \<noteq> None) ?calls)) us" by simp_all
  obtain ups u where 3: "(if ms = [] then ret us else resolve_exact_misses_batched x co p ab EXACT_LAYER_STALE_RETRIES ms us) s = (Inr ups, u)"
    and 4: "(let (n, s'') = fold (write_exact x choice) (chunks UPDATE_CHUNK ups) (0, u) in (Inr n, s'')) = ((Inr n, t) :: (string + nat) \<times> 'a world)"
    using 2 by (auto simp: s(1) andthen_Inr_iff)
  have "map (request_hash x) (map exact_request ms) = map xc_hash ms"
    unfolding map_map comp_def by (rule map_cong [OF refl]) (auto simp: s(2) intro: exact_calls_hash)
  moreover have "distinct (map xc_hash ms)" unfolding s(2) using d by (rule distinct_map_filter)
  ultimately have dm: "distinct (map (request_hash x) (map exact_request ms))" by (simp only:)
  have all: "mset (filter (\<lambda>c. ?cm (xc_hash c) \<noteq> None) ?calls) + mset ms = mset ?calls"
    by (simp add: s(2))
  have r: "same_rows s u \<and> true_updates x ab u (mset ?calls) ups"
  proof (cases "ms = []")
    case True
    then show ?thesis using 3 s(3) all by (simp add: ret_def)
  next
    case False
    then show ?thesis using resolve_reads [OF dm _ s(3)] 3 all by simp
  qed
  have w: "w_stakes u = w_stakes s" using r by (simp add: same_rowsD(11))
  have dk: "distinct (map (\<lambda>u. (xu_delegator u, xu_block u)) (concat (chunks UPDATE_CHUNK ups)))"
    using updates_keys [OF kd conjunct2 [OF r]] by (simp add: UPDATE_CHUNK_def)
  have "snd (fold (write_exact x choice) (chunks UPDATE_CHUNK ups) (0, u)) =
      u\<lparr>w_stakes := map (update_one exact_on (set_exact x) ups) (w_stakes s)\<rparr>"
    unfolding write_exact_tables set_exact_rows [OF dk] w by (simp add: UPDATE_CHUNK_def)
  moreover have "map (update_one exact_on (set_exact x) ups) (w_stakes s) = map (corrected x ab bm u) (w_stakes s)"
    using updates_correct [OF kd] r by (intro map_cong refl) blast
  ultimately have "t = u\<lparr>w_stakes := map (corrected x ab bm u) (w_stakes s)\<rparr>"
    "n = fst (fold (write_exact x choice) (chunks UPDATE_CHUNK ups) (0, u))" using 4 by (auto split: prod.splits)
  with r show ?thesis by (intro that) auto
qed


section \<open>Running it again\<close>

lemma exact_call_same:
  "t_delegator r' = t_delegator r \<Longrightarrow> t_block r' = t_block r \<Longrightarrow> exact_call_of x ab bm r' = exact_call_of x ab bm r"
  by (simp add: exact_call_of_def split: option.split)

lemma corrected_columns [simp]:
  "t_chain (corrected x ab bm t r) = t_chain r" "t_delegator (corrected x ab bm t r) = t_delegator r"
  "t_block (corrected x ab bm t r) = t_block r"
  by (cases "correction x ab bm t r"; simp add: corrected_def set_exact_def)+

lemma exact_call_corrected [simp]: "exact_call_of x ab bm (corrected x ab bm t r) = exact_call_of x ab bm r"
  by (rule exact_call_same) simp_all

lemma corrected_again: "corrected x ab bm t (corrected x ab bm t r) = corrected x ab bm t r"
proof -
  have e: "correction x ab bm t (corrected x ab bm t r) = correction x ab bm t r" unfolding correction_def by simp
  have "corrected x ab bm t (corrected x ab bm t r)
      = (case correction x ab bm t r of None \<Rightarrow> corrected x ab bm t r | Some up \<Rightarrow> set_exact x up (corrected x ab bm t r))"
    by (simp only: corrected_def [of x ab bm t "corrected x ab bm t r"] e)
  then show ?thesis by (cases "correction x ab bm t r") (simp_all add: corrected_def set_exact_def)
qed

lemma sort_key_map: "(\<And>r. k (f r) = k r) \<Longrightarrow> sort_key k (map f t) = map f (sort_key k t)"
proof (induction t)
  case (Cons r t)
  have "insort_key k (f r) (map f u) = map f (insort_key k r u)" for u
    by (induction u) (simp_all add: Cons.prems)
  then show ?case using Cons by simp
qed simp

lemma exact_calls_corrected:
  assumes "w_stakes t = map (corrected x ab bm u) (w_stakes s)"
  shows "exact_calls x ab bm t = exact_calls x ab bm s"
proof -
  have "exact_rows x t = map (corrected x ab bm u) (exact_rows x s)"
    by (simp add: exact_rows_def assms filter_map comp_def sort_key_map)
  then show ?thesis by (simp add: exact_calls_def List.map_filter_def filter_map comp_def)
qed

lemma all_cached:
  "\<forall>c\<in>set cs. \<exists>b. cm (xc_hash c) = Some b \<and> exact_update_of x ab c b = Inr (f c) \<Longrightarrow>
     fold_io (exact_from_cache x ab cm) cs (us, ms) s = (Inr (us @ map f cs, ms), s)"
proof (induction cs arbitrary: us)
  case (Cons c cs)
  then obtain b where "cm (xc_hash c) = Some b" "exact_update_of x ab c b = Inr (f c)" by auto
  then show ?case using Cons by (simp add: exact_from_cache_simps)
qed simp

text \<open>Every update hits one row.\<close>

lemma rows_affected_sum: "rows_affected on vs t = sum_list (map (\<lambda>r. if \<exists>v\<in>set vs. on r v then 1 else 0) t)"
  by (induction t) (simp_all add: rows_affected_def)

lemma rows_affected_length:
  assumes "distinct (map g vs)" "\<And>r v w. on r v \<Longrightarrow> on r w \<Longrightarrow> g v = g w"
    and "\<forall>v\<in>set vs. rows_affected on [v] t = 1"
  shows "rows_affected on vs t = length vs"
  using assms(1,3)
proof (induction vs)
  case (Cons v vs)
  have "\<not> (\<exists>w\<in>set vs. on r w)" if "on r v" for r
    using Cons.prems(1) assms(2) [OF that] by (metis distinct.simps(2) image_eqI list.set_map list.simps(9))
  then have "(if \<exists>w\<in>set (v # vs). on r w then 1 else 0) = (if \<exists>w\<in>set [v]. on r w then 1 else 0) + (if \<exists>w\<in>set vs. on r w then 1 else 0 :: nat)" for r
    by (cases "on r v") simp_all
  then have "rows_affected on (v # vs) t = rows_affected on [v] t + rows_affected on vs t"
    by (simp add: rows_affected_sum sum_list_addf)
  then show ?case using Cons by simp
qed (simp add: rows_affected_def)

lemma single_row_affected:
  assumes "keys_distinct stake_key t" "r \<in> set t" "exact_on r up"
  shows "rows_affected exact_on [up] t = 1"
proof -
  have "filter (\<lambda>q. exact_on q up) t = filter (\<lambda>q. q = r) t"
    using assms by (intro filter_cong refl) (auto simp: exact_on_def keys_distinct_def distinct_map inj_on_def stake_key_def)
  also have "\<dots> = [r]" using assms(1,2) by (induction t) (auto simp: keys_distinct_def filter_empty_conv)
  finally show ?thesis by (simp add: rows_affected_def)
qed


lemma write_exact_count:
  assumes kd: "keys_distinct stake_key (w_stakes s)"
    and d: "distinct (map (\<lambda>u. (xu_delegator u, xu_block u)) (concat cs))"
    and hit: "\<forall>up\<in>set (concat cs). \<exists>r\<in>set (w_stakes s). exact_on r up"
  shows "fst (fold (write_exact x choice) cs (n, s)) = n + length (concat cs)"
  using assms
proof (induction cs arbitrary: n s)
  case (Cons c cs)
  let ?t = "s\<lparr>w_stakes := update_from choice exact_on (set_exact x) c (w_stakes s)\<rparr>"
  have up: "w_stakes ?t = map (update_one exact_on (set_exact x) c) (w_stakes s)"
    using Cons.prems(2) set_exact_rows [of "[c]" choice x "w_stakes s"] by simp
  have same: "stake_key (update_one exact_on (set_exact x) c r) = stake_key r"
      "exact_on (update_one exact_on (set_exact x) c r) up = exact_on r up" for r up
    by (simp_all add: update_one_def set_exact_def stake_key_def exact_on_def split: option.split)
  have "rows_affected exact_on c (w_stakes s) = length c"
  proof (rule rows_affected_length)
    show "distinct (map (\<lambda>u. (xu_delegator u, xu_block u)) c)" using Cons.prems(2) by simp
    show "\<forall>v\<in>set c. rows_affected exact_on [v] (w_stakes s) = 1"
      using Cons.prems(3) single_row_affected [OF Cons.prems(1)] by fastforce
  qed (simp add: exact_on_def)
  moreover have "fst (fold (write_exact x choice) cs (n + length c, ?t)) = n + length c + length (concat cs)"
  proof (rule Cons.IH)
    show "keys_distinct stake_key (w_stakes ?t)" unfolding up by (rule keys_distinct_map [OF same(1) Cons.prems(1)])
    show "distinct (map (\<lambda>u. (xu_delegator u, xu_block u)) (concat cs))" using Cons.prems(2) by simp
    show "\<forall>up\<in>set (concat cs). \<exists>r\<in>set (w_stakes ?t). exact_on r up" using Cons.prems(3) unfolding up by (auto simp: same)
  qed
  moreover have "write_exact x choice c (n, s) = (n + rows_affected exact_on c (w_stakes s), ?t)" by (simp add: write_exact_def)
  ultimately show ?case by simp
qed simp

text \<open>With every answer cached a reconciliation needs no network and says how many rows it wrote.\<close>

lemma reconcile_cached:
  fixes t :: "'n world"
  assumes kd: "keys_distinct stake_key (w_stakes t)"
    and all: "\<forall>c\<in>set (exact_calls x ab bm t). \<exists>up. exact_true x ab t c up"
  shows "reconcile_exact_stake_rows x co p ab choice bm t
    = (Inr (length (exact_calls x ab bm t)), t\<lparr>w_stakes := map (corrected x ab bm t) (w_stakes t)\<rparr>)"
proof -
  let ?calls = "exact_calls x ab bm t" and ?cm = "prefetch_cache (map xc_hash (exact_calls x ab bm t)) t"
  define f where "f c = (SOME up. exact_true x ab t c up)" for c
  have f: "exact_true x ab t c (f c)" if "c \<in> set ?calls" for c
    unfolding f_def using all that by (blast intro: someI)
  let ?ups = "map f ?calls"
  have hits: "\<forall>c\<in>set ?calls. \<exists>b. ?cm (xc_hash c) = Some b \<and> exact_update_of x ab c b = Inr (f c)"
  proof
    fix c assume c: "c \<in> set ?calls"
    obtain b where "answers x t (exact_request c) b" "exact_update_of x ab c b = Inr (f c)"
      using f [OF c] by (auto simp: exact_true_def)
    then show "\<exists>b. ?cm (xc_hash c) = Some b \<and> exact_update_of x ab c b = Inr (f c)"
      using c by (auto simp: answers_def exact_calls_hash [OF c] cached_outcome_def prefetch_cache_def split: option.splits)
  qed
  have tu: "true_updates x ab t (mset ?calls) ?ups"
    unfolding true_updates_def using f by (intro exI [of _ ?calls]) (simp add: list_all2_conv_all_nth)
  have cc: "concat (chunks UPDATE_CHUNK ?ups) = ?ups" by (simp add: UPDATE_CHUNK_def)
  have dk: "distinct (map (\<lambda>u. (xu_delegator u, xu_block u)) (concat (chunks UPDATE_CHUNK ?ups)))"
    unfolding cc by (rule updates_keys [OF kd tu])
  have hit: "\<forall>up\<in>set (concat (chunks UPDATE_CHUNK ?ups)). \<exists>r\<in>set (w_stakes t). exact_on r up"
  proof
    fix up assume "up \<in> set (concat (chunks UPDATE_CHUNK ?ups))"
    then have "up \<in> set ?ups" by (simp only: cc)
    then obtain q c where "q \<in> set (w_stakes t)" "t_chain q = ARBITRUM_CHAIN_ID" "exact_call_of x ab bm q = Some c" "exact_true x ab t c up"
      using updates_from_rows [OF tu] by blast
    then show "\<exists>r\<in>set (w_stakes t). exact_on r up"
      using exact_call_hash exact_true_key by (fastforce simp: exact_on_def)
  qed
  have "map (update_one exact_on (set_exact x) ?ups) (w_stakes t) = map (corrected x ab bm t) (w_stakes t)"
    using updates_correct [OF kd tu] by (intro map_cong refl)
  then have w: "snd (fold (write_exact x choice) (chunks UPDATE_CHUNK ?ups) (0, t)) = t\<lparr>w_stakes := map (corrected x ab bm t) (w_stakes t)\<rparr>"
    unfolding write_exact_tables set_exact_rows [OF dk] unfolding cc by simp
  have n: "fst (fold (write_exact x choice) (chunks UPDATE_CHUNK ?ups) (0, t)) = length ?calls"
    using write_exact_count [OF kd dk hit, of x choice 0] by (simp add: cc)
  show ?thesis
    unfolding reconcile_exact_stake_rows_def exact_calls_def [symmetric] Let_def
    using all_cached [OF hits, of "[]" "[]" t] w n
    by (simp add: andthen_def ret_def split: prod.split) (metis fst_conv snd_conv)
qed



section \<open>A concrete reconciliation\<close>

text \<open>One stake row and the cached answer of its \<open>getDelegator\<close> call.\<close>

definition stake_call :: exact_call where
  "stake_call = the (exact_call_of sample_ext sample_bonding ''b'' bonded_row)"

definition stake_world :: "unit world" where
  "stake_world = (empty_world ())\<lparr>w_stakes := [bonded_row], w_cache := [answer_row (exact_request stake_call)]\<rparr>"

lemma bonded_call: "exact_call_of sample_ext sample_bonding ''b'' bonded_row = Some stake_call"
  using address_one by (simp add: stake_call_def exact_call_of_def bonded_row_def call_for_get_delegator_def Let_def del: One_nat_def)

lemma stake_world_calls: "exact_calls sample_ext sample_bonding ''b'' stake_world = [stake_call]"
proof -
  have "exact_rows sample_ext stake_world = [bonded_row]"
    by (simp add: exact_rows_def stake_world_def empty_world_def bonded_row_def)
  then show ?thesis by (simp add: exact_calls_def List.map_filter_def bonded_call)
qed

definition stake_update :: exact_update where
  "stake_update = \<lparr>xu_delegator = ''1'', xu_block = 3, xu_principal = 9 / 10 ^ 18, xu_delegate = addr_lower 1\<rparr>"

lemma stake_answer: "exact_true sample_ext sample_bonding stake_world stake_call stake_update"
proof -
  have "answers sample_ext stake_world (exact_request stake_call) ''00''"
    by (simp add: answers_def cached_outcome_def cache_get_def cache_row_at_def stake_world_def find_row_Cons answer_hash)
  moreover have "exact_update_of sample_ext sample_bonding stake_call ''00'' = Inr stake_update"
    using exact_call_hash [OF bonded_call]
    by (simp add: exact_update_of_def decode_get_delegator_def answer_hex_def sample_ext_def sample_bonding_def
        u256_to_decimal_def STAKE_DECIMALS_def stake_update_def bonded_row_def show_nat_def parse_digits_show_base)
  ultimately show ?thesis unfolding exact_true_def by blast
qed


end
