(* ===== verification/Rollup_Base.thy ===== *)
theory Rollup_Base
  imports World
begin

text \<open>
  What the daily rollups of \<open>crates/livepeer-rollups/src/\<close> share: the tables only they read or
  write next to the world (\<open>reorg_mutations\<close>, \<open>broadcaster_classifications\<close> and the four
  daily tables, of which the rows of Arbitrum are kept, the only ones any statement touches),
  the day of a timestamp, the hash map of the aggregates and the checkpoints.
\<close>

section \<open>Rows\<close>

record mutation_row =
  m_id :: int
  m_event :: int

record kind_row =
  b_chain :: int
  b_address :: string
  b_kind :: string

record tickets_key =
  tk_day :: int
  tk_kind :: string

record tickets_agg =
  ta_count :: int
  ta_orchestrators :: int
  ta_gateways :: int
  ta_max_event :: int

record payouts_key =
  pk_day :: int
  pk_orchestrator :: string
  pk_version :: string
  pk_kind :: string

record payouts_agg =
  pa_count :: int
  pa_face :: rat
  pa_face_usd :: rat
  pa_commission :: rat
  pa_commission_usd :: rat
  pa_delegators :: rat
  pa_delegators_usd :: rat
  pa_gateways :: int
  pa_priced :: int
  pa_max_event :: int

record rewards_key =
  rk_day :: int
  rk_orchestrator :: string
  rk_version :: string

record rewards_agg =
  ra_count :: int
  ra_total :: rat
  ra_total_usd :: rat
  ra_orch :: rat
  ra_orch_usd :: rat
  ra_delegators :: rat
  ra_delegators_usd :: rat
  ra_priced :: int
  ra_max_event :: int

record metrics_key =
  mk_day :: int
  mk_contract :: string
  mk_event :: string
  mk_asset :: string
  mk_version :: string

record metrics_agg =
  ma_count :: int
  ma_native :: rat
  ma_usd :: rat
  ma_priced :: int
  ma_last_event :: int

record 'n warehouse =
  h_world :: "'n world"
  h_mutations :: "mutation_row list"
  h_kinds :: "kind_row list"
  h_tickets :: "(tickets_key \<times> tickets_agg) list"
  h_payouts :: "(payouts_key \<times> payouts_agg) list"
  h_rewards :: "(rewards_key \<times> rewards_agg) list"
  h_metrics :: "(metrics_key \<times> metrics_agg) list"

record rollup_summary =
  rs_events_seen :: nat
  rs_rows_written :: nat
  rs_groups_touched :: nat
  rs_checkpoint :: "int option"

section \<open>Reading\<close>

text \<open>The UTC day of a timestamp, as a count of days.\<close>

definition day_utc :: "int \<Rightarrow> int" where
  "day_utc ts = ts div 86400"

text \<open>\<open>LEFT JOIN broadcaster_classifications\<close> on its primary key, with the default of the \<open>COALESCE\<close>.\<close>

definition broadcaster_kind :: "'n warehouse \<Rightarrow> event_row \<Rightarrow> string" where
  "broadcaster_kind h e =
     (case List.find (\<lambda>b. b_chain b = e_chain e \<and> e_from e = Some (b_address b)) (h_kinds h) of
        None \<Rightarrow> ''transcoding''
      | Some b \<Rightarrow> b_kind b)"

definition events_of :: "'n warehouse \<Rightarrow> event_row list" where
  "events_of h = sort_key e_id (w_events (h_world h))"

definition after_event :: "int option \<Rightarrow> event_row \<Rightarrow> bool" where
  "after_event cp e \<longleftrightarrow> (case cp of None \<Rightarrow> True | Some c \<Rightarrow> e_id e > c)"

definition named_checkpoint :: "string \<Rightarrow> 'n warehouse \<Rightarrow> int option" where
  "named_checkpoint name h = checkpoint (w_checkpoints (h_world h)) name"

definition advance_named_checkpoint :: "string \<Rightarrow> int \<Rightarrow> 'n warehouse \<Rightarrow> 'n warehouse" where
  "advance_named_checkpoint name v h =
     h\<lparr>h_world := (h_world h)\<lparr>w_checkpoints := advance_greatest name v (w_checkpoints (h_world h))\<rparr>\<rparr>"

definition or_zero :: "int option \<Rightarrow> int" where
  "or_zero c = (case c of None \<Rightarrow> 0 | Some v \<Rightarrow> v)"

text \<open>\<open>reorg_mutations m JOIN raw_protocol_events e\<close> after the checkpoint, in the order of the mutations.\<close>

definition mutated_events :: "(event_row \<Rightarrow> bool) \<Rightarrow> int option \<Rightarrow> 'n warehouse \<Rightarrow> (mutation_row \<times> event_row) list" where
  "mutated_events P cp h =
     concat (map (\<lambda>m. map (Pair m) (filter (\<lambda>e. e_id e = m_event m \<and> e_chain e = ARBITRUM_CHAIN_ID \<and> P e)
         (w_events (h_world h))))
       (filter (\<lambda>m. m_id m > or_zero cp) (sort_key m_id (h_mutations h))))"

section \<open>Aggregates\<close>

text \<open>\<open>aggregates.entry(key).or_insert_with(zero)\<close> followed by the updates of the entry.\<close>

fun entry_with :: "'a \<Rightarrow> ('a \<Rightarrow> 'a) \<Rightarrow> 'k \<Rightarrow> ('k \<times> 'a) list \<Rightarrow> ('k \<times> 'a) list" where
  "entry_with z f k [] = [(k, f z)]"
| "entry_with z f k ((k', a) # t) =
     (if k = k' then (k', f a) # t else (k', a) # entry_with z f k t)"

text \<open>The row of a key, an upsert that merges the old columns with the new ones, and a deletion.\<close>

definition get_aggregate :: "('k \<times> 'a) list \<Rightarrow> 'k \<Rightarrow> 'a option" where
  "get_aggregate t k = map_option snd (find_row fst t k)"

definition put_aggregate :: "('a \<Rightarrow> 'a \<Rightarrow> 'a) \<Rightarrow> 'k \<times> 'a \<Rightarrow> ('k \<times> 'a) list \<Rightarrow> ('k \<times> 'a) list" where
  "put_aggregate merge r t = upsert fst (\<lambda>old new. (fst old, merge (snd old) (snd new))) r t"

definition drop_aggregate :: "'k \<Rightarrow> ('k \<times> 'a) list \<Rightarrow> ('k \<times> 'a) list" where
  "drop_aggregate k t = filter (\<lambda>r. fst r \<noteq> k) t"

section \<open>Points in time\<close>

text \<open>
  The shares of an orchestrator at its \<open>TranscoderUpdate\<close> events, read once per orchestrator into
  a hash map; a share that does not parse is an error.
\<close>

record cut_point =
  cp_block :: int
  cp_log :: int
  cp_raw :: rat

definition compare_event_position :: "int \<Rightarrow> int \<Rightarrow> int \<Rightarrow> int \<Rightarrow> int" where
  "compare_event_position left_block left_log right_block right_log =
     (if left_block < right_block then -1
      else if left_block > right_block then 1
      else if left_log < right_log then -1
      else if left_log > right_log then 1
      else 0)"

definition transcoder_updates :: "string \<Rightarrow> 'n warehouse \<Rightarrow> event_row list" where
  "transcoder_updates orchestrator h =
     sort_key e_block (sort_key e_log (filter (\<lambda>e. e_chain e = ARBITRUM_CHAIN_ID \<and> e_canonical e
        \<and> e_contract e = ''BondingManager'' \<and> e_name e = ''TranscoderUpdate''
        \<and> e_to e = Some orchestrator) (w_events (h_world h))))"

definition cut_point_of :: "ext \<Rightarrow> string \<Rightarrow> event_row \<Rightarrow> cut_point option" where
  "cut_point_of x field e =
     map_option (\<lambda>q. \<lparr>cp_block = e_block e, cp_log = e_log e, cp_raw = q\<rparr>)
       (bd_parse x (case decoded_field x field e of None \<Rightarrow> ''0'' | Some t \<Rightarrow> t))"

fun collect_points :: "cut_point option list \<Rightarrow> cut_point list option" where
  "collect_points [] = Some []"
| "collect_points (None # ps) = None"
| "collect_points (Some p # ps) = map_option (Cons p) (collect_points ps)"

fun select_point :: "int \<Rightarrow> int \<Rightarrow> rat \<Rightarrow> cut_point list \<Rightarrow> rat" where
  "select_point b l selected [] = selected"
| "select_point b l selected (p # ps) =
     (if compare_event_position (cp_block p) (cp_log p) b l > 0 then selected
      else select_point b l (cp_raw p) ps)"

type_synonym cut_cache = "string \<Rightarrow> cut_point list option"

definition raw_at_block ::
  "ext \<Rightarrow> string \<Rightarrow> string \<Rightarrow> string \<Rightarrow> int \<Rightarrow> int \<Rightarrow> cut_cache \<Rightarrow> ('n warehouse, string, rat \<times> cut_cache) io" where
  "raw_at_block x field err orchestrator block_number log_index cache h =
     (case cache orchestrator of
        Some points \<Rightarrow> (Inr (select_point block_number log_index 0 points, cache), h)
      | None \<Rightarrow>
          (case collect_points (map (cut_point_of x field) (transcoder_updates orchestrator h)) of
             None \<Rightarrow> (Inl err, h)
           | Some points \<Rightarrow>
               (Inr (select_point block_number log_index 0 points, cache(orchestrator \<mapsto> points)), h)))"

end
