(* ===== verification/Rollup_Tickets.thy ===== *)
theory Rollup_Tickets
  imports Rollup_Base
begin

text \<open>
  \<open>crates/livepeer-rollups/src/tickets.rs\<close>: winning tickets per day and kind of broadcaster. New
  events are added to the stored row of their key, events of recorded reorg mutations make their
  keys be rebuilt. The orders in which the hash map and the hash set are visited are arguments.
\<close>

definition TICKETS_CHECKPOINT :: string where
  "TICKETS_CHECKPOINT = ''rollup_tickets_daily''"

definition TICKETS_REORG_CHECKPOINT :: string where
  "TICKETS_REORG_CHECKPOINT = ''rollup_tickets_daily_reorg''"

record ticket_row =
  tr_event :: int
  tr_ts :: int
  tr_kind :: string
  tr_gateway :: string
  tr_orchestrator :: string

definition tickets_zero :: tickets_agg where
  "tickets_zero = \<lparr>ta_count = 0, ta_orchestrators = 0, ta_gateways = 0, ta_max_event = 0\<rparr>"

section \<open>Reading\<close>

definition is_ticket :: "bool \<Rightarrow> event_row \<Rightarrow> bool" where
  "is_ticket include_tentative e \<longleftrightarrow> e_chain e = ARBITRUM_CHAIN_ID \<and> e_name e = ''WinningTicketRedeemed''
     \<and> e_canonical e \<and> (include_tentative \<or> e_finality e = Finalized)
     \<and> e_from e \<noteq> None \<and> e_to e \<noteq> None"

definition ticket_row_of :: "'n warehouse \<Rightarrow> event_row \<Rightarrow> ticket_row" where
  "ticket_row_of h e =
     \<lparr>tr_event = e_id e, tr_ts = e_ts e, tr_kind = broadcaster_kind h e,
      tr_gateway = the (e_from e), tr_orchestrator = the (e_to e)\<rparr>"

definition tickets_key_of :: "ticket_row \<Rightarrow> tickets_key" where
  "tickets_key_of row = \<lparr>tk_day = day_utc (tr_ts row), tk_kind = tr_kind row\<rparr>"

definition fetch_ticket_rows :: "bool \<Rightarrow> int option \<Rightarrow> nat \<Rightarrow> 'n warehouse \<Rightarrow> ticket_row list" where
  "fetch_ticket_rows include_tentative resume_from limit h =
     map (ticket_row_of h) (take limit (filter (\<lambda>e. is_ticket include_tentative e \<and> after_event resume_from e)
       (events_of h)))"

definition fetch_ticket_rows_for_key :: "bool \<Rightarrow> tickets_key \<Rightarrow> 'n warehouse \<Rightarrow> ticket_row list" where
  "fetch_ticket_rows_for_key include_tentative key h =
     filter (\<lambda>row. tickets_key_of row = key)
       (map (ticket_row_of h) (filter (is_ticket include_tentative) (events_of h)))"

text \<open>Whether an earlier canonical event of the key's day and kind has the same address.\<close>

definition tickets_prior :: "(event_row \<Rightarrow> string option) \<Rightarrow> string \<Rightarrow> ticket_row \<Rightarrow> tickets_key \<Rightarrow> 'n warehouse \<Rightarrow> bool" where
  "tickets_prior side address row key h \<longleftrightarrow> (\<exists>e\<in>set (w_events (h_world h)).
     e_chain e = ARBITRUM_CHAIN_ID \<and> e_name e = ''WinningTicketRedeemed'' \<and> e_canonical e
     \<and> e_id e < tr_event row \<and> side e = Some address
     \<and> tk_day key * 86400 \<le> e_ts e \<and> e_ts e < (tk_day key + 1) * 86400
     \<and> broadcaster_kind h e = tk_kind key)"

definition tickets_prior_gateway_seen :: "ticket_row \<Rightarrow> tickets_key \<Rightarrow> 'n warehouse \<Rightarrow> bool" where
  "tickets_prior_gateway_seen row key h = tickets_prior e_from (tr_gateway row) row key h"

definition tickets_prior_orchestrator_seen :: "ticket_row \<Rightarrow> tickets_key \<Rightarrow> 'n warehouse \<Rightarrow> bool" where
  "tickets_prior_orchestrator_seen row key h = tickets_prior e_to (tr_orchestrator row) row key h"

definition tickets_existing_keys :: "int \<Rightarrow> 'n warehouse \<Rightarrow> tickets_key list" where
  "tickets_existing_keys event_id h = map fst (filter (\<lambda>r. ta_max_event (snd r) \<ge> event_id) (h_tickets h))"

definition tickets_current_keys :: "bool \<Rightarrow> int \<Rightarrow> 'n warehouse \<Rightarrow> tickets_key list" where
  "tickets_current_keys include_tentative event_id h =
     map (tickets_key_of \<circ> ticket_row_of h)
       (filter (\<lambda>e. e_id e = event_id \<and> is_ticket include_tentative e) (w_events (h_world h)))"

section \<open>Writing\<close>

definition tickets_merge :: "tickets_agg \<Rightarrow> tickets_agg \<Rightarrow> tickets_agg" where
  "tickets_merge old new =
     \<lparr>ta_count = ta_count old + ta_count new,
      ta_orchestrators = ta_orchestrators old + ta_orchestrators new,
      ta_gateways = ta_gateways old + ta_gateways new,
      ta_max_event = max (ta_max_event old) (ta_max_event new)\<rparr>"

definition tickets_upsert :: "tickets_key \<times> tickets_agg \<Rightarrow> 'n warehouse \<Rightarrow> 'n warehouse" where
  "tickets_upsert r h = h\<lparr>h_tickets := put_aggregate tickets_merge r (h_tickets h)\<rparr>"

definition tickets_replace :: "tickets_key \<times> tickets_agg \<Rightarrow> 'n warehouse \<Rightarrow> 'n warehouse" where
  "tickets_replace r h = h\<lparr>h_tickets := put_aggregate (\<lambda>old new. new) r (h_tickets h)\<rparr>"

definition tickets_delete :: "tickets_key \<Rightarrow> 'n warehouse \<Rightarrow> 'n warehouse" where
  "tickets_delete key h = h\<lparr>h_tickets := drop_aggregate key (h_tickets h)\<rparr>"

section \<open>Rebuilding\<close>

definition tickets_count_row :: "ticket_row \<Rightarrow> tickets_agg \<times> string set \<times> string set \<Rightarrow> tickets_agg \<times> string set \<times> string set" where
  "tickets_count_row row st =
     (case st of (a, gateways, orchestrators) \<Rightarrow>
       (\<lparr>ta_count = ta_count a + 1,
         ta_orchestrators = ta_orchestrators a + (if tr_orchestrator row \<in> orchestrators then 0 else 1),
         ta_gateways = ta_gateways a + (if tr_gateway row \<in> gateways then 0 else 1),
         ta_max_event = max (ta_max_event a) (tr_event row)\<rparr>,
        insert (tr_gateway row) gateways, insert (tr_orchestrator row) orchestrators))"

definition tickets_rebuild :: "bool \<Rightarrow> tickets_key \<Rightarrow> 'n warehouse \<Rightarrow> tickets_agg option" where
  "tickets_rebuild include_tentative key h =
     (let source_rows = fetch_ticket_rows_for_key include_tentative key h in
      if source_rows = [] then None
      else Some (fst (fold tickets_count_row source_rows (tickets_zero, {}, {}))))"

definition tickets_rebuild_key :: "bool \<Rightarrow> tickets_key \<Rightarrow> nat \<times> 'n warehouse \<Rightarrow> nat \<times> 'n warehouse" where
  "tickets_rebuild_key include_tentative key nh =
     (case nh of (n, h) \<Rightarrow>
        case tickets_rebuild include_tentative key h of
          Some a \<Rightarrow> (n + 1, tickets_replace (key, a) h)
        | None \<Rightarrow> (n, tickets_delete key h))"

definition tickets_reorg_keys :: "bool \<Rightarrow> (mutation_row \<times> event_row) list \<Rightarrow> 'n warehouse \<Rightarrow> tickets_key list" where
  "tickets_reorg_keys include_tentative rows h =
     remdups (concat (map (\<lambda>(m, e). tickets_existing_keys (m_event m) h
       @ tickets_current_keys include_tentative (m_event m) h) rows))"

definition tickets_process_reorg_mutations ::
  "(tickets_key list \<Rightarrow> tickets_key list) \<Rightarrow> bool \<Rightarrow> 'n warehouse \<Rightarrow> nat \<times> 'n warehouse" where
  "tickets_process_reorg_mutations key_order include_tentative h =
     (let cp = named_checkpoint TICKETS_REORG_CHECKPOINT h;
          rows = mutated_events (\<lambda>e. e_name e = ''WinningTicketRedeemed'') cp h
      in if rows = [] then (0, h)
         else
           let max_mutation_id = fold (\<lambda>(m, e) a. max a (m_id m)) rows (or_zero cp);
               (n, h') = fold (tickets_rebuild_key include_tentative)
                           (key_order (tickets_reorg_keys include_tentative rows h)) (0, h)
           in (n, advance_named_checkpoint TICKETS_REORG_CHECKPOINT max_mutation_id h'))"

section \<open>One run\<close>

record tickets_state =
  ts_aggregates :: "(tickets_key \<times> tickets_agg) list"
  ts_gateways :: "(tickets_key \<times> string) set"
  ts_orchestrators :: "(tickets_key \<times> string) set"
  ts_max_event :: int

definition tickets_step :: "'n warehouse \<Rightarrow> ticket_row \<Rightarrow> tickets_state \<Rightarrow> tickets_state" where
  "tickets_step h row st =
     (let key = tickets_key_of row;
          new_gateway = ((key, tr_gateway row) \<notin> ts_gateways st
                         \<and> \<not> tickets_prior_gateway_seen row key h);
          new_orchestrator = ((key, tr_orchestrator row) \<notin> ts_orchestrators st
                         \<and> \<not> tickets_prior_orchestrator_seen row key h)
      in \<lparr>ts_aggregates = entry_with tickets_zero (\<lambda>a.
            \<lparr>ta_count = ta_count a + 1,
             ta_orchestrators = ta_orchestrators a + (if new_orchestrator then 1 else 0),
             ta_gateways = ta_gateways a + (if new_gateway then 1 else 0),
             ta_max_event = max (ta_max_event a) (tr_event row)\<rparr>) key (ts_aggregates st),
          ts_gateways = insert (key, tr_gateway row) (ts_gateways st),
          ts_orchestrators = insert (key, tr_orchestrator row) (ts_orchestrators st),
          ts_max_event = max (ts_max_event st) (tr_event row)\<rparr>)"

definition tickets_run_once ::
  "(tickets_key list \<Rightarrow> tickets_key list) \<Rightarrow> ((tickets_key \<times> tickets_agg) list \<Rightarrow> (tickets_key \<times> tickets_agg) list)
     \<Rightarrow> bool \<Rightarrow> nat \<Rightarrow> 'n warehouse \<Rightarrow> rollup_summary \<times> 'n warehouse" where
  "tickets_run_once key_order order include_tentative batch_limit h =
     (let (reorg_rows, h1) = tickets_process_reorg_mutations key_order include_tentative h;
          cp = named_checkpoint TICKETS_CHECKPOINT h1;
          rows = fetch_ticket_rows include_tentative cp batch_limit h1
      in if rows = [] then
           (\<lparr>rs_events_seen = 0, rs_rows_written = reorg_rows, rs_groups_touched = 0, rs_checkpoint = cp\<rparr>,
            advance_named_checkpoint TICKETS_CHECKPOINT (or_zero cp) h1)
         else
           let st = fold (tickets_step h1) rows \<lparr>ts_aggregates = [], ts_gateways = {}, ts_orchestrators = {},
                      ts_max_event = or_zero cp\<rparr>;
               h2 = fold tickets_upsert (order (ts_aggregates st)) h1
           in (\<lparr>rs_events_seen = length rows, rs_rows_written = reorg_rows + length (ts_aggregates st),
                rs_groups_touched = length (ts_aggregates st), rs_checkpoint = Some (ts_max_event st)\<rparr>,
               advance_named_checkpoint TICKETS_CHECKPOINT (ts_max_event st) h2))"

end
