(* ===== verification/Rollup_Payouts.thy ===== *)
theory Rollup_Payouts
  imports Rollup_Base
begin

text \<open>
  \<open>crates/livepeer-rollups/src/orch_payouts.rs\<close>: redeemed tickets per day, orchestrator,
  valuation version and kind of broadcaster, split into the commission and the share of the
  delegators by the fee share in force at the event. A run threads the cache of fee shares.
\<close>

definition PAYOUTS_CHECKPOINT :: string where
  "PAYOUTS_CHECKPOINT = ''rollup_orch_payouts_daily''"

definition PAYOUTS_REORG_CHECKPOINT :: string where
  "PAYOUTS_REORG_CHECKPOINT = ''rollup_orch_payouts_daily_reorg''"

definition FEE_SHARE_DENOMINATOR :: rat where
  "FEE_SHARE_DENOMINATOR = 1000000"

record payout_row =
  po_event :: int
  po_block :: int
  po_log :: int
  po_ts :: int
  po_gateway :: string
  po_orchestrator :: string
  po_version :: string
  po_kind :: string
  po_native :: rat
  po_usd :: "rat option"

definition payouts_zero :: payouts_agg where
  "payouts_zero = \<lparr>pa_count = 0, pa_face = 0, pa_face_usd = 0, pa_commission = 0, pa_commission_usd = 0,
     pa_delegators = 0, pa_delegators_usd = 0, pa_gateways = 0, pa_priced = 0, pa_max_event = 0\<rparr>"

definition payouts_key_of :: "payout_row \<Rightarrow> payouts_key" where
  "payouts_key_of row = \<lparr>pk_day = day_utc (po_ts row), pk_orchestrator = po_orchestrator row,
     pk_version = po_version row, pk_kind = po_kind row\<rparr>"

section \<open>Reading\<close>

definition is_payout :: "bool \<Rightarrow> event_row \<Rightarrow> bool" where
  "is_payout include_tentative e \<longleftrightarrow> e_chain e = ARBITRUM_CHAIN_ID \<and> e_name e = ''WinningTicketRedeemed''
     \<and> e_canonical e \<and> (include_tentative \<or> e_finality e = Finalized)"

text \<open>The join with the \<open>ETH\<close> valuations; the rows of one event come in the order of the table.\<close>

definition eth_valuations :: "'n warehouse \<Rightarrow> event_row \<Rightarrow> valuation_row list" where
  "eth_valuations h e = filter (\<lambda>v. v_event v = e_id e \<and> v_asset v = ''ETH'') (w_valuations (h_world h))"

definition payout_row_of :: "'n warehouse \<Rightarrow> event_row \<Rightarrow> valuation_row \<Rightarrow> payout_row" where
  "payout_row_of h e v =
     \<lparr>po_event = e_id e, po_block = e_block e, po_log = e_log e, po_ts = e_ts e,
      po_gateway = the (e_from e), po_orchestrator = the (e_to e), po_version = v_version v,
      po_kind = broadcaster_kind h e, po_native = v_amount v, po_usd = v_usd v\<rparr>"

definition payout_rows :: "(event_row \<Rightarrow> bool) \<Rightarrow> 'n warehouse \<Rightarrow> payout_row list" where
  "payout_rows P h = concat (map (\<lambda>e. map (payout_row_of h e) (eth_valuations h e)) (filter P (events_of h)))"

definition fetch_payout_rows :: "bool \<Rightarrow> int option \<Rightarrow> nat \<Rightarrow> 'n warehouse \<Rightarrow> payout_row list" where
  "fetch_payout_rows include_tentative resume_from limit h =
     take limit (payout_rows (\<lambda>e. is_payout include_tentative e \<and> e_from e \<noteq> None \<and> e_to e \<noteq> None
       \<and> after_event resume_from e) h)"

definition fetch_payout_rows_for_key :: "bool \<Rightarrow> payouts_key \<Rightarrow> 'n warehouse \<Rightarrow> payout_row list" where
  "fetch_payout_rows_for_key include_tentative key h =
     filter (\<lambda>row. payouts_key_of row = key)
       (payout_rows (\<lambda>e. is_payout include_tentative e \<and> e_from e \<noteq> None \<and> e_to e \<noteq> None) h)"

definition fee_share_raw_at_block ::
  "ext \<Rightarrow> string \<Rightarrow> int \<Rightarrow> int \<Rightarrow> cut_cache \<Rightarrow> ('n warehouse, string, rat \<times> cut_cache) io" where
  "fee_share_raw_at_block x = raw_at_block x ''feeShare'' ''parsing feeShare raw''"

definition commission_from_fee_share :: "ext \<Rightarrow> rat \<Rightarrow> rat \<Rightarrow> rat" where
  "commission_from_fee_share x amount fee_share_raw =
     amount * bd_div x (FEE_SHARE_DENOMINATOR - fee_share_raw) FEE_SHARE_DENOMINATOR"

definition payouts_prior_gateway_seen :: "payout_row \<Rightarrow> payouts_key \<Rightarrow> 'n warehouse \<Rightarrow> bool" where
  "payouts_prior_gateway_seen row key h \<longleftrightarrow> (\<exists>e\<in>set (w_events (h_world h)). \<exists>v\<in>set (eth_valuations h e).
     e_chain e = ARBITRUM_CHAIN_ID \<and> e_name e = ''WinningTicketRedeemed'' \<and> e_canonical e
     \<and> e_id e < po_event row \<and> e_from e = Some (po_gateway row) \<and> e_to e = Some (pk_orchestrator key)
     \<and> pk_day key * 86400 \<le> e_ts e \<and> e_ts e < (pk_day key + 1) * 86400
     \<and> v_version v = pk_version key)"

definition payouts_existing_keys :: "string \<Rightarrow> int \<Rightarrow> 'n warehouse \<Rightarrow> payouts_key list" where
  "payouts_existing_keys orchestrator event_id h =
     map fst (filter (\<lambda>r. pk_orchestrator (fst r) = orchestrator \<and> pa_max_event (snd r) \<ge> event_id) (h_payouts h))"

definition payouts_current_keys :: "bool \<Rightarrow> int \<Rightarrow> 'n warehouse \<Rightarrow> payouts_key list" where
  "payouts_current_keys include_tentative event_id h =
     map payouts_key_of (payout_rows (\<lambda>e. e_id e = event_id \<and> is_payout include_tentative e \<and> e_to e \<noteq> None) h)"

section \<open>Writing\<close>

text \<open>
  The columns as \<open>NUMERIC(38, 18)\<close> keeps them; an upsert adds the excluded columns to the
  stored ones.
\<close>

definition payouts_stored :: "ext \<Rightarrow> payouts_agg \<Rightarrow> payouts_agg" where
  "payouts_stored x a =
     a\<lparr>pa_face := numeric18 x (pa_face a), pa_face_usd := numeric18 x (pa_face_usd a),
       pa_commission := numeric18 x (pa_commission a), pa_commission_usd := numeric18 x (pa_commission_usd a),
       pa_delegators := numeric18 x (pa_delegators a), pa_delegators_usd := numeric18 x (pa_delegators_usd a)\<rparr>"

definition payouts_merge :: "payouts_agg \<Rightarrow> payouts_agg \<Rightarrow> payouts_agg" where
  "payouts_merge old new =
     \<lparr>pa_count = pa_count old + pa_count new, pa_face = pa_face old + pa_face new,
      pa_face_usd = pa_face_usd old + pa_face_usd new, pa_commission = pa_commission old + pa_commission new,
      pa_commission_usd = pa_commission_usd old + pa_commission_usd new,
      pa_delegators = pa_delegators old + pa_delegators new,
      pa_delegators_usd = pa_delegators_usd old + pa_delegators_usd new,
      pa_gateways = pa_gateways old + pa_gateways new, pa_priced = pa_priced old + pa_priced new,
      pa_max_event = max (pa_max_event old) (pa_max_event new)\<rparr>"

definition payouts_upsert :: "ext \<Rightarrow> payouts_key \<times> payouts_agg \<Rightarrow> 'n warehouse \<Rightarrow> 'n warehouse" where
  "payouts_upsert x r h =
     h\<lparr>h_payouts := put_aggregate payouts_merge (fst r, payouts_stored x (snd r)) (h_payouts h)\<rparr>"

definition payouts_replace :: "ext \<Rightarrow> payouts_key \<times> payouts_agg \<Rightarrow> 'n warehouse \<Rightarrow> 'n warehouse" where
  "payouts_replace x r h =
     h\<lparr>h_payouts := put_aggregate (\<lambda>old new. new) (fst r, payouts_stored x (snd r)) (h_payouts h)\<rparr>"

definition payouts_delete :: "payouts_key \<Rightarrow> 'n warehouse \<Rightarrow> 'n warehouse" where
  "payouts_delete key h = h\<lparr>h_payouts := drop_aggregate key (h_payouts h)\<rparr>"

section \<open>Adding a row\<close>

text \<open>What one row adds, in the incremental loop and in the rebuilding one alike.\<close>

definition add_payout :: "ext \<Rightarrow> rat \<Rightarrow> int \<Rightarrow> payout_row \<Rightarrow> payouts_agg \<Rightarrow> payouts_agg" where
  "add_payout x fee_share_raw distinct_increment row a =
     (let commission_native = commission_from_fee_share x (po_native row) fee_share_raw;
          a1 = a\<lparr>pa_count := pa_count a + 1, pa_face := pa_face a + po_native row,
                 pa_commission := pa_commission a + commission_native,
                 pa_delegators := pa_delegators a + (po_native row - commission_native)\<rparr>;
          a2 = (case po_usd row of
                  None \<Rightarrow> a1
                | Some usd \<Rightarrow>
                    (let commission_usd = commission_from_fee_share x usd fee_share_raw
                     in a1\<lparr>pa_face_usd := pa_face_usd a1 + usd,
                           pa_commission_usd := pa_commission_usd a1 + commission_usd,
                           pa_delegators_usd := pa_delegators_usd a1 + (usd - commission_usd),
                           pa_priced := pa_priced a1 + 1\<rparr>))
      in a2\<lparr>pa_gateways := pa_gateways a2 + distinct_increment,
            pa_max_event := max (pa_max_event a2) (po_event row)\<rparr>)"

section \<open>Rebuilding\<close>

definition payouts_rebuild_row ::
  "ext \<Rightarrow> payout_row \<Rightarrow> payouts_agg \<times> string set \<times> cut_cache
     \<Rightarrow> ('n warehouse, string, payouts_agg \<times> string set \<times> cut_cache) io" where
  "payouts_rebuild_row x row st =
     (case st of (a, seen, cache) \<Rightarrow>
        andthen (fee_share_raw_at_block x (po_orchestrator row) (po_block row) (po_log row) cache)
          (\<lambda>(fee_share_raw, cache').
             ret (add_payout x fee_share_raw (if po_gateway row \<in> seen then 0 else 1) row a,
                  insert (po_gateway row) seen, cache')))"

definition payouts_rebuild ::
  "ext \<Rightarrow> bool \<Rightarrow> cut_cache \<Rightarrow> payouts_key \<Rightarrow> ('n warehouse, string, payouts_agg option \<times> cut_cache) io" where
  "payouts_rebuild x include_tentative cache key h =
     (let source_rows = fetch_payout_rows_for_key include_tentative key h in
      if source_rows = [] then (Inr (None, cache), h)
      else andthen (fold_io (payouts_rebuild_row x) source_rows (payouts_zero, {}, cache))
             (\<lambda>(a, seen, cache'). ret (Some a, cache')) h)"

definition payouts_rebuild_key ::
  "ext \<Rightarrow> bool \<Rightarrow> payouts_key \<Rightarrow> nat \<times> cut_cache \<Rightarrow> ('n warehouse, string, nat \<times> cut_cache) io" where
  "payouts_rebuild_key x include_tentative key nc =
     (case nc of (n, cache) \<Rightarrow>
        andthen (payouts_rebuild x include_tentative cache key) (\<lambda>(agg, cache').
          case agg of
            Some a \<Rightarrow> andthen (modifying (payouts_replace x (key, a))) (\<lambda>_. ret (n + 1, cache'))
          | None \<Rightarrow> andthen (modifying (payouts_delete key)) (\<lambda>_. ret (n, cache'))))"

definition payouts_reorg_keys :: "bool \<Rightarrow> (mutation_row \<times> event_row) list \<Rightarrow> 'n warehouse \<Rightarrow> payouts_key list" where
  "payouts_reorg_keys include_tentative rows h =
     remdups (concat (map (\<lambda>(m, e). payouts_existing_keys (the (e_to e)) (m_event m) h
       @ payouts_current_keys include_tentative (m_event m) h) rows))"

definition payouts_process_reorg_mutations ::
  "ext \<Rightarrow> (payouts_key list \<Rightarrow> payouts_key list) \<Rightarrow> bool \<Rightarrow> cut_cache \<Rightarrow> ('n warehouse, string, nat \<times> cut_cache) io" where
  "payouts_process_reorg_mutations x key_order include_tentative cache h =
     (let cp = named_checkpoint PAYOUTS_REORG_CHECKPOINT h;
          rows = mutated_events (\<lambda>e. e_name e = ''WinningTicketRedeemed'' \<and> e_to e \<noteq> None) cp h
      in if rows = [] then (Inr (0, cache), h)
         else
           let max_mutation_id = fold (\<lambda>(m, e) a. max a (m_id m)) rows (or_zero cp)
           in andthen (fold_io (payouts_rebuild_key x include_tentative)
                         (key_order (payouts_reorg_keys include_tentative rows h)) (0, cache))
                (\<lambda>nc. andthen (modifying (advance_named_checkpoint PAYOUTS_REORG_CHECKPOINT max_mutation_id))
                   (\<lambda>_. ret nc)) h)"

section \<open>One run\<close>

record payouts_state =
  py_aggregates :: "(payouts_key \<times> payouts_agg) list"
  py_gateways :: "(payouts_key \<times> string) set"
  py_cache :: cut_cache
  py_max_event :: int

definition payouts_step :: "ext \<Rightarrow> payout_row \<Rightarrow> payouts_state \<Rightarrow> ('n warehouse, string, payouts_state) io" where
  "payouts_step x row st =
     andthen (fee_share_raw_at_block x (po_orchestrator row) (po_block row) (po_log row) (py_cache st))
       (\<lambda>(fee_share_raw, cache) h.
          let key = payouts_key_of row;
              increment = (if (key, po_gateway row) \<in> py_gateways st then 0
                           else if payouts_prior_gateway_seen row key h then 0 else 1)
          in (Inr \<lparr>py_aggregates = entry_with payouts_zero (add_payout x fee_share_raw increment row) key (py_aggregates st),
                   py_gateways = insert (key, po_gateway row) (py_gateways st), py_cache = cache,
                   py_max_event = max (py_max_event st) (po_event row)\<rparr>, h))"

definition payouts_run_once ::
  "ext \<Rightarrow> (payouts_key list \<Rightarrow> payouts_key list) \<Rightarrow> ((payouts_key \<times> payouts_agg) list \<Rightarrow> (payouts_key \<times> payouts_agg) list)
     \<Rightarrow> bool \<Rightarrow> nat \<Rightarrow> ('n warehouse, string, rollup_summary) io" where
  "payouts_run_once x key_order order include_tentative batch_limit =
     andthen (payouts_process_reorg_mutations x key_order include_tentative (\<lambda>_. None)) (\<lambda>(reorg_rows, cache) h.
       let cp = named_checkpoint PAYOUTS_CHECKPOINT h;
           rows = fetch_payout_rows include_tentative cp batch_limit h
       in if rows = [] then
            (Inr \<lparr>rs_events_seen = 0, rs_rows_written = reorg_rows, rs_groups_touched = 0, rs_checkpoint = cp\<rparr>,
             advance_named_checkpoint PAYOUTS_CHECKPOINT (or_zero cp) h)
          else
            andthen (fold_io (payouts_step x) rows \<lparr>py_aggregates = [], py_gateways = {}, py_cache = cache,
                       py_max_event = or_zero cp\<rparr>)
              (\<lambda>st h'. (Inr \<lparr>rs_events_seen = length rows, rs_rows_written = reorg_rows + length (py_aggregates st),
                            rs_groups_touched = length (py_aggregates st), rs_checkpoint = Some (py_max_event st)\<rparr>,
                        advance_named_checkpoint PAYOUTS_CHECKPOINT (py_max_event st)
                          (fold (payouts_upsert x) (order (py_aggregates st)) h')))
              h)"

end
