(* ===== verification/Rollup_Rewards.thy ===== *)
theory Rollup_Rewards
  imports Rollup_Base
begin

text \<open>
  \<open>crates/livepeer-rollups/src/orch_rewards.rs\<close>: reward events per day, orchestrator and
  valuation version, split by the reward cut in force at the event.
\<close>

definition REWARDS_CHECKPOINT :: string where
  "REWARDS_CHECKPOINT = ''rollup_orch_rewards_daily''"

definition REWARDS_REORG_CHECKPOINT :: string where
  "REWARDS_REORG_CHECKPOINT = ''rollup_orch_rewards_daily_reorg''"

definition REWARD_CUT_DENOMINATOR :: rat where
  "REWARD_CUT_DENOMINATOR = 1000000"

record reward_row =
  rr_event :: int
  rr_block :: int
  rr_log :: int
  rr_ts :: int
  rr_orchestrator :: string
  rr_version :: string
  rr_native :: rat
  rr_usd :: "rat option"

definition rewards_zero :: rewards_agg where
  "rewards_zero = \<lparr>ra_count = 0, ra_total = 0, ra_total_usd = 0, ra_orch = 0, ra_orch_usd = 0,
     ra_delegators = 0, ra_delegators_usd = 0, ra_priced = 0, ra_max_event = 0\<rparr>"

definition rewards_key_of :: "reward_row \<Rightarrow> rewards_key" where
  "rewards_key_of row = \<lparr>rk_day = day_utc (rr_ts row), rk_orchestrator = rr_orchestrator row,
     rk_version = rr_version row\<rparr>"

section \<open>Reading\<close>

definition is_reward :: "bool \<Rightarrow> event_row \<Rightarrow> bool" where
  "is_reward include_tentative e \<longleftrightarrow> e_chain e = ARBITRUM_CHAIN_ID \<and> e_name e = ''Reward'' \<and> e_canonical e
     \<and> (include_tentative \<or> e_finality e = Finalized) \<and> e_to e \<noteq> None"

definition reward_row_of :: "event_row \<Rightarrow> valuation_row \<Rightarrow> reward_row" where
  "reward_row_of e v =
     \<lparr>rr_event = e_id e, rr_block = e_block e, rr_log = e_log e, rr_ts = e_ts e,
      rr_orchestrator = the (e_to e), rr_version = v_version v, rr_native = v_amount v, rr_usd = v_usd v\<rparr>"

definition reward_rows :: "(event_row \<Rightarrow> bool) \<Rightarrow> 'n warehouse \<Rightarrow> reward_row list" where
  "reward_rows P h =
     concat (map (\<lambda>e. map (reward_row_of e)
         (filter (\<lambda>v. v_event v = e_id e \<and> v_asset v = ''LPT'') (w_valuations (h_world h))))
       (filter P (events_of h)))"

definition fetch_reward_rows :: "bool \<Rightarrow> int option \<Rightarrow> nat \<Rightarrow> 'n warehouse \<Rightarrow> reward_row list" where
  "fetch_reward_rows include_tentative resume_from limit h =
     take limit (reward_rows (\<lambda>e. is_reward include_tentative e \<and> after_event resume_from e) h)"

definition fetch_reward_rows_for_key :: "bool \<Rightarrow> rewards_key \<Rightarrow> 'n warehouse \<Rightarrow> reward_row list" where
  "fetch_reward_rows_for_key include_tentative key h =
     filter (\<lambda>row. rewards_key_of row = key) (reward_rows (is_reward include_tentative) h)"

definition reward_cut_raw_at_block ::
  "ext \<Rightarrow> string \<Rightarrow> int \<Rightarrow> int \<Rightarrow> cut_cache \<Rightarrow> ('n warehouse, string, rat \<times> cut_cache) io" where
  "reward_cut_raw_at_block x = raw_at_block x ''rewardCut'' ''parsing rewardCut raw''"

definition share_from_raw_percent :: "ext \<Rightarrow> rat \<Rightarrow> rat \<Rightarrow> rat" where
  "share_from_raw_percent x amount raw_percent = bd_div x (amount * raw_percent) REWARD_CUT_DENOMINATOR"

definition rewards_existing_keys :: "string \<Rightarrow> int \<Rightarrow> 'n warehouse \<Rightarrow> rewards_key list" where
  "rewards_existing_keys orchestrator event_id h =
     map fst (filter (\<lambda>r. rk_orchestrator (fst r) = orchestrator \<and> ra_max_event (snd r) \<ge> event_id) (h_rewards h))"

definition rewards_current_keys :: "bool \<Rightarrow> int \<Rightarrow> 'n warehouse \<Rightarrow> rewards_key list" where
  "rewards_current_keys include_tentative event_id h =
     map rewards_key_of (reward_rows (\<lambda>e. e_id e = event_id \<and> is_reward include_tentative e) h)"

section \<open>Writing\<close>

definition rewards_stored :: "ext \<Rightarrow> rewards_agg \<Rightarrow> rewards_agg" where
  "rewards_stored x a =
     a\<lparr>ra_total := numeric18 x (ra_total a), ra_total_usd := numeric18 x (ra_total_usd a),
       ra_orch := numeric18 x (ra_orch a), ra_orch_usd := numeric18 x (ra_orch_usd a),
       ra_delegators := numeric18 x (ra_delegators a), ra_delegators_usd := numeric18 x (ra_delegators_usd a)\<rparr>"

definition rewards_merge :: "rewards_agg \<Rightarrow> rewards_agg \<Rightarrow> rewards_agg" where
  "rewards_merge old new =
     \<lparr>ra_count = ra_count old + ra_count new, ra_total = ra_total old + ra_total new,
      ra_total_usd = ra_total_usd old + ra_total_usd new, ra_orch = ra_orch old + ra_orch new,
      ra_orch_usd = ra_orch_usd old + ra_orch_usd new, ra_delegators = ra_delegators old + ra_delegators new,
      ra_delegators_usd = ra_delegators_usd old + ra_delegators_usd new,
      ra_priced = ra_priced old + ra_priced new, ra_max_event = max (ra_max_event old) (ra_max_event new)\<rparr>"

definition rewards_upsert :: "ext \<Rightarrow> rewards_key \<times> rewards_agg \<Rightarrow> 'n warehouse \<Rightarrow> 'n warehouse" where
  "rewards_upsert x r h =
     h\<lparr>h_rewards := put_aggregate rewards_merge (fst r, rewards_stored x (snd r)) (h_rewards h)\<rparr>"

definition rewards_replace :: "ext \<Rightarrow> rewards_key \<times> rewards_agg \<Rightarrow> 'n warehouse \<Rightarrow> 'n warehouse" where
  "rewards_replace x r h =
     h\<lparr>h_rewards := put_aggregate (\<lambda>old new. new) (fst r, rewards_stored x (snd r)) (h_rewards h)\<rparr>"

definition rewards_delete :: "rewards_key \<Rightarrow> 'n warehouse \<Rightarrow> 'n warehouse" where
  "rewards_delete key h = h\<lparr>h_rewards := drop_aggregate key (h_rewards h)\<rparr>"

section \<open>Adding a row\<close>

definition add_reward :: "ext \<Rightarrow> rat \<Rightarrow> reward_row \<Rightarrow> rewards_agg \<Rightarrow> rewards_agg" where
  "add_reward x reward_cut_raw row a =
     (let orch_tokens = share_from_raw_percent x (rr_native row) reward_cut_raw;
          a1 = a\<lparr>ra_count := ra_count a + 1, ra_total := ra_total a + rr_native row,
                 ra_orch := ra_orch a + orch_tokens,
                 ra_delegators := ra_delegators a + (rr_native row - orch_tokens)\<rparr>;
          a2 = (case rr_usd row of
                  None \<Rightarrow> a1
                | Some usd \<Rightarrow>
                    (let orch_usd = share_from_raw_percent x usd reward_cut_raw
                     in a1\<lparr>ra_total_usd := ra_total_usd a1 + usd, ra_orch_usd := ra_orch_usd a1 + orch_usd,
                           ra_delegators_usd := ra_delegators_usd a1 + (usd - orch_usd),
                           ra_priced := ra_priced a1 + 1\<rparr>))
      in a2\<lparr>ra_max_event := max (ra_max_event a2) (rr_event row)\<rparr>)"

section \<open>Rebuilding\<close>

definition rewards_rebuild_row ::
  "ext \<Rightarrow> reward_row \<Rightarrow> rewards_agg \<times> cut_cache \<Rightarrow> ('n warehouse, string, rewards_agg \<times> cut_cache) io" where
  "rewards_rebuild_row x row st =
     (case st of (a, cache) \<Rightarrow>
        andthen (reward_cut_raw_at_block x (rr_orchestrator row) (rr_block row) (rr_log row) cache)
          (\<lambda>(reward_cut_raw, cache'). ret (add_reward x reward_cut_raw row a, cache')))"

definition rewards_rebuild ::
  "ext \<Rightarrow> bool \<Rightarrow> cut_cache \<Rightarrow> rewards_key \<Rightarrow> ('n warehouse, string, rewards_agg option \<times> cut_cache) io" where
  "rewards_rebuild x include_tentative cache key h =
     (let source_rows = fetch_reward_rows_for_key include_tentative key h in
      if source_rows = [] then (Inr (None, cache), h)
      else andthen (fold_io (rewards_rebuild_row x) source_rows (rewards_zero, cache))
             (\<lambda>(a, cache'). ret (Some a, cache')) h)"

definition rewards_rebuild_key ::
  "ext \<Rightarrow> bool \<Rightarrow> rewards_key \<Rightarrow> nat \<times> cut_cache \<Rightarrow> ('n warehouse, string, nat \<times> cut_cache) io" where
  "rewards_rebuild_key x include_tentative key nc =
     (case nc of (n, cache) \<Rightarrow>
        andthen (rewards_rebuild x include_tentative cache key) (\<lambda>(agg, cache').
          case agg of
            Some a \<Rightarrow> andthen (modifying (rewards_replace x (key, a))) (\<lambda>_. ret (n + 1, cache'))
          | None \<Rightarrow> andthen (modifying (rewards_delete key)) (\<lambda>_. ret (n, cache'))))"

definition rewards_reorg_keys :: "bool \<Rightarrow> (mutation_row \<times> event_row) list \<Rightarrow> 'n warehouse \<Rightarrow> rewards_key list" where
  "rewards_reorg_keys include_tentative rows h =
     remdups (concat (map (\<lambda>(m, e). rewards_existing_keys (the (e_to e)) (m_event m) h
       @ rewards_current_keys include_tentative (m_event m) h) rows))"

definition rewards_process_reorg_mutations ::
  "ext \<Rightarrow> (rewards_key list \<Rightarrow> rewards_key list) \<Rightarrow> bool \<Rightarrow> cut_cache \<Rightarrow> ('n warehouse, string, nat \<times> cut_cache) io" where
  "rewards_process_reorg_mutations x key_order include_tentative cache h =
     (let cp = named_checkpoint REWARDS_REORG_CHECKPOINT h;
          rows = mutated_events (\<lambda>e. e_name e = ''Reward'' \<and> e_to e \<noteq> None) cp h
      in if rows = [] then (Inr (0, cache), h)
         else
           let max_mutation_id = fold (\<lambda>(m, e) a. max a (m_id m)) rows (or_zero cp)
           in andthen (fold_io (rewards_rebuild_key x include_tentative)
                         (key_order (rewards_reorg_keys include_tentative rows h)) (0, cache))
                (\<lambda>nc. andthen (modifying (advance_named_checkpoint REWARDS_REORG_CHECKPOINT max_mutation_id))
                   (\<lambda>_. ret nc)) h)"

section \<open>One run\<close>

record rewards_state =
  rw_aggregates :: "(rewards_key \<times> rewards_agg) list"
  rw_cache :: cut_cache
  rw_max_event :: int

definition rewards_step :: "ext \<Rightarrow> reward_row \<Rightarrow> rewards_state \<Rightarrow> ('n warehouse, string, rewards_state) io" where
  "rewards_step x row st =
     andthen (reward_cut_raw_at_block x (rr_orchestrator row) (rr_block row) (rr_log row) (rw_cache st))
       (\<lambda>(reward_cut_raw, cache).
          ret \<lparr>rw_aggregates = entry_with rewards_zero (add_reward x reward_cut_raw row) (rewards_key_of row)
                 (rw_aggregates st),
               rw_cache = cache, rw_max_event = max (rw_max_event st) (rr_event row)\<rparr>)"

definition rewards_run_once ::
  "ext \<Rightarrow> (rewards_key list \<Rightarrow> rewards_key list) \<Rightarrow> ((rewards_key \<times> rewards_agg) list \<Rightarrow> (rewards_key \<times> rewards_agg) list)
     \<Rightarrow> bool \<Rightarrow> nat \<Rightarrow> ('n warehouse, string, rollup_summary) io" where
  "rewards_run_once x key_order order include_tentative batch_limit =
     andthen (rewards_process_reorg_mutations x key_order include_tentative (\<lambda>_. None)) (\<lambda>(reorg_rows, cache) h.
       let cp = named_checkpoint REWARDS_CHECKPOINT h;
           rows = fetch_reward_rows include_tentative cp batch_limit h
       in if rows = [] then
            (Inr \<lparr>rs_events_seen = 0, rs_rows_written = reorg_rows, rs_groups_touched = 0, rs_checkpoint = cp\<rparr>,
             advance_named_checkpoint REWARDS_CHECKPOINT (or_zero cp) h)
          else
            andthen (fold_io (rewards_step x) rows \<lparr>rw_aggregates = [], rw_cache = cache, rw_max_event = or_zero cp\<rparr>)
              (\<lambda>st h'. (Inr \<lparr>rs_events_seen = length rows, rs_rows_written = reorg_rows + length (rw_aggregates st),
                            rs_groups_touched = length (rw_aggregates st), rs_checkpoint = Some (rw_max_event st)\<rparr>,
                        advance_named_checkpoint REWARDS_CHECKPOINT (rw_max_event st)
                          (fold (rewards_upsert x) (order (rw_aggregates st)) h')))
              h)"

end
