(* ===== verification/Rollup_Metrics.thy ===== *)
theory Rollup_Metrics
  imports Rollup_Base
begin

text \<open>
  \<open>crates/livepeer-rollups/src/event_metrics.rs\<close>: valued events per day, contract, event name,
  asset and valuation version.
\<close>

definition METRICS_CHECKPOINT :: string where
  "METRICS_CHECKPOINT = ''rollup_event_metrics_daily''"

definition METRICS_REORG_CHECKPOINT :: string where
  "METRICS_REORG_CHECKPOINT = ''rollup_event_metrics_daily_reorg''"

record metric_row =
  mr_event :: int
  mr_ts :: int
  mr_contract :: string
  mr_name :: string
  mr_asset :: string
  mr_version :: string
  mr_native :: "rat option"
  mr_usd :: "rat option"

definition metrics_zero :: metrics_agg where
  "metrics_zero = \<lparr>ma_count = 0, ma_native = 0, ma_usd = 0, ma_priced = 0, ma_last_event = 0\<rparr>"

definition metrics_key_of :: "metric_row \<Rightarrow> metrics_key" where
  "metrics_key_of row = \<lparr>mk_day = day_utc (mr_ts row), mk_contract = mr_contract row, mk_event = mr_name row,
     mk_asset = mr_asset row, mk_version = mr_version row\<rparr>"

section \<open>Reading\<close>

definition is_metric :: "bool \<Rightarrow> event_row \<Rightarrow> bool" where
  "is_metric include_tentative e \<longleftrightarrow> e_chain e = ARBITRUM_CHAIN_ID \<and> e_valuable e \<and> e_canonical e
     \<and> (include_tentative \<or> e_finality e = Finalized)"

definition metric_row_of :: "event_row \<Rightarrow> valuation_row \<Rightarrow> metric_row" where
  "metric_row_of e v =
     \<lparr>mr_event = e_id e, mr_ts = e_ts e, mr_contract = e_contract e, mr_name = e_name e,
      mr_asset = the (e_asset e), mr_version = v_version v, mr_native = Some (v_amount v), mr_usd = v_usd v\<rparr>"

text \<open>The join with the valuations of the event's own asset, for events with an asset.\<close>

definition metric_rows :: "(event_row \<Rightarrow> bool) \<Rightarrow> 'n warehouse \<Rightarrow> metric_row list" where
  "metric_rows P h =
     concat (map (\<lambda>e. map (metric_row_of e)
         (filter (\<lambda>v. v_event v = e_id e \<and> Some (v_asset v) = e_asset e) (w_valuations (h_world h))))
       (filter P (events_of h)))"

definition fetch_valuation_rows :: "bool \<Rightarrow> int option \<Rightarrow> nat \<Rightarrow> 'n warehouse \<Rightarrow> metric_row list" where
  "fetch_valuation_rows include_tentative resume_from limit h =
     take limit (metric_rows (\<lambda>e. is_metric include_tentative e \<and> e_asset e \<noteq> None \<and> after_event resume_from e) h)"

definition fetch_valuation_rows_for_key :: "bool \<Rightarrow> metrics_key \<Rightarrow> 'n warehouse \<Rightarrow> metric_row list" where
  "fetch_valuation_rows_for_key include_tentative key h =
     filter (\<lambda>row. metrics_key_of row = key) (metric_rows (is_metric include_tentative) h)"

definition metrics_existing_keys :: "int \<Rightarrow> 'n warehouse \<Rightarrow> metrics_key list" where
  "metrics_existing_keys event_id h = map fst (filter (\<lambda>r. ma_last_event (snd r) \<ge> event_id) (h_metrics h))"

definition metrics_current_keys :: "bool \<Rightarrow> int \<Rightarrow> 'n warehouse \<Rightarrow> metrics_key list" where
  "metrics_current_keys include_tentative event_id h =
     map metrics_key_of (metric_rows (\<lambda>e. e_id e = event_id \<and> is_metric include_tentative e \<and> e_asset e \<noteq> None) h)"

section \<open>Writing\<close>

definition metrics_stored :: "ext \<Rightarrow> metrics_agg \<Rightarrow> metrics_agg" where
  "metrics_stored x a = a\<lparr>ma_native := numeric18 x (ma_native a), ma_usd := numeric18 x (ma_usd a)\<rparr>"

definition metrics_merge :: "metrics_agg \<Rightarrow> metrics_agg \<Rightarrow> metrics_agg" where
  "metrics_merge old new =
     \<lparr>ma_count = ma_count old + ma_count new, ma_native = ma_native old + ma_native new,
      ma_usd = ma_usd old + ma_usd new, ma_priced = ma_priced old + ma_priced new,
      ma_last_event = max (ma_last_event old) (ma_last_event new)\<rparr>"

definition metrics_upsert :: "ext \<Rightarrow> metrics_key \<times> metrics_agg \<Rightarrow> 'n warehouse \<Rightarrow> 'n warehouse" where
  "metrics_upsert x r h =
     h\<lparr>h_metrics := put_aggregate metrics_merge (fst r, metrics_stored x (snd r)) (h_metrics h)\<rparr>"

definition metrics_replace :: "ext \<Rightarrow> metrics_key \<times> metrics_agg \<Rightarrow> 'n warehouse \<Rightarrow> 'n warehouse" where
  "metrics_replace x r h =
     h\<lparr>h_metrics := put_aggregate (\<lambda>old new. new) (fst r, metrics_stored x (snd r)) (h_metrics h)\<rparr>"

definition metrics_delete :: "metrics_key \<Rightarrow> 'n warehouse \<Rightarrow> 'n warehouse" where
  "metrics_delete key h = h\<lparr>h_metrics := drop_aggregate key (h_metrics h)\<rparr>"

section \<open>Adding a row and rebuilding\<close>

definition add_metric :: "metric_row \<Rightarrow> metrics_agg \<Rightarrow> metrics_agg" where
  "add_metric row a =
     \<lparr>ma_count = ma_count a + 1,
      ma_native = (case mr_native row of None \<Rightarrow> ma_native a | Some q \<Rightarrow> ma_native a + q),
      ma_usd = (case mr_usd row of None \<Rightarrow> ma_usd a | Some q \<Rightarrow> ma_usd a + q),
      ma_priced = (case mr_usd row of None \<Rightarrow> ma_priced a | Some q \<Rightarrow> ma_priced a + 1),
      ma_last_event = max (ma_last_event a) (mr_event row)\<rparr>"

definition metrics_rebuild :: "bool \<Rightarrow> metrics_key \<Rightarrow> 'n warehouse \<Rightarrow> metrics_agg option" where
  "metrics_rebuild include_tentative key h =
     (let source_rows = fetch_valuation_rows_for_key include_tentative key h in
      if source_rows = [] then None else Some (fold add_metric source_rows metrics_zero))"

definition metrics_rebuild_key :: "ext \<Rightarrow> bool \<Rightarrow> metrics_key \<Rightarrow> nat \<times> 'n warehouse \<Rightarrow> nat \<times> 'n warehouse" where
  "metrics_rebuild_key x include_tentative key nh =
     (case nh of (n, h) \<Rightarrow>
        case metrics_rebuild include_tentative key h of
          Some a \<Rightarrow> (n + 1, metrics_replace x (key, a) h)
        | None \<Rightarrow> (n, metrics_delete key h))"

definition metrics_reorg_keys :: "bool \<Rightarrow> (mutation_row \<times> event_row) list \<Rightarrow> 'n warehouse \<Rightarrow> metrics_key list" where
  "metrics_reorg_keys include_tentative rows h =
     remdups (concat (map (\<lambda>(m, e). metrics_existing_keys (m_event m) h
       @ metrics_current_keys include_tentative (m_event m) h) rows))"

definition metrics_process_reorg_mutations ::
  "ext \<Rightarrow> (metrics_key list \<Rightarrow> metrics_key list) \<Rightarrow> bool \<Rightarrow> 'n warehouse \<Rightarrow> nat \<times> 'n warehouse" where
  "metrics_process_reorg_mutations x key_order include_tentative h =
     (let cp = named_checkpoint METRICS_REORG_CHECKPOINT h;
          rows = mutated_events e_valuable cp h
      in if rows = [] then (0, h)
         else
           let max_mutation_id = fold (\<lambda>(m, e) a. max a (m_id m)) rows (or_zero cp);
               (n, h') = fold (metrics_rebuild_key x include_tentative)
                           (key_order (metrics_reorg_keys include_tentative rows h)) (0, h)
           in (n, advance_named_checkpoint METRICS_REORG_CHECKPOINT max_mutation_id h'))"

section \<open>One run\<close>

definition metrics_step :: "metric_row \<Rightarrow> (metrics_key \<times> metrics_agg) list \<times> int
     \<Rightarrow> (metrics_key \<times> metrics_agg) list \<times> int" where
  "metrics_step row st =
     (case st of (aggregates, max_event_id) \<Rightarrow>
        (entry_with metrics_zero (add_metric row) (metrics_key_of row) aggregates,
         max max_event_id (mr_event row)))"

definition metrics_run_once ::
  "ext \<Rightarrow> (metrics_key list \<Rightarrow> metrics_key list) \<Rightarrow> ((metrics_key \<times> metrics_agg) list \<Rightarrow> (metrics_key \<times> metrics_agg) list)
     \<Rightarrow> bool \<Rightarrow> nat \<Rightarrow> 'n warehouse \<Rightarrow> rollup_summary \<times> 'n warehouse" where
  "metrics_run_once x key_order order include_tentative batch_limit h =
     (let (reorg_rows, h1) = metrics_process_reorg_mutations x key_order include_tentative h;
          cp = named_checkpoint METRICS_CHECKPOINT h1;
          rows = fetch_valuation_rows include_tentative cp batch_limit h1
      in if rows = [] then
           (\<lparr>rs_events_seen = 0, rs_rows_written = reorg_rows, rs_groups_touched = 0, rs_checkpoint = cp\<rparr>,
            advance_named_checkpoint METRICS_CHECKPOINT (or_zero cp) h1)
         else
           let (aggregates, max_event_id) = fold metrics_step rows ([], or_zero cp);
               h2 = fold (metrics_upsert x) (order aggregates) h1
           in (\<lparr>rs_events_seen = length rows, rs_rows_written = reorg_rows + length aggregates,
                rs_groups_touched = length aggregates, rs_checkpoint = Some max_event_id\<rparr>,
               advance_named_checkpoint METRICS_CHECKPOINT max_event_id h2))"

end
