(* ===== verification/Rollup_Props.thy ===== *)
theory Rollup_Props
  imports Rollup_Tickets Rollup_Payouts Rollup_Rewards Rollup_Metrics Watchers
begin

text \<open>
  The daily rollups: what adding a batch to stored rows must satisfy to agree with counting
  everything again (locale \<open>daily_rollup\<close>, interpreted for the four rollups), the ticket rollup
  as a whole, and the share in force at an event.
\<close>

section \<open>The contract of an incremental aggregate\<close>

lemma get_aggregate_map_of: "get_aggregate t k = map_of t k"
  by (induction t) (auto simp: get_aggregate_def find_row_Cons)

lemma get_put_aggregate:
  "get_aggregate (put_aggregate merge r t) k =
     (if k = fst r then Some (case get_aggregate t k of None \<Rightarrow> snd r | Some a \<Rightarrow> merge a (snd r))
      else get_aggregate t k)"
  by (auto simp: get_aggregate_def put_aggregate_def find_row_upsert split: option.splits)

lemma get_drop_aggregate: "get_aggregate (drop_aggregate k t) k' = (if k' = k then None else get_aggregate t k')"
  by (induction t) (auto simp: get_aggregate_def drop_aggregate_def find_row_Cons)

lemma get_fold_put:
  assumes "distinct (map fst rs)"
  shows "get_aggregate (fold (put_aggregate merge) rs t) k = (case map_of rs k of
     None \<Rightarrow> get_aggregate t k
   | Some a \<Rightarrow> Some (case get_aggregate t k of None \<Rightarrow> a | Some b \<Rightarrow> merge b a))"
  using assms
proof (induction rs arbitrary: t)
  case (Cons r rs)
  then have "map_of rs (fst r) = None" by (simp add: map_of_eq_None_iff)
  then show ?case using Cons by (cases r) (auto simp: get_put_aggregate split: option.split)
qed simp

text \<open>
  \<open>total rs\<close> is the aggregate of all rows, \<open>batch rs qs\<close> what a run computes for new rows
  \<open>qs\<close> of a key whose earlier rows are \<open>rs\<close>.
\<close>

locale daily_rollup =
  fixes total :: "'r list \<Rightarrow> 'a"
    and batch :: "'r list \<Rightarrow> 'r list \<Rightarrow> 'a"
    and merge :: "'a \<Rightarrow> 'a \<Rightarrow> 'a"
    and key :: "'r \<Rightarrow> 'k"
  assumes merge_batch: "merge (total rs) (batch rs qs) = total (rs @ qs)"
    and batch_first: "batch [] qs = total qs"
begin

definition table_of :: "'r list \<Rightarrow> 'k \<Rightarrow> 'a option" where
  "table_of rs k = (let own = filter (\<lambda>r. key r = k) rs in if own = [] then None else Some (total own))"

definition batch_of :: "'r list \<Rightarrow> 'r list \<Rightarrow> ('k \<times> 'a) list \<Rightarrow> bool" where
  "batch_of rs qs as \<longleftrightarrow> distinct (map fst as) \<and> (\<forall>k. map_of as k =
     (let new = filter (\<lambda>r. key r = k) qs
      in if new = [] then None else Some (batch (filter (\<lambda>r. key r = k) rs) new)))"

lemma table_of_batch:
  assumes t: "\<And>k. get_aggregate t k = table_of rs k" and b: "batch_of rs qs as"
  shows "get_aggregate (fold (put_aggregate merge) as t) k = table_of (rs @ qs) k"
proof -
  let ?own = "filter (\<lambda>r. key r = k)"
  have "map_of as k = (if ?own qs = [] then None else Some (batch (?own rs) (?own qs)))"
    using b by (simp add: batch_of_def Let_def)
  then show ?thesis
    using b get_fold_put [of as merge t k] merge_batch [of "?own rs" "?own qs"] batch_first
    by (simp add: batch_of_def t table_of_def Let_def)
qed

lemma batch_of_order:
  assumes m: "mset as' = mset as" and b: "batch_of rs qs as"
  shows "batch_of rs qs as'"
proof -
  have "mset (map fst as') = mset (map fst as)" using m by simp
  then have d: "distinct (map fst as')" using b by (metis batch_of_def mset_eq_imp_distinct_iff)
  have "map_of as' = map_of as"
    using m b d by (intro map_of_inject_set [THEN iffD2]) (auto simp: batch_of_def dest: mset_eq_setD)
  then show ?thesis using b d by (simp add: batch_of_def)
qed

end

section \<open>The hash map of the aggregates\<close>

lemma entry_with_map_of:
  "map_of (entry_with z f k t) k' =
     (if k' = k then Some (f (case map_of t k of None \<Rightarrow> z | Some b \<Rightarrow> b)) else map_of t k')"
  by (induction t) auto

lemma entry_with_keys: "fst ` set (entry_with z f k t) = insert k (fst ` set t)"
  unfolding dom_map_of_conv_image_fst [symmetric] by (auto simp: dom_def entry_with_map_of split: if_splits)

lemma entry_with_distinct: "distinct (map fst t) \<Longrightarrow> distinct (map fst (entry_with z f k t))"
proof (induction t)
  case (Cons r t)
  obtain k' a where r: "r = (k', a)" by (cases r)
  have "set (map fst (entry_with z f k t)) = insert k (set (map fst t))"
    using entry_with_keys [of z f k t] by simp
  then show ?case using Cons by (auto simp: r)
qed simp

section \<open>The four rollups keep the contract\<close>

definition tickets_from :: "string set \<Rightarrow> string set \<Rightarrow> ticket_row list \<Rightarrow> tickets_agg" where
  "tickets_from gateways orchestrators rows = fst (fold tickets_count_row rows (tickets_zero, gateways, orchestrators))"

definition tickets_batch :: "ticket_row list \<Rightarrow> ticket_row list \<Rightarrow> tickets_agg" where
  "tickets_batch rs qs = tickets_from (tr_gateway ` set rs) (tr_orchestrator ` set rs) qs"

lemma merge_assoc:
  "tickets_merge (tickets_merge a b) c = tickets_merge a (tickets_merge b c)"
  "metrics_merge (metrics_merge d e) f = metrics_merge d (metrics_merge e f)"
  "rewards_merge (rewards_merge g h) i = rewards_merge g (rewards_merge h i)"
  "payouts_merge (payouts_merge k l) m = payouts_merge k (payouts_merge l m)"
  by (simp_all add: tickets_merge_def metrics_merge_def rewards_merge_def payouts_merge_def)

lemma merge_zero:
  "0 \<le> ta_max_event a \<Longrightarrow> tickets_merge a tickets_zero = a"
  "0 \<le> ma_last_event b \<Longrightarrow> metrics_merge b metrics_zero = b"
  "0 \<le> ra_max_event c \<Longrightarrow> rewards_merge c rewards_zero = c"
  "0 \<le> pa_max_event d \<Longrightarrow> payouts_merge d payouts_zero = d"
  by (simp_all add: tickets_merge_def metrics_merge_def rewards_merge_def payouts_merge_def
      tickets_zero_def metrics_zero_def rewards_zero_def payouts_zero_def)

lemma zero_max [simp]:
  "ta_max_event tickets_zero = 0" "ma_last_event metrics_zero = 0" "ra_max_event rewards_zero = 0" "pa_max_event payouts_zero = 0"
  by (simp_all add: tickets_zero_def metrics_zero_def rewards_zero_def payouts_zero_def)

lemma zero_merge:
  "0 \<le> ta_max_event a \<Longrightarrow> tickets_merge tickets_zero a = a"
  "0 \<le> pa_max_event d \<Longrightarrow> payouts_merge payouts_zero d = d"
  by (simp_all add: tickets_merge_def payouts_merge_def tickets_zero_def payouts_zero_def)

lemma tickets_add:
  "0 \<le> ta_max_event a \<Longrightarrow> tickets_count_row row (a, gs, os)
     = (tickets_merge a (fst (tickets_count_row row (tickets_zero, gs, os))), insert (tr_gateway row) gs,
        insert (tr_orchestrator row) os)"
  by (simp add: tickets_count_row_def tickets_merge_def tickets_zero_def)

lemma tickets_add_max: "0 \<le> ta_max_event a \<Longrightarrow> 0 \<le> ta_max_event (fst (tickets_count_row row (a, gs, os)))"
  by (simp add: tickets_count_row_def le_max_iff_disj)

lemma tickets_fold:
  "0 \<le> ta_max_event a \<Longrightarrow> fold tickets_count_row rows (a, gs, os)
     = (tickets_merge a (tickets_from gs os rows), tr_gateway ` set rows \<union> gs, tr_orchestrator ` set rows \<union> os)"
proof (induction rows arbitrary: a gs os)
  case Nil
  then show ?case by (simp add: tickets_from_def merge_zero)
next
  case (Cons row rows)
  let ?one = "fst (tickets_count_row row (tickets_zero, gs, os))"
  have step: "fold tickets_count_row (row # rows) (b, gs, os) = (tickets_merge (tickets_merge b ?one)
      (tickets_from (insert (tr_gateway row) gs) (insert (tr_orchestrator row) os) rows),
      tr_gateway ` set (row # rows) \<union> gs, tr_orchestrator ` set (row # rows) \<union> os)" if b: "0 \<le> ta_max_event b" for b
    using tickets_add_max [OF b, of row gs os] by (simp add: tickets_add [OF b] Cons.IH)
  have "0 \<le> ta_max_event ?one" by (rule tickets_add_max) simp
  then have "tickets_from gs os (row # rows) = tickets_merge ?one
      (tickets_from (insert (tr_gateway row) gs) (insert (tr_orchestrator row) os) rows)"
    unfolding tickets_from_def [of gs os] by (simp only: step [of tickets_zero] zero_max order_refl fst_conv zero_merge)
  then show ?case by (simp only: step [OF Cons.prems] merge_assoc)
qed

lemma tickets_from_max: "0 \<le> ta_max_event (tickets_from gs os rows)"
proof -
  have "0 \<le> ta_max_event (fst st) \<Longrightarrow> 0 \<le> ta_max_event (fst (fold tickets_count_row rows st))" for st
    by (induction rows arbitrary: st) (auto simp: tickets_count_row_def le_max_iff_disj split: prod.split)
  then show ?thesis by (simp add: tickets_from_def)
qed

interpretation tickets: daily_rollup "tickets_from {} {}" tickets_batch tickets_merge tickets_key_of
proof
  fix rs qs :: "ticket_row list"
  have z: "0 \<le> ta_max_event tickets_zero" by simp
  have "fold tickets_count_row rs (tickets_zero, {}, {})
      = (tickets_from {} {} rs, tr_gateway ` set rs, tr_orchestrator ` set rs)"
    using tickets_fold [OF z, of rs "{}" "{}"] by (simp add: zero_merge tickets_from_max)
  then show "tickets_merge (tickets_from {} {} rs) (tickets_batch rs qs) = tickets_from {} {} (rs @ qs)"
    unfolding tickets_from_def [of "{}" "{}" "rs @ qs"]
    by (simp add: tickets_fold [OF tickets_from_max] tickets_batch_def)
qed (simp add: tickets_batch_def)

text \<open>The other three add a row by merging what it alone gives.\<close>

lemma fold_as_merge:
  assumes add: "\<And>r a. P a \<Longrightarrow> f r a = merge a (f r z) \<and> P (f r a)" and z: "P z"
    and assoc: "\<And>a b c. merge (merge a b) c = merge a (merge b c)" and zero: "\<And>a. P a \<Longrightarrow> merge a z = a"
  shows "P a \<Longrightarrow> fold f rows a = merge a (fold f rows z)"
proof (induction rows arbitrary: a)
  case (Cons r rows)
  have step: "fold f (r # rows) b = merge (f r b) (fold f rows z)" if "P b" for b
    using Cons.IH [OF conjunct2 [OF add [OF that, of r]]] by simp
  have "f r a = merge a (f r z)" using add [OF Cons.prems] by blast
  then have "fold f (r # rows) a = merge (merge a (f r z)) (fold f rows z)" by (simp only: step [OF Cons.prems])
  then show ?case by (simp only: step [OF z] assoc)
qed (simp add: zero)

lemma fold_keeps: "(\<And>r a. P a \<Longrightarrow> P (f r a)) \<Longrightarrow> P a \<Longrightarrow> P (fold f rows a)"
  by (induction rows arbitrary: a) simp_all

lemma max_zero [simp]: "0 \<le> a \<Longrightarrow> max a (max 0 b) = max a (b :: int)"
  by simp

lemma metrics_add:
  "0 \<le> ma_last_event a \<Longrightarrow> add_metric row a = metrics_merge a (add_metric row metrics_zero) \<and> 0 \<le> ma_last_event (add_metric row a)"
  by (simp add: add_metric_def metrics_merge_def metrics_zero_def le_max_iff_disj split: option.split)

lemma rewards_add:
  "0 \<le> ra_max_event a \<Longrightarrow> add_reward x c row a = rewards_merge a (add_reward x c row rewards_zero)
     \<and> 0 \<le> ra_max_event (add_reward x c row a)"
  by (simp add: add_reward_def Let_def rewards_merge_def rewards_zero_def le_max_iff_disj split: option.split)

lemma payouts_add:
  "0 \<le> pa_max_event a \<Longrightarrow> add_payout x c i row a = payouts_merge a (add_payout x c i row payouts_zero)
     \<and> 0 \<le> pa_max_event (add_payout x c i row a)"
  by (simp add: add_payout_def Let_def payouts_merge_def payouts_zero_def le_max_iff_disj split: option.split)

lemma metrics_fold: "0 \<le> ma_last_event a \<Longrightarrow>
    fold add_metric rows a = metrics_merge a (fold add_metric rows metrics_zero)"
  by (rule fold_as_merge [where P = "\<lambda>a. 0 \<le> ma_last_event a"])
    (erule metrics_add, simp, rule merge_assoc, erule merge_zero, assumption)

interpretation metrics: daily_rollup "\<lambda>rows. fold add_metric rows metrics_zero" "\<lambda>rs qs. fold add_metric qs metrics_zero"
  metrics_merge metrics_key_of
proof
  fix rs qs :: "metric_row list"
  have "0 \<le> ma_last_event (fold add_metric rs metrics_zero)"
    by (rule fold_keeps [where P = "\<lambda>a. 0 \<le> ma_last_event a"]) (erule metrics_add [THEN conjunct2], simp)
  then show "metrics_merge (fold add_metric rs metrics_zero) (fold add_metric qs metrics_zero)
      = fold add_metric (rs @ qs) metrics_zero"
    using metrics_fold [of "fold add_metric rs metrics_zero" qs] by (simp del: fold_simps)
qed simp

text \<open>Rewards and payouts come with the share in force at their event.\<close>

definition count_reward :: "ext \<Rightarrow> rat \<times> reward_row \<Rightarrow> rewards_agg \<Rightarrow> rewards_agg" where
  "count_reward x p = add_reward x (fst p) (snd p)"

lemma rewards_fold: "0 \<le> ra_max_event a \<Longrightarrow>
    fold (count_reward x) rows a = rewards_merge a (fold (count_reward x) rows rewards_zero)"
  by (rule fold_as_merge [where P = "\<lambda>a. 0 \<le> ra_max_event a"])
    (unfold count_reward_def, erule rewards_add, simp, rule merge_assoc, erule merge_zero, assumption)

interpretation rewards: daily_rollup "\<lambda>rows. fold (count_reward x) rows rewards_zero"
  "\<lambda>rs qs. fold (count_reward x) qs rewards_zero" rewards_merge "\<lambda>p. rewards_key_of (snd p)" for x
proof
  fix rs qs :: "(rat \<times> reward_row) list"
  let ?f = "fold (count_reward x)"
  have "0 \<le> ra_max_event (?f rs rewards_zero)"
    by (rule fold_keeps [where P = "\<lambda>a. 0 \<le> ra_max_event a"]) (unfold count_reward_def, erule rewards_add [THEN conjunct2], simp)
  then show "rewards_merge (?f rs rewards_zero) (?f qs rewards_zero) = ?f (rs @ qs) rewards_zero"
    using rewards_fold [of "?f rs rewards_zero" x qs] by (simp del: fold_simps)
qed simp

definition payouts_count :: "ext \<Rightarrow> rat \<times> payout_row \<Rightarrow> payouts_agg \<times> string set \<Rightarrow> payouts_agg \<times> string set" where
  "payouts_count x p st = (add_payout x (fst p) (if po_gateway (snd p) \<in> snd st then 0 else 1) (snd p) (fst st),
     insert (po_gateway (snd p)) (snd st))"

definition payouts_from :: "ext \<Rightarrow> string set \<Rightarrow> (rat \<times> payout_row) list \<Rightarrow> payouts_agg" where
  "payouts_from x gateways rows = fst (fold (payouts_count x) rows (payouts_zero, gateways))"

lemma payouts_fold:
  "0 \<le> pa_max_event a \<Longrightarrow> fold (payouts_count x) rows (a, gs)
     = (payouts_merge a (payouts_from x gs rows), (po_gateway \<circ> snd) ` set rows \<union> gs)"
proof (induction rows arbitrary: a gs)
  case Nil
  then show ?case by (simp add: payouts_from_def merge_zero)
next
  case (Cons p rows)
  let ?one = "\<lambda>b. add_payout x (fst p) (if po_gateway (snd p) \<in> gs then 0 else 1) (snd p) b"
  have step: "fold (payouts_count x) (p # rows) (b, gs) = (payouts_merge (payouts_merge b (?one payouts_zero))
      (payouts_from x (insert (po_gateway (snd p)) gs) rows), (po_gateway \<circ> snd) ` set (p # rows) \<union> gs)"
    if b: "0 \<le> pa_max_event b" for b
  proof -
    have "fold (payouts_count x) (p # rows) (b, gs) = fold (payouts_count x) rows (?one b, insert (po_gateway (snd p)) gs)"
      by (simp add: payouts_count_def)
    also have "\<dots> = (payouts_merge (?one b) (payouts_from x (insert (po_gateway (snd p)) gs) rows),
        (po_gateway \<circ> snd) ` set rows \<union> insert (po_gateway (snd p)) gs)"
      by (rule Cons.IH) (use payouts_add [OF b] in blast)
    also have "?one b = payouts_merge b (?one payouts_zero)" using payouts_add [OF b] by blast
    finally show ?thesis by (simp add: insert_commute)
  qed
  have "0 \<le> pa_max_event (?one payouts_zero)" by (rule payouts_add [THEN conjunct2]) simp
  then have "payouts_from x gs (p # rows) = payouts_merge (?one payouts_zero)
      (payouts_from x (insert (po_gateway (snd p)) gs) rows)"
    unfolding payouts_from_def [of x gs] by (simp only: step [of payouts_zero] zero_max order_refl fst_conv zero_merge)
  then show ?case by (simp only: step [OF Cons.prems] merge_assoc)
qed

lemma payouts_from_max: "0 \<le> pa_max_event (payouts_from x gs rows)"
proof -
  have "0 \<le> pa_max_event (fst (fold (payouts_count x) rows st))" if "0 \<le> pa_max_event (fst st)" for st
    by (rule fold_keeps [where P = "\<lambda>st. 0 \<le> pa_max_event (fst st)"])
      (unfold payouts_count_def fst_conv, erule payouts_add [THEN conjunct2], rule that)
  then show ?thesis by (simp add: payouts_from_def)
qed

interpretation payouts: daily_rollup "payouts_from x {}" "\<lambda>rs. payouts_from x ((po_gateway \<circ> snd) ` set rs)"
  payouts_merge "\<lambda>p. payouts_key_of (snd p)" for x
proof
  fix rs qs :: "(rat \<times> payout_row) list"
  have "fold (payouts_count x) rs (payouts_zero, {}) = (payouts_from x {} rs, (po_gateway \<circ> snd) ` set rs)"
    using payouts_fold [of payouts_zero x rs "{}"] by (simp add: zero_merge payouts_from_max)
  then show "payouts_merge (payouts_from x {} rs) (payouts_from x ((po_gateway \<circ> snd) ` set rs) qs)
      = payouts_from x {} (rs @ qs)"
    unfolding payouts_from_def [of x "{}" "rs @ qs"] by (simp add: payouts_fold [OF payouts_from_max])
qed simp

section \<open>Batches in the order of the ids\<close>

lemma after_and_upto:
  assumes "sorted_wrt (\<lambda>a b. f a < (f b :: int)) xs"
  shows "filter (\<lambda>a. f a \<le> c) xs @ filter (\<lambda>a. f a > c) xs = xs"
  using assms
proof (induction xs)
  case (Cons a xs)
  show ?case
  proof (cases "f a \<le> c")
    case False
    with Cons.prems have "filter (\<lambda>a. f a \<le> c) xs = []" "filter (\<lambda>a. f a > c) xs = xs"
      by (auto simp: filter_empty_conv filter_id_conv)
    with False show ?thesis by simp
  qed (use Cons in simp)
qed simp

lemma taken_are_upto:
  assumes "sorted_wrt (\<lambda>a b. f a < (f b :: int)) ys" "take n ys \<noteq> []"
  shows "filter (\<lambda>a. f a \<le> f (last (take n ys))) ys = take n ys \<and> filter (\<lambda>a. f a > f (last (take n ys))) ys = drop n ys"
proof -
  let ?l = "f (last (take n ys))"
  have s: "sorted_wrt (\<lambda>a b. f a < f b) (take n ys @ drop n ys)" using assms(1) by simp
  have t: "\<forall>a\<in>set (take n ys). f a \<le> ?l"
  proof
    fix a assume a: "a \<in> set (take n ys)"
    have b: "take n ys = butlast (take n ys) @ [last (take n ys)]" using assms(2) by simp
    have "sorted_wrt (\<lambda>a b. f a < f b) (take n ys)" using s by (simp only: sorted_wrt_append)
    then have "sorted_wrt (\<lambda>a b. f a < f b) (butlast (take n ys) @ [last (take n ys)])" by (simp only: b [symmetric])
    moreover have "set (take n ys) = set (butlast (take n ys) @ [last (take n ys)])" by (simp only: b [symmetric])
    then have "a \<in> set (butlast (take n ys)) \<or> a = last (take n ys)" using a by auto
    ultimately show "f a \<le> ?l" by (auto simp: sorted_wrt_append)
  qed
  have d: "\<forall>a\<in>set (drop n ys). ?l < f a"
    using s assms(2) by (meson last_in_set sorted_wrt_append)
  have "filter P ys = filter P (take n ys) @ filter P (drop n ys)" for P
    by (metis append_take_drop_id filter_append)
  then show ?thesis using t d by (auto simp: filter_id_conv filter_empty_conv not_less)
qed

text \<open>The events in the order of their ids, with one row per id.\<close>

lemma events_sorted:
  assumes "distinct (map e_id (w_events (h_world h)))"
  shows "sorted_wrt (\<lambda>a b. e_id a < e_id b) (events_of h)"
proof -
  have "distinct (map e_id (events_of h))"
    using assms by (simp add: events_of_def distinct_map)
  moreover have "sorted (map e_id (events_of h))" by (simp add: events_of_def)
  ultimately have "sorted_wrt (<) (map e_id (events_of h))" by (rule strict_sorted_iff [THEN iffD2, OF conjI, rotated])
  then show ?thesis by (simp add: sorted_wrt_map)
qed

section \<open>One run of the ticket rollup\<close>

definition all_tickets :: "bool \<Rightarrow> 'n warehouse \<Rightarrow> ticket_row list" where
  "all_tickets inc h = map (ticket_row_of h) (filter (is_ticket inc) (events_of h))"

text \<open>Every canonical ticket event can be counted: it is final enough and has both addresses.\<close>

definition tickets_visible :: "bool \<Rightarrow> 'n warehouse \<Rightarrow> bool" where
  "tickets_visible inc h \<longleftrightarrow> (\<forall>e\<in>set (w_events (h_world h)). e_chain e = ARBITRUM_CHAIN_ID
     \<and> e_name e = ''WinningTicketRedeemed'' \<and> e_canonical e \<longrightarrow> is_ticket inc e)"

lemma day_utc_iff: "d * 86400 \<le> ts \<and> ts < (d + 1) * 86400 \<longleftrightarrow> day_utc ts = d"
  by (auto simp: day_utc_def)

lemma all_tickets_sorted:
  assumes "distinct (map e_id (w_events (h_world h)))"
  shows "sorted_wrt (\<lambda>a b. tr_event a < tr_event b) (all_tickets inc h)"
  using events_sorted [OF assms]
  by (simp add: all_tickets_def sorted_wrt_map ticket_row_of_def sorted_wrt_filter)

lemma tickets_prior_iff:
  assumes v: "tickets_visible inc h" and d: "distinct (map e_id (w_events (h_world h)))"
    and all: "all_tickets inc h = us @ row # vs" and side: "side = e_from \<and> g = tr_gateway \<or> side = e_to \<and> g = tr_orchestrator"
  shows "tickets_prior side (g row) row (tickets_key_of row) h
    \<longleftrightarrow> g row \<in> g ` set (filter (\<lambda>r. tickets_key_of r = tickets_key_of row) us)"
proof -
  have mem: "r \<in> set us \<longleftrightarrow> r \<in> set (all_tickets inc h) \<and> tr_event r < tr_event row" for r
    using all_tickets_sorted [OF d, of inc] unfolding all by (auto simp: sorted_wrt_append)
  have set: "set (all_tickets inc h) = ticket_row_of h ` {e \<in> set (w_events (h_world h)). is_ticket inc e}"
    by (simp add: all_tickets_def events_of_def)
  have vis: "(e_chain e = ARBITRUM_CHAIN_ID \<and> e_name e = ''WinningTicketRedeemed'' \<and> e_canonical e) = is_ticket inc e"
    if "e \<in> set (w_events (h_world h))" for e
    using v that by (auto simp: tickets_visible_def is_ticket_def)
  have one: "side e = Some (g row) \<and> tk_day (tickets_key_of row) * 86400 \<le> e_ts e \<and> e_ts e < (tk_day (tickets_key_of row) + 1) * 86400
      \<and> broadcaster_kind h e = tk_kind (tickets_key_of row)
      \<longleftrightarrow> g (ticket_row_of h e) = g row \<and> tickets_key_of (ticket_row_of h e) = tickets_key_of row" if "is_ticket inc e" for e
    using side that day_utc_iff [of "tk_day (tickets_key_of row)" "e_ts e"]
    by (auto simp: ticket_row_of_def tickets_key_of_def is_ticket_def)
  have "tickets_prior side (g row) row (tickets_key_of row) h \<longleftrightarrow> (\<exists>e\<in>set (w_events (h_world h)).
      is_ticket inc e \<and> e_id e < tr_event row \<and> g (ticket_row_of h e) = g row
      \<and> tickets_key_of (ticket_row_of h e) = tickets_key_of row)"
    unfolding tickets_prior_def by (rule bex_cong [OF refl]) (use vis one in blast)
  also have "\<dots> \<longleftrightarrow> (\<exists>r\<in>set us. g r = g row \<and> tickets_key_of r = tickets_key_of row)"
    unfolding Bex_def mem set by (auto simp: ticket_row_of_def)
  finally show ?thesis unfolding image_iff set_filter mem_Collect_eq Bex_def by metis
qed

lemma tickets_batch_snoc:
  "tickets_batch rs (qs @ [r]) = (let a = tickets_batch rs qs in
     \<lparr>ta_count = ta_count a + 1,
      ta_orchestrators = ta_orchestrators a + (if tr_orchestrator r \<in> tr_orchestrator ` set (rs @ qs) then 0 else 1),
      ta_gateways = ta_gateways a + (if tr_gateway r \<in> tr_gateway ` set (rs @ qs) then 0 else 1),
      ta_max_event = max (ta_max_event a) (tr_event r)\<rparr>)"
proof -
  have "fold tickets_count_row qs (tickets_zero, tr_gateway ` set rs, tr_orchestrator ` set rs)
      = (tickets_batch rs qs, tr_gateway ` set (rs @ qs), tr_orchestrator ` set (rs @ qs))"
    using tickets_fold [of tickets_zero qs "tr_gateway ` set rs" "tr_orchestrator ` set rs"]
    by (simp add: tickets_batch_def zero_merge tickets_from_max image_Un Un_commute)
  then show ?thesis unfolding tickets_batch_def [of rs "qs @ [r]"] tickets_from_def
    by (simp add: tickets_count_row_def Let_def)
qed

lemma tickets_loop:
  fixes m :: int
  assumes v: "tickets_visible inc h" and d: "distinct (map e_id (w_events (h_world h)))"
    and all: "all_tickets inc h = rs @ qs @ rest"
  defines "st \<equiv> fold (tickets_step h) qs \<lparr>ts_aggregates = [], ts_gateways = {}, ts_orchestrators = {}, ts_max_event = m\<rparr>"
  shows "tickets.batch_of rs qs (ts_aggregates st) \<and> ts_gateways st = (\<lambda>r. (tickets_key_of r, tr_gateway r)) ` set qs
    \<and> ts_orchestrators st = (\<lambda>r. (tickets_key_of r, tr_orchestrator r)) ` set qs
    \<and> ts_max_event st = fold max (map tr_event qs) m"
  using all unfolding st_def
proof (induction qs arbitrary: rest rule: rev_induct)
  case Nil
  then show ?case by (simp add: tickets.batch_of_def)
next
  case (snoc row qs)
  let ?own = "filter (\<lambda>r. tickets_key_of r = tickets_key_of row)"
  let ?st = "fold (tickets_step h) qs \<lparr>ts_aggregates = [], ts_gateways = {}, ts_orchestrators = {}, ts_max_event = m\<rparr>"
  have IH: "tickets.batch_of rs qs (ts_aggregates ?st)" "ts_gateways ?st = (\<lambda>r. (tickets_key_of r, tr_gateway r)) ` set qs"
    "ts_orchestrators ?st = (\<lambda>r. (tickets_key_of r, tr_orchestrator r)) ` set qs"
    "ts_max_event ?st = fold max (map tr_event qs) m"
    using snoc.IH [of "row # rest"] snoc.prems by simp_all
  have a: "all_tickets inc h = (rs @ qs) @ row # rest" using snoc.prems by simp
  have new: "((tickets_key_of row, tr_gateway row) \<notin> ts_gateways ?st \<and> \<not> tickets_prior_gateway_seen row (tickets_key_of row) h)
      = (tr_gateway row \<notin> tr_gateway ` set (?own rs @ ?own qs))"
    "((tickets_key_of row, tr_orchestrator row) \<notin> ts_orchestrators ?st \<and> \<not> tickets_prior_orchestrator_seen row (tickets_key_of row) h)
      = (tr_orchestrator row \<notin> tr_orchestrator ` set (?own rs @ ?own qs))"
    unfolding tickets_prior_gateway_seen_def tickets_prior_orchestrator_seen_def IH(2,3)
    using tickets_prior_iff [OF v d a] by auto
  have agg: "map_of (ts_aggregates ?st) k = (if filter (\<lambda>r. tickets_key_of r = k) qs = [] then None
      else Some (tickets_batch (filter (\<lambda>r. tickets_key_of r = k) rs) (filter (\<lambda>r. tickets_key_of r = k) qs)))" for k
    using IH(1) by (simp add: tickets.batch_of_def Let_def)
  have zero: "tickets_batch rs' [] = tickets_zero" for rs' by (simp add: tickets_batch_def tickets_from_def)
  have "tickets.batch_of rs (qs @ [row]) (ts_aggregates (tickets_step h row ?st))"
    unfolding tickets.batch_of_def
  proof (intro conjI allI)
    show "distinct (map fst (ts_aggregates (tickets_step h row ?st)))"
      using IH(1) by (simp add: tickets_step_def Let_def tickets.batch_of_def entry_with_distinct)
    fix k
    show "map_of (ts_aggregates (tickets_step h row ?st)) k = (let new = filter (\<lambda>r. tickets_key_of r = k) (qs @ [row])
      in if new = [] then None else Some (tickets_batch (filter (\<lambda>r. tickets_key_of r = k) rs) new))"
    proof (cases "k = tickets_key_of row")
      case True
      then show ?thesis
        by (simp add: tickets_step_def Let_def entry_with_map_of agg new zero tickets_batch_snoc)
    next
      case False
      then show ?thesis by (simp add: tickets_step_def Let_def entry_with_map_of agg)
    qed
  qed
  moreover have "ts_gateways (tickets_step h row ?st) = (\<lambda>r. (tickets_key_of r, tr_gateway r)) ` set (qs @ [row])"
    "ts_orchestrators (tickets_step h row ?st) = (\<lambda>r. (tickets_key_of r, tr_orchestrator r)) ` set (qs @ [row])"
    "ts_max_event (tickets_step h row ?st) = fold max (map tr_event (qs @ [row])) m"
    by (simp_all add: tickets_step_def Let_def IH(2,3,4) max.commute)
  ultimately show ?case unfolding fold_append comp_def fold_simps id_apply by blast
qed

section \<open>Incremental counting agrees with rebuilding\<close>

definition upto :: "int \<Rightarrow> 'n warehouse \<Rightarrow> 'n warehouse" where
  "upto c h = h\<lparr>h_world := (h_world h)\<lparr>w_events := filter (\<lambda>e. e_id e \<le> c) (w_events (h_world h))\<rparr>\<rparr>"

definition tickets_done :: "'n warehouse \<Rightarrow> int" where
  "tickets_done h = or_zero (named_checkpoint TICKETS_CHECKPOINT h)"

definition tickets_current :: "bool \<Rightarrow> 'n warehouse \<Rightarrow> bool" where
  "tickets_current inc h \<longleftrightarrow> (\<forall>k. get_aggregate (h_tickets h) k = tickets_rebuild inc k (upto (tickets_done h) h))"

definition tickets_pending :: "bool \<Rightarrow> 'n warehouse \<Rightarrow> nat" where
  "tickets_pending inc h = length (filter (\<lambda>e. is_ticket inc e \<and> tickets_done h < e_id e) (w_events (h_world h)))"

lemma fold_tickets_upsert:
  "fold tickets_upsert rs h = h\<lparr>h_tickets := fold (put_aggregate tickets_merge) rs (h_tickets h)\<rparr>"
  by (induction rs arbitrary: h) (simp_all add: tickets_upsert_def)

lemma rebuild_upto:
  "tickets_rebuild inc k (upto c h) = tickets.table_of (filter (\<lambda>r. tr_event r \<le> c) (all_tickets inc h)) k"
proof -
  have "ticket_row_of (upto c h) = ticket_row_of h"
    by (rule ext) (simp add: ticket_row_of_def broadcaster_kind_def upto_def)
  moreover have "events_of (upto c h) = filter (\<lambda>e. e_id e \<le> c) (events_of h)"
    by (simp add: events_of_def upto_def filter_sort)
  ultimately have "fetch_ticket_rows_for_key inc k (upto c h)
      = filter (\<lambda>r. tickets_key_of r = k) (filter (\<lambda>r. tr_event r \<le> c) (all_tickets inc h))"
    by (simp add: fetch_ticket_rows_for_key_def all_tickets_def filter_map comp_def ticket_row_of_def conj_ac cong: conj_cong)
  then show ?thesis by (simp add: tickets_rebuild_def tickets.table_of_def tickets_from_def Let_def)
qed

lemma fold_max_last:
  "xs \<noteq> [] \<Longrightarrow> \<forall>x\<in>set xs. x \<le> last xs \<Longrightarrow> (c :: int) \<le> last xs \<Longrightarrow> fold max xs c = last xs"
  by (metis Max.set_eq_fold Max_eqI finite_set insertE insert_iff last_in_set list.set(2))

lemma done_advance:
  "tickets_done (advance_named_checkpoint TICKETS_CHECKPOINT v h)
     = (case named_checkpoint TICKETS_CHECKPOINT h of None \<Rightarrow> v | Some c \<Rightarrow> max c v)"
  using marks.mark_advance
  by (auto simp: tickets_done_def named_checkpoint_def advance_named_checkpoint_def or_zero_def split: option.split)

lemma no_mutations:
  "mutated_events P cp h = [] \<Longrightarrow> P = (\<lambda>e. e_name e = ''WinningTicketRedeemed'') \<Longrightarrow>
     cp = named_checkpoint TICKETS_REORG_CHECKPOINT h \<Longrightarrow> tickets_process_reorg_mutations ko inc h = (0, h)"
  by (simp add: tickets_process_reorg_mutations_def Let_def)

text \<open>The rows a run fetches are the next ones of all ticket rows.\<close>

lemma fetched_rows:
  assumes pos: "\<forall>e\<in>set (w_events (h_world h)). 0 < e_id e"
  shows "fetch_ticket_rows inc (named_checkpoint TICKETS_CHECKPOINT h) limit h
    = take limit (filter (\<lambda>r. tickets_done h < tr_event r) (all_tickets inc h))"
proof -
  have "filter (\<lambda>e. is_ticket inc e \<and> after_event (named_checkpoint TICKETS_CHECKPOINT h) e) (events_of h)
      = filter (\<lambda>e. is_ticket inc e \<and> tickets_done h < e_id e) (events_of h)"
    using pos by (intro filter_cong refl) (auto simp: after_event_def tickets_done_def or_zero_def events_of_def split: option.split)
  then show ?thesis
    by (simp add: fetch_ticket_rows_def all_tickets_def take_map filter_map comp_def ticket_row_of_def)
qed

lemma pending_rows: "tickets_pending inc h = length (filter (\<lambda>r. tickets_done h < tr_event r) (all_tickets inc h))"
proof -
  have "mset (filter P (events_of h)) = mset (filter P (w_events (h_world h)))" for P
    by (simp add: events_of_def)
  then show ?thesis
    by (simp add: tickets_pending_def all_tickets_def filter_map comp_def ticket_row_of_def conj_commute flip: size_mset)
qed

lemma tickets_counted:
  assumes cur: "tickets_current inc h" and all: "filter (\<lambda>r. tr_event r \<le> c') (all_tickets inc h)
      = filter (\<lambda>r. tr_event r \<le> tickets_done h) (all_tickets inc h) @ qs"
    and b: "tickets.batch_of (filter (\<lambda>r. tr_event r \<le> tickets_done h) (all_tickets inc h)) qs as"
  shows "get_aggregate (fold (put_aggregate tickets_merge) as (h_tickets h)) k = tickets_rebuild inc k (upto c' h)"
  unfolding rebuild_upto all
  by (rule tickets.table_of_batch [OF _ b]) (use cur in \<open>simp add: tickets_current_def rebuild_upto\<close>)

lemma rebuild_world_only:
  "h_kinds h' = h_kinds h \<Longrightarrow> w_events (h_world h') = w_events (h_world h) \<Longrightarrow>
     all_tickets inc h' = all_tickets inc h"
  by (simp add: all_tickets_def events_of_def ticket_row_of_def broadcaster_kind_def cong: map_cong)

text \<open>The mark after a batch separates the rows counted from those still pending.\<close>

lemma next_batch:
  fixes f :: "'a \<Rightarrow> int"
  assumes srt: "sorted_wrt (\<lambda>a b. f a < f b) all" and ne: "take n (filter (\<lambda>a. c < f a) all) \<noteq> []"
  defines "rows \<equiv> take n (filter (\<lambda>a. c < f a) all)"
  shows "c < f (last rows)" "filter (\<lambda>a. f a \<le> f (last rows)) all = filter (\<lambda>a. f a \<le> c) all @ rows"
    "filter (\<lambda>a. f (last rows) < f a) all = drop n (filter (\<lambda>a. c < f a) all)"
    "fold max (map f rows) c = f (last rows)"
proof -
  let ?later = "filter (\<lambda>a. c < f a) all" and ?old = "filter (\<lambda>a. f a \<le> c) all"
  have split: "?old @ ?later = all" using after_and_upto [OF srt, of c] by simp
  have ls: "sorted_wrt (\<lambda>a b. f a < f b) ?later" by (rule sorted_wrt_filter [OF srt])
  note tk = taken_are_upto [OF ls ne, folded rows_def]
  have ne': "rows \<noteq> []" using ne unfolding rows_def .
  have "set rows \<subseteq> set ?later" unfolding rows_def by (rule set_take_subset)
  then show cl: "c < f (last rows)" using last_in_set [OF ne'] by auto
  have sp: "filter P all = filter P ?old @ filter P ?later" for P by (metis split filter_append)
  have "filter (\<lambda>a. f a \<le> f (last rows)) ?old = ?old" by (rule filter_True) (use cl in auto)
  then show "filter (\<lambda>a. f a \<le> f (last rows)) all = ?old @ rows"
    using tk sp [of "\<lambda>a. f a \<le> f (last rows)"] by argo
  have "filter (\<lambda>a. f (last rows) < f a) ?old = []" by (rule filter_False) (use cl in auto)
  then show "filter (\<lambda>a. f (last rows) < f a) all = drop n ?later"
    using tk sp [of "\<lambda>a. f (last rows) < f a"] by (metis append_Nil)
  have le: "f a \<le> f (last rows)" if "a \<in> set rows" for a
  proof -
    have "a \<in> set (filter (\<lambda>a. f a \<le> f (last rows)) ?later)" using that tk by simp
    then show ?thesis by simp
  qed
  have l: "last (map f rows) = f (last rows)" using ne' by (rule last_map)
  have "map f rows \<noteq> []" using ne' by simp
  then have "fold max (map f rows) c = last (map f rows)"
    by (rule fold_max_last) (use le cl in \<open>auto simp: l\<close>)
  then show "fold max (map f rows) c = f (last rows)" by (simp only: l)
qed

abbreviation next_tickets :: "bool \<Rightarrow> nat \<Rightarrow> 'n warehouse \<Rightarrow> ticket_row list" where
  "next_tickets inc limit h \<equiv> take limit (filter (\<lambda>r. tickets_done h < tr_event r) (all_tickets inc h))"

lemma tickets_run_cases:
  assumes pos: "\<forall>e\<in>set (w_events (h_world h)). 0 < e_id e"
    and quiet: "mutated_events (\<lambda>e. e_name e = ''WinningTicketRedeemed'') (named_checkpoint TICKETS_REORG_CHECKPOINT h) h = []"
    and run: "tickets_run_once ko order inc limit h = (sm, h')"
  obtains (idle) "next_tickets inc limit h = []"
      "h' = advance_named_checkpoint TICKETS_CHECKPOINT (or_zero (named_checkpoint TICKETS_CHECKPOINT h)) h"
      "rs_events_seen sm = 0"
  | (counted) st where "next_tickets inc limit h \<noteq> []"
      "st = fold (tickets_step h) (next_tickets inc limit h)
         \<lparr>ts_aggregates = [], ts_gateways = {}, ts_orchestrators = {}, ts_max_event = tickets_done h\<rparr>"
      "h' = advance_named_checkpoint TICKETS_CHECKPOINT (ts_max_event st) (fold tickets_upsert (order (ts_aggregates st)) h)"
      "rs_events_seen sm = length (next_tickets inc limit h)"
proof -
  note r = run [unfolded tickets_run_once_def no_mutations [OF quiet refl refl] Let_def prod.case fetched_rows [OF pos]]
  show ?thesis
  proof (cases "next_tickets inc limit h = []")
    case True
    then show ?thesis using r by (intro idle) auto
  next
    case False
    note r' = r [unfolded if_not_P [OF False] prod.inject]
    show ?thesis
      by (rule counted [OF False refl])
        (unfold tickets_done_def, rule conjunct2 [OF r', symmetric, unfolded tickets_done_def],
         simp only: conjunct1 [OF r', symmetric, unfolded tickets_done_def] rollup_summary.select_convs)
  qed
qed

text \<open>What the other tables and marks keep.\<close>

lemma advance_keeps:
  "h_tickets (advance_named_checkpoint n v h) = h_tickets h" "all_tickets inc (advance_named_checkpoint n v h) = all_tickets inc h"
  by (simp add: advance_named_checkpoint_def) (rule rebuild_world_only; simp add: advance_named_checkpoint_def)

lemma upserts_keep: "all_tickets inc (fold tickets_upsert as h) = all_tickets inc h"
  "named_checkpoint n (fold tickets_upsert as h) = named_checkpoint n h"
  unfolding fold_tickets_upsert by (rule rebuild_world_only; simp) (simp add: named_checkpoint_def)


section \<open>A concrete rollup\<close>

text \<open>Two tickets of one gateway on one day.\<close>

definition ticket_event :: "int \<Rightarrow> event_row" where
  "ticket_event i = sample_event\<lparr>e_id := i, e_log := i, e_name := ''WinningTicketRedeemed'', e_block := i,
     e_from := Some ''0xg'', e_to := Some ''0xo'', e_finality := Finalized\<rparr>"

definition ticket_house :: "event_row list \<Rightarrow> mutation_row list \<Rightarrow> unit warehouse" where
  "ticket_house es ms = \<lparr>h_world = (empty_world ())\<lparr>w_events := es\<rparr>, h_mutations = ms, h_kinds = [],
     h_tickets = [], h_payouts = [], h_rewards = [], h_metrics = []\<rparr>"

lemma ticket_event_simps [simp]:
  "e_id (ticket_event i) = i" "e_name (ticket_event i) = ''WinningTicketRedeemed''" "e_canonical (ticket_event i)"
  "e_chain (ticket_event i) = ARBITRUM_CHAIN_ID" "is_ticket inc (ticket_event i)" "e_ts (ticket_event i) = 1000"
  "e_from (ticket_event i) = Some ''0xg''" "e_to (ticket_event i) = Some ''0xo''" "e_block (ticket_event i) = i"
  by (simp_all add: ticket_event_def sample_event_def is_ticket_def)


section \<open>Where the rollup and its sources part\<close>

lemma rebuild_cong:
  "h_world h' = h_world h \<Longrightarrow> h_kinds h' = h_kinds h \<Longrightarrow> tickets_rebuild inc k h' = tickets_rebuild inc k h"
  by (simp add: tickets_rebuild_def fetch_ticket_rows_for_key_def events_of_def ticket_row_of_def
      broadcaster_kind_def cong: map_cong)

lemma rebuild_keys:
  fixes h h' :: "'n warehouse"
  assumes "fold (tickets_rebuild_key inc) ks (n, h) = (n', h')"
  shows "h_world h' = h_world h \<and> h_kinds h' = h_kinds h \<and> get_aggregate (h_tickets h') k
     = (if k \<in> set ks then tickets_rebuild inc k h else get_aggregate (h_tickets h) k)"
  using assms
proof (induction ks arbitrary: n h)
  case (Cons q ks)
  obtain n1 h1 where s: "tickets_rebuild_key inc q (n, h) = (n1, h1)" by fastforce
  have h1: "h_world h1 = h_world h" "h_kinds h1 = h_kinds h"
    "get_aggregate (h_tickets h1) k = (if k = q then tickets_rebuild inc k h else get_aggregate (h_tickets h) k)"
    using s by (auto simp: tickets_rebuild_key_def tickets_replace_def tickets_delete_def get_put_aggregate get_drop_aggregate
        split: option.splits)
  have "fold (tickets_rebuild_key inc) ks (n1, h1) = (n', h')" using Cons.prems by (simp add: s)
  from Cons.IH [OF this] show ?case using h1 rebuild_cong [OF h1(1,2)] by auto
qed simp

definition count_at :: "(tickets_key \<times> tickets_agg) list \<Rightarrow> tickets_key \<Rightarrow> int" where
  "count_at t k = (case get_aggregate t k of None \<Rightarrow> 0 | Some a \<Rightarrow> ta_count a)"

lemma loop_counts:
  "distinct (map fst (ts_aggregates st)) \<Longrightarrow> distinct (map fst (ts_aggregates (fold (tickets_step h) rows st)))
     \<and> count_at (ts_aggregates (fold (tickets_step h) rows st)) k
       = count_at (ts_aggregates st) k + int (length (filter (\<lambda>r. tickets_key_of r = k) rows))"
proof (induction rows arbitrary: st)
  case (Cons row rows)
  have "distinct (map fst (ts_aggregates (tickets_step h row st)))"
    "count_at (ts_aggregates (tickets_step h row st)) k
      = count_at (ts_aggregates st) k + (if tickets_key_of row = k then 1 else 0)"
    using Cons.prems by (auto simp: tickets_step_def Let_def entry_with_distinct count_at_def get_aggregate_map_of
        entry_with_map_of tickets_zero_def split: option.split)
  then show ?case using Cons.IH by simp
qed simp

lemma upserts_count:
  assumes d: "distinct (map fst as)" and m: "mset as' = mset as"
  shows "count_at (fold (put_aggregate tickets_merge) as' t) k = count_at t k + count_at as k"
proof -
  have "mset (map fst as') = mset (map fst as)" using m by simp
  then have d': "distinct (map fst as')" using d by (metis mset_eq_imp_distinct_iff)
  have "map_of as' = map_of as"
    using d d' m by (intro map_of_inject_set [THEN iffD2]) (auto dest: mset_eq_setD)
  then show ?thesis
    unfolding count_at_def get_fold_put [OF d'] unfolding get_aggregate_map_of
    by (simp add: tickets_merge_def split: option.split)
qed

text \<open>
  C7. A key touched by a reorg mutation is rebuilt from all its events, and the same run then
  adds the events after the checkpoint to it once more: its stored count exceeds what rebuilding
  gives by the number of these events.
\<close>

theorem reorg_rebuild_counts_twice:
  fixes h h' :: "'n warehouse"
  assumes rows: "rows = mutated_events (\<lambda>e. e_name e = ''WinningTicketRedeemed'')
      (named_checkpoint TICKETS_REORG_CHECKPOINT h) h" and k: "k \<in> set (tickets_reorg_keys inc rows h)"
    and new: "new = fetch_ticket_rows inc (named_checkpoint TICKETS_CHECKPOINT h) limit h"
    and order: "\<And>ks. mset (ko ks) = mset ks" "\<And>as. mset (order as) = mset as"
    and run: "tickets_run_once ko order inc limit h = (sm, h')"
  shows "tickets_rebuild inc k h' = tickets_rebuild inc k h
     \<and> count_at (h_tickets h') k = (case tickets_rebuild inc k h of None \<Rightarrow> 0 | Some a \<Rightarrow> ta_count a)
       + int (length (filter (\<lambda>r. tickets_key_of r = k) new))"
proof -
  have ne: "rows \<noteq> []" using k by (auto simp: tickets_reorg_keys_def)
  obtain n h1 where f: "fold (tickets_rebuild_key inc) (ko (tickets_reorg_keys inc rows h)) (0, h) = (n, h1)" by fastforce
  define h2 where "h2 = advance_named_checkpoint TICKETS_REORG_CHECKPOINT
    (fold (\<lambda>(m, e) a. max a (m_id m)) rows (or_zero (named_checkpoint TICKETS_REORG_CHECKPOINT h))) h1"
  have pr: "tickets_process_reorg_mutations ko inc h = (n, h2)"
    using ne f by (simp add: tickets_process_reorg_mutations_def rows [symmetric] h2_def Let_def)
  have kk: "k \<in> set (ko (tickets_reorg_keys inc rows h))" using k order(1) by (metis mset_eq_setD)
  note rk = rebuild_keys [OF f, of k]
  have same: "w_events (h_world h2) = w_events (h_world h)" "h_kinds h2 = h_kinds h"
    "named_checkpoint TICKETS_CHECKPOINT h2 = named_checkpoint TICKETS_CHECKPOINT h"
    "get_aggregate (h_tickets h2) k = tickets_rebuild inc k h"
    using rk kk by (simp_all add: h2_def advance_named_checkpoint_def named_checkpoint_def marks.mark_advance
        TICKETS_CHECKPOINT_def TICKETS_REORG_CHECKPOINT_def)
  have fetch: "fetch_ticket_rows inc (named_checkpoint TICKETS_CHECKPOINT h2) limit h2 = new"
    unfolding new same(3) by (simp add: fetch_ticket_rows_def events_of_def ticket_row_of_def broadcaster_kind_def same(1,2) cong: map_cong)
  have h': "w_events (h_world h') = w_events (h_world h)" "h_kinds h' = h_kinds h"
    "count_at (h_tickets h') k = count_at (h_tickets h2) k + int (length (filter (\<lambda>r. tickets_key_of r = k) new))"
  proof -
    define st where "st = fold (tickets_step h2) new \<lparr>ts_aggregates = [], ts_gateways = {}, ts_orchestrators = {},
      ts_max_event = or_zero (named_checkpoint TICKETS_CHECKPOINT h2)\<rparr>"
    have c: "distinct (map fst (ts_aggregates st))" "count_at (ts_aggregates st) k = int (length (filter (\<lambda>r. tickets_key_of r = k) new))"
      unfolding st_def using loop_counts [of "\<lparr>ts_aggregates = [], ts_gateways = {}, ts_orchestrators = {},
        ts_max_event = or_zero (named_checkpoint TICKETS_CHECKPOINT h2)\<rparr>" h2 new k]
      by (simp_all add: count_at_def get_aggregate_map_of)
    show "w_events (h_world h') = w_events (h_world h)" "h_kinds h' = h_kinds h"
      "count_at (h_tickets h') k = count_at (h_tickets h2) k + int (length (filter (\<lambda>r. tickets_key_of r = k) new))"
      using run same(1,2) upserts_count [OF c(1) order(2), of "h_tickets h2" k] c(2)
      by (auto simp: tickets_run_once_def pr fetch st_def [symmetric] Let_def advance_named_checkpoint_def
          fold_tickets_upsert split: if_splits)
  qed
  have "tickets_rebuild inc k h' = tickets_rebuild inc k h"
    by (simp add: tickets_rebuild_def fetch_ticket_rows_for_key_def events_of_def ticket_row_of_def
        broadcaster_kind_def h'(1,2) cong: map_cong)
  then show ?thesis using h'(3) same(4) unfolding count_at_def by simp
qed


theorem reorg_rebuild_counts_twice_witness:
  "let h = ticket_house [ticket_event 1, ticket_event 2] [\<lparr>m_id = 1, m_event = 1\<rparr>];
       k = \<lparr>tk_day = 0, tk_kind = ''transcoding''\<rparr>;
       h' = snd (tickets_run_once id id False 10 h)
   in count_at (h_tickets h') k = 4 \<and> map_option ta_count (tickets_rebuild False k h') = Some 2"
proof -
  let ?h = "ticket_house [ticket_event 1, ticket_event 2] [\<lparr>m_id = 1, m_event = 1\<rparr>]"
  let ?k = "\<lparr>tk_day = 0, tk_kind = ''transcoding''\<rparr>"
  let ?rows = "mutated_events (\<lambda>e. e_name e = ''WinningTicketRedeemed'') (named_checkpoint TICKETS_REORG_CHECKPOINT ?h) ?h"
  obtain sm h' where run: "tickets_run_once id id False 10 ?h = (sm, h')" by fastforce
  have evs: "w_events (h_world ?h) = [ticket_event 1, ticket_event 2]" by (simp add: ticket_house_def empty_world_def)
  have cp: "named_checkpoint n ?h = None" for n
    by (simp add: named_checkpoint_def checkpoint_def ticket_house_def empty_world_def)
  have key: "tickets_key_of (ticket_row_of ?h (ticket_event i)) = ?k" for i
    by (simp add: tickets_key_of_def ticket_row_of_def day_utc_def broadcaster_kind_def ticket_house_def)
  have rows: "?rows = [(\<lparr>m_id = 1, m_event = 1\<rparr>, ticket_event 1)]"
    by (simp add: mutated_events_def cp or_zero_def) (simp add: ticket_house_def empty_world_def)
  have "tickets_current_keys False 1 ?h = [?k]" by (simp add: tickets_current_keys_def evs key)
  then have k: "?k \<in> set (tickets_reorg_keys False ?rows ?h)"
    unfolding rows by (simp add: tickets_reorg_keys_def)
  have ev: "events_of ?h = [ticket_event 1, ticket_event 2]" by (simp add: events_of_def evs)
  have new: "filter (\<lambda>r. tickets_key_of r = ?k) (fetch_ticket_rows False (named_checkpoint TICKETS_CHECKPOINT ?h) 10 ?h)
      = map (ticket_row_of ?h) [ticket_event 1, ticket_event 2]"
    by (simp add: fetch_ticket_rows_def cp ev after_event_def key)
  have "map_option ta_count (tickets_rebuild False ?k ?h) = Some 2"
    by (simp add: tickets_rebuild_def Let_def fetch_ticket_rows_for_key_def ev key tickets_count_row_def tickets_zero_def)
  then show ?thesis
    using reorg_rebuild_counts_twice [OF refl k refl _ _ run] unfolding Let_def run snd_conv new by auto
qed



end
