(* ===== verification/Rollup_Shares.thy ===== *)
theory Rollup_Shares
  imports Rollup_Props
begin

text \<open>
  The payout rollup's split of a ticket: the cached lookup gives the share of the latest
  \<open>TranscoderUpdate\<close> at or before the event, and what a rebuild stores is the contract's
  aggregate of the rows with their shares.
\<close>

section \<open>The order of the updates\<close>

lemma sorted_by_both:
  assumes "sorted_wrt (\<lambda>a b. (g a :: int) \<le> g b) xs"
  shows "sorted_wrt (\<lambda>a b. (f a :: int) < f b \<or> f a = f b \<and> g a \<le> g b) (sort_key f xs)"
proof -
  have "sorted_wrt (\<lambda>a b. f a < f b \<or> f a = f b \<and> g a \<le> g b) ys"
    if "sorted (map f ys)" "\<And>k. sorted_wrt (\<lambda>a b. g a \<le> g b) (filter (\<lambda>a. f a = k) ys)" for ys
    using that
  proof (induction ys)
    case (Cons a ys)
    have tl: "sorted_wrt (\<lambda>a b. g a \<le> g b) (filter (\<lambda>c. f c = k) ys)" for k
      using Cons.prems(2) [of k] by (simp split: if_splits)
    have "f a < f b \<or> f a = f b \<and> g a \<le> g b" if b: "b \<in> set ys" for b
    proof (cases "f a = f b")
      case True
      then show ?thesis using Cons.prems(2) [of "f a"] b by simp
    next
      case False
      then show ?thesis using Cons.prems(1) b by auto
    qed
    then show ?case using Cons.IH [OF _ tl] Cons.prems(1) by simp
  qed simp
  moreover have "filter (\<lambda>a. f a = k) (sort_key f xs) = filter (\<lambda>a. f a = k) xs" for k
    by (rule sort_key_stable)
  ultimately show ?thesis using assms by (simp add: sorted_wrt_filter)
qed

abbreviation at_or_before :: "int \<Rightarrow> int \<Rightarrow> event_row \<Rightarrow> bool" where
  "at_or_before b l e \<equiv> e_block e < b \<or> e_block e = b \<and> e_log e \<le> l"

lemma updates_in_order:
  "sorted_wrt (\<lambda>a c. e_block a < e_block c \<or> e_block a = e_block c \<and> e_log a \<le> e_log c) (transcoder_updates orch h)"
proof -
  have "sorted_wrt (\<lambda>a b. e_log a \<le> e_log b) (sort_key e_log xs)" for xs :: "event_row list"
    by (rule sorted_map [THEN iffD1, OF sorted_sort_key])
  then show ?thesis unfolding transcoder_updates_def by (rule sorted_by_both)
qed

section \<open>The share in force\<close>

definition share_text :: "ext \<Rightarrow> string \<Rightarrow> event_row \<Rightarrow> string" where
  "share_text x field e = (case decoded_field x field e of None \<Rightarrow> ''0'' | Some t \<Rightarrow> t)"

text \<open>The latest update at or before a position decides; there is none before the first.\<close>

definition share_in_force :: "ext \<Rightarrow> string \<Rightarrow> 'n warehouse \<Rightarrow> string \<Rightarrow> int \<Rightarrow> int \<Rightarrow> rat" where
  "share_in_force x field h orchestrator b l =
     (let past = filter (at_or_before b l) (transcoder_updates orchestrator h)
      in if past = [] then 0 else the (bd_parse x (share_text x field (last past))))"

lemma collect_Cons:
  assumes "collect_points (map (cut_point_of x field) (e # es)) = Some ps"
  obtains r qs where "bd_parse x (share_text x field e) = Some r"
    "collect_points (map (cut_point_of x field) es) = Some qs"
    "ps = \<lparr>cp_block = e_block e, cp_log = e_log e, cp_raw = r\<rparr> # qs"
proof -
  have c: "cut_point_of x field e = map_option (\<lambda>q. \<lparr>cp_block = e_block e, cp_log = e_log e, cp_raw = q\<rparr>)
      (bd_parse x (share_text x field e))" by (simp add: cut_point_of_def share_text_def)
  show ?thesis
    by (cases "bd_parse x (share_text x field e)"; cases "collect_points (map (cut_point_of x field) es)")
      (use assms c that in auto)
qed

lemma select_point_last:
  assumes "sorted_wrt (\<lambda>a c. e_block a < e_block c \<or> e_block a = e_block c \<and> e_log a \<le> e_log c) es"
    and "collect_points (map (cut_point_of x field) es) = Some ps"
  shows "select_point b l q ps = (let past = filter (at_or_before b l) es
     in if past = [] then q else the (bd_parse x (share_text x field (last past))))"
  using assms
proof (induction es arbitrary: ps q)
  case (Cons e es)
  from Cons.prems(2) obtain r qs where r: "bd_parse x (share_text x field e) = Some r"
      "collect_points (map (cut_point_of x field) es) = Some qs"
      "ps = \<lparr>cp_block = e_block e, cp_log = e_log e, cp_raw = r\<rparr> # qs"
    by (rule collect_Cons)
  show ?case
  proof (cases "at_or_before b l e")
    case True
    then have "\<not> compare_event_position (e_block e) (e_log e) b l > 0"
      by (auto simp: compare_event_position_def)
    then show ?thesis using Cons.IH [OF _ r(2), of r] Cons.prems(1) True r(1) by (simp add: r(3) Let_def)
  next
    case False
    then have "filter (at_or_before b l) es = []" using Cons.prems(1) by (auto simp: filter_empty_conv)
    moreover have "compare_event_position (e_block e) (e_log e) b l > 0"
      using False by (auto simp: compare_event_position_def)
    ultimately show ?thesis using False by (auto simp: r(3))
  qed
qed simp

text \<open>A cache of points read from the table.\<close>

definition cut_cache_ok :: "ext \<Rightarrow> string \<Rightarrow> 'n warehouse \<Rightarrow> cut_cache \<Rightarrow> bool" where
  "cut_cache_ok x field h cache \<longleftrightarrow> (\<forall>orch ps. cache orch = Some ps \<longrightarrow>
     collect_points (map (cut_point_of x field) (transcoder_updates orch h)) = Some ps)"

lemma raw_at_block_share:
  assumes "cut_cache_ok x field h cache" "raw_at_block x field err orch b l cache h = (Inr (q, cache'), h')"
  shows "h' = h \<and> q = share_in_force x field h orch b l \<and> cut_cache_ok x field h cache'"
proof -
  have "select_point b l 0 ps = share_in_force x field h orch b l"
    if "collect_points (map (cut_point_of x field) (transcoder_updates orch h)) = Some ps" for ps
    using select_point_last [OF updates_in_order that] by (simp add: share_in_force_def)
  then show ?thesis using assms
    by (auto simp: raw_at_block_def cut_cache_ok_def split: option.splits if_splits)
qed

section \<open>Rebuilding a payout row\<close>

definition with_share :: "ext \<Rightarrow> 'n warehouse \<Rightarrow> payout_row \<Rightarrow> rat \<times> payout_row" where
  "with_share x h row = (share_in_force x ''feeShare'' h (po_orchestrator row) (po_block row) (po_log row), row)"

lemma rebuild_row_simps:
  "payouts_rebuild_row x row (a, seen, cache) =
     andthen (fee_share_raw_at_block x (po_orchestrator row) (po_block row) (po_log row) cache)
       (\<lambda>(q, cache'). ret (add_payout x q (if po_gateway row \<in> seen then 0 else 1) row a, insert (po_gateway row) seen, cache'))"
  by (simp add: payouts_rebuild_row_def)

lemma payouts_rebuild_fold:
  assumes "fold_io (payouts_rebuild_row x) rows (a, seen, cache) h = (Inr (a', seen', cache'), h')"
    and "cut_cache_ok x ''feeShare'' h cache"
  shows "h' = h \<and> (a', seen') = fold (payouts_count x) (map (with_share x h) rows) (a, seen)
    \<and> cut_cache_ok x ''feeShare'' h cache'"
  using assms
proof (induction rows arbitrary: a seen cache)
  case (Cons row rows)
  obtain q c1 h1 where q: "fee_share_raw_at_block x (po_orchestrator row) (po_block row) (po_log row) cache h = (Inr (q, c1), h1)"
    and rest: "fold_io (payouts_rebuild_row x) rows (add_payout x q (if po_gateway row \<in> seen then 0 else 1) row a,
        insert (po_gateway row) seen, c1) h1 = (Inr (a', seen', cache'), h')"
    using Cons.prems(1)
    by (auto simp: rebuild_row_simps andthen_def ret_def split: prod.splits sum.splits)
  note s = raw_at_block_share [OF Cons.prems(2) q [unfolded fee_share_raw_at_block_def]]
  then show ?case using Cons.IH [OF rest [unfolded conjunct1 [OF s]]] by (simp add: payouts_count_def with_share_def)
qed simp

definition payout_split_exact :: "payouts_agg \<Rightarrow> bool" where
  "payout_split_exact a \<longleftrightarrow> pa_commission a + pa_delegators a = pa_face a
     \<and> pa_commission_usd a + pa_delegators_usd a = pa_face_usd a
     \<and> 0 \<le> pa_priced a \<and> pa_priced a \<le> pa_count a \<and> pa_gateways a \<le> pa_count a"

lemma add_payout_split:
  "payout_split_exact a \<Longrightarrow> i \<le> 1 \<Longrightarrow> payout_split_exact (add_payout x q i row a)"
  by (auto simp: payout_split_exact_def add_payout_def Let_def split: option.split)

lemma payouts_from_split: "payout_split_exact (payouts_from x gs rows)"
proof -
  have "payout_split_exact (fst (fold (payouts_count x) rows (payouts_zero, gs)))"
    by (rule fold_keeps [where P = "\<lambda>st. payout_split_exact (fst st)"])
      (simp add: payouts_count_def add_payout_split, simp add: payout_split_exact_def payouts_zero_def)
  then show ?thesis by (simp add: payouts_from_def)
qed


text \<open>A ticket of 10 ETH after an update that shares half.\<close>

definition share_event :: event_row where
  "share_event = (ticket_event 1)\<lparr>e_name := ''TranscoderUpdate'',
     e_raw := JObj [(''decoded'', JObj [(''feeShare'', JStr (show_nat 500000))])]\<rparr>"

definition share_valuation :: valuation_row where
  "share_valuation = \<lparr>v_event = 2, v_version = ''v1'', v_asset = ''ETH'', v_method = ''m'', v_source = ''s'',
     v_status = ''priced'', v_chain = ARBITRUM_CHAIN_ID, v_block = 2, v_amount = 10, v_price = Some 3,
     v_usd = Some 30, v_detail = JNull\<rparr>"

definition share_house :: "unit warehouse" where
  "share_house = (ticket_house [] [])\<lparr>h_world := (empty_world ())\<lparr>w_events := [share_event, ticket_event 2],
     w_valuations := [share_valuation]\<rparr>\<rparr>"

definition share_key :: payouts_key where
  "share_key = \<lparr>pk_day = 0, pk_orchestrator = ''0xo'', pk_version = ''v1'', pk_kind = ''transcoding''\<rparr>"

definition share_row :: payout_row where
  "share_row = \<lparr>po_event = 2, po_block = 2, po_log = 2, po_ts = 1000, po_gateway = ''0xg'', po_orchestrator = ''0xo'',
     po_version = ''v1'', po_kind = ''transcoding'', po_native = 10, po_usd = Some 30\<rparr>"

lemma share_rows: "fetch_payout_rows_for_key False share_key share_house = [share_row]"
proof -
  have e: "events_of share_house = [share_event, ticket_event 2]"
    by (simp add: events_of_def share_house_def empty_world_def share_event_def)
  have n: "\<not> is_payout False share_event" "is_payout False (ticket_event 2)"
    by (simp_all add: is_payout_def share_event_def) (simp add: ticket_event_def)
  have v: "eth_valuations share_house (ticket_event 2) = [share_valuation]"
    by (simp add: eth_valuations_def share_house_def empty_world_def share_valuation_def)
  have r: "payout_row_of share_house (ticket_event 2) share_valuation = share_row"
    by (simp add: payout_row_of_def share_row_def share_valuation_def broadcaster_kind_def share_house_def ticket_house_def)
      (simp add: ticket_event_def)
  show ?thesis
    by (simp add: fetch_payout_rows_for_key_def payout_rows_def e n v r)
      (simp add: share_row_def payouts_key_of_def share_key_def day_utc_def)
qed

lemma share_point:
  "raw_at_block sample_ext ''feeShare'' err ''0xo'' 2 2 (\<lambda>_. None) share_house
    = (Inr (500000, [''0xo'' \<mapsto> [\<lparr>cp_block = 1, cp_log = 1, cp_raw = 500000\<rparr>]]), share_house)"
proof -
  have u: "transcoder_updates ''0xo'' share_house = [share_event]"
    by (simp add: transcoder_updates_def share_house_def empty_world_def share_event_def)
      (simp add: ticket_event_def sample_event_def)
  have "cut_point_of sample_ext ''feeShare'' share_event = Some \<lparr>cp_block = 1, cp_log = 1, cp_raw = 500000\<rparr>"
    by (simp add: cut_point_of_def decoded_field_def share_event_def sample_ext_def show_nat_def parse_digits_show_base)
      (simp add: ticket_event_def)
  then show ?thesis by (simp add: raw_at_block_def u compare_event_position_def)
qed


end
