(* ===== verification/Contract_Reads.thy ===== *)
theory Contract_Reads
  imports Round_Refresh
begin

text \<open>
  What the gateway and profile workers of \<open>crates/livepeer-staker/src\<close> share: the tables that only
  they write, next to the world, and one cached \<open>eth_call\<close> whose answer is decoded from hexadecimal.
\<close>

section \<open>The tables\<close>

text \<open>
  \<open>gateway_balances_by_block\<close>, \<open>gateway_claimants_by_block\<close>, \<open>gateway_flows\<close>, \<open>orch_stake_by_round\<close>
  and the materialized view \<open>orchestrator_profile\<close>, of which the columns that are read are kept.
\<close>

record balance_row =
  gb_chain :: int
  gb_gateway :: string
  gb_block :: int
  gb_ts :: int
  gb_hash :: string
  gb_deposit :: rat
  gb_funds :: rat
  gb_claimed :: rat
  gb_withdraw_round :: int
  gb_unlock :: bool
  gb_source :: string
  gb_raw :: json
  gb_trigger :: int

record claimant_row =
  gc_chain :: int
  gc_gateway :: string
  gc_claimant :: string
  gc_block :: int
  gc_ts :: int
  gc_hash :: string
  gc_claimable :: rat
  gc_claimed :: rat
  gc_source :: string
  gc_raw :: json
  gc_trigger :: int

record flow_row =
  gf_chain :: int
  gf_event :: int
  gf_gateway :: string
  gf_claimant :: "string option"
  gf_counterparty :: "string option"
  gf_block :: int
  gf_ts :: int
  gf_tx :: string
  gf_log :: int
  gf_name :: string
  gf_kind :: string
  gf_asset :: "string option"
  gf_native :: "rat option"
  gf_usd :: "rat option"
  gf_version :: "string option"

record orch_round_row =
  or_chain :: int
  or_address :: string
  or_round :: int
  or_block :: int
  or_ts :: int
  or_hash :: string
  or_stake :: rat
  or_uri :: "string option"
  or_fee_cut :: rat
  or_reward_cut :: rat
  or_fee_share :: rat
  or_active :: bool
  or_lifecycle :: "int option"
  or_trigger :: int

record profile_row =
  op_chain :: int
  op_address :: string
  op_block :: int

record 'n ledger =
  l_world :: "'n world"
  l_balances :: "balance_row list"
  l_claimants :: "claimant_row list"
  l_flows :: "flow_row list"
  l_orch_rounds :: "orch_round_row list"
  l_profiles :: "profile_row list"

section \<open>Reading\<close>

text \<open>A computation on the world, run on the ledger.\<close>

definition in_world :: "('n world, 'e, 'a) io \<Rightarrow> ('n ledger, 'e, 'a) io" where
  "in_world m l = (case m (l_world l) of (r, w) \<Rightarrow> (r, l\<lparr>l_world := w\<rparr>))"

text \<open>The raw bytes of a cached \<open>eth_call\<close> at a block, with the hash of the call.\<close>

definition contract_read ::
  "ext \<Rightarrow> bool \<Rightarrow> 'n provider \<Rightarrow> string \<Rightarrow> string \<Rightarrow> int \<Rightarrow> ('n, string \<times> string) db" where
  "contract_read x co archive contract calldata block_number =
     andthen (core (single_call_cached x co archive ''eth_call''
                (eth_call_on contract calldata block_number) (Some block_number))) (\<lambda>oc.
     andthen (of_result (decode_response_hex x (oc_bytes oc))) (\<lambda>raw. ret (raw, oc_hash oc)))"

text \<open>\<open>SELECT DISTINCT ON (key)\<close> of rows already in the order of the query: the first of each key.\<close>

fun distinct_on :: "('r \<Rightarrow> 'k) \<Rightarrow> 'r list \<Rightarrow> 'r list" where
  "distinct_on k [] = []"
| "distinct_on k (r # rs) = r # filter (\<lambda>q. k q \<noteq> k r) (distinct_on k rs)"

definition ledger_checkpoint :: "string \<Rightarrow> 'n ledger \<Rightarrow> int option" where
  "ledger_checkpoint name l = checkpoint (w_checkpoints (l_world l)) name"

definition advance_ledger_checkpoint :: "string \<Rightarrow> int \<Rightarrow> 'n ledger \<Rightarrow> 'n ledger" where
  "advance_ledger_checkpoint name v l =
     l\<lparr>l_world := (l_world l)\<lparr>w_checkpoints := advance_greatest name v (w_checkpoints (l_world l))\<rparr>\<rparr>"

text \<open>\<open>$2 IS NULL OR block_number >= $2\<close>.\<close>

definition from_block :: "int option \<Rightarrow> event_row \<Rightarrow> bool" where
  "from_block resume e \<longleftrightarrow> (case resume of None \<Rightarrow> True | Some b \<Rightarrow> b \<le> e_block e)"

end
