(* ===== verification/Gateway.thy ===== *)
theory Gateway
  imports Contract_Reads
begin

text \<open>
  \<open>crates/livepeer-staker/src/gateway.rs\<close>: the funding and payout events of the ticket broker become
  rows of \<open>gateway_flows\<close>, and the reserve of the claimants and the balances of the gateways are read
  from the contract at the blocks that touch them. Three batches with a checkpoint each; a row that
  is already stored is no candidate.
\<close>

section \<open>Data\<close>

definition ETH_DECIMALS_18 :: nat where "ETH_DECIMALS_18 = 18"
definition SOURCE_RPC_RECONCILED :: string where "SOURCE_RPC_RECONCILED = ''rpc_reconciled''"
definition GATEWAY_FLOW_BATCH_LIMIT :: nat where "GATEWAY_FLOW_BATCH_LIMIT = 2000"
definition GATEWAY_CLAIMANT_BATCH_LIMIT :: nat where "GATEWAY_CLAIMANT_BATCH_LIMIT = 1000"
definition GATEWAY_BALANCE_BATCH_LIMIT :: nat where "GATEWAY_BALANCE_BATCH_LIMIT = 250"
definition GATEWAY_FLOW_CHECKPOINT :: string where
  "GATEWAY_FLOW_CHECKPOINT = ''gateway_flow_backfill''"
definition GATEWAY_CLAIMANT_CHECKPOINT :: string where
  "GATEWAY_CLAIMANT_CHECKPOINT = ''gateway_claimant_backfill''"
definition GATEWAY_BALANCE_CHECKPOINT :: string where
  "GATEWAY_BALANCE_CHECKPOINT = ''gateway_balance_backfill''"

text \<open>The \<open>sol!\<close> generated coders of \<open>TicketBroker\<close>.\<close>

record sender_info =
  si_deposit :: nat
  si_withdraw_round :: nat
  si_funds :: nat
  si_claimed :: nat

record broker_abi =
  sender_info_hex :: "nat \<Rightarrow> string"
  unlock_hex :: "nat \<Rightarrow> string"
  claimable_hex :: "nat \<Rightarrow> nat \<Rightarrow> string"
  claimed_hex :: "nat \<Rightarrow> nat \<Rightarrow> string"
  sender_info_returns :: "string \<Rightarrow> string + sender_info"
  unlock_returns :: "string \<Rightarrow> string + bool"
  claimable_returns :: "string \<Rightarrow> string + nat"
  claimed_returns :: "string \<Rightarrow> string + nat"

record gateway_summary =
  gs_balance_seen :: nat
  gs_balance_written :: nat
  gs_flow_seen :: nat
  gs_flow_written :: nat
  gs_claimant_seen :: nat
  gs_claimant_written :: nat
  gs_gateways :: nat
  gs_claimants :: nat
  gs_flow_checkpoint :: "int option"
  gs_claimant_checkpoint :: "int option"
  gs_balance_checkpoint :: "int option"

record gateway_candidate =
  gw_event :: int
  gw_gateway :: string
  gw_block :: int
  gw_ts :: int
  gw_hash :: string

record flow_candidate =
  fc_event :: int
  fc_gateway :: string
  fc_claimant :: "string option"
  fc_counterparty :: "string option"
  fc_name :: string
  fc_kind :: string
  fc_block :: int
  fc_ts :: int
  fc_tx :: string
  fc_log :: int
  fc_asset :: "string option"
  fc_native :: "rat option"
  fc_usd :: "rat option"
  fc_version :: "string option"
  fc_hash :: string

record gateway_snapshot =
  sn_deposit :: rat
  sn_funds :: rat
  sn_claimed :: rat
  sn_withdraw_round :: int
  sn_unlock :: bool
  sn_raw :: json

record claimant_snapshot =
  cs_claimable :: rat
  cs_claimed :: rat
  cs_raw :: json

section \<open>Candidates\<close>

definition broker_event :: "bool \<Rightarrow> string list \<Rightarrow> event_row \<Rightarrow> bool" where
  "broker_event include_tentative names e \<longleftrightarrow> e_chain e = ARBITRUM_CHAIN_ID \<and> e_canonical e
     \<and> e_contract e = ''TicketBroker'' \<and> e_from e \<noteq> None \<and> e_name e \<in> set names
     \<and> (include_tentative \<or> e_finality e = Finalized)"

definition touch_names :: "string list" where
  "touch_names = [''DepositFunded'', ''ReserveFunded'', ''WinningTicketTransfer'', ''WinningTicketRedeemed'',
     ''ReserveClaimed'', ''Withdrawal'', ''Unlock'', ''UnlockCancelled'']"

definition flow_names :: "string list" where
  "flow_names = [''DepositFunded'', ''ReserveFunded'', ''WinningTicketTransfer'', ''WinningTicketRedeemed'',
     ''ReserveClaimed'', ''Withdrawal'']"

definition claim_names :: "string list" where
  "claim_names = [''WinningTicketTransfer'', ''WinningTicketRedeemed'', ''ReserveClaimed'']"

definition flow_kind :: "string \<Rightarrow> string" where
  "flow_kind name =
     (if name = ''DepositFunded'' then ''deposit_in''
      else if name = ''ReserveFunded'' then ''reserve_in''
      else if name = ''WinningTicketTransfer'' then ''reserve_transfer''
      else if name = ''WinningTicketRedeemed'' then ''ticket_redeemed''
      else if name = ''ReserveClaimed'' then ''reserve_claimed''
      else if name = ''Withdrawal'' then ''withdrawal''
      else ''other'')"

text \<open>The last event of each gateway in each block, of the pairs without a stored balance.\<close>

definition latest_touches :: "bool \<Rightarrow> 'n world \<Rightarrow> event_row list" where
  "latest_touches include_tentative s =
     distinct_on (\<lambda>e. (e_from e, e_block e)) (sort_key (\<lambda>e. - e_log e)
       (filter (broker_event include_tentative touch_names) (w_events s)))"

definition balance_key :: "balance_row \<Rightarrow> int \<times> string \<times> int" where
  "balance_key r = (gb_chain r, gb_gateway r, gb_block r)"

definition claimant_key :: "claimant_row \<Rightarrow> int \<times> string \<times> string \<times> int" where
  "claimant_key r = (gc_chain r, gc_gateway r, gc_claimant r, gc_block r)"

definition flow_key :: "flow_row \<Rightarrow> int \<times> string" where
  "flow_key r = (gf_event r, gf_kind r)"

definition gateway_candidate_of :: "event_row \<Rightarrow> gateway_candidate" where
  "gateway_candidate_of e = \<lparr>gw_event = e_id e, gw_gateway = the (e_from e), gw_block = e_block e,
     gw_ts = e_ts e, gw_hash = e_hash e\<rparr>"

definition fetch_balance_candidates_after ::
  "ext \<Rightarrow> bool \<Rightarrow> int option \<Rightarrow> nat \<Rightarrow> 'n ledger \<Rightarrow> gateway_candidate list" where
  "fetch_balance_candidates_after x include_tentative resume limit l =
     take limit (map gateway_candidate_of (sort_key e_block (sort_key (\<lambda>e. collate x (the (e_from e)))
       (filter (\<lambda>e. (ARBITRUM_CHAIN_ID, the (e_from e), e_block e) \<notin> balance_key ` set (l_balances l)
                  \<and> from_block resume e)
         (latest_touches include_tentative (l_world l))))))"

text \<open>\<open>LEFT JOIN event_valuations v ON v.event_id = r.id AND v.status = 'priced'\<close>.\<close>

definition priced_valuations :: "'n world \<Rightarrow> event_row \<Rightarrow> valuation_row option list" where
  "priced_valuations s e =
     (case filter (\<lambda>v. v_event v = e_id e \<and> v_status v = ''priced'') (w_valuations s) of
        [] \<Rightarrow> [None]
      | vs \<Rightarrow> map Some vs)"

definition flow_candidate_of :: "(event_row \<Rightarrow> string option) \<Rightarrow> event_row \<times> valuation_row option \<Rightarrow> flow_candidate" where
  "flow_candidate_of claimant ev =
     (case ev of (e, v) \<Rightarrow>
        \<lparr>fc_event = e_id e, fc_gateway = the (e_from e), fc_claimant = claimant e, fc_counterparty = e_to e,
         fc_name = e_name e, fc_kind = flow_kind (e_name e), fc_block = e_block e, fc_ts = e_ts e,
         fc_tx = e_tx e, fc_log = e_log e, fc_asset = e_asset e, fc_native = e_amount e,
         fc_usd = Option.bind v v_usd, fc_version = map_option v_version v, fc_hash = e_hash e\<rparr>)"

definition joined :: "'n world \<Rightarrow> event_row list \<Rightarrow> (event_row \<times> valuation_row option) list" where
  "joined s es = concat (map (\<lambda>e. map (Pair e) (priced_valuations s e)) es)"

definition in_log_order :: "event_row list \<Rightarrow> event_row list" where
  "in_log_order es = sort_key e_block (sort_key e_log es)"

definition payout_claimant :: "event_row \<Rightarrow> string option" where
  "payout_claimant e =
     (if e_name e \<in> {''WinningTicketRedeemed'', ''WinningTicketTransfer'', ''ReserveClaimed''} then e_to e else None)"

definition fetch_flow_candidates_after :: "bool \<Rightarrow> int option \<Rightarrow> nat \<Rightarrow> 'n ledger \<Rightarrow> flow_candidate list" where
  "fetch_flow_candidates_after include_tentative resume limit l =
     take limit (map (flow_candidate_of payout_claimant) (joined (l_world l) (in_log_order
       (filter (\<lambda>e. broker_event include_tentative flow_names e \<and> from_block resume e
                  \<and> (e_id e, flow_kind (e_name e)) \<notin> flow_key ` set (l_flows l))
         (w_events (l_world l))))))"

definition fetch_claimant_candidates_after :: "bool \<Rightarrow> int option \<Rightarrow> nat \<Rightarrow> 'n ledger \<Rightarrow> flow_candidate list" where
  "fetch_claimant_candidates_after include_tentative resume limit l =
     take limit (map (flow_candidate_of e_to) (joined (l_world l) (in_log_order
       (filter (\<lambda>e. broker_event include_tentative claim_names e \<and> e_to e \<noteq> None \<and> from_block resume e
                  \<and> (ARBITRUM_CHAIN_ID, the (e_from e), the (e_to e), e_block e)
                       \<notin> claimant_key ` set (l_claimants l))
         (w_events (l_world l))))))"

section \<open>Reading the contract\<close>

definition i64_max :: int where "i64_max = 2 ^ 63 - 1"

definition read_gateway_state ::
  "ext \<Rightarrow> bool \<Rightarrow> 'n provider \<Rightarrow> broker_abi \<Rightarrow> string \<Rightarrow> string \<Rightarrow> int \<Rightarrow> ('n, gateway_snapshot) db" where
  "read_gateway_state x co archive ba ticket_broker gateway block_number =
     andthen (some_or ''parsing gateway address'' (address_of x gateway)) (\<lambda>a.
     andthen (contract_read x co archive ticket_broker (sender_info_hex ba a) block_number) (\<lambda>(sender_raw, sender_hash).
     andthen (of_result (sender_info_returns ba sender_raw)) (\<lambda>sender.
     andthen (contract_read x co archive ticket_broker (unlock_hex ba a) block_number) (\<lambda>(unlock_raw, unlock_hash).
     andthen (of_result (unlock_returns ba unlock_raw)) (\<lambda>unlock.
       ret \<lparr>sn_deposit = u256_to_decimal x (si_deposit sender) ETH_DECIMALS_18,
            sn_funds = u256_to_decimal x (si_funds sender) ETH_DECIMALS_18,
            sn_claimed = u256_to_decimal x (si_claimed sender) ETH_DECIMALS_18,
            sn_withdraw_round = min (int (si_withdraw_round sender)) i64_max,
            sn_unlock = unlock,
            sn_raw = JObj [(''getSenderInfo_call_hash'', JStr sender_hash),
                           (''isUnlockInProgress_call_hash'', JStr unlock_hash)]\<rparr>)))))"

definition read_claimant_state ::
  "ext \<Rightarrow> bool \<Rightarrow> 'n provider \<Rightarrow> broker_abi \<Rightarrow> string \<Rightarrow> string \<Rightarrow> string \<Rightarrow> int \<Rightarrow> ('n, claimant_snapshot) db" where
  "read_claimant_state x co archive ba ticket_broker gateway claimant block_number =
     andthen (some_or ''parsing gateway address'' (address_of x gateway)) (\<lambda>a.
     andthen (some_or ''parsing claimant address'' (address_of x claimant)) (\<lambda>b.
     andthen (contract_read x co archive ticket_broker (claimable_hex ba a b) block_number) (\<lambda>(claimable_raw, claimable_hash).
     andthen (of_result (claimable_returns ba claimable_raw)) (\<lambda>claimable.
     andthen (contract_read x co archive ticket_broker (claimed_hex ba a b) block_number) (\<lambda>(claimed_raw, claimed_hash).
     andthen (of_result (claimed_returns ba claimed_raw)) (\<lambda>claimed.
       ret \<lparr>cs_claimable = u256_to_decimal x claimable ETH_DECIMALS_18,
            cs_claimed = u256_to_decimal x claimed ETH_DECIMALS_18,
            cs_raw = JObj [(''claimableReserve_call_hash'', JStr claimable_hash),
                           (''claimedReserve_call_hash'', JStr claimed_hash)]\<rparr>))))))"

section \<open>Writing\<close>

definition balance_row_of :: "ext \<Rightarrow> gateway_candidate \<Rightarrow> gateway_snapshot \<Rightarrow> balance_row" where
  "balance_row_of x c sn =
     \<lparr>gb_chain = ARBITRUM_CHAIN_ID, gb_gateway = gw_gateway c, gb_block = gw_block c, gb_ts = gw_ts c,
      gb_hash = gw_hash c, gb_deposit = numeric18 x (sn_deposit sn), gb_funds = numeric18 x (sn_funds sn),
      gb_claimed = numeric18 x (sn_claimed sn), gb_withdraw_round = sn_withdraw_round sn,
      gb_unlock = sn_unlock sn, gb_source = SOURCE_RPC_RECONCILED, gb_raw = sn_raw sn, gb_trigger = gw_event c\<rparr>"

text \<open>Every column outside the key is replaced.\<close>

definition upsert_gateway_row :: "ext \<Rightarrow> gateway_candidate \<Rightarrow> gateway_snapshot \<Rightarrow> 'n ledger \<Rightarrow> 'n ledger" where
  "upsert_gateway_row x c sn l =
     l\<lparr>l_balances := upsert balance_key (\<lambda>old new. new) (balance_row_of x c sn) (l_balances l)\<rparr>"

definition claimant_row_of :: "ext \<Rightarrow> flow_candidate \<Rightarrow> string \<Rightarrow> claimant_snapshot \<Rightarrow> claimant_row" where
  "claimant_row_of x c claimant sn =
     \<lparr>gc_chain = ARBITRUM_CHAIN_ID, gc_gateway = fc_gateway c, gc_claimant = claimant, gc_block = fc_block c,
      gc_ts = fc_ts c, gc_hash = fc_hash c, gc_claimable = numeric18 x (cs_claimable sn),
      gc_claimed = numeric18 x (cs_claimed sn), gc_source = SOURCE_RPC_RECONCILED, gc_raw = cs_raw sn,
      gc_trigger = fc_event c\<rparr>"

definition upsert_gateway_claimant_row :: "ext \<Rightarrow> flow_candidate \<Rightarrow> claimant_snapshot \<Rightarrow> 'n ledger \<Rightarrow> 'n ledger" where
  "upsert_gateway_claimant_row x c sn l =
     (case fc_claimant c of
        None \<Rightarrow> l
      | Some claimant \<Rightarrow>
          l\<lparr>l_claimants := upsert claimant_key (\<lambda>old new. new) (claimant_row_of x c claimant sn) (l_claimants l)\<rparr>)"

definition flow_row_of :: "ext \<Rightarrow> flow_candidate \<Rightarrow> flow_row" where
  "flow_row_of x c =
     \<lparr>gf_chain = ARBITRUM_CHAIN_ID, gf_event = fc_event c, gf_gateway = fc_gateway c, gf_claimant = fc_claimant c,
      gf_counterparty = fc_counterparty c, gf_block = fc_block c, gf_ts = fc_ts c, gf_tx = fc_tx c,
      gf_log = fc_log c, gf_name = fc_name c, gf_kind = fc_kind c, gf_asset = fc_asset c,
      gf_native = map_option (numeric18 x) (fc_native c), gf_usd = map_option (numeric18 x) (fc_usd c),
      gf_version = fc_version c\<rparr>"

definition upsert_gateway_flow :: "ext \<Rightarrow> flow_candidate \<Rightarrow> 'n ledger \<Rightarrow> 'n ledger" where
  "upsert_gateway_flow x c l =
     l\<lparr>l_flows := upsert flow_key (\<lambda>old new. new\<lparr>gf_chain := gf_chain old\<rparr>) (flow_row_of x c) (l_flows l)\<rparr>"

section \<open>One run\<close>

definition advance_touched :: "string \<Rightarrow> int option \<Rightarrow> 'n ledger \<Rightarrow> 'n ledger" where
  "advance_touched name touched l =
     (case touched of None \<Rightarrow> l | Some b \<Rightarrow> advance_ledger_checkpoint name b l)"

definition last_touched :: "('c \<Rightarrow> int) \<Rightarrow> 'c list \<Rightarrow> int option" where
  "last_touched block cs = (if cs = [] then None else Some (block (last cs)))"

text \<open>One claimant: the rows written, the block, and the pairs touched.\<close>

definition claimant_step ::
  "ext \<Rightarrow> bool \<Rightarrow> 'n provider \<Rightarrow> broker_abi \<Rightarrow> string \<Rightarrow> flow_candidate
     \<Rightarrow> nat \<times> int option \<times> (string \<times> string) list
     \<Rightarrow> ('n ledger, string, nat \<times> int option \<times> (string \<times> string) list) io" where
  "claimant_step x co archive ba ticket_broker c st =
     (case fc_claimant c of
        None \<Rightarrow> ret st
      | Some claimant \<Rightarrow>
          andthen (in_world (read_claimant_state x co archive ba ticket_broker (fc_gateway c) claimant (fc_block c))) (\<lambda>sn.
          andthen (modifying (upsert_gateway_claimant_row x c sn)) (\<lambda>_.
            case st of (written, touched, pairs) \<Rightarrow>
              ret (written + 1, Some (fc_block c), (fc_gateway c, claimant) # pairs))))"

definition balance_step ::
  "ext \<Rightarrow> bool \<Rightarrow> 'n provider \<Rightarrow> broker_abi \<Rightarrow> string \<Rightarrow> gateway_candidate
     \<Rightarrow> nat \<times> int option \<Rightarrow> ('n ledger, string, nat \<times> int option) io" where
  "balance_step x co archive ba ticket_broker c st =
     andthen (in_world (read_gateway_state x co archive ba ticket_broker (gw_gateway c) (gw_block c))) (\<lambda>sn.
     andthen (modifying (upsert_gateway_row x c sn)) (\<lambda>_. ret (fst st + 1, Some (gw_block c))))"

definition write_flows :: "ext \<Rightarrow> flow_candidate list \<Rightarrow> 'n ledger \<Rightarrow> 'n ledger" where
  "write_flows x cs l =
     advance_touched GATEWAY_FLOW_CHECKPOINT (last_touched fc_block cs) (fold (upsert_gateway_flow x) cs l)"

definition run_gateway_backfill ::
  "ext \<Rightarrow> bool \<Rightarrow> 'n provider \<Rightarrow> broker_abi \<Rightarrow> string \<Rightarrow> bool \<Rightarrow> ('n ledger, string, gateway_summary) io" where
  "run_gateway_backfill x co archive ba ticket_broker include_tentative l =
     (let flow_cp = ledger_checkpoint GATEWAY_FLOW_CHECKPOINT l;
          claimant_cp = ledger_checkpoint GATEWAY_CLAIMANT_CHECKPOINT l;
          balance_cp = ledger_checkpoint GATEWAY_BALANCE_CHECKPOINT l;
          flows = fetch_flow_candidates_after include_tentative flow_cp GATEWAY_FLOW_BATCH_LIMIT l;
          claimants = fetch_claimant_candidates_after include_tentative claimant_cp GATEWAY_CLAIMANT_BATCH_LIMIT l;
          balances = fetch_balance_candidates_after x include_tentative balance_cp GATEWAY_BALANCE_BATCH_LIMIT l;
          broker = lower ticket_broker
      in andthen (modifying (write_flows x flows)) (\<lambda>_.
         andthen (fold_io (claimant_step x co archive ba broker) claimants (0, None, [])) (\<lambda>(cw, ct, pairs).
         andthen (modifying (advance_touched GATEWAY_CLAIMANT_CHECKPOINT ct)) (\<lambda>_.
         andthen (fold_io (balance_step x co archive ba broker) balances (0, balance_cp)) (\<lambda>(bw, bt).
         andthen (modifying (advance_touched GATEWAY_BALANCE_CHECKPOINT bt)) (\<lambda>_.
           ret \<lparr>gs_balance_seen = length balances, gs_balance_written = bw,
                gs_flow_seen = length flows, gs_flow_written = length flows,
                gs_claimant_seen = length claimants, gs_claimant_written = cw,
                gs_gateways = length (remdups (map fc_gateway flows @ map gw_gateway balances)),
                gs_claimants = length (remdups pairs),
                gs_flow_checkpoint = (case last_touched fc_block flows of None \<Rightarrow> flow_cp | Some b \<Rightarrow> Some b),
                gs_claimant_checkpoint = (case ct of None \<Rightarrow> claimant_cp | Some b \<Rightarrow> Some b),
                gs_balance_checkpoint = bt\<rparr>))))) l)"

end
