(* ===== verification/Gateway_Props.thy ===== *)
theory Gateway_Props
  imports Gateway Contract_Stake_Props
begin

text \<open>
  What a run of the gateway worker leaves: the rows of its three tables, where a row's values come
  from, when there is nothing left to do, and what happens to a row stored before its event is priced.
\<close>

section \<open>Upserts of new keys\<close>

lemma upsert_tail:
  assumes "key r \<notin> key ` set t"
  shows "upsert key m r (t @ new) = t @ upsert key m r new"
proof -
  have "map (\<lambda>old. if key old = key r then m old r else old) t = t"
    using assms by (intro map_idI) (metis image_eqI)
  moreover have "find_row key t (key r) = None" using assms by (simp add: find_row_None_iff)
  ultimately show ?thesis by (simp add: upsert_def find_row_append)
qed

lemma fold_upsert_tail:
  assumes "\<forall>c\<in>set cs. key (f c) \<notin> key ` set t"
  shows "fold (\<lambda>c. upsert key m (f c)) cs (t @ new) = t @ fold (\<lambda>c. upsert key m (f c)) cs new"
  using assms by (induction cs arbitrary: new) (simp_all add: upsert_tail)

lemma fold_upsert_new:
  assumes "distinct (map (\<lambda>c. key (f c)) cs)" "\<forall>c\<in>set cs. key (f c) \<notin> key ` set t"
  shows "fold (\<lambda>c. upsert key m (f c)) cs t = t @ map f cs"
  using assms
proof (induction cs arbitrary: t)
  case (Cons c cs)
  have "upsert key m (f c) t = t @ [f c]" using Cons.prems(2) upsert_tail [of key "f c" t m "[]"]
    by (simp add: upsert_def)
  moreover have "\<forall>d\<in>set cs. key (f d) \<noteq> key (f c)"
  proof
    fix d assume "d \<in> set cs"
    then have "key (f d) \<in> set (map (\<lambda>c. key (f c)) cs)" by simp
    moreover have "key (f c) \<notin> set (map (\<lambda>c. key (f c)) cs)" using Cons.prems(1) by simp
    ultimately show "key (f d) \<noteq> key (f c)" by metis
  qed
  ultimately show ?case using Cons.IH [of "t @ [f c]"] Cons.prems by simp
qed simp

lemma fold_upsert_keys:
  assumes "\<And>old r. key old = key r \<Longrightarrow> key (m old r) = key r"
  shows "key ` set (fold (\<lambda>c. upsert key m (f c)) cs t) = key ` set t \<union> (\<lambda>c. key (f c)) ` set cs"
proof (induction cs arbitrary: t)
  case (Cons c cs)
  have "key ` set (upsert key m (f c) t) = insert (key (f c)) (key ` set t)"
  proof (cases "find_row key t (key (f c)) = None")
    case True
    then show ?thesis by (auto simp: upsert_def)
  next
    case False
    then have "key (f c) \<in> key ` set t" by (simp add: find_row_None_iff)
    moreover have "key ` set (map (\<lambda>old. if key old = key (f c) then m old (f c) else old) t) = key ` set t"
      unfolding set_map image_image using assms by (intro image_cong) auto
    ultimately show ?thesis using False by (simp add: upsert_def insert_absorb)
  qed
  then show ?case using Cons.IH by auto
qed simp

section \<open>Reads of the contract\<close>

lemma only_reads_some_or [intro, simp]: "only_reads (some_or msg v :: ('n world, string, 'a) io)"
  by (simp add: only_reads_keeps)

lemma only_reads_contract [intro, simp]: "only_reads (contract_read x co p contract d b)"
  unfolding contract_read_def by (intro only_reads_andthen only_reads_core) simp_all

lemma replays_contract [intro]: "replays (contract_read x co p contract d b) (contract_read x co' q contract d b)"
  unfolding contract_read_def by (intro replays_andthen replays_core replays_single) simp_all

text \<open>The same rules for a continuation that takes a pair.\<close>

lemma only_reads_pair: "(\<And>a b. only_reads (f a b)) \<Longrightarrow> only_reads (case v of (a, b) \<Rightarrow> f a b)"
  by (simp split: prod.split)

lemma replays_pair: "(\<And>a b. replays (f a b) (f' a b)) \<Longrightarrow> replays (case v of (a, b) \<Rightarrow> f a b) (case v of (a, b) \<Rightarrow> f' a b)"
  by (simp split: prod.split)

lemmas only_reads_rules = only_reads_andthen only_reads_pair only_reads_contract only_reads_some_or
  only_reads_of_result only_reads_ret

lemmas replays_rules = replays_andthen replays_pair replays_contract replays_some_or replays_of_result replays_ret

lemma only_reads_gateway: "only_reads (read_gateway_state x co p ba broker gw b)"
  unfolding read_gateway_state_def by (intro only_reads_rules)

lemma only_reads_claimant: "only_reads (read_claimant_state x co p ba broker gw cl b)"
  unfolding read_claimant_state_def by (intro only_reads_rules)

lemma replays_gateway: "replays (read_gateway_state x co p ba broker gw b) (read_gateway_state x co' q ba broker gw b)"
  unfolding read_gateway_state_def by (intro replays_rules)

lemma replays_claimant: "replays (read_claimant_state x co p ba broker gw cl b) (read_claimant_state x co' q ba broker gw cl b)"
  unfolding read_claimant_state_def by (intro replays_rules)

lemma replaysD: "replays m m' \<Longrightarrow> m s = (Inr v, s') \<Longrightarrow> cache_le s' t \<Longrightarrow> m' t = (Inr v, t)"
  unfolding replays_def by blast

lemma in_world_Inr:
  "in_world m l = (Inr v, t) \<longleftrightarrow> (\<exists>w. m (l_world l) = (Inr v, w) \<and> t = l\<lparr>l_world := w\<rparr>)"
  by (auto simp: in_world_def split: prod.splits)

section \<open>The loops\<close>

text \<open>The cached answers of a world say that the state of a gateway (a claimant) is the snapshot.\<close>

definition cached_gateway ::
  "ext \<Rightarrow> broker_abi \<Rightarrow> string \<Rightarrow> 'n world \<Rightarrow> gateway_candidate \<times> gateway_snapshot \<Rightarrow> bool" where
  "cached_gateway x ba broker u cs \<longleftrightarrow>
     (\<forall>(q :: 'n provider). read_gateway_state x True q ba broker (gw_gateway (fst cs)) (gw_block (fst cs)) u
        = (Inr (snd cs), u))"

definition cached_claimant ::
  "ext \<Rightarrow> broker_abi \<Rightarrow> string \<Rightarrow> 'n world \<Rightarrow> flow_candidate \<times> claimant_snapshot \<Rightarrow> bool" where
  "cached_claimant x ba broker u cs \<longleftrightarrow>
     (\<forall>(q :: 'n provider). read_claimant_state x True q ba broker (fc_gateway (fst cs)) (the (fc_claimant (fst cs)))
        (fc_block (fst cs)) u = (Inr (snd cs), u))"

definition claimant_entry :: "ext \<Rightarrow> flow_candidate \<times> claimant_snapshot \<Rightarrow> claimant_row" where
  "claimant_entry x cs = claimant_row_of x (fst cs) (the (fc_claimant (fst cs))) (snd cs)"

definition balance_entry :: "ext \<Rightarrow> gateway_candidate \<times> gateway_snapshot \<Rightarrow> balance_row" where
  "balance_entry x cs = balance_row_of x (fst cs) (snd cs)"

lemma cached_gateway_le:
  fixes u t :: "'n world"
  assumes "cached_gateway x ba broker u cs" "cache_le u t"
  shows "cached_gateway x ba broker t cs"
  unfolding cached_gateway_def
proof
  fix q :: "'n provider"
  show "read_gateway_state x True q ba broker (gw_gateway (fst cs)) (gw_block (fst cs)) t = (Inr (snd cs), t)"
    by (rule replaysD [OF replays_gateway _ assms(2)]) (rule assms(1) [unfolded cached_gateway_def, rule_format, of q])
qed

lemma cached_claimant_le:
  fixes u t :: "'n world"
  assumes "cached_claimant x ba broker u cs" "cache_le u t"
  shows "cached_claimant x ba broker t cs"
  unfolding cached_claimant_def
proof
  fix q :: "'n provider"
  show "read_claimant_state x True q ba broker (fc_gateway (fst cs)) (the (fc_claimant (fst cs))) (fc_block (fst cs)) t
      = (Inr (snd cs), t)"
    by (rule replaysD [OF replays_claimant _ assms(2)]) (rule assms(1) [unfolded cached_claimant_def, rule_format, of q])
qed

lemma balance_step_Inr:
  assumes "balance_step x co p ba broker c st l = (Inr st', t)"
  obtains sn w where "same_rows (l_world l) w" "cached_gateway x ba broker w (c, sn)"
    "t = upsert_gateway_row x c sn (l\<lparr>l_world := w\<rparr>)" "st' = (fst st + 1, Some (gw_block c))"
proof -
  obtain sn w where run: "read_gateway_state x co p ba broker (gw_gateway c) (gw_block c) (l_world l) = (Inr sn, w)"
    and t: "t = upsert_gateway_row x c sn (l\<lparr>l_world := w\<rparr>)" "st' = (fst st + 1, Some (gw_block c))"
    using assms by (auto simp: balance_step_def andthen_Inr_iff in_world_Inr modifying_def ret_def)
  have "cached_gateway x ba broker w (c, sn)"
    unfolding cached_gateway_def fst_conv snd_conv
    by (intro allI) (rule replaysD [OF replays_gateway run cache_le_refl])
  with only_readsD [OF only_reads_gateway run] t show thesis by (intro that)
qed

lemma balance_fold:
  assumes "fold_io (balance_step x co p ba broker) cs st l = (Inr st', t)"
  shows "\<exists>sns. length sns = length cs \<and> same_rows (l_world l) (l_world t)
    \<and> t = l\<lparr>l_world := l_world t,
        l_balances := fold (\<lambda>cs. upsert balance_key (\<lambda>old new. new) (balance_entry x cs)) (zip cs sns) (l_balances l)\<rparr>
    \<and> (\<forall>cs\<in>set (zip cs sns). cached_gateway x ba broker (l_world t) cs)
    \<and> st' = (fst st + length cs, if cs = [] then snd st else Some (gw_block (last cs)))"
  using assms
proof (induction cs arbitrary: st l)
  case Nil
  then show ?case by (cases st) (simp add: prod_eq_iff)
next
  case (Cons c cs)
  obtain st1 l1 where 1: "balance_step x co p ba broker c st l = (Inr st1, l1)"
    and 2: "fold_io (balance_step x co p ba broker) cs st1 l1 = (Inr st', t)"
    using Cons.prems by (auto split: prod.splits sum.splits)
  obtain sn w where w: "same_rows (l_world l) w" "cached_gateway x ba broker w (c, sn)"
    "l1 = upsert_gateway_row x c sn (l\<lparr>l_world := w\<rparr>)" "st1 = (fst st + 1, Some (gw_block c))"
    by (rule balance_step_Inr [OF 1])
  obtain sns where n: "length sns = length cs" and s: "same_rows (l_world l1) (l_world t)"
    and t: "t = l1\<lparr>l_world := l_world t,
        l_balances := fold (\<lambda>cs. upsert balance_key (\<lambda>old new. new) (balance_entry x cs)) (zip cs sns) (l_balances l1)\<rparr>"
    and c: "\<forall>cs\<in>set (zip cs sns). cached_gateway x ba broker (l_world t) cs"
    and st': "st' = (fst st1 + length cs, if cs = [] then snd st1 else Some (gw_block (last cs)))"
    using Cons.IH [OF 2] by blast
  have l1: "l_world l1 = w" "l_balances l1 = upsert balance_key (\<lambda>old new. new) (balance_entry x (c, sn)) (l_balances l)"
    by (simp_all add: w(3) upsert_gateway_row_def balance_entry_def)
  have "cached_gateway x ba broker (l_world t) (c, sn)"
    by (rule cached_gateway_le [OF w(2)]) (use same_rowsD(14) [OF s] l1 in simp)
  moreover have "same_rows (l_world l) (l_world t)" using same_rows_trans [OF w(1)] s l1 by simp
  moreover have "t = l\<lparr>l_world := l_world t,
        l_balances := fold (\<lambda>cs. upsert balance_key (\<lambda>old new. new) (balance_entry x cs))
          (zip (c # cs) (sn # sns)) (l_balances l)\<rparr>"
    by (subst t) (simp add: l1(2), simp add: w(3) upsert_gateway_row_def)
  ultimately show ?case using n c st' w(4) by (intro exI [of _ "sn # sns"]) simp
qed

lemma claimant_step_Inr:
  assumes "claimant_step x co p ba broker c st l = (Inr st', t)" "fc_claimant c = Some a"
  obtains sn w where "same_rows (l_world l) w" "cached_claimant x ba broker w (c, sn)"
    "t = upsert_gateway_claimant_row x c sn (l\<lparr>l_world := w\<rparr>)"
    "st' = (fst st + 1, Some (fc_block c), (fc_gateway c, a) # snd (snd st))"
proof -
  obtain sn w where run: "read_claimant_state x co p ba broker (fc_gateway c) a (fc_block c) (l_world l) = (Inr sn, w)"
    and t: "t = upsert_gateway_claimant_row x c sn (l\<lparr>l_world := w\<rparr>)"
      "st' = (fst st + 1, Some (fc_block c), (fc_gateway c, a) # snd (snd st))"
    using assms by (auto simp: claimant_step_def andthen_Inr_iff in_world_Inr modifying_def ret_def split: prod.splits)
  have "cached_claimant x ba broker w (c, sn)"
    unfolding cached_claimant_def fst_conv snd_conv assms(2) option.sel
    by (intro allI) (rule replaysD [OF replays_claimant run cache_le_refl])
  with only_readsD [OF only_reads_claimant run] t show thesis by (intro that)
qed

lemma claimant_fold:
  assumes "fold_io (claimant_step x co p ba broker) cs st l = (Inr st', t)" "\<forall>c\<in>set cs. fc_claimant c \<noteq> None"
  shows "\<exists>sns. length sns = length cs \<and> same_rows (l_world l) (l_world t)
    \<and> t = l\<lparr>l_world := l_world t,
        l_claimants := fold (\<lambda>cs. upsert claimant_key (\<lambda>old new. new) (claimant_entry x cs)) (zip cs sns) (l_claimants l)\<rparr>
    \<and> (\<forall>cs\<in>set (zip cs sns). cached_claimant x ba broker (l_world t) cs)
    \<and> fst st' = fst st + length cs \<and> fst (snd st') = (if cs = [] then fst (snd st) else Some (fc_block (last cs)))"
  using assms
proof (induction cs arbitrary: st l)
  case Nil
  then show ?case by simp
next
  case (Cons c cs)
  obtain a where a: "fc_claimant c = Some a" using Cons.prems(2) by auto
  obtain st1 l1 where 1: "claimant_step x co p ba broker c st l = (Inr st1, l1)"
    and 2: "fold_io (claimant_step x co p ba broker) cs st1 l1 = (Inr st', t)"
    using Cons.prems by (auto split: prod.splits sum.splits)
  obtain sn w where w: "same_rows (l_world l) w" "cached_claimant x ba broker w (c, sn)"
    "l1 = upsert_gateway_claimant_row x c sn (l\<lparr>l_world := w\<rparr>)"
    "st1 = (fst st + 1, Some (fc_block c), (fc_gateway c, a) # snd (snd st))"
    by (rule claimant_step_Inr [OF 1 a])
  have all: "\<forall>c\<in>set cs. fc_claimant c \<noteq> None" using Cons.prems(2) by simp
  obtain sns where n: "length sns = length cs" and s: "same_rows (l_world l1) (l_world t)"
    and t: "t = l1\<lparr>l_world := l_world t,
        l_claimants := fold (\<lambda>cs. upsert claimant_key (\<lambda>old new. new) (claimant_entry x cs)) (zip cs sns) (l_claimants l1)\<rparr>"
    and c: "\<forall>cs\<in>set (zip cs sns). cached_claimant x ba broker (l_world t) cs"
    and st': "fst st' = fst st1 + length cs" "fst (snd st') = (if cs = [] then fst (snd st1) else Some (fc_block (last cs)))"
    using Cons.IH [OF 2 all] by blast
  have l1: "l_world l1 = w" "l_claimants l1 = upsert claimant_key (\<lambda>old new. new) (claimant_entry x (c, sn)) (l_claimants l)"
    by (simp_all add: w(3) upsert_gateway_claimant_row_def a claimant_entry_def)
  have "cached_claimant x ba broker (l_world t) (c, sn)"
    by (rule cached_claimant_le [OF w(2)]) (use same_rowsD(14) [OF s] l1 in simp)
  moreover have "same_rows (l_world l) (l_world t)" using same_rows_trans [OF w(1)] s l1 by simp
  moreover have "t = l\<lparr>l_world := l_world t,
        l_claimants := fold (\<lambda>cs. upsert claimant_key (\<lambda>old new. new) (claimant_entry x cs))
          (zip (c # cs) (sn # sns)) (l_claimants l)\<rparr>"
    by (subst t) (simp add: l1(2), simp add: w(3) upsert_gateway_claimant_row_def a)
  ultimately show ?case using n c st' w(4) by (intro exI [of _ "sn # sns"]) simp
qed

section \<open>One run\<close>

text \<open>The world of a ledger may change in its cache, its network and its checkpoints.\<close>

definition only_marks :: "'n world \<Rightarrow> 'n world \<Rightarrow> bool" where
  "only_marks s t \<longleftrightarrow> (\<exists>n c k. t = s\<lparr>w_net := n, w_cache := c, w_checkpoints := k\<rparr>) \<and> cache_le s t"

lemma same_rows_marks: "same_rows s t \<Longrightarrow> only_marks s t"
proof -
  assume "same_rows s t"
  then obtain n c where t: "t = s\<lparr>w_net := n, w_cache := c\<rparr>" "cache_le s t" unfolding same_rows_def by blast
  then have "t = s\<lparr>w_net := n, w_cache := c, w_checkpoints := w_checkpoints s\<rparr>" by simp
  with t(2) show ?thesis unfolding only_marks_def by blast
qed

lemma only_marks_trans: "only_marks s t \<Longrightarrow> only_marks t u \<Longrightarrow> only_marks s u"
  unfolding only_marks_def
  by (elim conjE exE, rule conjI, rule exI, rule exI, rule exI, simp) (rule cache_le_trans)

lemma only_marks_checkpoints: "only_marks s (s\<lparr>w_checkpoints := k\<rparr>)"
proof -
  have "s\<lparr>w_checkpoints := k\<rparr> = s\<lparr>w_net := w_net s, w_cache := w_cache s, w_checkpoints := k\<rparr>" by simp
  moreover have "cache_le s (s\<lparr>w_checkpoints := k\<rparr>)" by (simp add: cache_le_def cached_outcome_def cache_get_def cache_row_at_def)
  ultimately show ?thesis unfolding only_marks_def by blast
qed

lemma only_marksD:
  assumes "only_marks s t"
  shows "w_events t = w_events s" "w_valuations t = w_valuations s" "cache_le s t"
  using assms by (auto simp: only_marks_def)

lemma advance_touched_simps [simp]:
  "l_balances (advance_touched n b l) = l_balances l" "l_claimants (advance_touched n b l) = l_claimants l"
  "l_flows (advance_touched n b l) = l_flows l" "l_orch_rounds (advance_touched n b l) = l_orch_rounds l"
  "l_profiles (advance_touched n b l) = l_profiles l"
  by (simp_all add: advance_touched_def advance_ledger_checkpoint_def split: option.split)

lemma advance_touched_marks: "only_marks (l_world l) (l_world (advance_touched n b l))"
  by (cases b) (simp_all add: advance_touched_def advance_ledger_checkpoint_def only_marks_checkpoints
      same_rows_marks)

text \<open>\<open>row_after t\<close>: the merge of a flow upsert, and the three batches of a run.\<close>

definition flow_merge :: "flow_row \<Rightarrow> flow_row \<Rightarrow> flow_row" where
  "flow_merge old new = new\<lparr>gf_chain := gf_chain old\<rparr>"

definition flow_batch :: "bool \<Rightarrow> 'n ledger \<Rightarrow> flow_candidate list" where
  "flow_batch inc l =
     fetch_flow_candidates_after inc (ledger_checkpoint GATEWAY_FLOW_CHECKPOINT l) GATEWAY_FLOW_BATCH_LIMIT l"

definition claimant_batch :: "bool \<Rightarrow> 'n ledger \<Rightarrow> flow_candidate list" where
  "claimant_batch inc l =
     fetch_claimant_candidates_after inc (ledger_checkpoint GATEWAY_CLAIMANT_CHECKPOINT l) GATEWAY_CLAIMANT_BATCH_LIMIT l"

definition balance_batch :: "ext \<Rightarrow> bool \<Rightarrow> 'n ledger \<Rightarrow> gateway_candidate list" where
  "balance_batch x inc l =
     fetch_balance_candidates_after x inc (ledger_checkpoint GATEWAY_BALANCE_CHECKPOINT l) GATEWAY_BALANCE_BATCH_LIMIT l"

lemma flow_key_row: "flow_key (flow_row_of x c) = (fc_event c, fc_kind c)"
  by (simp add: flow_key_def flow_row_of_def)

lemma fold_flow_upserts:
  "fold (upsert_gateway_flow x) cs l =
     l\<lparr>l_flows := fold (\<lambda>c. upsert flow_key flow_merge (flow_row_of x c)) cs (l_flows l)\<rparr>"
proof (induction cs arbitrary: l)
  case (Cons c cs)
  have m: "(\<lambda>old new. new\<lparr>gf_chain := gf_chain old\<rparr>) = flow_merge" by (intro ext) (simp add: flow_merge_def)
  have "upsert_gateway_flow x c l = l\<lparr>l_flows := upsert flow_key flow_merge (flow_row_of x c) (l_flows l)\<rparr>"
    by (simp only: upsert_gateway_flow_def m)
  then show ?case by (simp add: Cons.IH)
qed simp

lemma write_flows_simps [simp]:
  "l_flows (write_flows x cs l) = fold (\<lambda>c. upsert flow_key flow_merge (flow_row_of x c)) cs (l_flows l)"
  "l_claimants (write_flows x cs l) = l_claimants l" "l_balances (write_flows x cs l) = l_balances l"
  "l_orch_rounds (write_flows x cs l) = l_orch_rounds l" "l_profiles (write_flows x cs l) = l_profiles l"
  by (simp_all add: write_flows_def fold_flow_upserts)

lemma write_flows_marks: "only_marks (l_world l) (l_world (write_flows x cs l))"
  unfolding write_flows_def fold_flow_upserts by (rule only_marks_trans [OF _ advance_touched_marks])
    (simp add: same_rows_marks)

lemma joined_set: "set (joined s es) = {(e, v). e \<in> set es \<and> v \<in> set (priced_valuations s e)}"
  by (auto simp: joined_def)

lemma flow_candidate_fields:
  "fc_event (flow_candidate_of g ev) = e_id (fst ev)" "fc_kind (flow_candidate_of g ev) = flow_kind (e_name (fst ev))"
  "fc_gateway (flow_candidate_of g ev) = the (e_from (fst ev))" "fc_block (flow_candidate_of g ev) = e_block (fst ev)"
  "fc_claimant (flow_candidate_of g ev) = g (fst ev)"
  by (cases ev; simp add: flow_candidate_of_def)+

lemma claimants_known: "\<forall>c\<in>set (claimant_batch inc l). fc_claimant c \<noteq> None"
  unfolding claimant_batch_def fetch_claimant_candidates_after_def
  by (auto simp: flow_candidate_fields joined_set in_log_order_def dest!: in_set_takeD)

lemma flows_new: "\<forall>c\<in>set (flow_batch inc l). flow_key (flow_row_of x c) \<notin> flow_key ` set (l_flows l)"
  unfolding flow_batch_def fetch_flow_candidates_after_def flow_key_row
  by (auto simp: flow_candidate_fields joined_set in_log_order_def dest!: in_set_takeD)

text \<open>A successful run, in one piece.\<close>

lemma run_gateway_Inr:
  assumes "run_gateway_backfill x co p ba broker inc l = (Inr sm, t)"
  obtains csns bsns where
    "length csns = length (claimant_batch inc l)" "length bsns = length (balance_batch x inc l)"
    "only_marks (l_world l) (l_world t)"
    "l_flows t = fold (\<lambda>c. upsert flow_key flow_merge (flow_row_of x c)) (flow_batch inc l) (l_flows l)"
    "l_claimants t = fold (\<lambda>cs. upsert claimant_key (\<lambda>old new. new) (claimant_entry x cs))
       (zip (claimant_batch inc l) csns) (l_claimants l)"
    "l_balances t = fold (\<lambda>cs. upsert balance_key (\<lambda>old new. new) (balance_entry x cs))
       (zip (balance_batch x inc l) bsns) (l_balances l)"
    "l_orch_rounds t = l_orch_rounds l" "l_profiles t = l_profiles l"
    "\<forall>cs\<in>set (zip (claimant_batch inc l) csns). cached_claimant x ba (lower broker) (l_world t) cs"
    "\<forall>cs\<in>set (zip (balance_batch x inc l) bsns). cached_gateway x ba (lower broker) (l_world t) cs"
proof -
  define l1 where "l1 = write_flows x (flow_batch inc l) l"
  obtain st l2 where 2: "fold_io (claimant_step x co p ba (lower broker)) (claimant_batch inc l) (0, None, []) l1 = (Inr st, l2)"
    and "\<exists>l4 st'. fold_io (balance_step x co p ba (lower broker)) (balance_batch x inc l)
            (0, ledger_checkpoint GATEWAY_BALANCE_CHECKPOINT l)
            (advance_touched GATEWAY_CLAIMANT_CHECKPOINT (fst (snd st)) l2) = (Inr st', l4)
          \<and> t = advance_touched GATEWAY_BALANCE_CHECKPOINT (snd st') l4"
    using assms unfolding run_gateway_backfill_def Let_def l1_def flow_batch_def claimant_batch_def balance_batch_def
    by (auto simp: andthen_Inr_iff modifying_def ret_def split: prod.splits)
  then obtain l3 l4 st' where l3: "l3 = advance_touched GATEWAY_CLAIMANT_CHECKPOINT (fst (snd st)) l2"
    and 4: "fold_io (balance_step x co p ba (lower broker)) (balance_batch x inc l)
            (0, ledger_checkpoint GATEWAY_BALANCE_CHECKPOINT l) l3 = (Inr st', l4)"
    and t: "t = advance_touched GATEWAY_BALANCE_CHECKPOINT (snd st') l4" by blast
  obtain csns where c: "length csns = length (claimant_batch inc l)" "same_rows (l_world l1) (l_world l2)"
      "l2 = l1\<lparr>l_world := l_world l2, l_claimants := fold (\<lambda>cs. upsert claimant_key (\<lambda>old new. new) (claimant_entry x cs))
         (zip (claimant_batch inc l) csns) (l_claimants l1)\<rparr>"
      "\<forall>cs\<in>set (zip (claimant_batch inc l) csns). cached_claimant x ba (lower broker) (l_world l2) cs"
    using claimant_fold [OF 2 claimants_known] by blast
  obtain bsns where b: "length bsns = length (balance_batch x inc l)" "same_rows (l_world l3) (l_world l4)"
      "l4 = l3\<lparr>l_world := l_world l4, l_balances := fold (\<lambda>cs. upsert balance_key (\<lambda>old new. new) (balance_entry x cs))
         (zip (balance_batch x inc l) bsns) (l_balances l3)\<rparr>"
      "\<forall>cs\<in>set (zip (balance_batch x inc l) bsns). cached_gateway x ba (lower broker) (l_world l4) cs"
    using balance_fold [OF 4] by blast
  have m: "only_marks (l_world l) (l_world l1)" "only_marks (l_world l1) (l_world l2)"
      "only_marks (l_world l2) (l_world l3)" "only_marks (l_world l3) (l_world l4)" "only_marks (l_world l4) (l_world t)"
    by (simp_all add: same_rows_marks [OF c(2)] same_rows_marks [OF b(2)])
      (simp_all add: l1_def l3 t write_flows_marks advance_touched_marks)
  have le: "cache_le (l_world l2) (l_world t)" "cache_le (l_world l4) (l_world t)"
    using only_marksD(3) [OF m(3)] only_marksD(3) [OF m(4)] only_marksD(3) [OF m(5)] cache_le_trans by blast+
  have tabs: "l_flows t = l_flows l4" "l_claimants t = l_claimants l4" "l_balances t = l_balances l4"
      "l_orch_rounds t = l_orch_rounds l4" "l_profiles t = l_profiles l4" by (simp_all add: t)
  have tabs4: "l_flows l4 = l_flows l2" "l_claimants l4 = l_claimants l2" "l_orch_rounds l4 = l_orch_rounds l2"
      "l_profiles l4 = l_profiles l2" "l_balances l3 = l_balances l2"
    by (subst b(3), simp add: l3)+ (simp add: l3)
  have tabs2: "l_flows l2 = l_flows l1" "l_balances l2 = l_balances l1" "l_orch_rounds l2 = l_orch_rounds l1"
      "l_profiles l2 = l_profiles l1" by (subst c(3), simp)+
  show thesis
  proof (rule that [OF c(1) b(1)])
    show "only_marks (l_world l) (l_world t)" using m only_marks_trans by blast
    show "l_flows t = fold (\<lambda>c. upsert flow_key flow_merge (flow_row_of x c)) (flow_batch inc l) (l_flows l)"
      by (simp add: tabs tabs4 tabs2 l1_def)
    have "l_claimants l2 = fold (\<lambda>cs. upsert claimant_key (\<lambda>old new. new) (claimant_entry x cs))
       (zip (claimant_batch inc l) csns) (l_claimants l1)" by (subst c(3)) simp
    then show "l_claimants t = fold (\<lambda>cs. upsert claimant_key (\<lambda>old new. new) (claimant_entry x cs))
       (zip (claimant_batch inc l) csns) (l_claimants l)" by (simp add: tabs tabs4 l1_def)
    have "l_balances l4 = fold (\<lambda>cs. upsert balance_key (\<lambda>old new. new) (balance_entry x cs))
       (zip (balance_batch x inc l) bsns) (l_balances l3)" by (subst b(3)) simp
    then show "l_balances t = fold (\<lambda>cs. upsert balance_key (\<lambda>old new. new) (balance_entry x cs))
       (zip (balance_batch x inc l) bsns) (l_balances l)" by (simp add: tabs tabs4 tabs2 l1_def)
    show "l_orch_rounds t = l_orch_rounds l" "l_profiles t = l_profiles l"
      by (simp_all add: tabs tabs4 tabs2 l1_def)
    show "\<forall>cs\<in>set (zip (claimant_batch inc l) csns). cached_claimant x ba (lower broker) (l_world t) cs"
      using c(4) cached_claimant_le [OF _ le(1)] by blast
    show "\<forall>cs\<in>set (zip (balance_batch x inc l) bsns). cached_gateway x ba (lower broker) (l_world t) cs"
      using b(4) cached_gateway_le [OF _ le(2)] by blast
  qed
qed

section \<open>Which keys a batch holds\<close>

lemma distinct_on_set: "set (distinct_on k rs) \<subseteq> set rs"
  by (induction rs) auto

lemma distinct_on_keys: "k ` set (distinct_on k rs) = k ` set rs"
proof (induction rs)
  case (Cons r rs)
  have "insert (k r) (k ` {q \<in> set (distinct_on k rs). k q \<noteq> k r}) = insert (k r) (k ` set (distinct_on k rs))"
    by auto
  with Cons.IH show ?case by simp
qed simp

lemma distinct_the:
  assumes "distinct (map (\<lambda>e. (g e, h e)) es)" "\<And>e. e \<in> set es \<Longrightarrow> g e \<noteq> None"
  shows "distinct (map (\<lambda>e. (a, the (g e), h e)) es)"
proof -
  have "inj_on (\<lambda>e. (a, the (g e), h e)) (set es)"
  proof (rule inj_onI)
    fix e e' assume e: "e \<in> set es" "e' \<in> set es" "(a, the (g e), h e) = (a, the (g e'), h e')"
    then have "g e = g e'" "h e = h e'" using assms(2) [OF e(1)] assms(2) [OF e(2)] by auto
    then show "e = e'" using assms(1) e(1,2) by (auto simp: distinct_map inj_on_def)
  qed
  with assms(1) show ?thesis by (simp add: distinct_map)
qed

lemma distinct_on_distinct: "distinct (map k (distinct_on k rs))"
proof (induction rs)
  case (Cons r rs)
  have "distinct (map k (filter (\<lambda>q. k q \<noteq> k r) (distinct_on k rs)))"
    by (rule distinct_map_filter [OF Cons.IH])
  then show ?case by auto
qed simp

lemma distinct_map_sort: "distinct (map g xs) \<Longrightarrow> distinct (map g (sort_key f xs))"
  by (simp add: distinct_map)

lemma touch_latest:
  assumes "e \<in> set (latest_touches inc s)"
  shows "broker_event inc touch_names e" "e \<in> set (w_events s)"
  using assms distinct_on_set unfolding latest_touches_def by fastforce+

lemma balance_key_entry: "balance_key (balance_entry x cs) = (ARBITRUM_CHAIN_ID, gw_gateway (fst cs), gw_block (fst cs))"
  by (simp add: balance_key_def balance_entry_def balance_row_of_def)

lemma claimant_key_entry:
  "claimant_key (claimant_entry x cs) = (ARBITRUM_CHAIN_ID, fc_gateway (fst cs), the (fc_claimant (fst cs)), fc_block (fst cs))"
  by (simp add: claimant_key_def claimant_entry_def claimant_row_of_def)

lemma balances_distinct:
  "distinct (map (\<lambda>c. (ARBITRUM_CHAIN_ID, gw_gateway c, gw_block c)) (balance_batch x inc l))"
proof -
  let ?k = "\<lambda>e. (ARBITRUM_CHAIN_ID, the (e_from e), e_block e)"
  have "distinct (map (\<lambda>e. (e_from e, e_block e)) (latest_touches inc (l_world l)))"
    unfolding latest_touches_def by (rule distinct_on_distinct)
  moreover have "e_from e \<noteq> None" if "e \<in> set (latest_touches inc (l_world l))" for e
    using touch_latest(1) [OF that] by (simp add: broker_event_def)
  ultimately have d: "distinct (map ?k (latest_touches inc (l_world l)))" by (rule distinct_the)
  have g: "(\<lambda>c. (ARBITRUM_CHAIN_ID, gw_gateway c, gw_block c)) \<circ> gateway_candidate_of = ?k"
    by (simp add: fun_eq_iff gateway_candidate_of_def)
  show ?thesis
    unfolding balance_batch_def fetch_balance_candidates_after_def take_map map_map g
    unfolding take_map [symmetric] by (intro distinct_take distinct_map_sort distinct_map_filter d)
qed

lemma balances_new:
  "\<forall>c\<in>set (balance_batch x inc l). (ARBITRUM_CHAIN_ID, gw_gateway c, gw_block c) \<notin> balance_key ` set (l_balances l)"
  unfolding balance_batch_def fetch_balance_candidates_after_def
  by (auto simp: gateway_candidate_of_def dest!: in_set_takeD)

lemma claimants_new:
  "\<forall>c\<in>set (claimant_batch inc l). (ARBITRUM_CHAIN_ID, fc_gateway c, the (fc_claimant c), fc_block c)
     \<notin> claimant_key ` set (l_claimants l)"
  unfolding claimant_batch_def fetch_claimant_candidates_after_def
  by (auto simp: flow_candidate_fields joined_set in_log_order_def dest!: in_set_takeD)

text \<open>The rows stored of new keys, when a later entry of a key replaces an earlier one.\<close>

lemma upserts_replace:
  "set (fold (\<lambda>c. upsert key (\<lambda>old new. new) (f c)) cs t) \<subseteq> set t \<union> f ` set cs"
proof (induction cs arbitrary: t)
  case (Cons c cs)
  have "set (upsert key (\<lambda>old new. new) (f c) t) \<subseteq> insert (f c) (set t)"
    by (auto simp: upsert_def)
  then show ?case using Cons.IH [of "upsert key (\<lambda>old new. new) (f c) t"] by auto
qed simp

section \<open>What a run writes\<close>

text \<open>At most one priced valuation per event.\<close>

definition one_price :: "'n world \<Rightarrow> bool" where
  "one_price s \<longleftrightarrow> (\<forall>e\<in>set (w_events s).
     length (filter (\<lambda>v. v_event v = e_id e \<and> v_status v = ''priced'') (w_valuations s)) \<le> 1)"

lemma flows_distinct:
  assumes "one_price (l_world l)" "distinct (map e_id (w_events (l_world l)))"
  shows "distinct (map (\<lambda>c. (fc_event c, fc_kind c)) (flow_batch inc l))"
proof -
  let ?s = "l_world l"
  define v where "v = (\<lambda>e. hd (priced_valuations ?s e))"
  have one: "priced_valuations ?s e = [v e]" if "e \<in> set (w_events ?s)" for e
  proof (cases "filter (\<lambda>v. v_event v = e_id e \<and> v_status v = ''priced'') (w_valuations ?s)")
    case Nil
    then show ?thesis by (simp add: priced_valuations_def v_def)
  next
    case (Cons w ws)
    moreover have "ws = []" using assms(1) that Cons by (fastforce simp: one_price_def)
    ultimately show ?thesis by (simp add: priced_valuations_def v_def)
  qed
  have j: "joined ?s es = map (\<lambda>e. (e, v e)) es" if "set es \<subseteq> set (w_events ?s)" for es
    using that by (induction es) (simp_all add: joined_def one)
  obtain P where b: "flow_batch inc l = take GATEWAY_FLOW_BATCH_LIMIT (map (flow_candidate_of payout_claimant)
      (joined ?s (in_log_order (filter P (w_events ?s)))))"
    unfolding flow_batch_def fetch_flow_candidates_after_def by blast
  define es where "es = in_log_order (filter P (w_events ?s))"
  have es: "set es \<subseteq> set (w_events ?s)" "distinct (map e_id es)"
    unfolding es_def in_log_order_def by auto (intro distinct_map_sort distinct_map_filter assms(2))
  have g: "fc_event \<circ> (flow_candidate_of payout_claimant \<circ> (\<lambda>e. (e, v e))) = e_id"
    by (simp add: fun_eq_iff flow_candidate_fields)
  have "map fc_event (flow_batch inc l) = take GATEWAY_FLOW_BATCH_LIMIT (map e_id es)"
    unfolding b es_def [symmetric] j [OF es(1)] take_map map_map g ..
  then have "distinct (map fc_event (flow_batch inc l))" using distinct_take [OF es(2)] by simp
  then show ?thesis by (simp add: distinct_map inj_on_def)
qed

lemma gateway_run_written:
  fixes l t :: "'n ledger"
  assumes "run_gateway_backfill x co p ba broker inc l = (Inr sm, t)"
    and "one_price (l_world l)" "distinct (map e_id (w_events (l_world l)))"
  shows "l_flows t = l_flows l @ map (flow_row_of x) (flow_batch inc l)"
    and "\<exists>sns. length sns = length (balance_batch x inc l)
      \<and> l_balances t = l_balances l @ map (balance_entry x) (zip (balance_batch x inc l) sns)
      \<and> (\<forall>cs\<in>set (zip (balance_batch x inc l) sns). cached_gateway x ba (lower broker) (l_world t) cs)"
    and "\<exists>new. l_claimants t = l_claimants l @ new
      \<and> claimant_key ` set new = (\<lambda>c. (ARBITRUM_CHAIN_ID, fc_gateway c, the (fc_claimant c), fc_block c)) ` set (claimant_batch inc l)
      \<and> (\<forall>r\<in>set new. \<exists>c sn. c \<in> set (claimant_batch inc l) \<and> r = claimant_entry x (c, sn)
            \<and> cached_claimant x ba (lower broker) (l_world t) (c, sn))"
    and "w_events (l_world t) = w_events (l_world l)" "w_valuations (l_world t) = w_valuations (l_world l)"
proof -
  obtain csns bsns where len: "length csns = length (claimant_batch inc l)" "length bsns = length (balance_batch x inc l)"
    and m: "only_marks (l_world l) (l_world t)"
    and f: "l_flows t = fold (\<lambda>c. upsert flow_key flow_merge (flow_row_of x c)) (flow_batch inc l) (l_flows l)"
    and c: "l_claimants t = fold (\<lambda>cs. upsert claimant_key (\<lambda>old new. new) (claimant_entry x cs))
       (zip (claimant_batch inc l) csns) (l_claimants l)"
    and b: "l_balances t = fold (\<lambda>cs. upsert balance_key (\<lambda>old new. new) (balance_entry x cs))
       (zip (balance_batch x inc l) bsns) (l_balances l)"
    and cc: "\<forall>cs\<in>set (zip (claimant_batch inc l) csns). cached_claimant x ba (lower broker) (l_world t) cs"
    and bc: "\<forall>cs\<in>set (zip (balance_batch x inc l) bsns). cached_gateway x ba (lower broker) (l_world t) cs"
    by (rule run_gateway_Inr [OF assms(1)])
  show "w_events (l_world t) = w_events (l_world l)" "w_valuations (l_world t) = w_valuations (l_world l)"
    using only_marksD [OF m] by simp_all
  show "l_flows t = l_flows l @ map (flow_row_of x) (flow_batch inc l)"
    unfolding f by (rule fold_upsert_new) (use flows_distinct [OF assms(2,3)] flows_new in \<open>simp_all add: flow_key_row\<close>)
  let ?zb = "zip (balance_batch x inc l) bsns" and ?zc = "zip (claimant_batch inc l) csns"
  have fst: "map fst ?zb = balance_batch x inc l" "map fst ?zc = claimant_batch inc l" using len by simp_all
  have "distinct (map (\<lambda>cs. balance_key (balance_entry x cs)) ?zb)"
    using balances_distinct [of x inc l] unfolding balance_key_entry by (subst (asm) fst(1) [symmetric]) (simp add: comp_def)
  moreover have "\<forall>cs\<in>set ?zb. balance_key (balance_entry x cs) \<notin> balance_key ` set (l_balances l)"
    unfolding balance_key_entry using balances_new [of x inc l] set_zip_leftD by fastforce
  ultimately have "l_balances t = l_balances l @ map (balance_entry x) ?zb"
    unfolding b by (rule fold_upsert_new)
  with len(2) bc show "\<exists>sns. length sns = length (balance_batch x inc l)
      \<and> l_balances t = l_balances l @ map (balance_entry x) (zip (balance_batch x inc l) sns)
      \<and> (\<forall>cs\<in>set (zip (balance_batch x inc l) sns). cached_gateway x ba (lower broker) (l_world t) cs)" by blast
  define new where "new = fold (\<lambda>cs. upsert claimant_key (\<lambda>old new. new) (claimant_entry x cs)) ?zc []"
  have "\<forall>cs\<in>set ?zc. claimant_key (claimant_entry x cs) \<notin> claimant_key ` set (l_claimants l)"
    unfolding claimant_key_entry using claimants_new [of inc l] set_zip_leftD by fastforce
  then have n1: "l_claimants t = l_claimants l @ new"
    unfolding c using fold_upsert_tail [of ?zc claimant_key "claimant_entry x" "l_claimants l" _ "[]"] by (simp add: new_def)
  have n2: "claimant_key ` set new = (\<lambda>c. (ARBITRUM_CHAIN_ID, fc_gateway c, the (fc_claimant c), fc_block c)) ` set (claimant_batch inc l)"
  proof -
    have "claimant_key ` set new = (\<lambda>cs. claimant_key (claimant_entry x cs)) ` set ?zc"
      unfolding new_def by (subst fold_upsert_keys) simp_all
    also have "\<dots> = (\<lambda>c. (ARBITRUM_CHAIN_ID, fc_gateway c, the (fc_claimant c), fc_block c)) ` fst ` set ?zc"
      unfolding claimant_key_entry image_image ..
    also have "fst ` set ?zc = set (claimant_batch inc l)" by (metis fst(2) set_map)
    finally show ?thesis .
  qed
  have n3: "\<exists>c sn. c \<in> set (claimant_batch inc l) \<and> r = claimant_entry x (c, sn)
            \<and> cached_claimant x ba (lower broker) (l_world t) (c, sn)" if r: "r \<in> set new" for r
  proof -
    have "r \<in> claimant_entry x ` set ?zc"
      using r upserts_replace [of claimant_key "claimant_entry x" ?zc "[]"] by (auto simp: new_def)
    then obtain c sn where z: "(c, sn) \<in> set ?zc" and r: "r = claimant_entry x (c, sn)" by auto
    show ?thesis
      by (rule exI [of _ c], rule exI [of _ sn]) (intro conjI set_zip_leftD [OF z] r bspec [OF cc z])
  qed
  show "\<exists>new. l_claimants t = l_claimants l @ new
      \<and> claimant_key ` set new = (\<lambda>c. (ARBITRUM_CHAIN_ID, fc_gateway c, the (fc_claimant c), fc_block c)) ` set (claimant_batch inc l)
      \<and> (\<forall>r\<in>set new. \<exists>c sn. c \<in> set (claimant_batch inc l) \<and> r = claimant_entry x (c, sn)
            \<and> cached_claimant x ba (lower broker) (l_world t) (c, sn))"
    by (rule exI [of _ new]) (intro conjI n1 n2 ballI n3)
qed


section \<open>Nothing left to do\<close>

text \<open>The checkpoints only rise, whether or not the run succeeds.\<close>

definition rises :: "'n ledger \<Rightarrow> 'n ledger \<Rightarrow> bool" where
  "rises l t \<longleftrightarrow> (\<forall>n c. ledger_checkpoint n l = Some c \<longrightarrow> (\<exists>d\<ge>c. ledger_checkpoint n t = Some d))"

lemma rises_trans: "rises l t \<Longrightarrow> rises t u \<Longrightarrow> rises l u"
  unfolding rises_def by (meson order_trans)

lemma rises_advance: "rises l (advance_touched m b l)"
proof (cases b)
  case (Some v)
  then show ?thesis using marks.advance_mono [where t = "w_checkpoints (l_world l)" and k = m and v = v]
    by (auto simp: rises_def advance_touched_def advance_ledger_checkpoint_def ledger_checkpoint_def)
qed (auto simp: rises_def advance_touched_def)

lemma rises_same: "w_checkpoints (l_world t) = w_checkpoints (l_world l) \<Longrightarrow> rises l t"
  by (auto simp: rises_def ledger_checkpoint_def)

lemma rises_from_block: "rises l t \<Longrightarrow> from_block (ledger_checkpoint n t) e \<Longrightarrow> from_block (ledger_checkpoint n l) e"
  unfolding rises_def by (cases "ledger_checkpoint n l") (fastforce simp: from_block_def)+

lemma keeps_in_world:
  assumes "only_reads m" "\<And>l w. same_rows (l_world l) w \<Longrightarrow> P l \<Longrightarrow> P (l\<lparr>l_world := w\<rparr>)"
  shows "keeps P (in_world m)"
proof (rule keepsI)
  fix l assume "P l"
  then show "P (snd (in_world m l))"
    using assms(2) [OF assms(1) [unfolded only_reads_def, THEN spec]] by (simp add: in_world_def case_prod_beta)
qed

text \<open>What the two reading loops keep: the flow rows, and that the checkpoints are above those of a start.\<close>

definition loop_frame :: "'n ledger \<Rightarrow> flow_row list \<Rightarrow> 'n ledger \<Rightarrow> bool" where
  "loop_frame l fs u \<longleftrightarrow> l_flows u = fs \<and> rises l u"

lemma rises_reads: "rises l u \<Longrightarrow> same_rows (l_world u) w \<Longrightarrow> rises l (u\<lparr>l_world := w\<rparr>)"
  by (erule rises_trans, rule rises_same) (simp add: same_rowsD(8))

lemma rises_world: "l_world t = l_world u \<Longrightarrow> rises l u \<Longrightarrow> rises l t"
  by (simp add: rises_def ledger_checkpoint_def)

lemma keeps_pair: "(\<And>a b. keeps P (f a b)) \<Longrightarrow> keeps P (case v of (a, b) \<Rightarrow> f a b)"
  by (simp split: prod.split)

lemma keeps_claimant_step: "keeps (loop_frame l fs) (claimant_step x co p ba broker c st)"
proof -
  have "keeps (loop_frame l fs) (in_world (read_claimant_state x co p ba broker gw a b))" for gw a b
    by (rule keeps_in_world [OF only_reads_claimant])
      (auto simp: loop_frame_def intro: rises_reads)
  moreover have "keeps (loop_frame l fs) (modifying (upsert_gateway_claimant_row x c sn))" for sn
    by (rule keeps_modifying) (auto simp: loop_frame_def upsert_gateway_claimant_row_def
        elim: rises_world [rotated] split: option.split)
  ultimately show ?thesis unfolding claimant_step_def
    by (auto split: option.split prod.split intro!: keeps_andthen)
qed

lemma keeps_balance_step: "keeps (loop_frame l fs) (balance_step x co p ba broker c st)"
proof -
  have "keeps (loop_frame l fs) (in_world (read_gateway_state x co p ba broker gw b))" for gw b
    by (rule keeps_in_world [OF only_reads_gateway])
      (auto simp: loop_frame_def intro: rises_reads)
  moreover have "keeps (loop_frame l fs) (modifying (upsert_gateway_row x c sn))" for sn
    by (rule keeps_modifying) (auto simp: loop_frame_def upsert_gateway_row_def elim: rises_world [rotated])
  ultimately show ?thesis unfolding balance_step_def by (auto intro!: keeps_andthen)
qed

lemma keeps_advance: "keeps (loop_frame l fs) (modifying (advance_touched n b))"
  by (rule keeps_modifying) (auto simp: loop_frame_def intro: rises_trans rises_advance)

lemma keeps_after_modifying: "keeps P (f ()) \<Longrightarrow> P (g s) \<Longrightarrow> P (snd (andthen (modifying g) f s))"
  by (simp add: andthen_def modifying_def keeps_def)

lemma run_frame:
  "loop_frame l (fold (\<lambda>c. upsert flow_key flow_merge (flow_row_of x c)) (flow_batch inc l) (l_flows l))
     (snd (run_gateway_backfill x co p ba broker inc l))"
proof -
  let ?P = "loop_frame l (fold (\<lambda>c. upsert flow_key flow_merge (flow_row_of x c)) (flow_batch inc l) (l_flows l))"
  have start: "?P (write_flows x (flow_batch inc l) l)"
  proof -
    have "rises l (fold (upsert_gateway_flow x) (flow_batch inc l) l)"
      by (rule rises_same) (simp add: fold_flow_upserts)
    then show ?thesis by (auto simp: loop_frame_def write_flows_def fold_flow_upserts [symmetric]
          intro: rises_trans rises_advance) (simp add: fold_flow_upserts)
  qed
  show ?thesis
    unfolding run_gateway_backfill_def Let_def flow_batch_def [symmetric]
    by (rule keeps_after_modifying [where P = ?P and g = "write_flows x (flow_batch inc l)" and s = l, OF _ start])
      (intro keeps_andthen keeps_pair keeps_fold_io keeps_claimant_step keeps_balance_step keeps_advance keeps_ret)
qed

lemma short_take: "length (take n xs) < n \<Longrightarrow> take n xs = xs"
  by simp

lemma flow_batch_complete:
  assumes "length (flow_batch inc l) < GATEWAY_FLOW_BATCH_LIMIT" "e \<in> set (w_events (l_world l))"
    and "broker_event inc flow_names e" "from_block (ledger_checkpoint GATEWAY_FLOW_CHECKPOINT l) e"
    and "(e_id e, flow_kind (e_name e)) \<notin> flow_key ` set (l_flows l)"
  shows "(e_id e, flow_kind (e_name e)) \<in> (\<lambda>c. (fc_event c, fc_kind c)) ` set (flow_batch inc l)"
proof -
  obtain v where v: "v \<in> set (priced_valuations (l_world l) e)"
    by (cases "priced_valuations (l_world l) e") (auto simp: priced_valuations_def split: list.splits)
  have "flow_candidate_of payout_claimant (e, v) \<in> set (flow_batch inc l)"
    using assms v unfolding flow_batch_def fetch_flow_candidates_after_def
    by (subst short_take) (auto simp: in_log_order_def joined_set)
  then show ?thesis by (force simp: flow_candidate_fields)
qed

lemma claimant_batch_complete:
  assumes "length (claimant_batch inc l) < GATEWAY_CLAIMANT_BATCH_LIMIT" "e \<in> set (w_events (l_world l))"
    and "broker_event inc claim_names e" "e_to e \<noteq> None" "from_block (ledger_checkpoint GATEWAY_CLAIMANT_CHECKPOINT l) e"
    and "(ARBITRUM_CHAIN_ID, the (e_from e), the (e_to e), e_block e) \<notin> claimant_key ` set (l_claimants l)"
  shows "(ARBITRUM_CHAIN_ID, the (e_from e), the (e_to e), e_block e)
    \<in> (\<lambda>c. (ARBITRUM_CHAIN_ID, fc_gateway c, the (fc_claimant c), fc_block c)) ` set (claimant_batch inc l)"
proof -
  obtain v where v: "v \<in> set (priced_valuations (l_world l) e)"
    by (cases "priced_valuations (l_world l) e") (auto simp: priced_valuations_def split: list.splits)
  have "flow_candidate_of e_to (e, v) \<in> set (claimant_batch inc l)"
    using assms v unfolding claimant_batch_def fetch_claimant_candidates_after_def
    by (subst short_take) (auto simp: in_log_order_def joined_set)
  then show ?thesis by (force simp: flow_candidate_fields)
qed

lemma balance_batch_complete:
  assumes "length (balance_batch x inc l) < GATEWAY_BALANCE_BATCH_LIMIT" "e \<in> set (latest_touches inc (l_world l))"
    and "from_block (ledger_checkpoint GATEWAY_BALANCE_CHECKPOINT l) e"
    and "(ARBITRUM_CHAIN_ID, the (e_from e), e_block e) \<notin> balance_key ` set (l_balances l)"
  shows "(ARBITRUM_CHAIN_ID, the (e_from e), e_block e)
    \<in> (\<lambda>c. (ARBITRUM_CHAIN_ID, gw_gateway c, gw_block c)) ` set (balance_batch x inc l)"
proof -
  have "gateway_candidate_of e \<in> set (balance_batch x inc l)"
    using assms unfolding balance_batch_def fetch_balance_candidates_after_def
    by (subst short_take) auto
  then show ?thesis by (force simp: gateway_candidate_of_def)
qed

text \<open>How many candidates a run saw is in its summary.\<close>

lemma run_gateway_seen:
  assumes "run_gateway_backfill x co p ba broker inc l = (Inr sm, t)"
  shows "gs_flow_seen sm = length (flow_batch inc l)" "gs_claimant_seen sm = length (claimant_batch inc l)"
    "gs_balance_seen sm = length (balance_batch x inc l)"
  using assms unfolding run_gateway_backfill_def Let_def flow_batch_def [symmetric] claimant_batch_def [symmetric]
    balance_batch_def [symmetric]
  by (auto simp: andthen_Inr_iff modifying_def ret_def split: prod.splits)

text \<open>With three empty batches a run only rewrites a checkpoint with its own value.\<close>

lemma run_idle:
  assumes "flow_batch inc t = []" "claimant_batch inc t = []" "balance_batch x inc t = []"
  shows "run_gateway_backfill x co p ba broker inc t =
    (Inr \<lparr>gs_balance_seen = 0, gs_balance_written = 0, gs_flow_seen = 0, gs_flow_written = 0,
          gs_claimant_seen = 0, gs_claimant_written = 0, gs_gateways = 0, gs_claimants = 0,
          gs_flow_checkpoint = ledger_checkpoint GATEWAY_FLOW_CHECKPOINT t,
          gs_claimant_checkpoint = ledger_checkpoint GATEWAY_CLAIMANT_CHECKPOINT t,
          gs_balance_checkpoint = ledger_checkpoint GATEWAY_BALANCE_CHECKPOINT t\<rparr>,
     advance_touched GATEWAY_BALANCE_CHECKPOINT (ledger_checkpoint GATEWAY_BALANCE_CHECKPOINT t) t)"
  unfolding run_gateway_backfill_def Let_def flow_batch_def [symmetric] claimant_batch_def [symmetric]
    balance_batch_def [symmetric] assms
  by (simp add: andthen_def modifying_def ret_def write_flows_def last_touched_def advance_touched_def)

lemma gateway_run_complete:
  fixes l t :: "'n ledger"
  assumes "run_gateway_backfill x co p ba broker inc l = (Inr sm, t)"
    and "gs_flow_seen sm < GATEWAY_FLOW_BATCH_LIMIT" "gs_claimant_seen sm < GATEWAY_CLAIMANT_BATCH_LIMIT"
      "gs_balance_seen sm < GATEWAY_BALANCE_BATCH_LIMIT"
  shows "\<forall>e\<in>set (w_events (l_world t)). broker_event inc flow_names e
      \<and> from_block (ledger_checkpoint GATEWAY_FLOW_CHECKPOINT l) e
      \<longrightarrow> (e_id e, flow_kind (e_name e)) \<in> flow_key ` set (l_flows t)"
    and "\<forall>e\<in>set (w_events (l_world t)). broker_event inc claim_names e \<and> e_to e \<noteq> None
      \<and> from_block (ledger_checkpoint GATEWAY_CLAIMANT_CHECKPOINT l) e
      \<longrightarrow> (ARBITRUM_CHAIN_ID, the (e_from e), the (e_to e), e_block e) \<in> claimant_key ` set (l_claimants t)"
    and "\<forall>e\<in>set (latest_touches inc (l_world t)). from_block (ledger_checkpoint GATEWAY_BALANCE_CHECKPOINT l) e
      \<longrightarrow> (ARBITRUM_CHAIN_ID, the (e_from e), e_block e) \<in> balance_key ` set (l_balances t)"
    and "\<exists>sm'. run_gateway_backfill x co' q ba broker inc t =
      (Inr sm', advance_touched GATEWAY_BALANCE_CHECKPOINT (ledger_checkpoint GATEWAY_BALANCE_CHECKPOINT t) t)
      \<and> gs_flow_written sm' = 0 \<and> gs_claimant_written sm' = 0 \<and> gs_balance_written sm' = 0"
proof -
  obtain csns bsns where len: "length csns = length (claimant_batch inc l)" "length bsns = length (balance_batch x inc l)"
    and m: "only_marks (l_world l) (l_world t)"
    and f: "l_flows t = fold (\<lambda>c. upsert flow_key flow_merge (flow_row_of x c)) (flow_batch inc l) (l_flows l)"
    and c: "l_claimants t = fold (\<lambda>cs. upsert claimant_key (\<lambda>old new. new) (claimant_entry x cs))
       (zip (claimant_batch inc l) csns) (l_claimants l)"
    and b: "l_balances t = fold (\<lambda>cs. upsert balance_key (\<lambda>old new. new) (balance_entry x cs))
       (zip (balance_batch x inc l) bsns) (l_balances l)"
    by (rule run_gateway_Inr [OF assms(1)])
  note w = only_marksD [OF m]
  have short: "length (flow_batch inc l) < GATEWAY_FLOW_BATCH_LIMIT"
    "length (claimant_batch inc l) < GATEWAY_CLAIMANT_BATCH_LIMIT" "length (balance_batch x inc l) < GATEWAY_BALANCE_BATCH_LIMIT"
    using assms(2-4) by (simp_all add: run_gateway_seen [OF assms(1)])
  have touches: "latest_touches inc (l_world t) = latest_touches inc (l_world l)" by (simp add: latest_touches_def w)
  have up: "from_block (ledger_checkpoint n t) e \<Longrightarrow> from_block (ledger_checkpoint n l) e" for n e
    using run_frame [of l x inc co p ba broker] by (auto simp: loop_frame_def assms(1) intro: rises_from_block)
  have fk: "flow_key ` set (l_flows t) = flow_key ` set (l_flows l) \<union> (\<lambda>c. (fc_event c, fc_kind c)) ` set (flow_batch inc l)"
    unfolding f by (subst fold_upsert_keys) (simp add: flow_key_def flow_merge_def, simp add: flow_key_row)
  have ck: "claimant_key ` set (l_claimants t) = claimant_key ` set (l_claimants l)
      \<union> (\<lambda>c. (ARBITRUM_CHAIN_ID, fc_gateway c, the (fc_claimant c), fc_block c)) ` fst ` set (zip (claimant_batch inc l) csns)"
    unfolding c by (subst fold_upsert_keys) (simp_all add: claimant_key_entry image_image)
  have bk: "balance_key ` set (l_balances t) = balance_key ` set (l_balances l)
      \<union> (\<lambda>c. (ARBITRUM_CHAIN_ID, gw_gateway c, gw_block c)) ` fst ` set (zip (balance_batch x inc l) bsns)"
    unfolding b by (subst fold_upsert_keys) (simp_all add: balance_key_entry image_image)
  have fst: "fst ` set (zip (claimant_batch inc l) csns) = set (claimant_batch inc l)"
    "fst ` set (zip (balance_batch x inc l) bsns) = set (balance_batch x inc l)"
    using len by (metis map_fst_zip set_map)+
  show 1: "\<forall>e\<in>set (w_events (l_world t)). broker_event inc flow_names e
      \<and> from_block (ledger_checkpoint GATEWAY_FLOW_CHECKPOINT l) e
      \<longrightarrow> (e_id e, flow_kind (e_name e)) \<in> flow_key ` set (l_flows t)"
    using flow_batch_complete [OF short(1)] unfolding fk w by blast
  show 2: "\<forall>e\<in>set (w_events (l_world t)). broker_event inc claim_names e \<and> e_to e \<noteq> None
      \<and> from_block (ledger_checkpoint GATEWAY_CLAIMANT_CHECKPOINT l) e
      \<longrightarrow> (ARBITRUM_CHAIN_ID, the (e_from e), the (e_to e), e_block e) \<in> claimant_key ` set (l_claimants t)"
    using claimant_batch_complete [OF short(2)] unfolding ck w fst by blast
  show 3: "\<forall>e\<in>set (latest_touches inc (l_world t)). from_block (ledger_checkpoint GATEWAY_BALANCE_CHECKPOINT l) e
      \<longrightarrow> (ARBITRUM_CHAIN_ID, the (e_from e), e_block e) \<in> balance_key ` set (l_balances t)"
    using balance_batch_complete [OF short(3)] unfolding bk touches fst by blast
  have "flow_batch inc t = []"
    unfolding flow_batch_def fetch_flow_candidates_after_def
    using 1 up by (simp add: joined_def in_log_order_def filter_empty_conv)
  moreover have "claimant_batch inc t = []"
    unfolding claimant_batch_def fetch_claimant_candidates_after_def
    using 2 up by (simp add: joined_def in_log_order_def filter_empty_conv) blast
  moreover have "balance_batch x inc t = []"
  proof -
    have "filter (\<lambda>e. (ARBITRUM_CHAIN_ID, the (e_from e), e_block e) \<notin> balance_key ` set (l_balances t)
        \<and> from_block (ledger_checkpoint GATEWAY_BALANCE_CHECKPOINT t) e) (latest_touches inc (l_world t)) = []"
      unfolding filter_empty_conv using 3 up by blast
    then show ?thesis unfolding balance_batch_def fetch_balance_candidates_after_def by simp
  qed
  ultimately show "\<exists>sm'. run_gateway_backfill x co' q ba broker inc t =
      (Inr sm', advance_touched GATEWAY_BALANCE_CHECKPOINT (ledger_checkpoint GATEWAY_BALANCE_CHECKPOINT t) t)
      \<and> gs_flow_written sm' = 0 \<and> gs_claimant_written sm' = 0 \<and> gs_balance_written sm' = 0"
    by (simp add: run_idle)
qed

text \<open>
  C8. The gateway worker catches up: after a successful run in which none of the three batches was
  full, every event at or after the checkpoint has its flow row, every claimant row and every balance
  row of a touching event is stored, and a further run finds no candidate, writes nothing, asks the
  network nothing and changes nothing but the timestamp of a checkpoint.
\<close>

theorem gateway_caught_up:
  fixes l t :: "'n ledger"
  assumes "run_gateway_backfill x co p ba broker inc l = (Inr sm, t)"
    and "gs_flow_seen sm < GATEWAY_FLOW_BATCH_LIMIT" "gs_claimant_seen sm < GATEWAY_CLAIMANT_BATCH_LIMIT"
      "gs_balance_seen sm < GATEWAY_BALANCE_BATCH_LIMIT"
  shows "(\<forall>e\<in>set (w_events (l_world t)). broker_event inc flow_names e
      \<and> from_block (ledger_checkpoint GATEWAY_FLOW_CHECKPOINT l) e
      \<longrightarrow> (e_id e, flow_kind (e_name e)) \<in> flow_key ` set (l_flows t))
    \<and> (\<forall>e\<in>set (w_events (l_world t)). broker_event inc claim_names e \<and> e_to e \<noteq> None
      \<and> from_block (ledger_checkpoint GATEWAY_CLAIMANT_CHECKPOINT l) e
      \<longrightarrow> (ARBITRUM_CHAIN_ID, the (e_from e), the (e_to e), e_block e) \<in> claimant_key ` set (l_claimants t))
    \<and> (\<forall>e\<in>set (latest_touches inc (l_world t)). from_block (ledger_checkpoint GATEWAY_BALANCE_CHECKPOINT l) e
      \<longrightarrow> (ARBITRUM_CHAIN_ID, the (e_from e), e_block e) \<in> balance_key ` set (l_balances t))
    \<and> (\<exists>sm'. run_gateway_backfill x co' q ba broker inc t =
      (Inr sm', advance_touched GATEWAY_BALANCE_CHECKPOINT (ledger_checkpoint GATEWAY_BALANCE_CHECKPOINT t) t)
      \<and> gs_flow_written sm' = 0 \<and> gs_claimant_written sm' = 0 \<and> gs_balance_written sm' = 0)"
  by (intro conjI) (rule gateway_run_complete [OF assms])+

section \<open>A flow stored before its event is priced\<close>

text \<open>Runs of the worker, with whatever the other workers do between them.\<close>

inductive gateway_history :: "'n ledger \<Rightarrow> 'n ledger \<Rightarrow> bool" where
  gh_start: "gateway_history l l"
| gh_run: "gateway_history l t \<Longrightarrow>
     gateway_history l (snd (run_gateway_backfill x co p ba broker inc t))"
| gh_elsewhere: "gateway_history l t \<Longrightarrow>
     gateway_history l (t\<lparr>l_world := w, l_orch_rounds := rs, l_profiles := ps\<rparr>)"

lemma run_extends_flows:
  "\<exists>new. l_flows (snd (run_gateway_backfill x co p ba broker inc l)) = l_flows l @ new"
proof -
  have "l_flows (snd (run_gateway_backfill x co p ba broker inc l))
      = fold (\<lambda>c. upsert flow_key flow_merge (flow_row_of x c)) (flow_batch inc l) (l_flows l)"
    using run_frame [of l x inc co p ba broker] by (simp add: loop_frame_def)
  then show ?thesis
    using fold_upsert_tail [OF flows_new [of inc l x], of flow_merge "[]"] by auto
qed

lemma stored_flow_stays:
  assumes "gateway_history l t" "r \<in> set (l_flows l)"
  shows "r \<in> set (l_flows t)"
    and "\<forall>c\<in>set (fetch_flow_candidates_after inc cp limit t). (fc_event c, fc_kind c) \<noteq> flow_key r"
proof -
  have "\<exists>new. l_flows t = l_flows l @ new"
    using assms(1)
  proof (induction rule: gateway_history.induct)
    case (gh_run l t x co p ba broker inc)
    then show ?case using run_extends_flows [of x co p ba broker inc t] by fastforce
  qed auto
  then show r: "r \<in> set (l_flows t)" using assms(2) by auto
  have "\<forall>c\<in>set (fetch_flow_candidates_after inc cp limit t). (fc_event c, fc_kind c) \<notin> flow_key ` set (l_flows t)"
    unfolding fetch_flow_candidates_after_def
    by (auto simp: flow_candidate_fields joined_set in_log_order_def dest!: in_set_takeD)
  then show "\<forall>c\<in>set (fetch_flow_candidates_after inc cp limit t). (fc_event c, fc_kind c) \<noteq> flow_key r"
    using r by force
qed

text \<open>
  C23. The dollar amount of a stored flow is never filled in: whatever runs of the gateway worker
  (successful or not) and changes by other workers follow, valuations of its event included, a flow
  row that is stored stays exactly as it is, and no run ever takes its event as a candidate again,
  although the upsert is written to update the dollar amount and the valuation version.
\<close>

theorem flows_never_revalued:
  assumes "gateway_history l t" "r \<in> set (l_flows l)"
  shows "(r \<in> set (l_flows t))
    \<and> (\<forall>c\<in>set (fetch_flow_candidates_after inc cp limit t). (fc_event c, fc_kind c) \<noteq> flow_key r)"
  by (intro conjI) (rule stored_flow_stays [OF assms])+

section \<open>A concrete run\<close>

text \<open>One finalized deposit without a valuation, and the cached answers of its two contract calls.\<close>

definition sample_broker :: broker_abi where
  "sample_broker = \<lparr>sender_info_hex = (\<lambda>_. ''11''), unlock_hex = (\<lambda>_. ''22''), claimable_hex = (\<lambda>_ _. ''33''),
     claimed_hex = (\<lambda>_ _. ''44''),
     sender_info_returns = (\<lambda>_. Inr \<lparr>si_deposit = 7, si_withdraw_round = 0, si_funds = 5, si_claimed = 0\<rparr>),
     unlock_returns = (\<lambda>_. Inr False), claimable_returns = (\<lambda>_. Inr 3), claimed_returns = (\<lambda>_. Inr 1)\<rparr>"

definition deposit_event :: event_row where
  "deposit_event = sample_event\<lparr>e_id := 1, e_chain := ARBITRUM_CHAIN_ID, e_contract := ''TicketBroker'',
     e_name := ''DepositFunded'', e_from := Some ''1'', e_to := None, e_block := 10, e_canonical := True,
     e_finality := Finalized, e_amount := Some 2\<rparr>"

definition deposit_requests :: "request list" where
  "deposit_requests = [(''eth_call'', eth_call_on ''b'' ''11'' 10, Some 10), (''eth_call'', eth_call_on ''b'' ''22'' 10, Some 10)]"

definition deposit_ledger :: "unit ledger" where
  "deposit_ledger = \<lparr>l_world = (empty_world ())\<lparr>w_events := [deposit_event], w_cache := map answer_row deposit_requests\<rparr>,
     l_balances = [], l_claimants = [], l_flows = [], l_orch_rounds = [], l_profiles = []\<rparr>"

lemma deposit_fields:
  "e_id deposit_event = 1" "e_chain deposit_event = ARBITRUM_CHAIN_ID" "e_contract deposit_event = ''TicketBroker''"
  "e_name deposit_event = ''DepositFunded''" "e_from deposit_event = Some ''1''" "e_to deposit_event = None"
  "e_block deposit_event = 10" "e_canonical deposit_event" "e_finality deposit_event = Finalized"
  by (simp_all add: deposit_event_def)

lemma deposit_broker: "broker_event False flow_names deposit_event" "broker_event False touch_names deposit_event"
  "\<not> broker_event False claim_names deposit_event"
  by (simp_all add: broker_event_def deposit_fields flow_names_def touch_names_def claim_names_def)

lemma deposit_start: "ledger_checkpoint n deposit_ledger = None" "l_flows deposit_ledger = []" "l_claimants deposit_ledger = []"
  "l_balances deposit_ledger = []" "w_events (l_world deposit_ledger) = [deposit_event]" "w_valuations (l_world deposit_ledger) = []"
  by (simp_all add: deposit_ledger_def empty_world_def ledger_checkpoint_def checkpoint_def)

lemma limits: "0 < GATEWAY_FLOW_BATCH_LIMIT" "0 < GATEWAY_BALANCE_BATCH_LIMIT" "0 < GATEWAY_CLAIMANT_BATCH_LIMIT"
  "1 < GATEWAY_FLOW_BATCH_LIMIT" "1 < GATEWAY_BALANCE_BATCH_LIMIT"
  by (simp_all add: GATEWAY_FLOW_BATCH_LIMIT_def GATEWAY_BALANCE_BATCH_LIMIT_def GATEWAY_CLAIMANT_BATCH_LIMIT_def)

lemma take_one: "0 < n \<Longrightarrow> take n [a] = [a]"
  by (cases n) simp_all

lemma deposit_batches:
  "flow_batch False deposit_ledger = [flow_candidate_of payout_claimant (deposit_event, None)]"
  "claimant_batch False deposit_ledger = []"
  "balance_batch sample_ext False deposit_ledger = [gateway_candidate_of deposit_event]"
  by (simp_all add: flow_batch_def fetch_flow_candidates_after_def claimant_batch_def fetch_claimant_candidates_after_def
      balance_batch_def fetch_balance_candidates_after_def deposit_start deposit_broker from_block_def in_log_order_def
      joined_def priced_valuations_def latest_touches_def take_one limits)

lemma contract_read_hit:
  assumes "cached_outcome s (request_hash x (''eth_call'', eth_call_on c d b, Some b)) = Some oc"
    and "decode_response_hex x (oc_bytes oc) = Inr raw"
  shows "contract_read x co p c d b s = (Inr (raw, oc_hash oc), s)"
  using assms by (simp add: contract_read_def single_call_cached_def request_hash_def core_def map_err_def andthen_def
      of_result_def ret_def)

lemma deposit_hashes:
  "request_hash sample_ext (deposit_requests ! 0) \<noteq> request_hash sample_ext (deposit_requests ! 1)"
  by (simp add: deposit_requests_def request_hash_def compute_call_hash_def call_preimage_def sample_ext_def eth_call_on_def)

lemma deposit_cached:
  assumes "w_cache s = map answer_row deposit_requests" "i < 2"
  shows "\<exists>h. cached_outcome s (request_hash sample_ext (deposit_requests ! i)) =
    Some \<lparr>oc_hash = request_hash sample_ext (deposit_requests ! i), oc_bytes = ''00'', oc_resp_hash = h\<rparr>"
proof -
  have "w_cache s = [answer_row (deposit_requests ! 0), answer_row (deposit_requests ! 1)]"
    using assms(1) by (simp add: deposit_requests_def)
  then show ?thesis using assms(2) deposit_hashes
    by (auto simp: less_2_cases_iff cached_outcome_def cache_get_def cache_row_at_def find_row_Cons answer_hash)
qed

lemma deposit_read:
  assumes "w_cache s = map answer_row deposit_requests"
  shows "\<exists>sn. read_gateway_state sample_ext co p sample_broker ''b'' ''1'' 10 s = (Inr sn, s) \<and> sn_deposit sn = 7 / 10 ^ 18"
proof -
  have raw: "decode_response_hex sample_ext ''00'' = Inr (answer_hex ''00'')"
    by (simp add: decode_response_hex_def sample_ext_def)
  have "contract_read sample_ext co p ''b'' ''11'' 10 s = (Inr (answer_hex ''00'', request_hash sample_ext (deposit_requests ! 0)), s)"
    using deposit_cached [OF assms, of 0] raw contract_read_hit [of s sample_ext "''b''" "''11''" 10]
    by (auto simp: deposit_requests_def)
  moreover have "contract_read sample_ext co p ''b'' ''22'' 10 s = (Inr (answer_hex ''00'', request_hash sample_ext (deposit_requests ! 1)), s)"
    using deposit_cached [OF assms, of 1] raw contract_read_hit [of s sample_ext "''b''" "''22''" 10]
    by (auto simp: deposit_requests_def)
  moreover have "u256_to_decimal sample_ext 7 ETH_DECIMALS_18 = 7 / 10 ^ 18"
    by (simp add: u256_to_decimal_def sample_ext_def ETH_DECIMALS_18_def show_nat_def parse_digits_show_base)
  ultimately show ?thesis
    by (simp add: read_gateway_state_def address_one some_or_def sample_broker_def andthen_def ret_def of_result_def)
qed

lemma deposit_run:
  "\<exists>sm t. run_gateway_backfill sample_ext True quiet_provider sample_broker ''b'' False deposit_ledger = (Inr sm, t)"
proof -
  define l1 where "l1 = write_flows sample_ext (flow_batch False deposit_ledger) deposit_ledger"
  have "w_cache (l_world l1) = map answer_row deposit_requests"
    by (simp add: l1_def advance_touched_def write_flows_def fold_flow_upserts advance_ledger_checkpoint_def deposit_ledger_def split: option.split)
  from deposit_read [OF this, of True quiet_provider] obtain sn where
    sn: "read_gateway_state sample_ext True quiet_provider sample_broker ''b'' ''1'' 10 (l_world l1) = (Inr sn, l_world l1)" by blast
  have c: "gw_gateway (gateway_candidate_of deposit_event) = ''1''" "gw_block (gateway_candidate_of deposit_event) = 10"
    by (simp_all add: gateway_candidate_of_def deposit_fields)
  have low: "lower ''b'' = ''b''" by (simp add: lower_def lower_char_def)
  have none: "advance_touched n None = (\<lambda>l. l)" for n by (rule ext) (simp add: advance_touched_def)
  show ?thesis
    unfolding run_gateway_backfill_def Let_def flow_batch_def [symmetric] claimant_batch_def [symmetric]
      balance_batch_def [symmetric] low
    by (simp add: andthen_def modifying_def ret_def deposit_batches(2,3) balance_step_def in_world_def c none
        sn [unfolded l1_def])
qed

lemma deposit_one: "one_price (l_world deposit_ledger)" "distinct (map e_id (w_events (l_world deposit_ledger)))"
  by (simp_all add: one_price_def deposit_start)


theorem gateway_caught_up_witness:
  "\<exists>sm t sm'. run_gateway_backfill sample_ext True quiet_provider sample_broker ''b'' False deposit_ledger = (Inr sm, t)
     \<and> (1, ''deposit_in'') \<in> flow_key ` set (l_flows t)
     \<and> run_gateway_backfill sample_ext True quiet_provider sample_broker ''b'' False t
         = (Inr sm', advance_touched GATEWAY_BALANCE_CHECKPOINT (ledger_checkpoint GATEWAY_BALANCE_CHECKPOINT t) t)
     \<and> gs_flow_written sm' = 0"
proof -
  obtain sm t where run: "run_gateway_backfill sample_ext True quiet_provider sample_broker ''b'' False deposit_ledger = (Inr sm, t)"
    using deposit_run by blast
  have short: "gs_flow_seen sm < GATEWAY_FLOW_BATCH_LIMIT" "gs_claimant_seen sm < GATEWAY_CLAIMANT_BATCH_LIMIT"
      "gs_balance_seen sm < GATEWAY_BALANCE_BATCH_LIMIT"
    by (simp_all add: run_gateway_seen [OF run] deposit_batches limits [unfolded One_nat_def])
  note all = gateway_caught_up [OF run short, of True quiet_provider]
  note up = all [THEN conjunct1] all [THEN conjunct2, THEN conjunct2, THEN conjunct2]
  have "only_marks (l_world deposit_ledger) (l_world t)" by (rule run_gateway_Inr [OF run])
  then have e: "w_events (l_world t) = [deposit_event]" using deposit_start(5) by (simp add: only_marksD(1))
  have "(1, ''deposit_in'') \<in> flow_key ` set (l_flows t)"
    using up(1) unfolding e by (simp add: deposit_broker deposit_start from_block_def deposit_fields flow_kind_def)
  with run up(2) show ?thesis by blast
qed

text \<open>
  The deposit is priced after its flow was stored: the priced valuation is there, the next run
  succeeds or fails, and the flow still has no dollar amount.
\<close>

definition deposit_price :: valuation_row where
  "deposit_price = \<lparr>v_event = 1, v_version = ''v1'', v_asset = ''ETH'', v_method = ''m'', v_source = ''s'',
     v_status = ''priced'', v_chain = ARBITRUM_CHAIN_ID, v_block = 10, v_amount = 2, v_price = Some 3,
     v_usd = Some 6, v_detail = JNull\<rparr>"

theorem flows_never_revalued_witness:
  "\<exists>t. gateway_history deposit_ledger t \<and> deposit_price \<in> set (w_valuations (l_world t))
     \<and> (\<exists>r\<in>set (l_flows t). gf_event r = v_event deposit_price \<and> gf_usd r = None)
     \<and> (\<exists>r\<in>set (l_flows (snd (run_gateway_backfill sample_ext True quiet_provider sample_broker ''b'' False t))).
          gf_event r = v_event deposit_price \<and> gf_usd r = None)"
proof -
  let ?run = "\<lambda>l. snd (run_gateway_backfill sample_ext True quiet_provider sample_broker ''b'' False l)"
  define l1 where "l1 = ?run deposit_ledger"
  define t where "t = l1\<lparr>l_world := (l_world l1)\<lparr>w_valuations := [deposit_price]\<rparr>, l_orch_rounds := [], l_profiles := []\<rparr>"
  have h1: "gateway_history deposit_ledger l1" unfolding l1_def by (intro gh_run gh_start)
  then have h: "gateway_history deposit_ledger t" unfolding t_def by (rule gh_elsewhere)
  have h2: "gateway_history t (?run t)" by (intro gh_run gh_start)
  obtain r where r: "r \<in> set (l_flows l1)" "gf_event r = 1" "gf_usd r = None"
    using run_frame [of deposit_ledger sample_ext False True quiet_provider sample_broker "''b''"]
    by (simp add: loop_frame_def l1_def deposit_batches deposit_start upsert_def flow_row_of_def flow_candidate_of_def
        deposit_fields)
  have "r \<in> set (l_flows t)" using r(1) by (simp add: t_def)
  moreover from this have "r \<in> set (l_flows (?run t))" using flows_never_revalued [OF h2] by blast
  moreover have "deposit_price \<in> set (w_valuations (l_world t))" by (simp add: t_def)
  ultimately show ?thesis using h r by (auto simp: deposit_price_def)
qed

end
