(* ===== verification/Spec2Isabelle.thy ===== *)
theory Spec2Isabelle
  imports Rpc_Replay Tick_Accuracy Watchers Decode_Props Indexer_Props Valuator_Props Valuator_Replay Lifecycle Stake_Flow_Props Api_Events_Props Pending_Props Rollup_Shares Gateway_Props
begin

text \<open>
  \<^bold>\<open>The Livepeer protocol explorer, its data pipeline verified.\<close>

  \<^bold>\<open>The program.\<close> A set of Rust workers around one Postgres database. The indexer fetches the logs of
  five contracts in chunks of blocks and stores decoded events; the finality watcher moves the
  stored rows from tentative to posted to finalized, the reorg watcher takes the mark canonical
  from rows whose block was replaced; the valuator prices finalized events; the staker derives
  stake from the events and from contract reads; the rollups add finalized events up per day; an
  HTTP interface pages through the events. Every read of the chain goes through a cache table of
  JSON-RPC responses, from which the whole database is meant to be rebuilt
  (\<open>docs/design-docs/DETERMINISM.md\<close>). The workers share nothing but the tables.

  \<^bold>\<open>The shape of the model.\<close> A worker is a computation that takes the world and returns the world
  with a result or an error (\<open>Prelude\<close>: the type of such computations, \<open>?\<close> as sequencing, loops
  over lists; \<open>Rust_Base\<close>: strings, numbers, UTF-8, byte slices as the standard library has them).
  The world (\<open>World\<close>) is a record of the tables, as lists of rows in the order of insertion, the
  clock and the state of the network. The rollups work on a warehouse, the world with the
  tables only they use. A transaction is a computation whose world is taken back when it fails.
  Library code that is not part of the repository is an argument: the record \<open>ext\<close> holds hashing,
  JSON text, decimal arithmetic, the collation and the coders generated from the contract ABI
  files; the network is a function from a state and a request to an answer and a new state, with
  no law assumed. Iteration over a hash map takes the order as an argument and the properties
  quantify over it. Where a property needs documented behaviour of such code the hypothesis is
  named in its statement and its witness instantiates it.

  \<^bold>\<open>Theories and sources\<close> (paths under \<open>src/crates/\<close>).

  \<^item> \<open>Rpc_Cache\<close>, \<open>Rpc_Methods\<close>: \<open>core/src/rpc/cache.rs\<close>, \<open>provider.rs\<close>, \<open>cross_check.rs\<close>, \<open>multicall.rs\<close>:
    keys, lookup and insertion, a call, a batch in sub-batches, the four cached readers and the
    typed calls. \<open>Cache_Replay\<close> gives rules that carry two facts through every program built of
    cached reads: the tables it leaves alone, and that a second run reads the same. \<open>Rpc_Replay\<close>
    has the properties: replay, agreement of the readers, integrity of the rows.
  \<^item> \<open>Tick_Math\<close>, \<open>Tick_Accuracy\<close>: \<open>livepeer-valuator/src/tick_math.rs\<close> in 256-bit words; total on
    the valid ticks, monotone, and close to the real power.
  \<^item> \<open>Watchers\<close>: \<open>livepeer-reorg-watcher/src\<close> and \<open>livepeer-finality-watcher/src\<close>, with the life
    cycle of a row.
  \<^item> \<open>Decode\<close>, \<open>Indexer\<close> and their \<open>_Props\<close>: \<open>livepeer-indexer/src/backfill.rs\<close> and \<open>runner.rs\<close>: the decoding
    of a log as a table of contracts and signatures, one chunk as one transaction, the driver
    with its adaptive chunk size and its retries, resuming.
  \<^item> \<open>Valuator_Store\<close>, \<open>Onchain\<close>, \<open>Multi_Asset\<close>, \<open>Seed_Pass\<close>, \<open>Valuator_Runner\<close>:
    \<open>livepeer-valuator/src\<close>: the cursor, the write-once inserts and bulk buffers, the four passes and
    their composition. \<open>Valuator_Facts\<close> holds the locale of an incremental pass, interpreted for
    the ETH, LPT and multi-asset passes; \<open>Valuator_Passes\<close>, \<open>Valuator_Props\<close>, \<open>Multi_Asset_Props\<close>,
    \<open>Seed_Props\<close> and \<open>Valuator_Replay\<close> have what each pass guarantees.
  \<^item> \<open>Lifecycle\<close>: a step relation in which the transactions of indexer, watchers, valuator and
    staker interleave with imports, the clock and the network; the invariant that no finalized
    event is lost behind a cursor.
  \<^item> \<open>Stake_Flow\<close>, \<open>Pending\<close>, \<open>Round_Refresh\<close>: \<open>livepeer-staker/src/flow.rs\<close>, \<open>pending.rs\<close>, \<open>current.rs\<close>;
    \<open>Stake_Flow_Props\<close>, \<open>Pending_Props\<close> and \<open>Contract_Stake_Props\<close> have their properties.
    \<open>Contract_Reads\<close>, \<open>Gateway\<close>, \<open>Gateway_Props\<close>: \<open>livepeer-staker/src/gateway.rs\<close>.
  \<^item> \<open>Rollup_Base\<close>, \<open>Rollup_Tickets\<close>, \<open>Rollup_Payouts\<close>, \<open>Rollup_Rewards\<close>, \<open>Rollup_Metrics\<close>:
    \<open>livepeer-rollups/src\<close>. \<open>Rollup_Props\<close> states once what a daily rollup must satisfy (locale
    \<open>daily_rollup\<close>) and interprets it for all four; \<open>Rollup_Shares\<close> is about the split of a payout.
  \<^item> \<open>Api_Events\<close>, \<open>Api_Events_Props\<close>: \<open>livepeer-api/src/cursor.rs\<close>, \<open>error.rs\<close>, \<open>routes/events.rs\<close>.

  \<^bold>\<open>Bounds.\<close> Nothing is bounded for the sake of a proof. Loops of the source that count attempts
  (three transport attempts, the round refresh's batch retries) recurse on that count; the
  indexer's driver recurses on a measure of the blocks left and the chunk size; sub-batches and
  chunks recurse on the list left. Machine integers are words where the source relies on their
  width (ticks, square roots) and integers with the range check written out elsewhere.

  \<^bold>\<open>Not modelled.\<close> The wire: HTTP, TLS, timeouts, semaphores, connection pools; metrics, logs and
  tracing; process loops and signal handling (a pass is modelled, not the timer that repeats it);
  command lines and configuration files. Concurrency inside a worker: a joined set of tasks is
  taken in the order in which its results are joined. Postgres is its documented behaviour on the
  statements used; the planner, locks and isolation between overlapping transactions are not
  modelled, and steps of different workers interleave at whole transactions. Columns that no
  modelled statement reads are left out of the row records. The remaining routes of the HTTP
  interface, the enricher, the diagnostic server, the alert bot, the seed migrator and the
  daemon's supervisor are outside the model: SQL text and serialisation with little state
  of their own.
\<close>

end
